(* ===== verification/Prelude.thy ===== *)
theory Prelude
  imports Main "HOL-Library.Word"
begin

section \<open>Prelude: machine types, faults, shared lemmas\<close>

text \<open>
  The types every component uses: the fixed-width integers of
  \<^verbatim>\<open>redshow/include/common/utils.h\<close> (\<^verbatim>\<open>u8\<close>, \<^verbatim>\<open>u32\<close>, \<^verbatim>\<open>u64\<close> as words, on which
  the arithmetic wraps; \<^verbatim>\<open>i32\<close> calling-context ids, on which the code never computes, as
  \<^typ>\<open>int\<close>), the ways a C++ call can fail (an exception of \<^verbatim>\<open>at()\<close>, a null dereference,
  an assertion) as values, and the collections of rewrite rules the components share.
\<close>

type_synonym u8 = "8 word"
type_synonym u16 = "16 word"
type_synonym u32 = "32 word"
type_synonym u64 = "64 word"
type_synonym i32 = int

text \<open>
  What ends a C++ call without a result. \<open>Overflow\<close> is the undefined behaviour of arithmetic: a signed overflow, a shift by the width or
  more, a conversion that the target type cannot hold. \<open>OutOfFuel\<close> is the bound on the depth of a modelled recursion.
\<close>

datatype fault =
    OutOfRange
  | NullDeref
  | AssertFail
  | DivideByZero
  | Overflow
  | OutOfFuel

type_synonym 'a outcome = "fault + 'a"

named_theorems fault_simps "sequencing of calls that may fault"
named_theorems container_simps "equations of the ordered containers"
named_theorems range_simps "equations of memory ranges"

definition fbind :: "'a outcome \<Rightarrow> ('a \<Rightarrow> 'b outcome) \<Rightarrow> 'b outcome" where
  "fbind x f = (case x of Inl e \<Rightarrow> Inl e | Inr a \<Rightarrow> f a)"

lemma fbind_Inl [fault_simps, simp]: "fbind (Inl e) f = Inl e"
  by (simp add: fbind_def)

lemma fbind_Inr [fault_simps, simp]: "fbind (Inr a) f = f a"
  by (simp add: fbind_def)

lemma fbind_eq_Inr: "fbind x f = Inr b \<longleftrightarrow> (\<exists>a. x = Inr a \<and> f a = Inr b)"
  by (cases x) (auto simp: fbind_def)

lemma fbind_eq_Inl: "fbind x f = Inl e \<longleftrightarrow> x = Inl e \<or> (\<exists>a. x = Inr a \<and> f a = Inl e)"
  by (cases x) (auto simp: fbind_def)

lemma fbind_assoc: "fbind (fbind x f) g = fbind x (\<lambda>a. fbind (f a) g)"
  by (cases x) (auto simp: fbind_def)

text \<open>The value of a pointer or of an \<^verbatim>\<open>at()\<close> call that may throw.\<close>

definition or_fault :: "fault \<Rightarrow> 'a option \<Rightarrow> 'a outcome" where
  "or_fault e x = (case x of None \<Rightarrow> Inl e | Some a \<Rightarrow> Inr a)"

lemma or_fault_simps [fault_simps, simp]:
  "or_fault e None = Inl e"
  "or_fault e (Some a) = Inr a"
  by (simp_all add: or_fault_def)

lemma or_fault_eq_Inr [simp]: "or_fault e x = Inr a \<longleftrightarrow> x = Some a"
  by (cases x) auto

text \<open>A loop body that may fault, run over a sequence.\<close>

fun ffold :: "('a \<Rightarrow> 's \<Rightarrow> 's outcome) \<Rightarrow> 'a list \<Rightarrow> 's \<Rightarrow> 's outcome" where
  "ffold f [] s = Inr s"
| "ffold f (x # xs) s = fbind (f x s) (ffold f xs)"

lemma ffold_append: "ffold f (xs @ ys) s = fbind (ffold f xs s) (ffold f ys)"
proof (induction xs arbitrary: s)
  case (Cons x xs)
  then show ?case by (cases "f x s") auto
qed simp

lemma ffold_invariant:
  assumes "\<And>x s t. x \<in> set xs \<Longrightarrow> P s \<Longrightarrow> f x s = Inr t \<Longrightarrow> P t"
    and "P s" and "ffold f xs s = Inr t"
  shows "P t"
  using assms
proof (induction xs arbitrary: s)
  case Nil
  then show ?case by simp
next
  case (Cons x xs)
  from Cons.prems(3) obtain u where u: "f x s = Inr u" "ffold f xs u = Inr t"
    by (auto simp: fbind_eq_Inr)
  from Cons.prems(1) [OF _ Cons.prems(2) u(1)] have "P u" by simp
  then show ?case
    using Cons.IH [OF _ _ u(2)] Cons.prems(1) by auto
qed

lemma ffold_total:
  assumes "\<And>x s. x \<in> set xs \<Longrightarrow> P s \<Longrightarrow> \<exists>t. f x s = Inr t \<and> P t"
    and "P s"
  shows "\<exists>t. ffold f xs s = Inr t \<and> P t"
  using assms
proof (induction xs arbitrary: s)
  case Nil
  then show ?case by simp
next
  case (Cons x xs)
  then obtain u where "f x s = Inr u" "P u"
    by (meson list.set_intros(1))
  then show ?case
    using Cons.IH [of u] Cons.prems(1) by auto
qed

subsection \<open>Lists split at a predicate\<close>

lemma takeWhile_dropWhile_set:
  assumes "sorted_wrt (\<lambda>x y. P y \<longrightarrow> P x) xs"
  shows "takeWhile P xs = filter P xs" and "dropWhile P xs = filter (\<lambda>x. \<not> P x) xs"
  using assms
proof (induction xs)
  case Nil
  { case 1 show ?case by simp }
  { case 2 show ?case by simp }
next
  case (Cons a xs)
  { case 1 with Cons.IH(1) show ?case by (auto simp: filter_empty_conv) }
  { case 2 with Cons.IH(2) show ?case
      by (cases "P a") (auto simp: filter_id_conv[THEN iffD2, symmetric] filter_id_conv) }
qed

lemma dropWhile_hd: "dropWhile P xs = y # ys \<Longrightarrow> \<not> P y"
  by (metis hd_dropWhile list.distinct(1) list.sel(1))

lemma takeWhile_all: "x \<in> set (takeWhile P xs) \<Longrightarrow> P x"
  by (induction xs) (auto split: if_splits)

lemma takeWhile_last: "takeWhile P xs \<noteq> [] \<Longrightarrow> P (last (takeWhile P xs))"
  using takeWhile_all last_in_set by metis

subsection \<open>Words\<close>

lemma unat_diff_u64: "(b :: 'a :: len word) \<le> a \<Longrightarrow> unat (a - b) = unat a - unat b"
  by (simp add: unat_sub)

subsection \<open>\<^verbatim>\<open>std::to_string\<close>\<close>

fun nat_digits :: "nat \<Rightarrow> string" where
  "nat_digits n =
     (if n < 10 then [char_of (48 + n)] else nat_digits (n div 10) @ [char_of (48 + n mod 10)])"

declare nat_digits.simps [simp del]

definition int_to_string :: "int \<Rightarrow> string" where
  "int_to_string n = (if n < 0 then ''-'' @ nat_digits (nat (- n)) else nat_digits (nat n))"

end
