(* ===== verification/Containers.thy ===== *)
theory Containers
  imports Prelude
begin

section \<open>The ordered containers of \<^verbatim>\<open>redshow/include/common\<close>\<close>

text \<open>
  \<^verbatim>\<open>Map<K, V>\<close> and \<^verbatim>\<open>Set<K>\<close> (\<^verbatim>\<open>map.h\<close>, \<^verbatim>\<open>set.h\<close>) are \<^verbatim>\<open>std::map\<close> and
  \<^verbatim>\<open>std::set\<close> with two methods more, \<^verbatim>\<open>prev\<close> and \<^verbatim>\<open>has\<close>. Both keep their keys in the
  order of a comparator, and every iteration of the code runs in that order, so the model is
  the list of entries in iteration order. The comparator is an argument \<open>lt\<close>: the code's
  \<^verbatim>\<open>operator<\<close>s are not all total (a \<^verbatim>\<open>MemoryRange\<close> is compared by its start alone), and
  a container identifies the keys that its comparator does not separate. The requirement of the
  C++ standard on a comparator is the locale \<open>strict_weak\<close>; the laws of the operations
  are proved there once and used at each comparator of the code.
\<close>

subsection \<open>\<^verbatim>\<open>std::map\<close>\<close>

type_synonym ('k, 'v) omap = "('k \<times> 'v) list"

fun map_find :: "('k \<Rightarrow> 'k \<Rightarrow> bool) \<Rightarrow> ('k, 'v) omap \<Rightarrow> 'k \<Rightarrow> ('k \<times> 'v) option" where
  "map_find lt [] k = None"
| "map_find lt ((a, v) # m) k =
     (if lt a k then map_find lt m k else if lt k a then None else Some (a, v))"

definition map_at :: "('k \<Rightarrow> 'k \<Rightarrow> bool) \<Rightarrow> ('k, 'v) omap \<Rightarrow> 'k \<Rightarrow> 'v option" where
  "map_at lt m k = map_option snd (map_find lt m k)"

definition map_has :: "('k \<Rightarrow> 'k \<Rightarrow> bool) \<Rightarrow> ('k, 'v) omap \<Rightarrow> 'k \<Rightarrow> bool" where
  "map_has lt m k = (map_find lt m k \<noteq> None)"

text \<open>\<^verbatim>\<open>m[k] = v\<close>: an existing entry keeps its key object and takes the new value.\<close>

fun map_set :: "('k \<Rightarrow> 'k \<Rightarrow> bool) \<Rightarrow> ('k, 'v) omap \<Rightarrow> 'k \<Rightarrow> 'v \<Rightarrow> ('k, 'v) omap" where
  "map_set lt [] k v = [(k, v)]"
| "map_set lt ((a, w) # m) k v =
     (if lt a k then (a, w) # map_set lt m k v
      else if lt k a then (k, v) # (a, w) # m
      else (a, v) # m)"

text \<open>\<^verbatim>\<open>try_emplace\<close>, \<^verbatim>\<open>emplace\<close>, \<^verbatim>\<open>insert\<close>: nothing happens to an existing entry.\<close>

definition map_emplace :: "('k \<Rightarrow> 'k \<Rightarrow> bool) \<Rightarrow> ('k, 'v) omap \<Rightarrow> 'k \<Rightarrow> 'v \<Rightarrow> ('k, 'v) omap" where
  "map_emplace lt m k v = (if map_has lt m k then m else map_set lt m k v)"

text \<open>\<^verbatim>\<open>m[k]\<close> as an lvalue: the entry is created with a default value when it is missing.\<close>

definition map_touch :: "('k \<Rightarrow> 'k \<Rightarrow> bool) \<Rightarrow> 'v \<Rightarrow> ('k, 'v) omap \<Rightarrow> 'k \<Rightarrow> 'v" where
  "map_touch lt d m k = (case map_at lt m k of None \<Rightarrow> d | Some v \<Rightarrow> v)"

definition map_upd ::
  "('k \<Rightarrow> 'k \<Rightarrow> bool) \<Rightarrow> 'v \<Rightarrow> ('k, 'v) omap \<Rightarrow> 'k \<Rightarrow> ('v \<Rightarrow> 'v) \<Rightarrow> ('k, 'v) omap" where
  "map_upd lt d m k f = map_set lt m k (f (map_touch lt d m k))"

fun map_erase :: "('k \<Rightarrow> 'k \<Rightarrow> bool) \<Rightarrow> ('k, 'v) omap \<Rightarrow> 'k \<Rightarrow> ('k, 'v) omap" where
  "map_erase lt [] k = []"
| "map_erase lt ((a, v) # m) k =
     (if lt a k then (a, v) # map_erase lt m k else if lt k a then (a, v) # m else m)"

text \<open>
  \<^verbatim>\<open>Map::prev\<close>: step back from \<^verbatim>\<open>upper_bound(key)\<close>, the first entry whose key is greater than
  \<^verbatim>\<open>key\<close>; \<^const>\<open>None\<close> is \<^verbatim>\<open>end()\<close>.
\<close>

definition map_upper_bound :: "('k \<Rightarrow> 'k \<Rightarrow> bool) \<Rightarrow> ('k, 'v) omap \<Rightarrow> 'k \<Rightarrow> ('k, 'v) omap" where
  "map_upper_bound lt m k = dropWhile (\<lambda>e. \<not> lt k (fst e)) m"

definition map_prev :: "('k \<Rightarrow> 'k \<Rightarrow> bool) \<Rightarrow> ('k, 'v) omap \<Rightarrow> 'k \<Rightarrow> ('k \<times> 'v) option" where
  "map_prev lt m k =
     (let before = takeWhile (\<lambda>e. \<not> lt k (fst e)) m
      in if before = [] then None else Some (last before))"

text \<open>The invariant of the tree: entries strictly increasing in the comparator.\<close>

definition map_ok :: "('k \<Rightarrow> 'k \<Rightarrow> bool) \<Rightarrow> ('k, 'v) omap \<Rightarrow> bool" where
  "map_ok lt m = sorted_wrt (\<lambda>x y. lt (fst x) (fst y)) m"

subsection \<open>\<^verbatim>\<open>std::set\<close>\<close>

type_synonym 'k oset = "'k list"

fun set_find :: "('k \<Rightarrow> 'k \<Rightarrow> bool) \<Rightarrow> 'k oset \<Rightarrow> 'k \<Rightarrow> 'k option" where
  "set_find lt [] k = None"
| "set_find lt (a # s) k =
     (if lt a k then set_find lt s k else if lt k a then None else Some a)"

definition set_has :: "('k \<Rightarrow> 'k \<Rightarrow> bool) \<Rightarrow> 'k oset \<Rightarrow> 'k \<Rightarrow> bool" where
  "set_has lt s k = (set_find lt s k \<noteq> None)"

fun set_insert :: "('k \<Rightarrow> 'k \<Rightarrow> bool) \<Rightarrow> 'k oset \<Rightarrow> 'k \<Rightarrow> 'k oset" where
  "set_insert lt [] k = [k]"
| "set_insert lt (a # s) k =
     (if lt a k then a # set_insert lt s k else if lt k a then k # a # s else a # s)"

fun set_erase :: "('k \<Rightarrow> 'k \<Rightarrow> bool) \<Rightarrow> 'k oset \<Rightarrow> 'k \<Rightarrow> 'k oset" where
  "set_erase lt [] k = []"
| "set_erase lt (a # s) k =
     (if lt a k then a # set_erase lt s k else if lt k a then a # s else s)"

text \<open>
  \<^verbatim>\<open>Set::prev\<close> with the position kept: the elements up to and including the one the
  iterator points to, and the ones after it. An empty first part is \<^verbatim>\<open>end()\<close>.
\<close>

definition set_split :: "('k \<Rightarrow> 'k \<Rightarrow> bool) \<Rightarrow> 'k oset \<Rightarrow> 'k \<Rightarrow> 'k list \<times> 'k list" where
  "set_split lt s k = (takeWhile (\<lambda>a. \<not> lt k a) s, dropWhile (\<lambda>a. \<not> lt k a) s)"

definition set_prev :: "('k \<Rightarrow> 'k \<Rightarrow> bool) \<Rightarrow> 'k oset \<Rightarrow> 'k \<Rightarrow> 'k option" where
  "set_prev lt s k =
     (let before = takeWhile (\<lambda>a. \<not> lt k a) s
      in if before = [] then None else Some (last before))"

abbreviation set_ok :: "('k \<Rightarrow> 'k \<Rightarrow> bool) \<Rightarrow> 'k oset \<Rightarrow> bool" where
  "set_ok lt s \<equiv> sorted_wrt lt s"

subsection \<open>Equations that hold for every comparator\<close>

lemma map_at_Nil [simp, container_simps]: "map_at lt [] k = None"
  by (simp add: map_at_def)

lemma map_at_Cons [simp, container_simps]:
  "map_at lt ((a, v) # m) k = (if lt a k then map_at lt m k else if lt k a then None else Some v)"
  by (simp add: map_at_def)

lemma map_has_at: "map_has lt m k \<longleftrightarrow> map_at lt m k \<noteq> None"
  by (simp add: map_has_def map_at_def)

lemma map_ok_Nil [simp, container_simps]: "map_ok lt []"
  by (simp add: map_ok_def)

lemma map_ok_Cons [container_simps]:
  "map_ok lt (e # m) \<longleftrightarrow> (\<forall>x \<in> set m. lt (fst e) (fst x)) \<and> map_ok lt m"
  by (simp add: map_ok_def)

lemma map_ok_tl: "map_ok lt (e # m) \<Longrightarrow> map_ok lt m"
  by (simp add: map_ok_Cons)

lemma map_set_mem:
  "e \<in> set (map_set lt m k v) \<Longrightarrow> e \<in> set m \<or> snd e = v \<and> (fst e = k \<or> fst e \<in> fst ` set m)"
  by (induction m) (force split: if_splits)+

lemma map_set_keys: "e \<in> set (map_set lt m k v) \<Longrightarrow> fst e = k \<or> fst e \<in> fst ` set m"
  using map_set_mem [of e lt m k v] by force

lemma map_set_key_set: "fst ` set (map_set lt m k v) \<subseteq> insert k (fst ` set m)"
  by (auto dest: map_set_keys)

lemma set_map_erase: "set (map_erase lt m k) \<subseteq> set m"
  by (induction m) (auto split: if_splits)

lemma set_set_insert: "set (set_insert lt s k) \<subseteq> insert k (set s)"
  by (induction s) (auto split: if_splits)

lemma set_set_erase: "set (set_erase lt s k) \<subseteq> set s"
  by (induction s) (auto split: if_splits)

lemma set_insert_not_Nil [simp]: "set_insert lt s k \<noteq> []"
  by (cases s) auto

lemma map_find_Some_mem: "map_find lt m k = Some e \<Longrightarrow> e \<in> set m"
  by (induction m) (auto split: if_splits)

lemma map_at_Some_mem: "map_at lt m k = Some v \<Longrightarrow> \<exists>a. (a, v) \<in> set m"
  by (auto simp: map_at_def dest: map_find_Some_mem)

lemma map_prev_Some_mem: "map_prev lt m k = Some e \<Longrightarrow> e \<in> set m"
  by (auto simp: map_prev_def Let_def split: if_splits intro: set_takeWhileD dest: last_in_set)
    (meson last_in_set set_takeWhileD)

lemma map_prev_Nil [simp, container_simps]: "map_prev lt [] k = None"
  by (simp add: map_prev_def)

lemma map_set_not_Nil [simp]: "map_set lt m k v \<noteq> []"
  by (cases m) (auto split: if_splits)

subsection \<open>The contract of a comparator and the laws it gives\<close>

text \<open>
  \<^verbatim>\<open>Compare\<close> of the C++ standard: a strict weak order. Two keys are equivalent when neither
  is less than the other.
\<close>

locale strict_weak =
  fixes lt :: "'k \<Rightarrow> 'k \<Rightarrow> bool"
  assumes lt_irrefl: "\<not> lt x x"
    and lt_trans: "lt x y \<Longrightarrow> lt y z \<Longrightarrow> lt x z"
    and lt_weak: "lt x y \<Longrightarrow> lt x z \<or> lt z y"
begin

lemma lt_asym: "lt x y \<Longrightarrow> \<not> lt y x"
  using lt_irrefl lt_trans by blast

lemma nlt_trans: "\<not> lt x y \<Longrightarrow> \<not> lt y z \<Longrightarrow> \<not> lt x z"
  using lt_weak by blast

lemma lt_nlt_trans: "lt x y \<Longrightarrow> \<not> lt z y \<Longrightarrow> lt x z"
  using lt_weak by blast

lemma nlt_lt_trans: "\<not> lt y x \<Longrightarrow> lt y z \<Longrightarrow> lt x z"
  using lt_weak by blast

lemma map_ok_set: "map_ok lt m \<Longrightarrow> map_ok lt (map_set lt m k v)"
proof (induction m)
  case (Cons e m)
  obtain a w where e: "e = (a, w)" by (cases e)
  have "lt a (fst x)" if "lt a k" "x \<in> set (map_set lt m k v)" for x
    using that Cons.prems e map_set_keys [of x lt m k v] by (auto simp: map_ok_Cons)
  with Cons e show ?case
    by (auto simp: map_ok_Cons intro: lt_trans)
qed (simp add: map_ok_def)

lemma map_ok_erase: "map_ok lt m \<Longrightarrow> map_ok lt (map_erase lt m k)"
proof (induction m)
  case (Cons e m)
  then show ?case
    using set_map_erase [of lt m k] by (cases e) (auto simp: map_ok_Cons)
qed simp

lemma map_ok_emplace: "map_ok lt m \<Longrightarrow> map_ok lt (map_emplace lt m k v)"
  by (simp add: map_emplace_def map_ok_set)

lemma map_ok_upd: "map_ok lt m \<Longrightarrow> map_ok lt (map_upd lt d m k f)"
  by (simp add: map_upd_def map_ok_set)

lemma map_at_set_same: "map_ok lt m \<Longrightarrow> map_at lt (map_set lt m k v) k = Some v"
  by (induction m) (auto simp: lt_irrefl map_ok_Cons)

lemma map_at_set_other:
  "map_ok lt m \<Longrightarrow> lt k k' \<or> lt k' k \<Longrightarrow> map_at lt (map_set lt m k v) k' = map_at lt m k'"
proof (induction m)
  case (Cons e m)
  then show ?case
    by (cases e) (auto simp: map_ok_Cons dest: lt_asym lt_weak [of _ _ "fst e"] intro: lt_nlt_trans nlt_lt_trans)
qed (auto dest: lt_asym)

lemma map_find_Some:
  "map_find lt m k = Some (a, v) \<Longrightarrow> \<not> lt a k \<and> \<not> lt k a \<and> (a, v) \<in> set m"
  by (induction m) (auto split: if_splits)

lemma map_find_mem:
  assumes "map_ok lt m" and "(a, v) \<in> set m" and "\<not> lt a k" and "\<not> lt k a"
  shows "map_find lt m k = Some (a, v)"
  using assms
proof (induction m)
  case (Cons e m)
  obtain b w where e: "e = (b, w)" by (cases e)
  show ?case
  proof (cases "(a, v) = e")
    case True
    with Cons.prems show ?thesis by auto
  next
    case False
    with Cons.prems have "(a, v) \<in> set m" by auto
    with Cons.prems e have "lt b a" by (auto simp: map_ok_Cons)
    with Cons.prems have "lt b k" by (auto intro: lt_nlt_trans)
    with Cons e \<open>(a, v) \<in> set m\<close> show ?thesis by (auto simp: map_ok_Cons)
  qed
qed simp

lemma map_at_mem: "map_ok lt m \<Longrightarrow> (a, v) \<in> set m \<Longrightarrow> map_at lt m a = Some v"
  by (simp add: map_at_def map_find_mem lt_irrefl)

lemma map_at_erase_same: "map_ok lt m \<Longrightarrow> map_at lt (map_erase lt m k) k = None"
proof (induction m)
  case (Cons e m)
  obtain b w where e: "e = (b, w)" by (cases e)
  { assume "\<not> lt b k" "\<not> lt k b"
    then have "lt k (fst x)" if "x \<in> set m" for x
      using Cons.prems e that nlt_lt_trans [of b k] by (auto simp: map_ok_Cons)
    then have "map_find lt m k = None"
      using map_find_Some [of m k] by (cases "map_find lt m k") force+
    then have "map_at lt m k = None" by (simp add: map_at_def) }
  with Cons e show ?case by (auto simp: map_ok_Cons dest: lt_asym)
qed simp

lemma map_at_erase_other:
  "map_ok lt m \<Longrightarrow> lt k k' \<or> lt k' k \<Longrightarrow> map_at lt (map_erase lt m k) k' = map_at lt m k'"
proof (induction m)
  case (Cons e m)
  obtain b w where e: "e = (b, w)" by (cases e)
  { assume eqv: "\<not> lt b k" "\<not> lt k b" and lt: "lt k' k"
    have "lt k' (fst x)" if "x \<in> set m" for x
      using Cons.prems e that eqv lt by (auto simp: map_ok_Cons intro: lt_trans lt_nlt_trans)
    then have "map_find lt m k' = None"
      using map_find_Some [of m k'] by (cases "map_find lt m k'") force+
    then have "map_at lt m k' = None" by (simp add: map_at_def) }
  with Cons e show ?case
    by (auto simp: map_ok_Cons dest: lt_asym intro: lt_nlt_trans nlt_lt_trans)
qed simp

text \<open>\<^verbatim>\<open>prev(key)\<close> is the greatest entry not above the key, and it is missing only when all are above.\<close>

lemma map_prev_Some:
  assumes ok: "map_ok lt m" and prev: "map_prev lt m k = Some (a, v)"
  shows "(a, v) \<in> set m" and "\<not> lt k a"
    and "b \<in> fst ` set m \<Longrightarrow> \<not> lt k b \<Longrightarrow> \<not> lt a b"
proof -
  let ?P = "\<lambda>e. \<not> lt k (fst e)"
  have ne: "takeWhile ?P m \<noteq> []" and av: "last (takeWhile ?P m) = (a, v)"
    using prev by (auto simp: map_prev_def Let_def split: if_splits)
  from ne av have mem: "(a, v) \<in> set (takeWhile ?P m)"
    using last_in_set by fastforce
  then show "(a, v) \<in> set m" and "\<not> lt k a"
    by (auto dest: set_takeWhileD)
  assume b: "b \<in> fst ` set m" "\<not> lt k b"
  have "sorted_wrt (\<lambda>x y. ?P y \<longrightarrow> ?P x) m"
    using ok unfolding map_ok_def
    by (rule sorted_wrt_mono_rel [rotated]) (blast intro: lt_trans)
  then have "takeWhile ?P m = filter ?P m"
    by (rule takeWhile_dropWhile_set)
  with b obtain w where w: "(b, w) \<in> set (takeWhile ?P m)" by auto
  obtain bl where bl: "takeWhile ?P m = bl @ [(a, v)]"
    using ne av by (metis append_butlast_last_id)
  have "sorted_wrt (\<lambda>x y. lt (fst x) (fst y)) (takeWhile ?P m)"
    using ok unfolding map_ok_def by (metis sorted_wrt_append takeWhile_dropWhile_id)
  with bl w have "(b, w) = (a, v) \<or> lt b a"
    by (auto simp: sorted_wrt_append)
  then show "\<not> lt a b"
    using lt_asym lt_irrefl by blast
qed

lemma map_prev_None: "map_prev lt m k = None \<longleftrightarrow> m = [] \<or> lt k (fst (hd m))"
  by (cases m) (auto simp: map_prev_def Let_def)

lemma map_prev_None_iff: "map_ok lt m \<Longrightarrow> map_prev lt m k = None \<longleftrightarrow> (\<forall>b \<in> fst ` set m. lt k b)"
  by (cases m) (auto simp: map_prev_None map_ok_Cons intro: lt_trans)

text \<open>Equivalent keys find the same entry.\<close>

lemma map_find_cong: "\<not> lt k k' \<Longrightarrow> \<not> lt k' k \<Longrightarrow> map_find lt m k = map_find lt m k'"
proof (induction m)
  case (Cons e m)
  have "lt a k \<longleftrightarrow> lt a k'" and "lt k a \<longleftrightarrow> lt k' a" for a
    using Cons.prems lt_weak by blast+
  with Cons show ?case by (cases e) auto
qed simp

lemma map_at_cong: "\<not> lt k k' \<Longrightarrow> \<not> lt k' k \<Longrightarrow> map_at lt m k = map_at lt m k'"
  by (simp add: map_at_def map_find_cong [of k k'])

lemma set_ok_insert: "set_ok lt s \<Longrightarrow> set_ok lt (set_insert lt s k)"
proof (induction s)
  case (Cons a s)
  then show ?case
    using set_set_insert [of lt s k] by (auto intro: lt_trans)
qed simp

lemma set_ok_erase: "set_ok lt s \<Longrightarrow> set_ok lt (set_erase lt s k)"
proof (induction s)
  case (Cons a s)
  then show ?case
    using set_set_erase [of lt s k] by auto
qed simp

lemma set_insert_new:
  assumes "\<And>x. x \<in> set s \<Longrightarrow> lt x k \<or> lt k x"
  shows "set (set_insert lt s k) = insert k (set s)"
  using assms by (induction s) auto

text \<open>A key inserted between the elements below it and the elements above it lands there.\<close>

lemma set_insert_at:
  assumes "\<And>x. x \<in> set ps \<Longrightarrow> lt x k" and "\<And>x. x \<in> set qs \<Longrightarrow> lt k x"
  shows "set_insert lt (ps @ qs) k = ps @ k # qs"
proof -
  have "set_insert lt qs k = k # qs"
    using assms(2) by (cases qs) (auto dest: lt_asym)
  with assms(1) show ?thesis by (induction ps) auto
qed

lemma set_split_ok:
  assumes "set_ok lt s" and "set_split lt s k = (ps, qs)"
  shows "s = ps @ qs" and "x \<in> set ps \<Longrightarrow> \<not> lt k x" and "x \<in> set qs \<Longrightarrow> lt k x"
proof -
  have "sorted_wrt (\<lambda>x y. \<not> lt k y \<longrightarrow> \<not> lt k x) s"
    using assms(1) by (rule sorted_wrt_mono_rel [rotated]) (blast intro: lt_trans)
  then have "qs = filter (\<lambda>a. \<not> \<not> lt k a) s"
    using assms(2) takeWhile_dropWhile_set(2) by (fastforce simp: set_split_def)
  then show "x \<in> set qs \<Longrightarrow> lt k x" by auto
  show "s = ps @ qs" and "x \<in> set ps \<Longrightarrow> \<not> lt k x"
    using assms(2) by (auto simp: set_split_def dest: takeWhile_all)
qed

end

text \<open>A comparator that separates different keys: lookups then follow the usual map laws.\<close>

locale strict_total = strict_weak +
  assumes lt_total: "\<not> lt x y \<Longrightarrow> \<not> lt y x \<Longrightarrow> x = y"
begin

lemma map_at_set:
  "map_ok lt m \<Longrightarrow> map_at lt (map_set lt m k v) k' = (if k' = k then Some v else map_at lt m k')"
  using map_at_set_same map_at_set_other lt_total by metis

lemma map_at_erase:
  "map_ok lt m \<Longrightarrow> map_at lt (map_erase lt m k) k' = (if k' = k then None else map_at lt m k')"
  using map_at_erase_same map_at_erase_other lt_total by metis

lemma map_at_upd:
  "map_ok lt m \<Longrightarrow>
   map_at lt (map_upd lt d m k f) k' = (if k' = k then Some (f (map_touch lt d m k)) else map_at lt m k')"
  by (simp add: map_upd_def map_at_set)

lemma map_at_emplace:
  "map_ok lt m \<Longrightarrow>
   map_at lt (map_emplace lt m k v) k' =
     (if k' = k \<and> map_at lt m k = None then Some v else map_at lt m k')"
  by (auto simp: map_emplace_def map_at_set map_has_at)

lemma map_at_iff_mem: "map_ok lt m \<Longrightarrow> map_at lt m k = Some v \<longleftrightarrow> (k, v) \<in> set m"
proof
  assume "map_at lt m k = Some v"
  then obtain a where "map_find lt m k = Some (a, v)" by (auto simp: map_at_def)
  from map_find_Some [OF this] show "(k, v) \<in> set m" using lt_total [of a k] by auto
qed (rule map_at_mem)

lemma map_prev_same: "map_ok lt m \<Longrightarrow> map_at lt m k = Some v \<Longrightarrow> map_prev lt m k = Some (k, v)"
proof -
  assume ok: "map_ok lt m" and at: "map_at lt m k = Some v"
  then have mem: "(k, v) \<in> set m" by (simp add: map_at_iff_mem)
  have "map_prev lt m k \<noteq> None"
  proof
    assume "map_prev lt m k = None"
    with mem have "lt k (fst (hd m))" "m \<noteq> []" by (auto simp: map_prev_None)
    then obtain e m' where m: "m = e # m'" "lt k (fst e)" by (cases m) auto
    with mem have "(k, v) = e \<or> (k, v) \<in> set m'" by auto
    then show False
    proof
      assume "(k, v) = e"
      with m(2) show False by (auto simp: lt_irrefl)
    next
      assume "(k, v) \<in> set m'"
      with ok m(1) have "lt (fst e) k" by (auto simp: map_ok_Cons)
      with m(2) show False using lt_asym by blast
    qed
  qed
  then obtain a w where aw: "map_prev lt m k = Some (a, w)" by auto
  note p = map_prev_Some [OF ok aw]
  from p(3) [of k] mem have "\<not> lt a k" by (force simp: lt_irrefl)
  with p(2) have "a = k" by (simp add: lt_total)
  with p(1) ok mem have "w = v" using map_at_mem at by fastforce
  with aw \<open>a = k\<close> show ?thesis by simp
qed

text \<open>\<^verbatim>\<open>prev\<close> as a specification.\<close>

lemma map_prev_iff:
  assumes ok: "map_ok lt m"
  shows "map_prev lt m k = Some (a, v) \<longleftrightarrow>
     (a, v) \<in> set m \<and> \<not> lt k a \<and> (\<forall>b \<in> fst ` set m. \<not> lt k b \<longrightarrow> \<not> lt a b)"
proof
  assume "map_prev lt m k = Some (a, v)"
  from map_prev_Some [OF ok this]
  show "(a, v) \<in> set m \<and> \<not> lt k a \<and> (\<forall>b \<in> fst ` set m. \<not> lt k b \<longrightarrow> \<not> lt a b)" by blast
next
  assume r: "(a, v) \<in> set m \<and> \<not> lt k a \<and> (\<forall>b \<in> fst ` set m. \<not> lt k b \<longrightarrow> \<not> lt a b)"
  then have "map_prev lt m k \<noteq> None" using map_prev_None_iff [OF ok] by force
  then obtain b w where bw: "map_prev lt m k = Some (b, w)" by auto
  note p = map_prev_Some [OF ok bw]
  have "\<not> lt b a" using p(3) [of a] r by force
  moreover have "\<not> lt a b" using r p(1,2) by force
  ultimately have "b = a" by (simp add: lt_total)
  have "map_at lt m a = Some w" using p(1) \<open>b = a\<close> by (intro map_at_mem [OF ok]) simp
  moreover have "map_at lt m a = Some v" using r by (intro map_at_mem [OF ok]) blast
  ultimately have "w = v" by simp
  with bw \<open>b = a\<close> show "map_prev lt m k = Some (a, v)" by simp
qed

lemma map_prev_eqI:
  assumes "map_ok lt m" and "map_ok lt m'"
    and "\<And>a v. (a, v) \<in> set m' \<Longrightarrow> \<not> lt k a \<Longrightarrow> (a, v) \<in> set m"
    and "\<And>a v. map_prev lt m k = Some (a, v) \<Longrightarrow> (a, v) \<in> set m'"
  shows "map_prev lt m' k = map_prev lt m k"
proof (cases "map_prev lt m k")
  case None
  then have "\<forall>b \<in> fst ` set m. lt k b" using map_prev_None_iff [OF assms(1)] by blast
  then have "\<forall>b \<in> fst ` set m'. lt k b" using assms(3) by force
  then show ?thesis using None map_prev_None_iff [OF assms(2)] by simp
next
  case (Some e)
  obtain a v where e: "e = (a, v)" by (cases e)
  have av: "map_prev lt m k = Some (a, v)" using Some e by simp
  note spec = av [unfolded map_prev_iff [OF assms(1)]]
  have "\<not> lt a b" if "b \<in> fst ` set m'" "\<not> lt k b" for b
  proof -
    from that obtain w where "(b, w) \<in> set m'" by auto
    with assms(3) that(2) have "(b, w) \<in> set m" by blast
    with spec that(2) show ?thesis by force
  qed
  with spec assms(4) [OF av] have "map_prev lt m' k = Some (a, v)"
    by (simp add: map_prev_iff [OF assms(2)])
  then show ?thesis using Some e by simp
qed

lemma map_erase_set: "map_ok lt m \<Longrightarrow> map_at lt m k = None \<Longrightarrow> map_erase lt (map_set lt m k v) k = m"
proof (induction m)
  case Nil
  then show ?case by (simp add: lt_irrefl)
next
  case (Cons e m)
  then show ?case by (cases e) (auto simp: map_ok_Cons lt_irrefl dest: lt_asym split: if_splits)
qed

lemma map_set_set: "map_set lt (map_set lt m k a) k b = map_set lt m k b"
  by (induction m) (auto simp: lt_irrefl dest: lt_asym)

lemma map_set_same: "map_at lt m k = Some v \<Longrightarrow> map_set lt m k v = m"
  by (induction m) (auto split: if_splits)

lemma map_at_head:
  assumes "map_ok lt ((a, v) # m)"
  shows "map_at lt ((a, v) # m) k = (if k = a then Some v else map_at lt m k)"
proof -
  have "map_at lt m k = None" if "lt k a"
  proof (rule ccontr)
    assume "map_at lt m k \<noteq> None"
    then obtain w where "(k, w) \<in> set m" using map_at_iff_mem [of m k] map_ok_tl [OF assms] by auto
    with assms that show False using lt_asym by (fastforce simp: map_ok_Cons)
  qed
  then show ?thesis using lt_total [of a k] lt_irrefl by auto
qed

lemma map_set_all:
  assumes "\<forall>x \<in> set m. P x" "P (k, v)"
  shows "\<forall>x \<in> set (map_set lt m k v). P x"
  using assms
proof (induction m)
  case (Cons e m)
  obtain a w where e: "e = (a, w)" by (cases e)
  have "a = k" if "\<not> lt a k" "\<not> lt k a" using lt_total that by blast
  with Cons show ?case by (auto simp: e)
qed simp

lemma map_erase_filter: "map_ok lt m \<Longrightarrow> map_erase lt m k = filter (\<lambda>e. fst e \<noteq> k) m"
proof (induction m)
  case (Cons e m)
  obtain a v where e: "e = (a, v)" by (cases e)
  have tail: "filter (\<lambda>e. fst e \<noteq> k) m = m" if "\<not> lt a k"
  proof -
    have "fst x \<noteq> k" if "x \<in> set m" for x
      using Cons.prems e that \<open>\<not> lt a k\<close> by (auto simp: map_ok_Cons)
    then show ?thesis by (simp add: filter_id_conv)
  qed
  show ?case
    using Cons tail e lt_total [of a k] lt_irrefl by (auto simp: map_ok_Cons)
qed simp

text \<open>The keys of a map.\<close>

lemma map_key_iff: "map_ok lt m \<Longrightarrow> k \<in> fst ` set m \<longleftrightarrow> map_at lt m k \<noteq> None"
  using map_at_iff_mem [of m k] by force

lemma map_keys_set: "map_ok lt m \<Longrightarrow> fst ` set (map_set lt m k v) = insert k (fst ` set m)"
  using map_key_iff [of m] map_key_iff [OF map_ok_set, of m _ k v] map_at_set [of m k v] by (intro set_eqI) auto

lemma map_keys_emplace: "map_ok lt m \<Longrightarrow> fst ` set (map_emplace lt m k v) = insert k (fst ` set m)"
  using map_keys_set [of m k v] map_key_iff [of m k] by (auto simp: map_emplace_def map_has_at)

lemma map_keys_erase: "map_ok lt m \<Longrightarrow> fst ` set (map_erase lt m k) = fst ` set m - {k}"
  by (auto simp: map_erase_filter)

lemma map_set_max: "\<forall>b \<in> fst ` set m. lt b k \<Longrightarrow> map_set lt m k v = m @ [(k, v)]"
  by (induction m) auto

lemma set_set_insert_eq: "set_ok lt s \<Longrightarrow> set (set_insert lt s k) = insert k (set s)"
  by (induction s) (auto dest: lt_total)

lemma set_set_erase_eq: "set_ok lt s \<Longrightarrow> set (set_erase lt s k) = set s - {k}"
proof (induction s)
  case (Cons a s)
  consider "lt a k" | "lt k a" | "k = a" using lt_total by blast
  then show ?case
  proof cases
    case 1
    with Cons show ?thesis using lt_irrefl by auto
  next
    case 2
    with Cons.prems have "k \<notin> set s" "k \<noteq> a" using lt_asym lt_irrefl by auto
    with 2 show ?thesis by (simp add: lt_asym)
  next
    case 3
    with Cons.prems show ?thesis using lt_irrefl by auto
  qed
qed simp

lemma set_has_mem: "set_ok lt s \<Longrightarrow> set_has lt s k \<longleftrightarrow> k \<in> set s"
proof (induction s)
  case (Cons a s)
  consider "lt a k" | "lt k a" | "k = a" using lt_total by blast
  then show ?case
  proof cases
    case 1
    with Cons show ?thesis by (auto simp: set_has_def lt_irrefl)
  next
    case 2
    with Cons.prems have "k \<notin> set s" "k \<noteq> a" using lt_asym lt_irrefl by auto
    with 2 show ?thesis by (simp add: set_has_def lt_asym)
  next
    case 3
    then show ?thesis by (simp add: set_has_def lt_irrefl)
  qed
qed (simp add: set_has_def)

end

text \<open>The comparators of the built-in key types.\<close>

interpretation u64_order: strict_total "(<) :: u64 \<Rightarrow> u64 \<Rightarrow> bool"
  by unfold_locales auto

interpretation u32_order: strict_total "(<) :: u32 \<Rightarrow> u32 \<Rightarrow> bool"
  by unfold_locales auto

interpretation int_order: strict_total "(<) :: int \<Rightarrow> int \<Rightarrow> bool"
  by unfold_locales auto

text \<open>\<^verbatim>\<open>std::string\<close>: lexicographic on the bytes.\<close>

fun string_lt :: "string \<Rightarrow> string \<Rightarrow> bool" where
  "string_lt xs [] = False"
| "string_lt [] (y # ys) = True"
| "string_lt (x # xs) (y # ys) = (if x = y then string_lt xs ys else (of_char x :: nat) < of_char y)"

lemma string_lt_trans: "string_lt xs ys \<Longrightarrow> string_lt ys zs \<Longrightarrow> string_lt xs zs"
proof (induction xs ys arbitrary: zs rule: string_lt.induct)
  case (3 x xs y ys)
  then show ?case by (cases zs) (auto split: if_splits)
qed (auto elim: string_lt.elims)

lemma string_lt_total: "\<not> string_lt xs ys \<Longrightarrow> \<not> string_lt ys xs \<Longrightarrow> xs = ys"
proof (induction xs ys rule: string_lt.induct)
  case (1 xs)
  then show ?case by (cases xs) auto
next
  case (3 x xs y ys)
  show ?case
  proof (cases "x = y")
    case False
    then have "(of_char x :: nat) \<noteq> of_char y" by simp
    with 3 False show ?thesis by auto
  qed (use 3 in auto)
qed auto

interpretation string_order: strict_total string_lt
proof
  show "\<not> string_lt xs xs" for xs
    by (induction xs) auto
  show "string_lt xs ys \<Longrightarrow> string_lt ys zs \<Longrightarrow> string_lt xs zs" for xs ys zs
    by (rule string_lt_trans)
  show "string_lt xs zs \<Longrightarrow> string_lt xs ys \<or> string_lt ys zs" for xs ys zs
    using string_lt_trans string_lt_total by blast
  show "\<not> string_lt xs ys \<Longrightarrow> \<not> string_lt ys xs \<Longrightarrow> xs = ys" for xs ys
    by (rule string_lt_total)
qed

subsection \<open>Maps of maps\<close>

definition map_at2 ::
  "('a \<Rightarrow> 'a \<Rightarrow> bool) \<Rightarrow> ('b \<Rightarrow> 'b \<Rightarrow> bool) \<Rightarrow> ('a, ('b, 'v) omap) omap \<Rightarrow> 'a \<Rightarrow> 'b \<Rightarrow> 'v option" where
  "map_at2 lto lti m a b = map_at lti (map_touch lto [] m a) b"

text \<open>\<^verbatim>\<open>m[a][b] = v\<close>\<close>

definition map_set2 ::
  "('a \<Rightarrow> 'a \<Rightarrow> bool) \<Rightarrow> ('b \<Rightarrow> 'b \<Rightarrow> bool) \<Rightarrow> ('a, ('b, 'v) omap) omap \<Rightarrow> 'a \<Rightarrow> 'b \<Rightarrow> 'v \<Rightarrow> ('a, ('b, 'v) omap) omap" where
  "map_set2 lto lti m a b v = map_upd lto [] m a (\<lambda>i. map_set lti i b v)"

definition map_ok2 :: "('a \<Rightarrow> 'a \<Rightarrow> bool) \<Rightarrow> ('b \<Rightarrow> 'b \<Rightarrow> bool) \<Rightarrow> ('a, ('b, 'v) omap) omap \<Rightarrow> bool" where
  "map_ok2 lto lti m \<longleftrightarrow> map_ok lto m \<and> (\<forall>a. map_ok lti (map_touch lto [] m a))"

locale nested_keys = outer: strict_total lto + inner: strict_total lti
  for lto :: "'a \<Rightarrow> 'a \<Rightarrow> bool" and lti :: "'b \<Rightarrow> 'b \<Rightarrow> bool"
begin

lemma map_ok2_Nil: "map_ok2 lto lti []"
  by (simp add: map_ok2_def map_touch_def)

lemma map_touch_upd:
  "map_ok lto m \<Longrightarrow>
   map_touch lto d (map_upd lto d m a f) x = (if x = a then f (map_touch lto d m a) else map_touch lto d m x)"
  by (simp add: map_touch_def outer.map_at_upd)

lemma map_ok2_set2: "map_ok2 lto lti m \<Longrightarrow> map_ok2 lto lti (map_set2 lto lti m a b v)"
  by (auto simp: map_ok2_def map_set2_def map_touch_upd outer.map_ok_upd inner.map_ok_set)

lemma map_at2_set2:
  "map_ok2 lto lti m \<Longrightarrow>
   map_at2 lto lti (map_set2 lto lti m a b v) x y = (if x = a \<and> y = b then Some v else map_at2 lto lti m x y)"
  by (auto simp: map_ok2_def map_at2_def map_set2_def map_touch_upd inner.map_at_set)

text \<open>Writing a value that depends on the keys alone, for a list of pairs of keys.\<close>

lemma fold_map_set2:
  fixes ps :: "('a \<times> 'b) list" and T :: "'a \<Rightarrow> 'b \<Rightarrow> 'v"
  assumes "map_ok2 lto lti m"
  defines "m' \<equiv> fold (\<lambda>(a, b) m. map_set2 lto lti m a b (T a b)) ps m"
  shows "map_ok2 lto lti m'"
    "map_at2 lto lti m' x y = (if (x, y) \<in> set ps then Some (T x y) else map_at2 lto lti m x y)"
proof -
  have "map_ok2 lto lti (fold (\<lambda>(a, b) m. map_set2 lto lti m a b (T a b)) ps m) \<and>
      map_at2 lto lti (fold (\<lambda>(a, b) m. map_set2 lto lti m a b (T a b)) ps m) x y =
        (if (x, y) \<in> set ps then Some (T x y) else map_at2 lto lti m x y)"
    using assms(1)
  proof (induction ps arbitrary: m)
    case (Cons p ps)
    obtain a b where p: "p = (a, b)" by (cases p)
    note ok = map_ok2_set2 [OF Cons.prems, of a b "T a b"]
    show ?case
      using Cons.IH [OF ok] map_at2_set2 [OF Cons.prems, of a b "T a b" x y] by (auto simp: p)
  qed simp
  then show "map_ok2 lto lti m'"
    "map_at2 lto lti m' x y = (if (x, y) \<in> set ps then Some (T x y) else map_at2 lto lti m x y)"
    unfolding m'_def by auto
qed

end

interpretation ctx_ctx: nested_keys "(<) :: int \<Rightarrow> int \<Rightarrow> bool" "(<) :: int \<Rightarrow> int \<Rightarrow> bool" ..

interpretation hash_ctx: nested_keys string_lt "(<) :: int \<Rightarrow> int \<Rightarrow> bool" ..

interpretation thread_kernel: nested_keys "(<) :: u32 \<Rightarrow> u32 \<Rightarrow> bool" "(<) :: int \<Rightarrow> int \<Rightarrow> bool" ..

end
