(* ===== verification/Range_Sets.thy ===== *)
theory Range_Sets
  imports Containers
begin

section \<open>Memory ranges and the range sets of the analyses\<close>

text \<open>
  \<^verbatim>\<open>MemoryRange\<close> (\<^verbatim>\<open>redshow/include/operation/memory.h\<close>) and the two algorithms on
  \<^verbatim>\<open>Set<MemoryRange>\<close>: \<^verbatim>\<open>merge_memory_range\<close>, which the data-flow, data-dependency and
  memory-profile analyses use with the same body to accumulate the bytes a kernel accesses, and
  \<^verbatim>\<open>update_blank_chunks\<close>, which removes accessed bytes from the unused part of an object.
  An iterator into the set is a position, so the loops run over the elements before and
  after it.
\<close>

record memory_range =
  mr_start :: u64
  mr_end :: u64

abbreviation MemoryRange :: "u64 \<Rightarrow> u64 \<Rightarrow> memory_range" where
  "MemoryRange s e \<equiv> \<lparr>mr_start = s, mr_end = e\<rparr>"

lemma MemoryRange_eta [simp]: "MemoryRange (mr_start r) (mr_end r) = r"
  by simp

definition range_lt :: "memory_range \<Rightarrow> memory_range \<Rightarrow> bool" where
  "range_lt a b = (mr_start a < mr_start b)"

interpretation range_order: strict_weak range_lt
  by unfold_locales (auto simp: range_lt_def)

subsection \<open>\<^verbatim>\<open>merge_memory_range\<close>\<close>

text \<open>
  The loop \<^verbatim>\<open>while (range_delete)\<close>, from the position \<^verbatim>\<open>riter\<close> on: it drops the ranges that end
  inside the new one, takes over the end of the first that reaches past it, and stops. The
  result is the value of \<^verbatim>\<open>end\<close> and the elements that stay.
\<close>

fun merge_absorb :: "memory_range \<Rightarrow> memory_range list \<Rightarrow> u64 \<times> memory_range list" where
  "merge_absorb r [] = (mr_end r, [])"
| "merge_absorb r (x # xs) =
     (if mr_start x \<le> mr_end r then
        if mr_end x < mr_end r then merge_absorb r xs else (mr_end x, xs)
      else (mr_end r, x # xs))"

text \<open>The part after \<^verbatim>\<open>auto riter = liter\<close>, with the elements before and from \<^verbatim>\<open>riter\<close> on.\<close>

definition merge_right ::
  "memory_range list \<Rightarrow> memory_range list \<Rightarrow> u64 \<Rightarrow> memory_range \<Rightarrow> memory_range oset" where
  "merge_right pre post st r =
     (case post of
        [] \<Rightarrow> set_insert range_lt pre (MemoryRange st (mr_end r))
      | x # xs \<Rightarrow>
          if mr_start x \<le> mr_end r then
            if mr_end x < mr_end r then
              let (e, rest) = merge_absorb r xs
              in set_insert range_lt (pre @ rest) (MemoryRange st e)
            else if mr_start x = mr_start r then pre @ x # xs
            else set_insert range_lt (pre @ xs) (MemoryRange st (mr_end x))
          else set_insert range_lt (pre @ x # xs) (MemoryRange st (mr_end r)))"

definition merge_memory_range :: "memory_range oset \<Rightarrow> memory_range \<Rightarrow> memory_range oset" where
  "merge_memory_range memory r =
     (let (before, after) = set_split range_lt memory r
      in if before = [] then
           \<comment> \<open>\<^verbatim>\<open>prev\<close> gave \<^verbatim>\<open>end()\<close>, and \<^verbatim>\<open>riter\<close> starts there\<close>
           merge_right memory [] (mr_start r) r
         else
           let l = last before in
           if mr_start r \<le> mr_end l then
             if mr_end l < mr_end r then merge_right (butlast before) after (mr_start l) r
             else memory
           else merge_right before after (mr_start r) r)"

subsection \<open>What a range set stands for\<close>

definition range_bytes :: "memory_range \<Rightarrow> u64 set" where
  "range_bytes r = {a. mr_start r \<le> a \<and> a < mr_end r}"

definition cover :: "memory_range oset \<Rightarrow> u64 set" where
  "cover s = (\<Union>r \<in> set s. range_bytes r)"

definition range_wf :: "memory_range \<Rightarrow> bool" where
  "range_wf r = (mr_start r \<le> mr_end r)"

definition ranges_ok :: "memory_range oset \<Rightarrow> bool" where
  "ranges_ok s = (set_ok range_lt s \<and> (\<forall>r \<in> set s. range_wf r))"

text \<open>Ranges that neither overlap nor touch.\<close>

definition ranges_separate :: "memory_range oset \<Rightarrow> bool" where
  "ranges_separate s = sorted_wrt (\<lambda>x y. mr_end x < mr_start y) s"

lemma cover_simps [simp, range_simps]:
  "cover [] = {}"
  "cover (r # s) = range_bytes r \<union> cover s"
  "cover (s @ t) = cover s \<union> cover t"
  by (auto simp: cover_def)

lemma range_bytes_mem [simp, range_simps]:
  "a \<in> range_bytes r \<longleftrightarrow> mr_start r \<le> a \<and> a < mr_end r"
  by (simp add: range_bytes_def)

lemma range_bytes_glue:
  assumes "st \<le> m" and "m \<le> e" and "m \<le> e'" and "e \<le> e'"
  shows "range_bytes (MemoryRange st e) \<union> range_bytes (MemoryRange m e') = range_bytes (MemoryRange st e')"
  using assms by auto

lemma ranges_ok_simps [range_simps]:
  "ranges_ok []"
  "ranges_ok (x # xs) \<longleftrightarrow> range_wf x \<and> ranges_ok xs \<and> (\<forall>y \<in> set xs. mr_start x < mr_start y)"
  "ranges_ok (xs @ ys) \<longleftrightarrow> ranges_ok xs \<and> ranges_ok ys \<and> (\<forall>x \<in> set xs. \<forall>y \<in> set ys. mr_start x < mr_start y)"
  by (auto simp: ranges_ok_def range_lt_def sorted_wrt_append)

lemma ranges_separate_simps [range_simps]:
  "ranges_separate []"
  "ranges_separate (x # xs) \<longleftrightarrow> ranges_separate xs \<and> (\<forall>y \<in> set xs. mr_end x < mr_start y)"
  "ranges_separate (xs @ ys) \<longleftrightarrow>
     ranges_separate xs \<and> ranges_separate ys \<and> (\<forall>x \<in> set xs. \<forall>y \<in> set ys. mr_end x < mr_start y)"
  by (auto simp: ranges_separate_def sorted_wrt_append)

subsection \<open>Correctness of the merge\<close>

lemma merge_absorb_ok:
  assumes "merge_absorb r xs = (e, rest)" and "ranges_ok xs"
  shows "ranges_ok rest" and "set rest \<subseteq> set xs" and "mr_end r \<le> e"
  using assms by (induction xs) (auto simp: range_simps split: if_splits)

lemma merge_absorb_cover:
  assumes "merge_absorb r xs = (e, rest)" and "ranges_ok xs" and "\<forall>x \<in> set xs. st \<le> mr_start x"
    and "st \<le> mr_end r"
  shows "range_bytes (MemoryRange st e) \<union> cover rest =
     range_bytes (MemoryRange st (mr_end r)) \<union> cover xs"
  using assms
proof (induction xs)
  case (Cons x xs)
  show ?case
  proof (cases "mr_start x \<le> mr_end r")
    case True
    with Cons show ?thesis
      by (fastforce simp: range_simps range_wf_def split: if_splits)
  next
    case False
    with Cons.prems show ?thesis by auto
  qed
qed simp

lemma merge_absorb_separate:
  assumes "merge_absorb r xs = (e, rest)" and "ranges_ok xs" and "ranges_separate xs"
  shows "ranges_separate rest" and "\<forall>x \<in> set rest. e < mr_start x"
  using assms by (induction xs) (auto simp: range_simps range_wf_def not_le split: if_splits intro: less_trans)

text \<open>
  One shape covers every way out of \<^const>\<open>merge_right\<close> but the early return: the new range, from
  \<open>st\<close> to some end, between the elements before it and a rest of the ones after it.
\<close>

lemma merge_right_eq:
  assumes pre: "ranges_ok pre" "\<forall>x \<in> set pre. mr_start x < st"
    and post: "ranges_ok post" "\<forall>x \<in> set post. mr_start r < mr_start x"
    and st: "st \<le> mr_start r" and wf: "range_wf r"
  obtains e rest where "merge_right pre post st r = pre @ MemoryRange st e # rest"
    and "merge_absorb r post = (e, rest)"
proof -
  obtain e rest where er: "merge_absorb r post = (e, rest)"
    by (cases "merge_absorb r post")
  have "set rest \<subseteq> set post" using merge_absorb_ok(2) [OF er post(1)] .
  then have above: "\<forall>x \<in> set rest. st < mr_start x" using post(2) st by fastforce
  have "set_insert range_lt (pre @ rest) (MemoryRange st e) = pre @ MemoryRange st e # rest"
    using pre(2) above by (intro range_order.set_insert_at) (auto simp: range_lt_def)
  moreover have "merge_right pre post st r = set_insert range_lt (pre @ rest) (MemoryRange st e)"
    using er post(2) by (cases post) (auto simp: merge_right_def split: if_splits)
  ultimately show thesis using that er by simp
qed

text \<open>The elements of a set around the position \<^verbatim>\<open>prev\<close> finds.\<close>

lemma range_split:
  assumes "ranges_ok s" and "set_split range_lt s r = (before, after)"
  shows "s = before @ after" and "ranges_ok before" and "ranges_ok after"
    and "\<forall>x \<in> set before. mr_start x \<le> mr_start r" and "\<forall>x \<in> set after. mr_start r < mr_start x"
proof -
  have ok: "set_ok range_lt s" using assms(1) by (simp add: ranges_ok_def)
  note sp = range_order.set_split_ok [OF ok assms(2)]
  show s: "s = before @ after" by (rule sp(1))
  show "ranges_ok before" and "ranges_ok after"
    using assms(1) unfolding s by (auto simp: range_simps)
  show "\<forall>x \<in> set before. mr_start x \<le> mr_start r" and "\<forall>x \<in> set after. mr_start r < mr_start x"
    using sp(2,3) by (auto simp: range_lt_def not_less)
qed

text \<open>
  The four ways through \<^const>\<open>merge_memory_range\<close>: nothing to the left, glued to the range on the left,
  covered by it, or apart from it.
\<close>

lemma merge_memory_range_cases:
  assumes ok: "ranges_ok s" and wf: "range_wf r"
  obtains
    (first) "\<forall>x \<in> set s. mr_start r < mr_start x"
      "merge_memory_range s r = r # s"
  | (glued) pre l post e rest where "s = pre @ l # post" "mr_start l \<le> mr_start r"
      "mr_start r \<le> mr_end l" "mr_end l < mr_end r" "\<forall>x \<in> set post. mr_start r < mr_start x"
      "merge_absorb r post = (e, rest)"
      "merge_memory_range s r = pre @ MemoryRange (mr_start l) e # rest"
  | (covered) pre l post where "s = pre @ l # post" "mr_start l \<le> mr_start r" "mr_end r \<le> mr_end l"
      "merge_memory_range s r = s"
  | (apart) pre l post e rest where "s = (pre @ [l]) @ post" "mr_end l < mr_start r"
      "\<forall>x \<in> set post. mr_start r < mr_start x" "merge_absorb r post = (e, rest)"
      "merge_memory_range s r = (pre @ [l]) @ MemoryRange (mr_start r) e # rest"
proof -
  obtain before after where sp: "set_split range_lt s r = (before, after)"
    by (cases "set_split range_lt s r")
  note sps = range_split [OF ok sp]
  show thesis
  proof (cases before rule: rev_cases)
    case Nil
    have "set_insert range_lt ([] @ s) r = [] @ r # s"
      using sps Nil by (intro range_order.set_insert_at) (auto simp: range_lt_def)
    then show thesis
      using first sps sp Nil by (simp add: merge_memory_range_def merge_right_def)
  next
    case (snoc pre l)
    have l: "mr_start l \<le> mr_start r" "range_wf l"
      using sps snoc by (auto simp: range_simps)
    have pre: "ranges_ok pre" "\<forall>x \<in> set pre. mr_start x < mr_start l"
      using sps(2) snoc by (auto simp: range_simps)
    have s: "s = pre @ l # after" using sps(1) snoc by simp
    consider "mr_start r \<le> mr_end l" "mr_end l < mr_end r" | "mr_start r \<le> mr_end l" "mr_end r \<le> mr_end l"
      | "mr_end l < mr_start r" by (meson linorder_not_le)
    then show thesis
    proof cases
      case 1
      obtain e rest where "merge_right pre after (mr_start l) r = pre @ MemoryRange (mr_start l) e # rest"
        "merge_absorb r after = (e, rest)"
        using merge_right_eq [OF pre sps(3,5) l(1) wf] .
      then show thesis
        using glued [OF s l(1) 1 sps(5)] sp snoc 1 by (simp add: merge_memory_range_def Let_def)
    next
      case 2
      then show thesis
        using covered [OF s l(1)] sp snoc by (simp add: merge_memory_range_def Let_def not_less [symmetric])
    next
      case 3
      have "\<forall>x \<in> set (pre @ [l]). mr_start x < mr_start r"
        using 3 l pre by (auto simp: range_wf_def intro: less_trans)
      moreover have "ranges_ok (pre @ [l])" using sps(2) snoc by simp
      ultimately obtain e rest
        where "merge_right (pre @ [l]) after (mr_start r) r = (pre @ [l]) @ MemoryRange (mr_start r) e # rest"
          "merge_absorb r after = (e, rest)"
        using merge_right_eq [OF _ _ sps(3,5) order_refl wf] by metis
      then show thesis
        using apart [of pre l after e rest] s 3 sp snoc sps(5)
        by (simp add: merge_memory_range_def Let_def not_le [symmetric])
    qed
  qed
qed

lemma merge_memory_range_sound:
  assumes "ranges_ok s" and "range_wf r"
  shows "ranges_ok (merge_memory_range s r) \<and> cover (merge_memory_range s r) = cover s \<union> range_bytes r"
  using assms
proof (cases rule: merge_memory_range_cases)
  case first
  with assms show ?thesis by (auto simp: range_simps)
next
  case (glued pre l post e rest)
  from assms glued(1) have ok: "ranges_ok post" "ranges_ok pre" "range_wf l"
    and st: "\<forall>x \<in> set post. mr_start l \<le> mr_start x" by (auto simp: range_simps)
  note ab = merge_absorb_ok [OF glued(6) ok(1)]
  have "range_bytes (MemoryRange (mr_start l) e) \<union> cover rest =
      range_bytes (MemoryRange (mr_start l) (mr_end r)) \<union> cover post"
    by (rule merge_absorb_cover [OF glued(6) ok(1) st]) (use glued(2) assms(2) in \<open>auto simp: range_wf_def\<close>)
  moreover have "range_bytes l \<union> range_bytes r = range_bytes (MemoryRange (mr_start l) (mr_end r))"
    using range_bytes_glue [of "mr_start l" "mr_start r" "mr_end l" "mr_end r"] glued assms(2)
    by (simp add: range_wf_def)
  moreover have "ranges_ok (merge_memory_range s r)"
    using assms glued ab ok by (auto simp: range_simps range_wf_def)
  ultimately show ?thesis using glued(1,7) by auto
next
  case (covered pre l post)
  then show ?thesis using assms by (auto intro: order_trans less_le_trans)
next
  case (apart pre l post e rest)
  from assms apart(1) have ok: "ranges_ok post" "ranges_ok pre" "range_wf l"
    by (auto simp: range_simps)
  note ab = merge_absorb_ok [OF apart(4) ok(1)]
  have "range_bytes (MemoryRange (mr_start r) e) \<union> cover rest =
      range_bytes (MemoryRange (mr_start r) (mr_end r)) \<union> cover post"
    by (rule merge_absorb_cover [OF apart(4) ok(1)]) (use apart(3) assms(2) in \<open>auto simp: range_wf_def\<close>)
  moreover have "\<forall>x \<in> set (pre @ [l]). mr_start x < mr_start r"
    using assms apart(1,2) ok(3) by (auto simp: range_simps range_wf_def intro: less_trans)
  then have "ranges_ok (merge_memory_range s r)"
    using assms apart ab by (auto simp: range_simps range_wf_def)
  ultimately show ?thesis using apart(1,5) by auto
qed

lemma merge_memory_range_not_Nil: "merge_memory_range s r \<noteq> []"
  by (auto simp: merge_memory_range_def merge_right_def Let_def set_split_def split: prod.splits list.splits if_splits)

text \<open>
  C6. \<^verbatim>\<open>merge_memory_range\<close> records exactly the bytes it is given: on a set ordered by start, in which
  every range ends no earlier than it starts, the result is again such a set, and the bytes it
  stands for are those of the old set and of the new range, no more and no less.
\<close>

theorem merge_memory_range_correct:
  assumes "ranges_ok s" and "range_wf r"
  shows "ranges_ok (merge_memory_range s r) \<and> cover (merge_memory_range s r) = cover s \<union> range_bytes r"
  using assms by (rule merge_memory_range_sound)

theorem merge_memory_range_correct_witness:
  "ranges_ok [MemoryRange 0 4, MemoryRange 8 12] \<and>
   merge_memory_range [MemoryRange 0 4, MemoryRange 8 12] (MemoryRange 3 9) = [MemoryRange 0 12] \<and>
   cover [MemoryRange 0 12] = cover [MemoryRange 0 4, MemoryRange 8 12] \<union> range_bytes (MemoryRange 3 9)"
proof -
  have m: "merge_memory_range [MemoryRange 0 4, MemoryRange 8 12] (MemoryRange 3 9) = [MemoryRange 0 12]"
    by (simp add: merge_memory_range_def set_split_def range_lt_def merge_right_def)
  show ?thesis
    using merge_memory_range_correct [of "[MemoryRange 0 4, MemoryRange 8 12]" "MemoryRange 3 9"]
    by (simp add: m) (simp add: range_simps range_wf_def)
qed

text \<open>
  C20. The ranges of a set stay apart (no two overlap or touch) when a range is merged into it that
  does not start before all of them, or that ends before all of them.
\<close>

theorem merge_memory_range_separate:
  assumes "ranges_ok s" and "ranges_separate s" and "range_wf r"
    and "s = [] \<or> mr_start (hd s) \<le> mr_start r \<or> mr_end r < mr_start (hd s)"
  shows "ranges_separate (merge_memory_range s r)"
  using assms(1,3)
proof (cases rule: merge_memory_range_cases)
  case first
  with assms have "\<forall>x \<in> set s. mr_end r < mr_start x"
    by (cases s) (auto simp: range_simps intro: less_trans)
  with first assms(2) show ?thesis by (simp add: range_simps)
next
  case (glued pre l post e rest)
  from assms glued(1) have post: "ranges_ok post" "ranges_separate post" by (auto simp: range_simps)
  note ab = merge_absorb_separate [OF glued(6) post] merge_absorb_ok [OF glued(6) post(1)]
  show ?thesis using assms(2) glued(1,7) ab by (auto simp: range_simps)
next
  case (covered pre l post)
  with assms(2) show ?thesis by simp
next
  case (apart pre l post e rest)
  from assms apart(1) have post: "ranges_ok post" "ranges_separate post" by (auto simp: range_simps)
  note ab = merge_absorb_separate [OF apart(4) post] merge_absorb_ok [OF apart(4) post(1)]
  have "\<forall>x \<in> set pre. mr_end x < mr_start r"
    using assms(1,2) apart(1,2) by (auto simp: range_simps range_wf_def intro: less_trans order.strict_trans1)
  then show ?thesis using assms(2) apart(1,2,5) ab by (auto simp: range_simps)
qed

theorem merge_memory_range_separate_witness:
  "ranges_separate (merge_memory_range [MemoryRange 0 4, MemoryRange 8 12] (MemoryRange 4 6))"
  by (rule merge_memory_range_separate) (simp_all add: range_simps range_wf_def)

text \<open>
  C21. A range that starts before every range of the set is never merged: \<^verbatim>\<open>prev\<close> gives \<^verbatim>\<open>end()\<close>,
  the search to the right starts at \<^verbatim>\<open>end()\<close> too, and the range is put in front as it is. When
  it reaches the first range, the set then holds two ranges that overlap or touch.
\<close>

theorem merge_memory_range_before_first:
  assumes "ranges_ok (x # xs)" and "range_wf r" and "mr_start r < mr_start x" and "mr_start x \<le> mr_end r"
  shows "merge_memory_range (x # xs) r = r # x # xs \<and> \<not> ranges_separate (merge_memory_range (x # xs) r)"
proof -
  from assms(1,2) have "merge_memory_range (x # xs) r = r # x # xs"
  proof (cases rule: merge_memory_range_cases)
    case first
    then show ?thesis by simp
  next
    case (glued pre l post e rest)
    with assms(1,3) show ?thesis by (cases pre) (auto simp: range_simps)
  next
    case (covered pre l post)
    with assms(1,3) show ?thesis by (cases pre) (auto simp: range_simps)
  next
    case (apart pre l post e rest)
    with assms(1,3) show ?thesis by (cases pre) (auto simp: range_simps range_wf_def)
  qed
  with assms(4) show ?thesis by (auto simp: range_simps)
qed

theorem merge_memory_range_before_first_witness:
  "merge_memory_range [MemoryRange 10 20] (MemoryRange 5 15) = [MemoryRange 5 15, MemoryRange 10 20] \<and>
   \<not> ranges_separate (merge_memory_range [MemoryRange 10 20] (MemoryRange 5 15))"
  by (rule merge_memory_range_before_first) (simp_all add: range_simps range_wf_def)

subsection \<open>Removing a range: the loop of \<^verbatim>\<open>update_blank_chunks\<close>\<close>

text \<open>
  The iterator stands between the elements before it and those from it on; with none from it on it is
  \<^verbatim>\<open>end()\<close>. A split puts the two halves behd around the iterator: the left one has the
  start of the range just erased, and the right one starts below every later range, because the
  iterator came from \<^verbatim>\<open>prev\<close>.
\<close>

function blank_loop ::
  "memory_range list \<Rightarrow> memory_range list \<Rightarrow> u64 \<Rightarrow> u64 \<Rightarrow> memory_range oset" where
  "blank_loop pre post st en =
     (case post of
        [] \<Rightarrow>
          (case pre of
             [] \<Rightarrow> []
           | b # bs \<Rightarrow> if en \<le> mr_start b then pre else blank_loop [] pre (mr_start b) en)
      | x # xs \<Rightarrow>
          if st = mr_start x then
            if en < mr_end x then set_insert range_lt (pre @ xs) (MemoryRange en (mr_end x))
            else
              (case xs of
                 [] \<Rightarrow> pre
               | y # _ \<Rightarrow> if en < mr_start y then pre @ xs else blank_loop pre xs (mr_start y) en)
          else if st < mr_end x then
            blank_loop (pre @ [MemoryRange (mr_start x) st]) (MemoryRange st (mr_end x) # xs) st en
          else
            (case xs of
               [] \<Rightarrow> pre @ [x]
             | y # _ \<Rightarrow>
                 if mr_start y < en then blank_loop (pre @ [x]) xs (mr_start y) en else pre @ x # xs))"
  by pat_completeness auto
termination
  by (relation "measure (\<lambda>(pre, post, st, en).
        if post = [] then 2 * length pre + 2
        else 2 * length post + (if st = mr_start (hd post) then 0 else 1))") auto

declare blank_loop.simps [simp del]

definition blank_remove :: "memory_range oset \<Rightarrow> memory_range \<Rightarrow> memory_range oset" where
  "blank_remove s r =
     (if s = [] then []
      else
        let (before, after) = set_split range_lt s r in
        if before = [] then blank_loop s [] (mr_start r) (mr_end r)
        else blank_loop (butlast before) (last before # after) (mr_start r) (mr_end r))"

text \<open>Ranges that do not overlap (they may touch).\<close>

definition ranges_disjoint :: "memory_range oset \<Rightarrow> bool" where
  "ranges_disjoint s = sorted_wrt (\<lambda>x y. mr_end x \<le> mr_start y) s"

lemma ranges_disjoint_simps [range_simps]:
  "ranges_disjoint []"
  "ranges_disjoint (x # xs) \<longleftrightarrow> ranges_disjoint xs \<and> (\<forall>y \<in> set xs. mr_end x \<le> mr_start y)"
  "ranges_disjoint (xs @ ys) \<longleftrightarrow>
     ranges_disjoint xs \<and> ranges_disjoint ys \<and> (\<forall>x \<in> set xs. \<forall>y \<in> set ys. mr_end x \<le> mr_start y)"
  by (auto simp: ranges_disjoint_def sorted_wrt_append)

text \<open>What is left of ranges when everything below an address goes.\<close>

fun trim :: "u64 \<Rightarrow> memory_range list \<Rightarrow> memory_range list" where
  "trim en [] = []"
| "trim en (x # xs) =
     (if en < mr_start x then x # xs
      else if en < mr_end x then MemoryRange en (mr_end x) # xs
      else trim en xs)"

lemma trim_mem:
  "y \<in> set (trim en xs) \<Longrightarrow> y \<in> set xs \<or> mr_start y = en \<and> (\<exists>x \<in> set xs. mr_start x \<le> en \<and> en < mr_end x \<and> mr_end y = mr_end x)"
  by (induction xs) (auto split: if_splits)

lemma trim_ok:
  assumes "ranges_ok xs" and "ranges_disjoint xs"
  shows "ranges_ok (trim en xs)" and "ranges_disjoint (trim en xs)"
    and "cover (trim en xs) = cover xs \<inter> {a. en \<le> a}"
proof -
  show "ranges_ok (trim en xs)" and "ranges_disjoint (trim en xs)"
    using assms by (induction xs) (force simp: range_simps range_wf_def)+
  show "cover (trim en xs) = cover xs \<inter> {a. en \<le> a}"
    using assms
  proof (induction xs)
    case (Cons x xs)
    then have later: "\<forall>a \<in> cover xs. mr_end x \<le> a" and wf: "mr_start x \<le> mr_end x"
      by (auto simp: range_simps range_wf_def cover_def intro: order_trans)
    have "cover (trim en xs) = cover xs \<inter> {a. en \<le> a}"
      using Cons by (simp add: range_simps)
    with later wf show ?case by (auto simp: not_less intro: order_trans less_imp_le)
  qed simp
qed

lemma blank_loop_trim:
  assumes "ranges_ok (pre @ x # xs)" and "ranges_disjoint (pre @ x # xs)" and "mr_start x \<le> en"
  shows "blank_loop pre (x # xs) (mr_start x) en = pre @ trim en (x # xs)"
  using assms
proof (induction xs arbitrary: x)
  case Nil
  have "set_insert range_lt (pre @ []) (MemoryRange en (mr_end x)) = pre @ [MemoryRange en (mr_end x)]"
    using Nil by (intro range_order.set_insert_at) (auto simp: range_simps range_lt_def intro: less_le_trans)
  with Nil show ?case by (auto simp: blank_loop.simps [of pre "[x]"])
next
  case (Cons y ys)
  show ?case
  proof (cases "en < mr_end x")
    case True
    have "set_insert range_lt (pre @ y # ys) (MemoryRange en (mr_end x)) = pre @ MemoryRange en (mr_end x) # y # ys"
      using Cons.prems True
      by (intro range_order.set_insert_at) (fastforce simp: range_simps range_lt_def)+
    with True Cons.prems(3) show ?thesis by (simp add: blank_loop.simps [of pre "x # y # ys"])
  next
    case False
    have "ranges_ok (pre @ y # ys)" "ranges_disjoint (pre @ y # ys)"
      using Cons.prems by (auto simp: range_simps)
    with Cons.IH [of y] False Cons.prems(3) show ?thesis
      by (auto simp: blank_loop.simps [of pre "x # y # ys"])
  qed
qed

text \<open>A set after the removal: untouched elements in front, what is left of the others behind.\<close>

lemma blank_remove_cases:
  assumes ok: "ranges_ok s" and dj: "ranges_disjoint s" and wf: "range_wf r"
  obtains
    (untouched) "blank_remove s r = s" and "cover s \<inter> range_bytes r = {}"
  | (trimmed) frnt behd where "blank_remove s r = frnt @ trim (mr_end r) behd"
      and "ranges_ok (frnt @ behd)" and "ranges_disjoint (frnt @ behd)" and "cover (frnt @ behd) = cover s"
      and "\<forall>x \<in> set frnt. mr_end x \<le> mr_start r" and "\<forall>x \<in> set behd. mr_start r \<le> mr_start x"
proof (cases "s = []")
  case True
  then show thesis using untouched by (simp add: blank_remove_def)
next
  case False
  obtain before after where sp: "set_split range_lt s r = (before, after)"
    by (cases "set_split range_lt s r")
  note sps = range_split [OF ok sp]
  have wfr: "mr_start r \<le> mr_end r" using wf by (simp add: range_wf_def)
  show thesis
  proof (cases before rule: rev_cases)
    case Nil
    with False sps(1) obtain b bs where s: "s = b # bs" "after = b # bs" by (cases after) auto
    show thesis
    proof (cases "mr_end r \<le> mr_start b")
      case True
      with sp Nil s have "blank_remove s r = s"
        by (simp add: blank_remove_def blank_loop.simps [of _ "[]"])
      moreover have "\<forall>x \<in> set s. mr_end r \<le> mr_start x"
        using True ok s(1) by (auto simp: range_simps)
      ultimately show thesis using untouched by (fastforce simp: cover_def)
    next
      case F: False
      with blank_loop_trim [of "[]" b bs "mr_end r"] ok dj s have
        "blank_loop [] s (mr_start b) (mr_end r) = trim (mr_end r) s" by simp
      with F sp Nil s have "blank_remove s r = [] @ trim (mr_end r) s"
        by (simp add: blank_remove_def blank_loop.simps [of _ "[]"])
      moreover have "\<forall>x \<in> set s. mr_start r \<le> mr_start x" using sps(5) s by auto
      ultimately show thesis using trimmed [of "[]" s] ok dj by simp
    qed
  next
    case (snoc pre l)
    have s: "s = pre @ l # after" using sps(1) snoc by simp
    have l: "mr_start l \<le> mr_start r" "mr_start l \<le> mr_end l"
      using sps(2,4) snoc by (auto simp: range_simps range_wf_def)
    have pre: "\<forall>x \<in> set pre. mr_end x \<le> mr_start l" using dj s by (auto simp: range_simps)
    have br: "blank_remove s r = blank_loop pre (l # after) (mr_start r) (mr_end r)"
      using False sp snoc by (simp add: blank_remove_def)
    consider (same) "mr_start r = mr_start l" | (inside) "mr_start l < mr_start r" "mr_start r < mr_end l"
      | (behind) "mr_start l < mr_start r" "mr_end l \<le> mr_start r"
      using l(1) by (meson linorder_not_le order_le_less)
    then show thesis
    proof cases
      case same
      then have "blank_remove s r = pre @ trim (mr_end r) (l # after)"
        using br blank_loop_trim [of pre l after "mr_end r"] ok dj s wfr by simp
      moreover have "\<forall>x \<in> set (l # after). mr_start r \<le> mr_start x"
        using same sps(5) by (auto intro: less_imp_le)
      ultimately show thesis using trimmed [of pre "l # after"] ok dj s same pre by auto
    next
      case inside
      let ?a = "MemoryRange (mr_start l) (mr_start r)" and ?b = "MemoryRange (mr_start r) (mr_end l)"
      have ok': "ranges_ok ((pre @ [?a]) @ ?b # after)" "ranges_disjoint ((pre @ [?a]) @ ?b # after)"
        using ok dj s inside sps(5) by (force simp: range_simps range_wf_def)+
      have "blank_remove s r = blank_loop (pre @ [?a]) (?b # after) (mr_start r) (mr_end r)"
        using br inside by (auto simp: blank_loop.simps [of pre "l # after"] split: if_splits)
      then have eq: "blank_remove s r = (pre @ [?a]) @ trim (mr_end r) (?b # after)"
        using blank_loop_trim [OF ok'] wfr by simp
      have cov: "cover ((pre @ [?a]) @ ?b # after) = cover s" using inside s by auto
      have fr: "\<forall>x \<in> set (pre @ [?a]). mr_end x \<le> mr_start r"
        using pre l(1) by (auto intro: order_trans)
      have bk: "\<forall>x \<in> set (?b # after). mr_start r \<le> mr_start x"
        using sps(5) by (auto intro: less_imp_le)
      show thesis by (rule trimmed [OF eq ok' cov fr bk])
    next
      case behind
      show thesis
      proof (cases "after = [] \<or> \<not> mr_start (hd after) < mr_end r")
        case True
        with br behind have "blank_remove s r = s"
          using s by (subst (asm) blank_loop.simps) (auto split: list.splits if_splits)
        moreover have "\<forall>x \<in> set after. mr_end r \<le> mr_start x"
          using True ok s by (cases after) (auto simp: range_simps)
        moreover have "\<forall>x \<in> set (pre @ [l]). mr_end x \<le> mr_start r"
          using behind pre l by (auto intro: order_trans)
        ultimately show thesis using untouched s by (fastforce simp: cover_def)
      next
        case False
        then obtain y ys where after: "after = y # ys" "mr_start y < mr_end r" by (cases after) auto
        have "blank_loop (pre @ [l]) after (mr_start y) (mr_end r) = (pre @ [l]) @ trim (mr_end r) after"
          using blank_loop_trim [of "pre @ [l]" y ys "mr_end r"] ok dj s after by simp
        then have eq: "blank_remove s r = (pre @ [l]) @ trim (mr_end r) after"
          using br behind after by (subst (asm) blank_loop.simps [of pre "l # after"]) (auto split: if_splits)
        have fr: "\<forall>x \<in> set (pre @ [l]). mr_end x \<le> mr_start r"
          using behind pre l by (auto intro: order_trans)
        have bk: "\<forall>x \<in> set after. mr_start r \<le> mr_start x"
          using sps(5) by (auto intro: less_imp_le)
        show thesis by (rule trimmed [OF eq _ _ _ fr bk]) (use ok dj s in auto)
      qed
    qed
  qed
qed

lemma blank_remove_sound:
  assumes "ranges_ok s" and "ranges_disjoint s" and "range_wf r"
  shows "ranges_ok (blank_remove s r) \<and> ranges_disjoint (blank_remove s r)
     \<and> cover (blank_remove s r) = cover s - range_bytes r"
  using assms
proof (cases rule: blank_remove_cases)
  case untouched
  with assms show ?thesis by auto
next
  case (trimmed frnt behd)
  note br = trimmed(1) and ok = trimmed(2) and dj = trimmed(3) and cov = trimmed(4)
    and fr = trimmed(5) and bk = trimmed(6)
  have t: "ranges_ok (trim (mr_end r) behd)" "ranges_disjoint (trim (mr_end r) behd)"
    "cover (trim (mr_end r) behd) = cover behd \<inter> {a. mr_end r \<le> a}"
    using trim_ok [of behd "mr_end r"] ok dj by (auto simp: range_simps)
  have mem: "\<exists>z \<in> set behd. mr_start z \<le> mr_start y" if "y \<in> set (trim (mr_end r) behd)" for y
    using trim_mem [OF that] by auto
  have "ranges_ok (blank_remove s r)"
    using br ok t(1) mem by (fastforce simp: range_simps)
  moreover have "ranges_disjoint (blank_remove s r)"
    using br dj t(2) mem by (fastforce simp: range_simps)
  moreover have "cover frnt \<inter> range_bytes r = {}"
    using fr by (fastforce simp: cover_def)
  moreover have "cover behd \<inter> {a. mr_end r \<le> a} = cover behd - range_bytes r"
    using bk by (fastforce simp: cover_def)
  ultimately show ?thesis using br t(3) cov by auto
qed

end
