(* ===== verification/Operations.thy ===== *)
theory Operations
  imports Range_Sets
begin

section \<open>Operations and the enumerations of the interface\<close>

text \<open>
  The operations of \<^verbatim>\<open>redshow/include/operation\<close> as extensible records, one extension per
  derived struct, and the enumerations of \<^verbatim>\<open>redshow/include/redshow.h\<close> and
  \<^verbatim>\<open>include/gpu-patch.h\<close>. The shadow buffers of a memory object are host addresses: what
  \<^verbatim>\<open>new u8[len]\<close> returned is an argument of the constructors. Then the byte loops over
  host memory that the data-flow analysis measures redundancy with.
\<close>

datatype operation_type =
    OPERATION_TYPE_KERNEL
  | OPERATION_TYPE_MEMORY
  | OPERATION_TYPE_MEMCPY
  | OPERATION_TYPE_MEMSET
  | OPERATION_TYPE_MEMFREE

definition get_operation_type :: "operation_type \<Rightarrow> string" where
  "get_operation_type ty =
     (case ty of
        OPERATION_TYPE_KERNEL \<Rightarrow> ''KERNEL''
      | OPERATION_TYPE_MEMORY \<Rightarrow> ''MEMORY''
      | OPERATION_TYPE_MEMCPY \<Rightarrow> ''MEMCPY''
      | OPERATION_TYPE_MEMSET \<Rightarrow> ''MEMSET''
      | OPERATION_TYPE_MEMFREE \<Rightarrow> ''MEMFREE'')"

record op_base =
  op_id :: u64
  ctx_id :: i32
  op_type :: operation_type

record kernel = op_base +
  k_cpu_thread :: u32
  k_stream_id :: u32
  k_cubin_id :: u32
  k_mod_id :: u32
  k_func_index :: u32
  k_func_addr :: u64

record memory = op_base +
  mem_stream_id :: u32
  mem_range :: memory_range
  mem_len :: u64
  mem_value :: u64
  mem_value_cache :: u64

record memfree = op_base +
  mf_stream_id :: u32
  mf_range :: memory_range
  mf_len :: u64

record memcpy = op_base +
  src_memory_op_id :: u64
  src_stream_id :: u32
  src_start :: u64
  src_shadow_start :: u64
  dst_memory_op_id :: u64
  dst_stream_id :: u32
  dst_start :: u64
  dst_shadow_start :: u64
  mc_len :: u64

record memset = op_base +
  ms_memory_op_id :: u64
  ms_stream_id :: u32
  ms_start :: u64
  ms_shadow_start :: u64
  ms_value :: u64
  ms_len :: u64

text \<open>An \<^verbatim>\<open>OperationPtr\<close> with its dynamic type.\<close>

datatype operation =
    KernelOp kernel
  | MemoryOp memory
  | MemcpyOp memcpy
  | MemsetOp memset
  | MemfreeOp memfree

definition operation_ctx :: "operation \<Rightarrow> i32" where
  "operation_ctx op =
     (case op of
        KernelOp k \<Rightarrow> ctx_id k
      | MemoryOp m \<Rightarrow> ctx_id m
      | MemcpyOp c \<Rightarrow> ctx_id c
      | MemsetOp s \<Rightarrow> ctx_id s
      | MemfreeOp f \<Rightarrow> ctx_id f)"

definition operation_kind :: "operation \<Rightarrow> operation_type" where
  "operation_kind op =
     (case op of
        KernelOp k \<Rightarrow> op_type k
      | MemoryOp m \<Rightarrow> op_type m
      | MemcpyOp c \<Rightarrow> op_type c
      | MemsetOp s \<Rightarrow> op_type s
      | MemfreeOp f \<Rightarrow> op_type f)"

subsection \<open>Constructors\<close>

text \<open>\<^verbatim>\<open>Kernel(op_id, ctx_id, cpu_thread, stream_id, cubin_id, mod_id, func_index, func_addr)\<close>, the
  constructor the others delegate to.\<close>

definition Kernel :: "u64 \<Rightarrow> i32 \<Rightarrow> u32 \<Rightarrow> u32 \<Rightarrow> u32 \<Rightarrow> u32 \<Rightarrow> u32 \<Rightarrow> u64 \<Rightarrow> kernel" where
  "Kernel oid ctx thr strm cub md fidx faddr =
     \<lparr>op_id = oid, ctx_id = ctx, op_type = OPERATION_TYPE_KERNEL, k_cpu_thread = thr,
      k_stream_id = strm, k_cubin_id = cub, k_mod_id = md, k_func_index = fidx, k_func_addr = faddr\<rparr>"

definition Kernel_launch :: "u64 \<Rightarrow> i32 \<Rightarrow> u32 \<Rightarrow> u32 \<Rightarrow> kernel" where
  "Kernel_launch oid ctx thr strm = Kernel oid ctx thr strm 0 0 0 0"

text \<open>\<^verbatim>\<open>Memory(stream_id, op_id, ctx_id, memory_range)\<close>: the shadow buffers are allocated.\<close>

definition Memory_object :: "u32 \<Rightarrow> u64 \<Rightarrow> i32 \<Rightarrow> memory_range \<Rightarrow> u64 \<Rightarrow> u64 \<Rightarrow> memory" where
  "Memory_object strm oid ctx r value cache =
     \<lparr>op_id = oid, ctx_id = ctx, op_type = OPERATION_TYPE_MEMORY, mem_stream_id = strm,
      mem_range = r, mem_len = mr_end r - mr_start r, mem_value = value, mem_value_cache = cache\<rparr>"

text \<open>
  \<^verbatim>\<open>Memory(op_id, ctx_id, start, len)\<close>, the piece of an object a \<^verbatim>\<open>unit_access\<close> reports (no shadow:
  null pointers, and a stream id nobody reads), and \<^verbatim>\<open>Memory(op_id, ctx_id)\<close>.
\<close>

definition Memory_access :: "u64 \<Rightarrow> i32 \<Rightarrow> u64 \<Rightarrow> u64 \<Rightarrow> memory" where
  "Memory_access oid ctx start len =
     \<lparr>op_id = oid, ctx_id = ctx, op_type = OPERATION_TYPE_MEMORY, mem_stream_id = 0,
      mem_range = MemoryRange start (start + len), mem_len = len, mem_value = 0, mem_value_cache = 0\<rparr>"

definition Memory_special :: "u64 \<Rightarrow> i32 \<Rightarrow> memory" where
  "Memory_special oid ctx =
     \<lparr>op_id = oid, ctx_id = ctx, op_type = OPERATION_TYPE_MEMORY, mem_stream_id = 0,
      mem_range = MemoryRange 0 0, mem_len = 0, mem_value = 0, mem_value_cache = 0\<rparr>"

definition Memfree :: "u32 \<Rightarrow> u64 \<Rightarrow> i32 \<Rightarrow> memory_range \<Rightarrow> memfree" where
  "Memfree strm oid ctx r =
     \<lparr>op_id = oid, ctx_id = ctx, op_type = OPERATION_TYPE_MEMFREE, mf_stream_id = strm,
      mf_range = r, mf_len = mr_end r - mr_start r\<rparr>"

definition Memcpy ::
  "u64 \<Rightarrow> i32 \<Rightarrow> u64 \<Rightarrow> u32 \<Rightarrow> u64 \<Rightarrow> u64 \<Rightarrow> u64 \<Rightarrow> u32 \<Rightarrow> u64 \<Rightarrow> u64 \<Rightarrow> u64 \<Rightarrow> memcpy" where
  "Memcpy oid ctx smem sstrm sstart sshadow dmem dstrm dstart dshadow len =
     \<lparr>op_id = oid, ctx_id = ctx, op_type = OPERATION_TYPE_MEMCPY, src_memory_op_id = smem,
      src_stream_id = sstrm, src_start = sstart, src_shadow_start = sshadow, dst_memory_op_id = dmem,
      dst_stream_id = dstrm, dst_start = dstart, dst_shadow_start = dshadow, mc_len = len\<rparr>"

definition Memset :: "u64 \<Rightarrow> i32 \<Rightarrow> u64 \<Rightarrow> u32 \<Rightarrow> u64 \<Rightarrow> u64 \<Rightarrow> u64 \<Rightarrow> u64 \<Rightarrow> memset" where
  "Memset oid ctx mem strm start shadow value len =
     \<lparr>op_id = oid, ctx_id = ctx, op_type = OPERATION_TYPE_MEMSET, ms_memory_op_id = mem,
      ms_stream_id = strm, ms_start = start, ms_shadow_start = shadow, ms_value = value, ms_len = len\<rparr>"

subsection \<open>Enumerations\<close>

datatype redshow_result =
    REDSHOW_SUCCESS
  | REDSHOW_ERROR_NOT_IMPL
  | REDSHOW_ERROR_NOT_EXIST_ENTRY
  | REDSHOW_ERROR_DUPLICATE_ENTRY
  | REDSHOW_ERROR_NOT_REGISTER_CALLBACK
  | REDSHOW_ERROR_NO_SUCH_FILE
  | REDSHOW_ERROR_FAILED_ANALYZE_CUBIN
  | REDSHOW_ERROR_FAILED_ANALYZE_TRACE
  | REDSHOW_ERROR_NO_SUCH_APPROX
  | REDSHOW_ERROR_NO_SUCH_DATA_TYPE
  | REDSHOW_ERROR_NO_SUCH_ANALYSIS

text \<open>The memory types below the first real operation id (\<^verbatim>\<open>redshow_memory_type\<close>).\<close>

definition REDSHOW_MEMORY_SHARED :: u64 where "REDSHOW_MEMORY_SHARED = 1"
definition REDSHOW_MEMORY_LOCAL :: u64 where "REDSHOW_MEMORY_LOCAL = 2"
definition REDSHOW_MEMORY_CONSTANT :: u64 where "REDSHOW_MEMORY_CONSTANT = 4"
definition REDSHOW_MEMORY_UVM :: u64 where "REDSHOW_MEMORY_UVM = 5"
definition REDSHOW_MEMORY_HOST :: u64 where "REDSHOW_MEMORY_HOST = 6"

definition SHARED_MEMORY_CTX_ID :: i32 where "SHARED_MEMORY_CTX_ID = 2 ^ 30"
definition CONSTANT_MEMORY_CTX_ID :: i32 where "CONSTANT_MEMORY_CTX_ID = 2 ^ 30 + 1"
definition UVM_MEMORY_CTX_ID :: i32 where "UVM_MEMORY_CTX_ID = 2 ^ 30 + 2"
definition HOST_MEMORY_CTX_ID :: i32 where "HOST_MEMORY_CTX_ID = 2 ^ 30 + 3"
definition LOCAL_MEMORY_CTX_ID :: i32 where "LOCAL_MEMORY_CTX_ID = 2 ^ 30 + 4"

lemmas memory_type_defs =
  REDSHOW_MEMORY_SHARED_def REDSHOW_MEMORY_LOCAL_def REDSHOW_MEMORY_CONSTANT_def
  REDSHOW_MEMORY_UVM_def REDSHOW_MEMORY_HOST_def

lemmas memory_ctx_defs =
  SHARED_MEMORY_CTX_ID_def CONSTANT_MEMORY_CTX_ID_def UVM_MEMORY_CTX_ID_def
  HOST_MEMORY_CTX_ID_def LOCAL_MEMORY_CTX_ID_def

datatype gpu_patch_type =
    GPU_PATCH_TYPE_DEFAULT
  | GPU_PATCH_TYPE_ADDRESS_PATCH
  | GPU_PATCH_TYPE_ADDRESS_ANALYSIS

unbundle bit_operations_syntax

definition GPU_PATCH_READ :: u32 where "GPU_PATCH_READ = 0x1"
definition GPU_PATCH_WRITE :: u32 where "GPU_PATCH_WRITE = 0x2"
definition GPU_PATCH_LOCAL :: u32 where "GPU_PATCH_LOCAL = 0x8"
definition GPU_PATCH_SHARED :: u32 where "GPU_PATCH_SHARED = 0x10"
definition GPU_PATCH_BLOCK_ENTER_FLAG :: u32 where "GPU_PATCH_BLOCK_ENTER_FLAG = 0x20"
definition GPU_PATCH_BLOCK_EXIT_FLAG :: u32 where "GPU_PATCH_BLOCK_EXIT_FLAG = 0x40"

lemmas gpu_patch_flag_defs =
  GPU_PATCH_READ_def GPU_PATCH_WRITE_def GPU_PATCH_LOCAL_def GPU_PATCH_SHARED_def
  GPU_PATCH_BLOCK_ENTER_FLAG_def GPU_PATCH_BLOCK_EXIT_FLAG_def

text \<open>\<^verbatim>\<open>flags & flag\<close> as a condition.\<close>

definition has_flag :: "u32 \<Rightarrow> u32 \<Rightarrow> bool" where
  "has_flag flags flag = (flags AND flag \<noteq> 0)"

end
