(* ===== verification/Memory_Snapshot.thy ===== *)
theory Memory_Snapshot
  imports Operations
begin

section \<open>Snapshots of the live memory objects\<close>

text \<open>
  \<^verbatim>\<open>redshow.cpp\<close> keeps, for every operation that changed the set of device allocations, the whole map
  of live objects at that point: \<^verbatim>\<open>memory_snapshot\<close>, from operation ids to \<^verbatim>\<open>MemoryMap\<close>s, and the
  same for the sub-allocations of a framework, \<^verbatim>\<open>sub_memory_snapshot\<close>. A trace that arrives late is
  resolved against the snapshot of its own operation, found with \<^verbatim>\<open>prev\<close>. The functions
  here are the bodies of \<^verbatim>\<open>redshow_memory_register\<close>, \<^verbatim>\<open>redshow_memory_unregister\<close>, their sub-memory
  twins, the queries, and the pruning in \<^verbatim>\<open>redshow_analysis_end\<close>, up to the calls of the analyses, which
  the theory \<open>Redshow\<close> adds. The locks around them make each body one atomic step.
\<close>

type_synonym memory_map = "(memory_range, memory) omap"
type_synonym snapshots = "(u64, memory_map) omap"

definition snapshot_register ::
  "u64 \<Rightarrow> memory_range \<Rightarrow> memory \<Rightarrow> snapshots \<Rightarrow> redshow_result \<times> snapshots" where
  "snapshot_register host_op_id r memory snap =
     (if snap = [] then
        (REDSHOW_SUCCESS, map_set (<) snap host_op_id (map_set range_lt [] r memory))
      else
        (case map_prev (<) snap host_op_id of
           Some (_, mm) \<Rightarrow>
             if \<not> map_has range_lt mm r then
               (REDSHOW_SUCCESS, map_set (<) snap host_op_id (map_set range_lt mm r memory))
             else (REDSHOW_ERROR_DUPLICATE_ENTRY, snap)
         | None \<Rightarrow> (REDSHOW_ERROR_NOT_EXIST_ENTRY, snap)))"

definition snapshot_unregister ::
  "u64 \<Rightarrow> memory_range \<Rightarrow> snapshots \<Rightarrow> redshow_result \<times> snapshots" where
  "snapshot_unregister host_op_id r snap =
     (case map_prev (<) snap host_op_id of
        Some (_, mm) \<Rightarrow>
          (case map_find range_lt mm r of
             Some _ \<Rightarrow> (REDSHOW_SUCCESS, map_set (<) snap host_op_id (map_erase range_lt mm r))
           | None \<Rightarrow> (REDSHOW_ERROR_NOT_EXIST_ENTRY, snap))
      | None \<Rightarrow> (REDSHOW_ERROR_NOT_EXIST_ENTRY, snap))"

text \<open>What \<^verbatim>\<open>redshow_memory_query\<close> writes through its out parameters when it succeeds.\<close>

record query_result =
  q_memory_id :: i32
  q_memory_op_id :: u64
  q_shadow_start :: u64
  q_len :: u64

definition redshow_memory_query ::
  "u64 \<Rightarrow> u64 \<Rightarrow> snapshots \<Rightarrow> redshow_result \<times> query_result option" where
  "redshow_memory_query host_op_id start snap =
     (case map_prev (<) snap host_op_id of
        Some (_, mm) \<Rightarrow>
          (case map_prev range_lt mm (MemoryRange start 0) of
             Some (r, m) \<Rightarrow>
               if start \<le> mr_end r then
                 (REDSHOW_SUCCESS,
                  Some \<lparr>q_memory_id = ctx_id m, q_memory_op_id = op_id m,
                        q_shadow_start = mem_value m + (start - mr_start r), q_len = mem_len m\<rparr>)
               else (REDSHOW_ERROR_NOT_EXIST_ENTRY, None)
           | None \<Rightarrow> (REDSHOW_ERROR_NOT_EXIST_ENTRY, None))
      | None \<Rightarrow> (REDSHOW_ERROR_NOT_EXIST_ENTRY, None))"

text \<open>
  \<^verbatim>\<open>redshow_memory_ranges_get\<close>: the entries written to \<^verbatim>\<open>start_end\<close>, in order, and \<^verbatim>\<open>*len\<close>.
\<close>

definition redshow_memory_ranges_get ::
  "u64 \<Rightarrow> u64 \<Rightarrow> snapshots \<Rightarrow> redshow_result \<times> (u64 \<times> u64) list \<times> u32" where
  "redshow_memory_ranges_get host_op_id limit snap =
     (case map_prev (<) snap host_op_id of
        Some (_, mm) \<Rightarrow>
          if mm \<noteq> [] then
            (REDSHOW_SUCCESS, map (\<lambda>(r, _). (mr_start r, mr_end r)) mm, of_nat (length mm))
          else (REDSHOW_ERROR_NOT_EXIST_ENTRY, [], 0)
      | None \<Rightarrow> (REDSHOW_ERROR_NOT_EXIST_ENTRY, [], 0))"

text \<open>
  The pruning in \<^verbatim>\<open>redshow_analysis_end\<close>: of the snapshots older than the oldest kernel of the
  analysis, only the newest stays.
\<close>

definition prune_ids :: "u64 \<Rightarrow> snapshots \<Rightarrow> u64 list" where
  "prune_ids mini snap = filter (\<lambda>k. k < mini) (map fst snap)"

definition prune_max :: "u64 list \<Rightarrow> u64" where
  "prune_max ids = fold (\<lambda>k m. if k > m then k else m) ids 0"

definition prune_snapshots :: "u64 \<Rightarrow> snapshots \<Rightarrow> snapshots" where
  "prune_snapshots mini snap =
     (let ids = prune_ids mini snap; newest = prune_max ids
      in fold (\<lambda>k s. if k = newest then s else map_erase (<) s k) ids snap)"

subsection \<open>Invariant\<close>

text \<open>
  The maps are ordered, and an object is filed under its own range.
\<close>

definition memory_map_ok :: "memory_map \<Rightarrow> bool" where
  "memory_map_ok mm = (map_ok range_lt mm \<and> (\<forall>(r, m) \<in> set mm. mem_range m = r))"

definition snapshots_ok :: "snapshots \<Rightarrow> bool" where
  "snapshots_ok snap = (map_ok (<) snap \<and> (\<forall>(k, mm) \<in> set snap. memory_map_ok mm))"

lemma memory_map_ok_set:
  assumes "memory_map_ok mm" and "\<not> map_has range_lt mm (mem_range m)"
  shows "memory_map_ok (map_set range_lt mm (mem_range m) m)"
proof -
  have "map_ok range_lt (map_set range_lt mm (mem_range m) m)"
    using assms(1) by (simp add: memory_map_ok_def range_order.map_ok_set)
  moreover have "(r, x) \<in> set (map_set range_lt mm (mem_range m) m) \<Longrightarrow> (r, x) \<in> set mm \<or> (r, x) = (mem_range m, m)"
    for r x
    using assms(2) by (induction mm) (auto simp: map_has_def split: if_splits)
  ultimately show ?thesis using assms(1) by (fastforce simp: memory_map_ok_def)
qed

lemma memory_map_ok_erase: "memory_map_ok mm \<Longrightarrow> memory_map_ok (map_erase range_lt mm r)"
  using set_map_erase [of range_lt mm r] by (auto simp: memory_map_ok_def range_order.map_ok_erase)

lemma snapshots_ok_set:
  assumes "snapshots_ok snap" and "memory_map_ok mm"
  shows "snapshots_ok (map_set (<) snap k mm)"
proof -
  have "(k', mm') \<in> set (map_set (<) snap k mm) \<Longrightarrow> memory_map_ok mm'" for k' mm'
    using map_set_mem [of "(k', mm')" "(<)" snap k mm] assms by (auto simp: snapshots_ok_def)
  then show ?thesis using assms(1) by (auto simp: snapshots_ok_def u64_order.map_ok_set)
qed

lemma snapshots_ok_prev:
  "snapshots_ok snap \<Longrightarrow> map_prev (<) snap k = Some (k', mm) \<Longrightarrow> memory_map_ok mm"
  by (auto simp: snapshots_ok_def dest: map_prev_Some_mem)

lemma memory_map_ok_single: "memory_map_ok (map_set range_lt [] (mem_range m) m)"
  by (simp add: memory_map_ok_def map_ok_def)

lemma snapshots_ok_register:
  assumes "snapshots_ok snap"
  shows "snapshots_ok (snd (snapshot_register k (mem_range m) m snap))"
  using assms snapshots_ok_set [OF assms] snapshots_ok_prev [OF assms] memory_map_ok_set memory_map_ok_single
  by (auto simp: snapshot_register_def split: option.splits)

lemma snapshots_ok_unregister:
  assumes "snapshots_ok snap"
  shows "snapshots_ok (snd (snapshot_unregister k r snap))"
  using assms snapshots_ok_set [OF assms] snapshots_ok_prev [OF assms] memory_map_ok_erase
  by (auto simp: snapshot_unregister_def split: option.splits)

subsection \<open>Pruning keeps every lookup that can still come\<close>

lemma prune_max_props:
  assumes "ids \<noteq> []"
  shows "prune_max ids \<in> set ids" and "\<forall>k \<in> set ids. k \<le> prune_max ids"
proof -
  have max: "(\<lambda>k m. if k > m then k else m) = (max :: u64 \<Rightarrow> u64 \<Rightarrow> u64)"
    by (auto simp: fun_eq_iff max_def not_less)
  have "prune_max ids = Max (set (0 # ids))"
    unfolding prune_max_def max by (subst Max.set_eq_fold) simp
  also have "\<dots> = Max (set ids)"
    using assms by (simp add: max_def)
  finally have "prune_max ids = Max (set ids)" .
  then show "prune_max ids \<in> set ids" and "\<forall>k \<in> set ids. k \<le> prune_max ids"
    using assms by simp_all
qed

lemma fold_erase_filter:
  fixes snap :: snapshots
  assumes "map_ok (<) snap"
  shows "fold (\<lambda>k s. if k = n then s else map_erase (<) s k) ids snap =
     filter (\<lambda>e. fst e \<notin> set ids - {n}) snap"
  using assms
proof (induction ids arbitrary: snap)
  case (Cons k ids)
  show ?case
  proof (cases "k = n")
    case True
    with Cons.IH [OF Cons.prems] show ?thesis by (auto intro: filter_cong)
  next
    case False
    have "map_ok (<) (map_erase (<) snap k)"
      using Cons.prems by (rule u64_order.map_ok_erase)
    with Cons.IH [OF this] False show ?thesis
      by (auto simp: u64_order.map_erase_filter [OF Cons.prems] intro!: filter_cong)
  qed
qed simp

lemma prune_snapshots_filter:
  assumes "map_ok (<) snap"
  shows "prune_snapshots mini snap =
     filter (\<lambda>e. mini \<le> fst e \<or> fst e = prune_max (prune_ids mini snap)) snap"
  using fold_erase_filter [OF assms]
  by (auto simp: prune_snapshots_def Let_def prune_ids_def not_less intro!: filter_cong)

text \<open>
  C11. \<^verbatim>\<open>redshow_analysis_end\<close> drops only snapshots no later lookup can need: after the pruning,
  the lookup of every operation from the oldest analysed kernel on finds the same snapshot as before.
\<close>

theorem prune_snapshots_lookup:
  assumes "snapshots_ok snap" and "mini \<le> host_op_id"
  shows "map_prev (<) (prune_snapshots mini snap) host_op_id = map_prev (<) snap host_op_id"
proof -
  have ok: "map_ok (<) snap" using assms(1) by (simp add: snapshots_ok_def)
  note pf = prune_snapshots_filter [OF ok]
  have ok': "map_ok (<) (prune_snapshots mini snap)"
    using ok by (simp add: pf map_ok_def sorted_wrt_filter)
  show ?thesis
  proof (rule u64_order.map_prev_eqI [OF ok ok'])
    show "(a, v) \<in> set snap" if "(a, v) \<in> set (prune_snapshots mini snap)" for a v
      using that by (simp add: pf)
    fix a v assume "map_prev (<) snap host_op_id = Some (a, v)"
    then have av: "(a, v) \<in> set snap" and top: "\<forall>b \<in> fst ` set snap. b \<le> host_op_id \<longrightarrow> b \<le> a"
      by (auto simp: u64_order.map_prev_iff [OF ok] not_less)
    show "(a, v) \<in> set (prune_snapshots mini snap)"
    proof (cases "mini \<le> a")
      case False
      then have mem: "a \<in> set (prune_ids mini snap)" using av by (force simp: prune_ids_def)
      then have ne: "prune_ids mini snap \<noteq> []" by auto
      have "prune_max (prune_ids mini snap) \<le> a"
        using prune_max_props(1) [OF ne] top assms(2) by (auto simp: prune_ids_def)
      with prune_max_props(2) [OF ne] mem have "a = prune_max (prune_ids mini snap)" by fastforce
      with av show ?thesis by (simp add: pf)
    qed (use av in \<open>simp add: pf\<close>)
  qed
qed

theorem prune_snapshots_lookup_witness:
  "map_prev (<) (prune_snapshots 30 [(10, []), (20, []), (40, [])]) 35 = Some (20, []) \<and>
   prune_snapshots 30 [(10, []), (20, []), (40, [])] = [(20, []), (40, [])]"
proof -
  have "snapshots_ok [(10, []), (20, []), (40, [])]"
    by (simp add: snapshots_ok_def map_ok_def memory_map_ok_def)
  from prune_snapshots_lookup [OF this, of 30 35] show ?thesis
    by (simp add: map_prev_def Let_def prune_snapshots_def prune_ids_def prune_max_def)
qed

subsection \<open>Snapshots against the history of allocations\<close>

text \<open>
  The abstract component is the history itself: the objects live at an operation are what the
  allocations and frees up to it leave, each address holding at most one object. The snapshots
  implement it: the operation ids of the tool grow, so an event is always newer than every
  snapshot, and then the lookup at any id, past or present, gives the history's answer.
\<close>

datatype mem_event = Alloc u64 memory | Free u64 memory_range

fun event_id :: "mem_event \<Rightarrow> u64" where
  "event_id (Alloc k m) = k"
| "event_id (Free k r) = k"

fun apply_event :: "mem_event \<Rightarrow> snapshots \<Rightarrow> snapshots" where
  "apply_event (Alloc k m) snap = snd (snapshot_register k (mem_range m) m snap)"
| "apply_event (Free k r) snap = snd (snapshot_unregister k r snap)"

type_synonym live = "u64 \<rightharpoonup> memory"

fun live_step :: "mem_event \<Rightarrow> live \<Rightarrow> live" where
  "live_step (Alloc k m) l =
     (if l (mr_start (mem_range m)) = None then l(mr_start (mem_range m) \<mapsto> m) else l)"
| "live_step (Free k r) l = l(mr_start r := None)"

definition live_at :: "mem_event list \<Rightarrow> u64 \<Rightarrow> live" where
  "live_at es t = fold live_step (filter (\<lambda>e. event_id e \<le> t) es) Map.empty"

definition map_live :: "memory_map \<Rightarrow> live" where
  "map_live mm = (\<lambda>a. map_at range_lt mm (MemoryRange a 0))"

definition lookup_at :: "snapshots \<Rightarrow> u64 \<Rightarrow> live" where
  "lookup_at snap t = (case map_prev (<) snap t of None \<Rightarrow> Map.empty | Some (_, mm) \<Rightarrow> map_live mm)"

lemma map_live_Nil [simp]: "map_live [] = Map.empty"
  by (simp add: map_live_def)

lemma map_live_at: "map_live mm (mr_start r) = map_at range_lt mm r"
  by (simp add: map_live_def) (rule range_order.map_at_cong; simp add: range_lt_def)

lemma map_live_other: "a \<noteq> mr_start r \<Longrightarrow> range_lt r (MemoryRange a 0) \<or> range_lt (MemoryRange a 0) r"
  by (auto simp: range_lt_def)

lemma map_live_set:
  assumes "map_ok range_lt mm"
  shows "map_live (map_set range_lt mm r m) = (map_live mm)(mr_start r \<mapsto> m)"
proof
  fix a
  show "map_live (map_set range_lt mm r m) a = ((map_live mm)(mr_start r \<mapsto> m)) a"
    using range_order.map_at_set_same [OF assms] range_order.map_at_set_other [OF assms map_live_other]
    by (cases "a = mr_start r") (simp_all add: map_live_at, simp add: map_live_def)
qed

lemma map_live_erase:
  assumes "map_ok range_lt mm"
  shows "map_live (map_erase range_lt mm r) = (map_live mm)(mr_start r := None)"
proof
  fix a
  show "map_live (map_erase range_lt mm r) a = ((map_live mm)(mr_start r := None)) a"
    using range_order.map_at_erase_same [OF assms] range_order.map_at_erase_other [OF assms map_live_other]
    by (cases "a = mr_start r") (simp_all add: map_live_at, simp add: map_live_def)
qed

text \<open>A snapshot stored at an id above all others is what lookups from there on find.\<close>

lemma lookup_at_store:
  assumes ok: "map_ok (<) snap" and new: "\<forall>b \<in> fst ` set snap. b < k"
  shows "lookup_at (map_set (<) snap k mm) t = (if k \<le> t then map_live mm else lookup_at snap t)"
proof -
  have ms: "map_set (<) snap k mm = snap @ [(k, mm)]" using new by (rule u64_order.map_set_max)
  have ok': "map_ok (<) (snap @ [(k, mm)])" using ok new by (auto simp: map_ok_def sorted_wrt_append)
  show ?thesis
  proof (cases "k \<le> t")
    case True
    have "map_prev (<) (snap @ [(k, mm)]) t = Some (k, mm)"
      using True new by (force simp: u64_order.map_prev_iff [OF ok'] not_less dest: less_imp_le)
    with True show ?thesis by (simp add: lookup_at_def ms)
  next
    case False
    have "map_prev (<) (snap @ [(k, mm)]) t = map_prev (<) snap t"
    proof (rule u64_order.map_prev_eqI [OF ok ok'])
      show "(a, v) \<in> set (snap @ [(k, mm)])" if "map_prev (<) snap t = Some (a, v)" for a v
        using that by (auto dest: map_prev_Some_mem)
    qed (use False in auto)
    with False show ?thesis by (simp add: lookup_at_def ms)
  qed
qed

lemma map_prev_above:
  fixes snap :: snapshots
  assumes "\<forall>b \<in> fst ` set snap. b < k" and "k \<le> t"
  shows "map_prev (<) snap t = map_prev (<) snap k"
proof -
  have "takeWhile (\<lambda>e. \<not> x < fst e) snap = snap" if "k \<le> x" for x
    using assms(1) that by (subst takeWhile_eq_all_conv) force
  from this [OF assms(2)] this [OF order_refl] show ?thesis by (simp only: map_prev_def)
qed

text \<open>One event, newer than every snapshot, moves the lookups from its id on by one abstract step.\<close>

lemma apply_event_lookup:
  assumes ok: "snapshots_ok snap" and new: "\<forall>b \<in> fst ` set snap. b < event_id e"
  shows "lookup_at (apply_event e snap) t =
     (if event_id e \<le> t then live_step e (lookup_at snap t) else lookup_at snap t)"
proof -
  have mok: "map_ok (<) snap" using ok by (simp add: snapshots_ok_def)
  have above: "event_id e \<le> t \<Longrightarrow> lookup_at snap t = lookup_at snap (event_id e)"
    using map_prev_above [OF new, of t] by (simp add: lookup_at_def)
  have mm: "map_ok range_lt mm" if "map_prev (<) snap k = Some (k', mm)" for k k' mm
    using snapshots_ok_prev [OF ok that] by (simp add: memory_map_ok_def)
  have ne: "map_prev (<) snap (event_id e) = None \<longleftrightarrow> snap = []"
    using new by (cases snap) (auto simp: u64_order.map_prev_None)
  show ?thesis
  proof (cases e)
    case (Alloc k m)
    note store = lookup_at_store [OF mok, of k]
    show ?thesis
    proof (cases "map_prev (<) snap k")
      case None
      with ne Alloc have "snap = []" by simp
      then show ?thesis
        using store [of "map_set range_lt [] (mem_range m) m" t] Alloc map_live_set [of "[]" "mem_range m" m]
        by (simp add: snapshot_register_def lookup_at_def [of "[]"] u64_order.map_prev_None)
    next
      case (Some x)
      obtain k' mm' where x: "x = (k', mm')" by (cases x)
      have at: "lookup_at snap k = map_live mm'" using Some x by (simp add: lookup_at_def)
      have "snap \<noteq> []" using ne Some Alloc by auto
      then show ?thesis
        using Some x Alloc new above store [of "map_set range_lt mm' (mem_range m) m" t] at
          map_live_set [OF mm [OF Some [unfolded x]]]
        by (auto simp: snapshot_register_def map_has_at map_live_at)
    qed
  next
    case (Free k r)
    note store = lookup_at_store [OF mok, of k]
    show ?thesis
    proof (cases "map_prev (<) snap k")
      case None
      then show ?thesis using ne Free
        by (simp add: snapshot_unregister_def lookup_at_def u64_order.map_prev_None)
    next
      case (Some x)
      obtain k' mm' where x: "x = (k', mm')" by (cases x)
      have at: "lookup_at snap k = map_live mm'" using Some x by (simp add: lookup_at_def)
      have gone: "(map_live mm')(mr_start r := None) = map_live mm'" if "map_find range_lt mm' r = None"
        using that map_live_at [of mm' r] by (auto simp: map_at_def)
      show ?thesis
        using Some x Free new above store [of "map_erase range_lt mm' r" t] at gone
          map_live_erase [OF mm [OF Some [unfolded x]]]
        by (auto simp: snapshot_unregister_def split: option.splits)
    qed
  qed
qed

definition run_events :: "mem_event list \<Rightarrow> snapshots" where
  "run_events es = fold apply_event es []"

lemma apply_event_keys: "fst ` set (apply_event e snap) \<subseteq> insert (event_id e) (fst ` set snap)"
  by (cases e)
    (simp_all add: snapshot_register_def snapshot_unregister_def map_set_key_set subset_insertI
      split: option.splits)

lemma snapshots_ok_event: "snapshots_ok snap \<Longrightarrow> snapshots_ok (apply_event e snap)"
  by (cases e) (simp_all add: snapshots_ok_register snapshots_ok_unregister)

lemma run_events_ok: "snapshots_ok (run_events es) \<and> fst ` set (run_events es) \<subseteq> event_id ` set es"
proof (induction es rule: rev_induct)
  case Nil
  show ?case by (simp add: run_events_def snapshots_ok_def)
next
  case (snoc e es)
  have "run_events (es @ [e]) = apply_event e (run_events es)" by (simp add: run_events_def)
  moreover have "fst ` set (apply_event e (run_events es)) \<subseteq> event_id ` set (es @ [e])"
    using apply_event_keys [of e "run_events es"] snoc by (auto simp del: image_subset_iff)
  ultimately show ?case using snoc snapshots_ok_event by simp
qed

text \<open>
  C1. The snapshots implement the history of allocations: when the operation ids of the registrations and
  unregistrations grow, the lookup at any operation id gives the objects that the allocations and
  frees up to that id leave live.
\<close>

theorem snapshots_refine_history:
  assumes "sorted_wrt (\<lambda>e f. event_id e < event_id f) es"
  shows "lookup_at (run_events es) t = live_at es t"
  using assms
proof (induction es rule: rev_induct)
  case Nil
  show ?case by (simp add: run_events_def lookup_at_def live_at_def)
next
  case (snoc e es)
  then have IH: "lookup_at (run_events es) t = live_at es t" and new: "\<forall>f \<in> set es. event_id f < event_id e"
    by (auto simp: sorted_wrt_append)
  have "\<forall>b \<in> fst ` set (run_events es). b < event_id e"
    using new run_events_ok [of es] by auto
  then have "lookup_at (apply_event e (run_events es)) t =
      (if event_id e \<le> t then live_step e (lookup_at (run_events es) t) else lookup_at (run_events es) t)"
    using run_events_ok [of es] by (intro apply_event_lookup) auto
  then show ?case using IH by (simp add: run_events_def live_at_def)
qed

theorem snapshots_refine_history_witness:
  "lookup_at (run_events [Alloc 10 (Memory_object 0 10 7 (MemoryRange 100 200) 1 2), Free 20 (MemoryRange 100 200)]) 15
     = live_at [Alloc 10 (Memory_object 0 10 7 (MemoryRange 100 200) 1 2), Free 20 (MemoryRange 100 200)] 15 \<and>
   live_at [Alloc 10 (Memory_object 0 10 7 (MemoryRange 100 200) 1 2), Free 20 (MemoryRange 100 200)] 15 100
     = Some (Memory_object 0 10 7 (MemoryRange 100 200) 1 2)"
proof
  show "lookup_at (run_events [Alloc 10 (Memory_object 0 10 7 (MemoryRange 100 200) 1 2), Free 20 (MemoryRange 100 200)]) 15
     = live_at [Alloc 10 (Memory_object 0 10 7 (MemoryRange 100 200) 1 2), Free 20 (MemoryRange 100 200)] 15"
    by (rule snapshots_refine_history) simp
qed (simp add: live_at_def Memory_object_def)

subsection \<open>Queries\<close>

text \<open>The entry \<^verbatim>\<open>prev\<close> finds for an address, when the ranges of a map do not overlap.\<close>

lemma range_prev_found:
  assumes ok: "map_ok range_lt mm" and dj: "ranges_disjoint (map fst mm)"
    and mem: "(r, m) \<in> set mm" and a: "mr_start r \<le> a" "a < mr_end r"
  shows "map_prev range_lt mm (MemoryRange a e) = Some (r, m)"
proof -
  from mem obtain xs ys where mm: "mm = xs @ (r, m) # ys" by (meson split_list)
  have "\<forall>x \<in> set xs. mr_start (fst x) < mr_start r" using ok mm
    by (auto simp: map_ok_def sorted_wrt_append range_lt_def)
  then have "\<forall>x \<in> set xs. mr_start (fst x) \<le> a" using a(1) by (auto intro: order_trans less_imp_le)
  moreover have "\<forall>y \<in> set ys. mr_end r \<le> mr_start (fst y)" using dj mm by (auto simp: range_simps)
  then have "\<forall>y \<in> set ys. a < mr_start (fst y)" using a(2) by (auto intro: less_le_trans)
  ultimately have "takeWhile (\<lambda>x. \<not> range_lt (MemoryRange a e) (fst x)) mm = xs @ [(r, m)]"
    using a(1) mm by (cases ys) (auto simp: range_lt_def not_less takeWhile_append)
  then show ?thesis by (simp add: map_prev_def)
qed

text \<open>
  \<^verbatim>\<open>redshow_memory_query\<close> resolves an address to the object that holds it: with objects that do not
  overlap, every address inside an object of the operation's snapshot gives that object's ids and
  length and the shadow address at the same offset.
\<close>

lemma redshow_memory_query_hit:
  assumes "snapshots_ok snap" and "map_prev (<) snap host_op_id = Some (k, mm)"
    and "ranges_disjoint (map fst mm)" and "(r, m) \<in> set mm" and "a \<in> range_bytes r"
  shows "redshow_memory_query host_op_id a snap =
     (REDSHOW_SUCCESS, Some \<lparr>q_memory_id = ctx_id m, q_memory_op_id = op_id m,
        q_shadow_start = mem_value m + (a - mr_start r), q_len = mem_len m\<rparr>)"
proof -
  have "map_ok range_lt mm"
    using snapshots_ok_prev [OF assms(1,2)] by (simp add: memory_map_ok_def)
  from range_prev_found [OF this assms(3,4)] assms(5)
  have "map_prev range_lt mm (MemoryRange a 0) = Some (r, m)" by simp
  with assms(2,5) show ?thesis by (simp add: redshow_memory_query_def less_imp_le)
qed

text \<open>
  The bounds check of \<^verbatim>\<open>redshow_memory_query\<close> is one too wide: the first address after the last
  object of a snapshot, which lies in no object, is still resolved to that object, with the
  shadow address one past its buffer.
\<close>

lemma redshow_memory_query_past_end:
  assumes "snapshots_ok snap" and "map_prev (<) snap host_op_id = Some (k, mm @ [(r, m)])"
    and "range_wf r"
  shows "redshow_memory_query host_op_id (mr_end r) snap =
     (REDSHOW_SUCCESS, Some \<lparr>q_memory_id = ctx_id m, q_memory_op_id = op_id m,
        q_shadow_start = mem_value m + (mr_end r - mr_start r), q_len = mem_len m\<rparr>)
     \<and> mr_end r \<notin> range_bytes r"
proof -
  have ok: "map_ok range_lt (mm @ [(r, m)])"
    using snapshots_ok_prev [OF assms(1,2)] by (simp add: memory_map_ok_def)
  have "\<forall>x \<in> set mm. mr_start (fst x) < mr_start r"
    using ok by (auto simp: map_ok_def sorted_wrt_append range_lt_def)
  then have "takeWhile (\<lambda>e. \<not> range_lt (MemoryRange (mr_end r) 0) (fst e)) (mm @ [(r, m)]) = mm @ [(r, m)]"
    using assms(3) by (subst takeWhile_eq_all_conv) (force simp: range_lt_def range_wf_def not_less)
  then have "map_prev range_lt (mm @ [(r, m)]) (MemoryRange (mr_end r) 0) = Some (r, m)"
    by (simp add: map_prev_def)
  with assms(2) show ?thesis by (simp add: redshow_memory_query_def)
qed

text \<open>
  \<^verbatim>\<open>redshow_memory_ranges_get\<close> writes one entry per live object, whatever the limit its caller gives:
  with more objects than the limit it writes past it.
\<close>

lemma redshow_memory_ranges_get_all:
  assumes "map_prev (<) snap host_op_id = Some (k, mm)" and "mm \<noteq> []" and "length mm < 2 ^ 32"
  shows "\<exists>ranges len. redshow_memory_ranges_get host_op_id limit snap = (REDSHOW_SUCCESS, ranges, len)
     \<and> length ranges = length mm \<and> unat len = length mm"
  using assms by (auto simp: redshow_memory_ranges_get_def unat_of_nat)

end
