(* ===== verification/Doubles.thy ===== *)
theory Doubles
  imports Complex_Main "HOL-Library.Log_Nat" Prelude
begin

section \<open>Finite floating-point values\<close>

text \<open>
  The analyses compute ratios in \<^verbatim>\<open>double\<close> and \<^verbatim>\<open>float\<close>. A finite value is the rational number it
  stands for; the result of an operation is the exact rational rounded to 53 (or 24) significant bits, ties
  to even. The operands of the code are counts below \<open>2 ^ 64\<close>, so a quotient is zero or lies
  between \<open>2 ^ -64\<close> and \<open>2 ^ 64\<close>: overflow and subnormal values do not occur. A division by
  zero, infinite or not a number in C++, is written out where the code can reach it.
\<close>

definition half_even :: "rat \<Rightarrow> int" where
  "half_even x =
     (let f = \<lfloor>x\<rfloor>; d = x - of_int f
      in if d < 1 / 2 \<or> d = 1 / 2 \<and> even f then f else f + 1)"

text \<open>The exponent \<open>k\<close> with \<open>2 ^ k \<le> x < 2 ^ (k + 1)\<close>, for a positive \<open>x\<close>.\<close>

definition rat_exponent :: "rat \<Rightarrow> int" where
  "rat_exponent x =
     (case quotient_of x of (a, b) \<Rightarrow>
        let k = int (floorlog 2 (nat a)) - int (floorlog 2 (nat b))
        in if 2 powi k \<le> x then k else k - 1)"

definition round_bits :: "nat \<Rightarrow> rat \<Rightarrow> rat" where
  "round_bits p x =
     (if x = 0 then 0
      else let e = rat_exponent \<bar>x\<bar> - (int p - 1)
           in of_int (half_even (x / 2 powi e)) * 2 powi e)"

definition double_div :: "rat \<Rightarrow> rat \<Rightarrow> rat" where
  "double_div x y = round_bits 53 (x / y)"

definition float_div :: "rat \<Rightarrow> rat \<Rightarrow> rat" where
  "float_div x y = round_bits 24 (x / y)"

text \<open>\<^verbatim>\<open>static_cast<double>\<close> of an integer.\<close>

definition double_of :: "int \<Rightarrow> rat" where
  "double_of n = round_bits 53 (of_int n)"

subsection \<open>Rounding to an integer\<close>

lemma half_even_of_int [simp]: "half_even (of_int n) = n"
  by (simp add: half_even_def)

lemma half_even_mono: "x \<le> y \<Longrightarrow> half_even x \<le> half_even y"
proof (cases "\<lfloor>x\<rfloor> = \<lfloor>y\<rfloor>")
  case True
  then show "x \<le> y \<Longrightarrow> half_even x \<le> half_even y"
    by (auto simp: half_even_def Let_def)
next
  case False
  assume "x \<le> y"
  then have "\<lfloor>x\<rfloor> + 1 \<le> \<lfloor>y\<rfloor>" using False floor_mono [of x y] by linarith
  moreover have "half_even x \<le> \<lfloor>x\<rfloor> + 1" "\<lfloor>y\<rfloor> \<le> half_even y"
    by (simp_all add: half_even_def Let_def)
  ultimately show ?thesis by linarith
qed

lemma half_even_bounds:
  "of_int m \<le> x \<Longrightarrow> m \<le> half_even x"
  "x \<le> of_int m \<Longrightarrow> half_even x \<le> m"
  using half_even_mono [of "of_int m" x] half_even_mono [of x "of_int m"] by simp_all

subsection \<open>The exponent\<close>

lemma floorlog_powi:
  assumes "0 < n"
  shows "2 powi (int (floorlog 2 n) - 1) \<le> (of_nat n :: rat)" "of_nat n < (2 :: rat) powi int (floorlog 2 n)"
proof -
  have b: "2 ^ (floorlog 2 n - 1) \<le> n" "n < 2 ^ floorlog 2 n"
    using floorlog_bounds [of n 2] assms by auto
  have pos: "0 < floorlog 2 n" using b assms by (cases "floorlog 2 n") auto
  have "(of_nat (2 ^ (floorlog 2 n - 1)) :: rat) \<le> of_nat n" using b(1) by (simp only: of_nat_le_iff)
  moreover have "(2 :: rat) powi (int (floorlog 2 n) - 1) = 2 ^ (floorlog 2 n - 1)"
    using pos by (metis One_nat_def Suc_leI int_ops(2) of_nat_diff power_int_of_nat)
  ultimately show "2 powi (int (floorlog 2 n) - 1) \<le> (of_nat n :: rat)" by simp
  have "(of_nat n :: rat) < of_nat (2 ^ floorlog 2 n)" using b(2) by (simp only: of_nat_less_iff)
  then show "of_nat n < (2 :: rat) powi int (floorlog 2 n)" by simp
qed

lemma rat_exponent_bounds:
  assumes "0 < x"
  shows "2 powi rat_exponent x \<le> x" "x < 2 powi (rat_exponent x + 1)"
proof -
  obtain a b where q: "quotient_of x = (a, b)" by (cases "quotient_of x")
  have b: "0 < b" and x: "x = of_int a / of_int b"
    using q quotient_of_denom_pos quotient_of_div by blast+
  then have a: "0 < a" using assms by (simp add: zero_less_divide_iff)
  let ?A = "int (floorlog 2 (nat a))" and ?B = "int (floorlog 2 (nat b))"
  have A: "2 powi (?A - 1) \<le> (of_int a :: rat)" "of_int a < (2 :: rat) powi ?A"
    using floorlog_powi [of "nat a"] a by (simp_all add: of_nat_nat)
  have B: "2 powi (?B - 1) \<le> (of_int b :: rat)" "of_int b < (2 :: rat) powi ?B"
    using floorlog_powi [of "nat b"] b by (simp_all add: of_nat_nat)
  have lo: "(2 :: rat) powi (?A - ?B - 1) \<le> x"
  proof -
    have "(2 :: rat) powi (?A - ?B - 1) = 2 powi (?A - 1) / 2 powi ?B"
      by (subst power_int_diff [symmetric]) (simp_all add: algebra_simps)
    also have "\<dots> \<le> of_int a / of_int b"
      using A B a b by (intro frac_le) auto
    finally show ?thesis using x by simp
  qed
  have hi: "x < (2 :: rat) powi (?A - ?B + 1)"
  proof -
    have "x < 2 powi ?A / 2 powi (?B - 1)"
      unfolding x using A B a b by (intro frac_less) auto
    also have "\<dots> = 2 powi (?A - ?B + 1)"
      by (subst power_int_diff [symmetric]) (simp_all add: algebra_simps)
    finally show ?thesis .
  qed
  show "2 powi rat_exponent x \<le> x" "x < 2 powi (rat_exponent x + 1)"
    using lo hi by (auto simp: rat_exponent_def q Let_def)
qed

lemma powi_le: "m \<le> n \<Longrightarrow> (2 :: rat) powi m \<le> 2 powi n"
  by (rule power_int_increasing) simp_all

lemma powi_less_iff: "(2 :: rat) powi m < 2 powi n \<longleftrightarrow> m < n"
  using power_int_strict_increasing [of m n "2 :: rat"] powi_le [of n m] by linarith

lemma rat_exponent_mono: "0 < x \<Longrightarrow> x \<le> y \<Longrightarrow> rat_exponent x \<le> rat_exponent y"
proof -
  assume "0 < x" "x \<le> y"
  then have "(2 :: rat) powi rat_exponent x < 2 powi (rat_exponent y + 1)"
    using rat_exponent_bounds [of x] rat_exponent_bounds [of y] by linarith
  then show ?thesis by (simp add: powi_less_iff)
qed


subsection \<open>Rounding to a number of bits\<close>

lemma round_bits_pos:
  "0 < x \<Longrightarrow> round_bits p x =
     of_int (half_even (x / 2 powi (rat_exponent x - (int p - 1)))) * 2 powi (rat_exponent x - (int p - 1))"
  by (simp add: round_bits_def Let_def)

lemma round_bits_binade:
  assumes "0 < x" "0 < p"
  shows "2 powi rat_exponent x \<le> round_bits p x" "round_bits p x \<le> 2 powi (rat_exponent x + 1)"
proof -
  let ?e = "rat_exponent x - (int p - 1)"
  have lo: "of_int (2 ^ (p - 1)) \<le> x / 2 powi ?e"
  proof -
    have "of_int (2 ^ (p - 1)) * (2 :: rat) powi ?e = 2 powi rat_exponent x"
      using assms(2) by (simp add: power_int_add [symmetric] of_nat_diff flip: power_int_of_nat)
    then show ?thesis using rat_exponent_bounds(1) [OF assms(1)] by (simp add: pos_le_divide_eq)
  qed
  have hi: "x / 2 powi ?e \<le> of_int (2 ^ p)"
  proof -
    have "of_int (2 ^ p) * (2 :: rat) powi ?e = 2 powi (rat_exponent x + 1)"
      by (simp add: power_int_add [symmetric] flip: power_int_of_nat)
    then show ?thesis using rat_exponent_bounds(2) [OF assms(1)] by (simp add: pos_divide_le_eq)
  qed
  have "of_int (2 ^ (p - 1)) * (2 :: rat) powi ?e \<le> round_bits p x"
    unfolding round_bits_pos [OF assms(1)] using half_even_bounds(1) [OF lo]
    by (intro mult_right_mono) (simp_all only: of_int_le_iff, simp)
  then show "2 powi rat_exponent x \<le> round_bits p x"
    using assms(2) by (simp add: power_int_add [symmetric] of_nat_diff flip: power_int_of_nat)
  have "round_bits p x \<le> of_int (2 ^ p) * (2 :: rat) powi ?e"
    unfolding round_bits_pos [OF assms(1)] using half_even_bounds(2) [OF hi]
    by (intro mult_right_mono) (simp_all only: of_int_le_iff, simp)
  then show "round_bits p x \<le> 2 powi (rat_exponent x + 1)"
    by (simp add: power_int_add [symmetric] flip: power_int_of_nat)
qed

lemma round_bits_0 [simp]: "round_bits p 0 = 0"
  by (simp add: round_bits_def)

lemma round_bits_mono:
  assumes "0 \<le> x" "x \<le> y" "0 < p"
  shows "round_bits p x \<le> round_bits p y"
proof (cases "x = 0")
  case True
  have "0 \<le> round_bits p y"
  proof (cases "y = 0")
    case False
    with assms have "0 < y" by simp
    with round_bits_binade(1) [OF this assms(3)] show ?thesis
      by (meson order_trans zero_le_power_int zero_le_numeral)
  qed simp
  with True show ?thesis by simp
next
  case False
  with assms have x: "0 < x" and y: "0 < y" by simp_all
  show ?thesis
  proof (cases "rat_exponent x = rat_exponent y")
    case True
    then show ?thesis
      unfolding round_bits_pos [OF x] round_bits_pos [OF y]
      using assms(2) by (auto intro!: mult_right_mono half_even_mono divide_right_mono)
  next
    case False
    then have "rat_exponent x + 1 \<le> rat_exponent y"
      using rat_exponent_mono [OF x assms(2)] by linarith
    then show ?thesis
      using powi_le round_bits_binade(2) [OF x assms(3)] round_bits_binade(1) [OF y assms(3)]
      by (meson order_trans)
  qed
qed

lemma round_bits_exact:
  assumes "0 < n" "n < 2 ^ p"
  shows "round_bits p (of_int n) = of_int n"
proof -
  let ?x = "of_int n :: rat" and ?e = "rat_exponent (of_int n) - (int p - 1)"
  have x: "0 < ?x" using assms by simp
  have "?x < of_int (2 ^ p)" using assms(2) by (simp only: of_int_less_iff)
  then have "(2 :: rat) powi rat_exponent ?x < of_int (2 ^ p)"
    using rat_exponent_bounds(1) [OF x] by (rule le_less_trans [rotated])
  then have "(2 :: rat) powi rat_exponent ?x < 2 powi int p" by (simp only: of_int_power of_int_numeral power_int_of_nat)
  then have "?e \<le> 0" unfolding powi_less_iff by linarith
  then have "?x / 2 powi ?e = of_int (n * 2 ^ nat (- ?e))"
    by (simp add: power_int_def divide_simps)
  then show ?thesis
    unfolding round_bits_pos [OF x] half_even_of_int
    by (metis half_even_of_int nonzero_divide_eq_eq power_int_not_zero zero_neq_numeral)
qed

lemma round_bits_1 [simp]: "0 < p \<Longrightarrow> round_bits p 1 = 1"
  using round_bits_exact [of 1 p] by simp

text \<open>A ratio of counts is between zero and one, and a count below \<open>2 ^ 53\<close> is exact.\<close>

lemma double_div_unit:
  assumes "0 \<le> a" "a \<le> b"
  shows "0 \<le> double_div a b" "double_div a b \<le> 1"
proof -
  have "0 \<le> a / b" "a / b \<le> 1" using assms by (auto simp: divide_simps)
  then show "0 \<le> double_div a b" "double_div a b \<le> 1"
    unfolding double_div_def
    using round_bits_mono [of 0 "a / b" 53] round_bits_mono [of "a / b" 1 53] by simp_all
qed

lemma double_of_exact: "0 \<le> n \<Longrightarrow> n < 2 ^ 53 \<Longrightarrow> double_of n = of_int n"
  using round_bits_exact [of n 53] by (cases "n = 0") (auto simp: double_of_def)

end
