(* ===== verification/Values.thy ===== *)
theory Values
  imports Containers Doubles Operations
begin

section \<open>Access kinds and the values of memory units\<close>

text \<open>
  What a unit of memory holds and how the analyses read it: the data types of
  \<^verbatim>\<open>redshow.h\<close>, \<^verbatim>\<open>AccessKind\<close> (\<^verbatim>\<open>binutils/instruction.h\<close>, \<^verbatim>\<open>instruction.cpp\<close>), the truncation
  of floating-point values (\<^verbatim>\<open>common/utils.cpp\<close>), the text the reports print for a value, and the
  data type and approximation settings of \<^verbatim>\<open>redshow.cpp\<close>. The theorems say what a
  truncation keeps, how far it moves a value, and that the printed integers can be read back.
\<close>

unbundle bit_operations_syntax

subsection \<open>Data types\<close>

datatype redshow_data_type =
    REDSHOW_DATA_UNKNOWN
  | REDSHOW_DATA_FLOAT
  | REDSHOW_DATA_INT

fun data_type_rank :: "redshow_data_type \<Rightarrow> nat" where
  "data_type_rank REDSHOW_DATA_UNKNOWN = 0"
| "data_type_rank REDSHOW_DATA_FLOAT = 1"
| "data_type_rank REDSHOW_DATA_INT = 2"

lemma data_type_rank_inj: "data_type_rank a = data_type_rank b \<longleftrightarrow> a = b"
  by (cases a; cases b) auto

instantiation redshow_data_type :: linorder
begin

definition less_redshow_data_type :: "redshow_data_type \<Rightarrow> redshow_data_type \<Rightarrow> bool" where
  "less_redshow_data_type a b = (data_type_rank a < data_type_rank b)"

definition less_eq_redshow_data_type :: "redshow_data_type \<Rightarrow> redshow_data_type \<Rightarrow> bool" where
  "less_eq_redshow_data_type a b = (data_type_rank a \<le> data_type_rank b)"

instance
  by standard (auto simp: less_redshow_data_type_def less_eq_redshow_data_type_def data_type_rank_inj)

end

subsection \<open>\<^verbatim>\<open>AccessKind\<close>\<close>

record access_kind =
  vec_size :: u32
  unit_size :: u32
  data_type :: redshow_data_type

definition AccessKind :: "u32 \<Rightarrow> u32 \<Rightarrow> redshow_data_type \<Rightarrow> access_kind" where
  "AccessKind unit vec dt = \<lparr>vec_size = vec, unit_size = unit, data_type = dt\<rparr>"

definition unknown_kind :: access_kind where
  "unknown_kind = AccessKind 0 0 REDSHOW_DATA_UNKNOWN"

definition access_kind_to_string :: "access_kind \<Rightarrow> string" where
  "access_kind_to_string k =
     (case data_type k of
        REDSHOW_DATA_UNKNOWN \<Rightarrow> ''UNKNOWN''
      | REDSHOW_DATA_INT \<Rightarrow> ''INTEGER''
      | REDSHOW_DATA_FLOAT \<Rightarrow> ''FLOAT'')
     @ '',v:'' @ int_to_string (uint (vec_size k)) @ '',u:'' @ int_to_string (uint (unit_size k))"

definition access_kind_lt :: "access_kind \<Rightarrow> access_kind \<Rightarrow> bool" where
  "access_kind_lt a b =
     (if vec_size a = vec_size b then
        if unit_size a = unit_size b then data_type a < data_type b
        else unit_size a < unit_size b
      else vec_size a < vec_size b)"

interpretation kind_order: strict_total access_kind_lt
proof
  fix x y z :: access_kind
  show "\<not> access_kind_lt x x" by (simp add: access_kind_lt_def)
  show "access_kind_lt x y \<Longrightarrow> access_kind_lt y z \<Longrightarrow> access_kind_lt x z"
    by (auto simp: access_kind_lt_def split: if_splits)
  show "access_kind_lt x y \<Longrightarrow> access_kind_lt x z \<or> access_kind_lt z y"
    by (auto simp: access_kind_lt_def split: if_splits)
  show "\<not> access_kind_lt x y \<Longrightarrow> \<not> access_kind_lt y x \<Longrightarrow> x = y"
    by (auto simp: access_kind_lt_def split: if_splits)
qed

subsection \<open>Truncation of floating-point values\<close>

text \<open>
  The shift of \<^verbatim>\<open>0xffffffffffffffff\<close> is defined in C++ when the amount is below 64; the
  degrees come from the approximation settings below, where \<open>approx_ok\<close> bounds them.
\<close>

definition value_to_double :: "u64 \<Rightarrow> int \<Rightarrow> u64" where
  "value_to_double a decimal_degree_f64 =
     (let bits = word_of_int (52 - decimal_degree_f64) :: u64;
          mask = push_bit (unat bits) (0xffffffffffffffff :: u64)
      in a AND mask)"

definition value_to_float :: "u64 \<Rightarrow> int \<Rightarrow> u64" where
  "value_to_float a decimal_degree_f32 =
     (let c = ucast (a AND 0xffffffff) :: u32;
          bits = word_of_int (23 - decimal_degree_f32) :: u64;
          mask = push_bit (unat bits) (0xffffffffffffffff :: u64)
      in ucast (ucast (ucast c AND mask) :: u32))"

definition value_to_basic_type :: "access_kind \<Rightarrow> u64 \<Rightarrow> int \<Rightarrow> int \<Rightarrow> u64" where
  "value_to_basic_type k a decimal_degree_f32 decimal_degree_f64 =
     (case data_type k of
        REDSHOW_DATA_UNKNOWN \<Rightarrow> a
      | REDSHOW_DATA_INT \<Rightarrow>
          if unit_size k = 8 then a AND 0xff
          else if unit_size k = 16 then a AND 0xffff
          else if unit_size k = 32 then a AND 0xffffffff
          else a
      | REDSHOW_DATA_FLOAT \<Rightarrow>
          if unit_size k = 32 then value_to_float a decimal_degree_f32
          else if unit_size k = 64 then value_to_double a decimal_degree_f64
          else a)"

subsection \<open>The IEEE 754 value of a bit pattern\<close>

datatype ieee =
    Nan bool
  | Infinity bool
  | Finite bool rat

definition ieee_sign :: "nat \<Rightarrow> nat \<Rightarrow> nat \<Rightarrow> bool" where
  "ieee_sign ew fw n = odd (n div 2 ^ (fw + ew))"

definition ieee_exponent :: "nat \<Rightarrow> nat \<Rightarrow> nat \<Rightarrow> nat" where
  "ieee_exponent ew fw n = n div 2 ^ fw mod 2 ^ ew"

definition ieee_fraction :: "nat \<Rightarrow> nat \<Rightarrow> nat" where
  "ieee_fraction fw n = n mod 2 ^ fw"

definition ieee_of_bits :: "nat \<Rightarrow> nat \<Rightarrow> nat \<Rightarrow> ieee" where
  "ieee_of_bits ew fw n =
     (let s = ieee_sign ew fw n; e = ieee_exponent ew fw n; f = ieee_fraction fw n;
          bias = 2 ^ (ew - 1) - 1 :: int
      in if e = 2 ^ ew - 1 then (if f = 0 then Infinity s else Nan s)
         else if e = 0 then Finite s (of_nat f * 2 powi (1 - bias - int fw))
         else Finite s (of_nat (2 ^ fw + f) * 2 powi (int e - bias - int fw)))"

definition double_of_bits :: "u64 \<Rightarrow> ieee" where
  "double_of_bits a = ieee_of_bits 11 52 (unat a)"

definition float_of_bits :: "u32 \<Rightarrow> ieee" where
  "float_of_bits a = ieee_of_bits 8 23 (unat a)"

subsection \<open>The text of a value\<close>

text \<open>
  \<^verbatim>\<open>operator<<\<close> of a stream prints a floating-point value with six significant digits, correctly
  rounded, in fixed notation when the decimal exponent is from \<open>-4\<close> to 5 and in scientific notation
  otherwise, without trailing zeros.
\<close>

definition dec_exponent :: "rat \<Rightarrow> int" where
  "dec_exponent x =
     (case quotient_of x of (a, b) \<Rightarrow>
        let k = int (floorlog 10 (nat a)) - int (floorlog 10 (nat b))
        in if 10 powi k \<le> x then k else k - 1)"

definition six_digits :: "rat \<Rightarrow> nat \<times> int" where
  "six_digits x =
     (let k = dec_exponent x; m = nat (half_even (x / 10 powi (k - 5)))
      in if m = 10 ^ 6 then (10 ^ 5, k + 1) else (m, k))"

definition strip_zeros :: "string \<Rightarrow> string" where
  "strip_zeros s = rev (dropWhile (\<lambda>c. c = CHR ''0'') (rev s))"

definition point_digits :: "string \<Rightarrow> string" where
  "point_digits s = (if strip_zeros s = [] then [] else CHR ''.'' # strip_zeros s)"

definition exponent_digits :: "int \<Rightarrow> string" where
  "exponent_digits k =
     (if k < 0 then ''-'' else ''+'') @ (if \<bar>k\<bar> < 10 then ''0'' else []) @ nat_digits (nat \<bar>k\<bar>)"

definition magnitude_string :: "rat \<Rightarrow> string" where
  "magnitude_string x =
     (if x = 0 then ''0''
      else case six_digits x of (m, k) \<Rightarrow>
        let ds = nat_digits m
        in if k < -4 \<or> 6 \<le> k then take 1 ds @ point_digits (drop 1 ds) @ ''e'' @ exponent_digits k
           else if 0 \<le> k then take (nat k + 1) ds @ point_digits (drop (nat k + 1) ds)
           else ''0'' @ point_digits (replicate (nat (- k) - 1) CHR ''0'' @ ds))"

definition ieee_to_string :: "ieee \<Rightarrow> string" where
  "ieee_to_string v =
     (case v of
        Nan s \<Rightarrow> (if s then ''-nan'' else ''nan'')
      | Infinity s \<Rightarrow> (if s then ''-inf'' else ''inf'')
      | Finite s x \<Rightarrow> (if s then ''-'' else []) @ magnitude_string x)"

text \<open>An unsigned byte goes to the stream as a character, every other integer in decimal.\<close>

definition value_to_string :: "access_kind \<Rightarrow> u64 \<Rightarrow> bool \<Rightarrow> string" where
  "value_to_string k a is_signed =
     (case data_type k of
        REDSHOW_DATA_INT \<Rightarrow>
          if unit_size k = 8 then
            if is_signed then int_to_string (sint (ucast a :: u8)) else [char_of (unat (ucast a :: u8))]
          else if unit_size k = 16 then
            if is_signed then int_to_string (sint (ucast a :: u16)) else int_to_string (uint (ucast a :: u16))
          else if unit_size k = 32 then
            if is_signed then int_to_string (sint (ucast a :: u32)) else int_to_string (uint (ucast a :: u32))
          else if unit_size k = 64 then
            if is_signed then int_to_string (sint a) else int_to_string (uint a)
          else []
      | REDSHOW_DATA_FLOAT \<Rightarrow>
          if unit_size k = 32 then ieee_to_string (float_of_bits (ucast a))
          else if unit_size k = 64 then ieee_to_string (double_of_bits a)
          else []
      | REDSHOW_DATA_UNKNOWN \<Rightarrow> [])"

subsection \<open>\<^verbatim>\<open>ThreadId\<close>\<close>

record thread_id =
  flat_block_id :: u32
  flat_thread_id :: u32

definition thread_id_lt :: "thread_id \<Rightarrow> thread_id \<Rightarrow> bool" where
  "thread_id_lt a b =
     (flat_block_id a < flat_block_id b
      \<or> flat_block_id a = flat_block_id b \<and> flat_thread_id a < flat_thread_id b)"

interpretation thread_order: strict_total thread_id_lt
proof
  fix x y z :: thread_id
  show "\<not> thread_id_lt x x" by (simp add: thread_id_lt_def)
  show "thread_id_lt x y \<Longrightarrow> thread_id_lt y z \<Longrightarrow> thread_id_lt x z"
    by (auto simp: thread_id_lt_def)
  show "thread_id_lt x y \<Longrightarrow> thread_id_lt x z \<or> thread_id_lt z y"
    by (auto simp: thread_id_lt_def)
  show "\<not> thread_id_lt x y \<Longrightarrow> \<not> thread_id_lt y x \<Longrightarrow> x = y"
    by (auto simp: thread_id_lt_def)
qed

subsection \<open>Data type and approximation settings\<close>

record value_config =
  decimal_degree_f32 :: int
  decimal_degree_f64 :: int
  default_data_type :: redshow_data_type

definition VALID_FLOAT_DIGITS :: int where "VALID_FLOAT_DIGITS = 23"
definition VALID_DOUBLE_DIGITS :: int where "VALID_DOUBLE_DIGITS = 52"
definition MIN_FLOAT_DIGITS :: int where "MIN_FLOAT_DIGITS = 20"
definition MIN_DOUBLE_DIGITS :: int where "MIN_DOUBLE_DIGITS = 46"
definition LOW_FLOAT_DIGITS :: int where "LOW_FLOAT_DIGITS = 15"
definition LOW_DOUBLE_DIGITS :: int where "LOW_DOUBLE_DIGITS = 36"
definition MID_FLOAT_DIGITS :: int where "MID_FLOAT_DIGITS = 11"
definition MID_DOUBLE_DIGITS :: int where "MID_DOUBLE_DIGITS = 28"
definition HIGH_FLOAT_DIGITS :: int where "HIGH_FLOAT_DIGITS = 7"
definition HIGH_DOUBLE_DIGITS :: int where "HIGH_DOUBLE_DIGITS = 20"
definition MAX_FLOAT_DIGITS :: int where "MAX_FLOAT_DIGITS = 3"
definition MAX_DOUBLE_DIGITS :: int where "MAX_DOUBLE_DIGITS = 12"

lemmas digits_defs =
  VALID_FLOAT_DIGITS_def VALID_DOUBLE_DIGITS_def MIN_FLOAT_DIGITS_def MIN_DOUBLE_DIGITS_def
  LOW_FLOAT_DIGITS_def LOW_DOUBLE_DIGITS_def MID_FLOAT_DIGITS_def MID_DOUBLE_DIGITS_def
  HIGH_FLOAT_DIGITS_def HIGH_DOUBLE_DIGITS_def MAX_FLOAT_DIGITS_def MAX_DOUBLE_DIGITS_def

definition init_value_config :: value_config where
  "init_value_config =
     \<lparr>decimal_degree_f32 = VALID_FLOAT_DIGITS, decimal_degree_f64 = VALID_DOUBLE_DIGITS,
      default_data_type = REDSHOW_DATA_UNKNOWN\<rparr>"

text \<open>The enumerations arrive as the integers of the C interface.\<close>

definition redshow_data_type_config :: "u32 \<Rightarrow> value_config \<Rightarrow> redshow_result \<times> value_config" where
  "redshow_data_type_config dt c =
     (if dt = 1 then (REDSHOW_SUCCESS, c\<lparr>default_data_type := REDSHOW_DATA_FLOAT\<rparr>)
      else if dt = 2 then (REDSHOW_SUCCESS, c\<lparr>default_data_type := REDSHOW_DATA_INT\<rparr>)
      else (REDSHOW_ERROR_NO_SUCH_DATA_TYPE, c))"

definition redshow_data_type_get :: "value_config \<Rightarrow> redshow_result \<times> redshow_data_type" where
  "redshow_data_type_get c = (REDSHOW_SUCCESS, default_data_type c)"

definition set_degrees :: "int \<Rightarrow> int \<Rightarrow> value_config \<Rightarrow> value_config" where
  "set_degrees f32 f64 c = c\<lparr>decimal_degree_f32 := f32, decimal_degree_f64 := f64\<rparr>"

definition redshow_approx_level_config :: "u32 \<Rightarrow> value_config \<Rightarrow> redshow_result \<times> value_config" where
  "redshow_approx_level_config level c =
     (if level = 0 then (REDSHOW_SUCCESS, set_degrees VALID_FLOAT_DIGITS VALID_DOUBLE_DIGITS c)
      else if level = 1 then (REDSHOW_SUCCESS, set_degrees MIN_FLOAT_DIGITS MIN_DOUBLE_DIGITS c)
      else if level = 2 then (REDSHOW_SUCCESS, set_degrees LOW_FLOAT_DIGITS LOW_DOUBLE_DIGITS c)
      else if level = 3 then (REDSHOW_SUCCESS, set_degrees MID_FLOAT_DIGITS MID_DOUBLE_DIGITS c)
      else if level = 4 then (REDSHOW_SUCCESS, set_degrees HIGH_FLOAT_DIGITS HIGH_DOUBLE_DIGITS c)
      else if level = 5 then (REDSHOW_SUCCESS, set_degrees MAX_FLOAT_DIGITS MAX_DOUBLE_DIGITS c)
      else (REDSHOW_ERROR_NO_SUCH_APPROX, c))"

definition redshow_approx_get :: "value_config \<Rightarrow> redshow_result \<times> int \<times> int" where
  "redshow_approx_get c = (REDSHOW_SUCCESS, decimal_degree_f32 c, decimal_degree_f64 c)"

text \<open>The degrees for which the shifts of \<^const>\<open>value_to_float\<close> and \<^const>\<open>value_to_double\<close> are defined.\<close>

definition approx_ok :: "value_config \<Rightarrow> bool" where
  "approx_ok c =
     (0 \<le> decimal_degree_f32 c \<and> decimal_degree_f32 c \<le> 23
      \<and> 0 \<le> decimal_degree_f64 c \<and> decimal_degree_f64 c \<le> 52)"

subsection \<open>What a truncation keeps\<close>

lemma all_ones_u64: "(0xffffffffffffffff :: u64) = - 1"
  by simp

lemma degree_bits: "0 \<le> d \<Longrightarrow> d \<le> w \<Longrightarrow> w < 64 \<Longrightarrow> unat (word_of_int (w - d) :: u64) = nat (w - d)"
  by (subst unat_eq_nat_uint, subst uint_word_of_int) (simp add: mod_pos_pos_trivial)

lemma and_high_mask: "(a :: 'a :: len word) AND push_bit n (- 1) = push_bit n (drop_bit n a)"
  by (rule bit_word_eqI) (auto simp: bit_simps)

lemma value_to_double_shift:
  "0 \<le> d \<Longrightarrow> d \<le> 52 \<Longrightarrow> value_to_double a d = push_bit (nat (52 - d)) (drop_bit (nat (52 - d)) a)"
  unfolding value_to_double_def Let_def all_ones_u64 by (simp only: degree_bits and_high_mask)

lemma value_to_float_shift:
  assumes "0 \<le> d" "d \<le> 23"
  shows "value_to_float a d = ucast (push_bit (nat (23 - d)) (drop_bit (nat (23 - d)) (ucast a :: u32)))"
proof -
  have n: "unat (word_of_int (23 - d) :: u64) = nat (23 - d)" using assms by (intro degree_bits) auto
  have "value_to_float a d =
      ucast (ucast (ucast (ucast (a AND 0xffffffff) :: u32) AND push_bit (nat (23 - d)) (- 1 :: u64)) :: u32)"
    unfolding value_to_float_def Let_def all_ones_u64 n ..
  also have "\<dots> = ucast (push_bit (nat (23 - d)) (drop_bit (nat (23 - d)) (ucast a :: u32)))"
  proof -
    have m: "(0xffffffff :: u64) = mask 32" by (simp add: mask_eq_exp_minus_1)
    show ?thesis
      unfolding and_high_mask m by (intro bit_word_eqI) (auto simp: bit_simps)
  qed
  finally show ?thesis .
qed

lemma unat_trunc: "unat (push_bit n (drop_bit n a) :: 'a :: len word) = unat a - unat a mod 2 ^ n"
proof -
  have "unat (push_bit n (drop_bit n a)) = push_bit n (drop_bit n (unat a)) mod 2 ^ LENGTH('a)"
    by (simp add: unsigned_push_bit_eq unat_drop_bit_eq flip: take_bit_eq_mod)
  also have "push_bit n (drop_bit n (unat a)) = unat a - unat a mod 2 ^ n"
    by (simp add: push_bit_eq_mult drop_bit_eq_div minus_mod_eq_div_mult [symmetric])
  also have "(unat a - unat a mod 2 ^ n) mod 2 ^ LENGTH('a) = unat a - unat a mod 2 ^ n"
    using unsigned_less [of a] by (intro mod_less) (simp add: less_imp_diff_less)
  finally show ?thesis .
qed

lemma push_drop_eq_iff: "push_bit n (drop_bit n a) = push_bit n (drop_bit n b) \<longleftrightarrow> drop_bit n a = drop_bit n (b :: 'a :: len word)"
proof
  assume "push_bit n (drop_bit n a) = push_bit n (drop_bit n b)"
  then have "drop_bit n (push_bit n (drop_bit n a)) = drop_bit n (push_bit n (drop_bit n b))" by simp
  moreover have "drop_bit n (push_bit n (drop_bit n c)) = drop_bit n c" for c :: "'a word"
    by (rule bit_word_eqI) (auto simp: bit_simps dest: bit_imp_le_length)
  ultimately show "drop_bit n a = drop_bit n b" by simp
qed simp


text \<open>Clearing low bits of the fraction keeps the sign and the exponent.\<close>

lemma trunc_div: "b \<le> m \<Longrightarrow> (n - n mod 2 ^ b) div 2 ^ m = n div (2 :: nat) ^ m"
proof -
  assume "b \<le> m"
  then have m: "(2 :: nat) ^ m = 2 ^ b * 2 ^ (m - b)" by (simp flip: power_add)
  show ?thesis
    unfolding m div_mult2_eq by (simp add: minus_mod_eq_div_mult)
qed

lemma trunc_mod: "b \<le> m \<Longrightarrow> (n - n mod 2 ^ b) mod 2 ^ m = n mod 2 ^ m - n mod 2 ^ m mod (2 :: nat) ^ b"
proof -
  assume b: "b \<le> m"
  have "(n - n mod 2 ^ b) mod 2 ^ m = (n - n mod 2 ^ b) - n div 2 ^ m * 2 ^ m"
    using minus_div_mult_eq_mod [of "n - n mod 2 ^ b" "2 ^ m"] unfolding trunc_div [OF b] by (rule sym)
  also have "\<dots> = (n - n div 2 ^ m * 2 ^ m) - n mod 2 ^ b" by simp
  also have "n - n div 2 ^ m * 2 ^ m = n mod 2 ^ m" by (simp add: minus_div_mult_eq_mod)
  finally show ?thesis
    using b by (simp add: mod_mod_cancel le_imp_power_dvd)
qed

lemma ieee_trunc:
  assumes "b \<le> fw" "ieee_of_bits ew fw n = Finite s x" "2 powi (2 - 2 ^ (ew - 1)) \<le> x"
  defines "n' \<equiv> n - n mod 2 ^ b"
  shows "\<exists>y. ieee_of_bits ew fw n' = Finite s y \<and> y \<le> x \<and> x - y < y / 2 ^ (fw - b)"
proof -
  let ?e = "ieee_exponent ew fw n" and ?f = "ieee_fraction fw n" and ?bias = "2 ^ (ew - 1) - 1 :: int"
  let ?f' = "?f - ?f mod 2 ^ b" and ?u = "2 powi (int ?e - ?bias - int fw) :: rat"
  have parts: "ieee_sign ew fw n' = ieee_sign ew fw n" "ieee_exponent ew fw n' = ?e" "ieee_fraction fw n' = ?f'"
    using assms(1) trunc_div [of b "fw + ew" n] trunc_div [of b fw n] trunc_mod [of b fw n]
    by (simp_all add: ieee_sign_def ieee_exponent_def ieee_fraction_def n'_def)
  have top: "?e \<noteq> 2 ^ ew - 1"
    using assms(2) by (auto simp: ieee_of_bits_def Let_def split: if_splits)
  have "?e \<noteq> 0"
  proof
    assume z: "?e = 0"
    with assms(2) top have x: "x = of_nat ?f * 2 powi (1 - ?bias - int fw)"
      by (auto simp: ieee_of_bits_def Let_def)
    have "?f < 2 ^ fw" by (simp add: ieee_fraction_def)
    then have "(of_nat ?f :: rat) < 2 ^ fw" by (metis of_nat_less_iff of_nat_numeral of_nat_power)
    then have "x < 2 ^ fw * 2 powi (1 - ?bias - int fw)" unfolding x by (intro mult_strict_right_mono) auto
    also have "\<dots> = 2 powi (1 - ?bias)" by (simp add: power_int_diff)
    finally show False using assms(3) by simp
  qed
  with assms(2) top have s: "s = ieee_sign ew fw n" and x: "x = of_nat (2 ^ fw + ?f) * ?u"
    by (auto simp: ieee_of_bits_def Let_def)
  let ?y = "of_nat (2 ^ fw + ?f') * ?u"
  have u: "0 < ?u" by simp
  have r: "?f mod 2 ^ b < 2 ^ b" "?f mod 2 ^ b \<le> ?f" by simp_all
  have diff: "x - ?y = of_nat (?f mod 2 ^ b) * ?u"
  proof -
    have "x - ?y = (of_nat (2 ^ fw + ?f) - of_nat (2 ^ fw + ?f')) * ?u" unfolding x left_diff_distrib ..
    also have "(of_nat (2 ^ fw + ?f) - of_nat (2 ^ fw + ?f') :: rat) = of_nat (?f mod 2 ^ b)"
      unfolding of_nat_add of_nat_diff [OF r(2)] by simp
    finally show ?thesis .
  qed
  have "ieee_of_bits ew fw n' = Finite s ?y"
    unfolding ieee_of_bits_def parts Let_def using top \<open>?e \<noteq> 0\<close> s by simp
  moreover have "?y \<le> x"
  proof -
    have "0 \<le> x - ?y" unfolding diff using u by (intro mult_nonneg_nonneg) simp_all
    then show ?thesis by linarith
  qed
  moreover have "x - ?y < ?y / 2 ^ (fw - b)"
  proof -
    have "x - ?y < of_nat (2 ^ b) * ?u"
      unfolding diff using r(1) u by (intro mult_strict_right_mono) (simp_all only: of_nat_less_iff)
    also have "\<dots> = of_nat (2 ^ fw) * ?u / 2 ^ (fw - b)"
      using assms(1) by (simp add: field_simps flip: power_add)
    also have "\<dots> \<le> ?y / 2 ^ (fw - b)"
      using u r(2) by (intro divide_right_mono mult_right_mono) (simp_all only: of_nat_le_iff, simp_all)
    finally show ?thesis .
  qed
  ultimately show ?thesis by blast
qed

text \<open>The floating-point value that a unit of a given kind holds, and the bits of its fraction kept.\<close>

definition float_value :: "access_kind \<Rightarrow> u64 \<Rightarrow> ieee" where
  "float_value k a = (if unit_size k = 32 then float_of_bits (ucast a) else double_of_bits a)"

definition kept_bits :: "access_kind \<Rightarrow> value_config \<Rightarrow> nat" where
  "kept_bits k c = nat (if unit_size k = 32 then decimal_degree_f32 c else decimal_degree_f64 c)"

definition min_normal :: "access_kind \<Rightarrow> rat" where
  "min_normal k = (if unit_size k = 32 then 2 powi (- 126) else 2 powi (- 1022))"

text \<open>
  C27. Truncating a normal floating-point value keeps its sign, never increases its magnitude, and moves
  it by less than one part in \<open>2 ^ d\<close>, where \<open>d\<close> is the number of fraction bits the approximation level
  keeps.
\<close>

theorem value_to_basic_type_error:
  assumes "approx_ok c" "data_type k = REDSHOW_DATA_FLOAT" "unit_size k = 32 \<or> unit_size k = 64"
    and "float_value k a = Finite s x" "min_normal k \<le> x"
  shows "\<exists>y. float_value k (value_to_basic_type k a (decimal_degree_f32 c) (decimal_degree_f64 c)) = Finite s y
           \<and> y \<le> x \<and> x - y < y / 2 ^ kept_bits k c"
proof (cases "unit_size k = 32")
  case True
  let ?d = "decimal_degree_f32 c"
  have d: "0 \<le> ?d" "?d \<le> 23" using assms(1) by (simp_all add: approx_ok_def)
  have "ucast (value_to_float a ?d) = (push_bit (nat (23 - ?d)) (drop_bit (nat (23 - ?d)) (ucast a)) :: u32)"
    unfolding value_to_float_shift [OF d] by (rule bit_word_eqI) (auto simp: bit_simps)
  moreover have "23 - nat (23 - ?d) = nat ?d" using d by linarith
  ultimately show ?thesis
    using ieee_trunc [of "nat (23 - ?d)" 23 8 "unat (ucast a :: u32)" s x] assms True d
    by (simp add: float_value_def value_to_basic_type_def kept_bits_def min_normal_def float_of_bits_def unat_trunc)
next
  case False
  let ?d = "decimal_degree_f64 c"
  have d: "0 \<le> ?d" "?d \<le> 52" using assms(1) by (simp_all add: approx_ok_def)
  moreover have "52 - nat (52 - ?d) = nat ?d" using d by linarith
  ultimately show ?thesis
    using ieee_trunc [of "nat (52 - ?d)" 52 11 "unat a" s x] assms False
    by (simp add: float_value_def value_to_basic_type_def kept_bits_def min_normal_def double_of_bits_def unat_trunc
        value_to_double_shift)
qed


subsection \<open>Reading printed integers back\<close>

fun read_nat :: "string \<Rightarrow> nat \<Rightarrow> nat" where
  "read_nat [] n = n"
| "read_nat (c # s) n = read_nat s (10 * n + (of_char c - 48))"

definition read_int :: "string \<Rightarrow> int" where
  "read_int s = (case s of c # t \<Rightarrow> if c = CHR ''-'' then - int (read_nat t 0) else int (read_nat s 0) | [] \<Rightarrow> 0)"

lemma of_char_digit: "d < 10 \<Longrightarrow> of_char (char_of (48 + d) :: char) = (48 + d :: nat)"
  by (simp add: of_char_of)

lemma read_nat_append: "read_nat (s @ t) n = read_nat t (read_nat s n)"
  by (induction s arbitrary: n) simp_all

lemma nat_digits_not_Nil: "nat_digits n \<noteq> []"
  by (subst nat_digits.simps) simp

lemma read_nat_digits: "read_nat (nat_digits n) 0 = n"
proof (induction n rule: nat_digits.induct)
  case (1 n)
  show ?case
  proof (cases "n < 10")
    case True
    then show ?thesis by (subst nat_digits.simps) (simp add: of_char_digit)
  next
    case False
    with 1 show ?thesis by (subst nat_digits.simps) (simp add: read_nat_append of_char_digit)
  qed
qed

lemma digit_not_minus: "d < 10 \<Longrightarrow> char_of (48 + d :: nat) \<noteq> CHR ''-''"
  using of_char_digit [of d] by (auto dest: arg_cong [of _ _ "of_char :: char \<Rightarrow> nat"])

lemma hd_nat_digits: "hd (nat_digits n) \<noteq> CHR ''-''"
proof (induction n rule: nat_digits.induct)
  case (1 n)
  show ?case
  proof (cases "n < 10")
    case True
    then show ?thesis by (subst nat_digits.simps) (simp add: digit_not_minus)
  next
    case False
    with 1 show ?thesis by (subst nat_digits.simps) (simp add: nat_digits_not_Nil)
  qed
qed

lemma read_int_to_string [simp]: "read_int (int_to_string n) = n"
proof (cases "n < 0")
  case True
  then show ?thesis by (simp add: int_to_string_def read_int_def read_nat_digits)
next
  case False
  obtain c t where ct: "nat_digits (nat n) = c # t" using nat_digits_not_Nil by (cases "nat_digits (nat n)") auto
  with hd_nat_digits [of "nat n"] read_nat_digits [of "nat n"] False show ?thesis
    by (simp add: int_to_string_def read_int_def)
qed

lemma take_bit_sint_ucast:
  "take_bit LENGTH('b) (sint (ucast (a :: u64) :: 'b :: len word)) = take_bit LENGTH('b) (uint (ucast a :: 'b word))"
  by (simp add: sint_uint take_bit_signed_take_bit)

text \<open>The units for which the printed text is a number: every integer but the unsigned bytes.\<close>

definition prints_number :: "access_kind \<Rightarrow> bool \<Rightarrow> bool" where
  "prints_number k is_signed =
     (data_type k = REDSHOW_DATA_INT
      \<and> (unit_size k = 8 \<and> is_signed \<or> unit_size k = 16 \<or> unit_size k = 32 \<or> unit_size k = 64))"

text \<open>
  C28. The text printed for an integer unit, read back as a number and cut to the width of the unit, is the
  value that the analyses compare (\<^const>\<open>value_to_basic_type\<close>).
\<close>

theorem value_to_string_roundtrip:
  assumes "prints_number k is_signed"
  shows "take_bit (unat (unit_size k)) (read_int (value_to_string k a is_signed)) = uint (value_to_basic_type k a f g)"
proof -
  have m: "(0xff :: u64) = mask 8" "(0xffff :: u64) = mask 16" "(0xffffffff :: u64) = mask 32"
    by (simp_all add: mask_eq_exp_minus_1)
  have b: "uint (a AND mask n) = take_bit n (uint a)" for n
    by (simp add: take_bit_eq_mask [symmetric] unsigned_take_bit_eq)
  have w: "take_bit 64 (uint a) = uint a"
    using uint_bounded [of a] by (intro take_bit_int_eq_self) simp_all
  from assms consider "unit_size k = 8" "is_signed" | "unit_size k = 16" | "unit_size k = 32" | "unit_size k = 64"
    by (auto simp: prints_number_def)
  then show ?thesis
    using assms take_bit_sint_ucast [where 'b = 8] take_bit_sint_ucast [where 'b = 16] take_bit_sint_ucast [where 'b = 32]
    by cases (auto simp: prints_number_def value_to_string_def value_to_basic_type_def m b w sint_uint
        take_bit_signed_take_bit unsigned_ucast_eq)
qed


theorem value_to_string_roundtrip_witness:
  "prints_number (AccessKind 32 32 REDSHOW_DATA_INT) True
   \<and> value_to_string (AccessKind 32 32 REDSHOW_DATA_INT) 0xABCDFFFFFFFE True = ''-2''
   \<and> take_bit 32 (read_int ''-2'') = uint (value_to_basic_type (AccessKind 32 32 REDSHOW_DATA_INT) 0xABCDFFFFFFFE 23 52)"
proof -
  let ?k = "AccessKind 32 32 REDSHOW_DATA_INT"
  have p: "prints_number ?k True" by (simp add: prints_number_def AccessKind_def)
  have v: "value_to_string ?k 0xABCDFFFFFFFE True = ''-2''"
    by (simp add: value_to_string_def AccessKind_def int_to_string_def nat_digits.simps char_of_def bit_Suc bit_0)
  with value_to_string_roundtrip [OF p, of "0xABCDFFFFFFFE" 23 52] p show ?thesis
    by (simp add: AccessKind_def)
qed

definition high_bits :: "access_kind \<Rightarrow> value_config \<Rightarrow> u64 \<Rightarrow> nat" where
  "high_bits k c a =
     (if unit_size k = 32 then unat (ucast a :: u32) div 2 ^ (23 - kept_bits k c)
      else unat a div 2 ^ (52 - kept_bits k c))"

lemma drop_bit_eq_iff_div: "drop_bit n a = drop_bit n b \<longleftrightarrow> unat a div 2 ^ n = unat (b :: 'a :: len word) div 2 ^ n"
  by (metis drop_bit_eq_div unat_drop_bit_eq word_unat_eq_iff)

lemma ucast_u64_inj: "(ucast (x :: u32) :: u64) = ucast y \<longleftrightarrow> x = y"
proof
  assume "(ucast x :: u64) = ucast y"
  then have "(ucast (ucast x :: u64) :: u32) = ucast (ucast y :: u64)" by simp
  moreover have "(ucast (ucast z :: u64) :: u32) = z" for z :: u32
    by (rule bit_word_eqI) (auto simp: bit_simps)
  ultimately show "x = y" by simp
qed simp

text \<open>
  Two floating-point units count as the same value exactly when their sign, exponent and the kept
  leading bits of their fractions agree.
\<close>

lemma value_to_basic_type_same:
  assumes "approx_ok c" "data_type k = REDSHOW_DATA_FLOAT" "unit_size k = 32 \<or> unit_size k = 64"
  shows "value_to_basic_type k a (decimal_degree_f32 c) (decimal_degree_f64 c)
           = value_to_basic_type k b (decimal_degree_f32 c) (decimal_degree_f64 c)
         \<longleftrightarrow> high_bits k c a = high_bits k c b"
proof (cases "unit_size k = 32")
  case True
  let ?d = "decimal_degree_f32 c"
  have d: "0 \<le> ?d" "?d \<le> 23" using assms(1) by (simp_all add: approx_ok_def)
  moreover have "nat (23 - ?d) = 23 - nat ?d" using d by linarith
  ultimately show ?thesis
    using assms True
    by (simp add: value_to_basic_type_def value_to_float_shift high_bits_def kept_bits_def ucast_u64_inj
        push_drop_eq_iff drop_bit_eq_iff_div)
next
  case False
  let ?d = "decimal_degree_f64 c"
  have d: "0 \<le> ?d" "?d \<le> 52" using assms(1) by (simp_all add: approx_ok_def)
  moreover have "nat (52 - ?d) = 52 - nat ?d" using d by linarith
  ultimately show ?thesis
    using assms False
    by (simp add: value_to_basic_type_def value_to_double_shift high_bits_def kept_bits_def
        push_drop_eq_iff drop_bit_eq_iff_div)
qed

theorem value_to_basic_type_error_witness:
  "let c = snd (redshow_approx_level_config 5 init_value_config); k = AccessKind 64 64 REDSHOW_DATA_FLOAT
   in \<exists>y. float_value k (value_to_basic_type k 0x3FFFFFFFFFFFFFFF (decimal_degree_f32 c) (decimal_degree_f64 c)) = Finite False y
           \<and> (2 ^ 53 - 1) / 2 ^ 52 - y < y / 2 ^ 12"
proof -
  let ?c = "snd (redshow_approx_level_config 5 init_value_config)"
  let ?k = "AccessKind 64 64 REDSHOW_DATA_FLOAT"
  have c: "approx_ok ?c" "kept_bits ?k ?c = 12"
    by (simp_all add: approx_ok_def redshow_approx_level_config_def set_degrees_def digits_defs kept_bits_def AccessKind_def)
  have v: "float_value ?k 0x3FFFFFFFFFFFFFFF = Finite False ((2 ^ 53 - 1) / 2 ^ 52)"
    by (simp add: float_value_def AccessKind_def double_of_bits_def ieee_of_bits_def ieee_sign_def ieee_exponent_def
        ieee_fraction_def Let_def power_int_def divide_simps)
  have n: "min_normal ?k \<le> (2 ^ 53 - 1) / 2 ^ 52"
  proof -
    have "min_normal ?k \<le> 2 powi 0" unfolding min_normal_def by (simp add: AccessKind_def powi_le)
    then show ?thesis by simp
  qed
  from value_to_basic_type_error [OF c(1) _ _ v n] c(2) show ?thesis
    by (auto simp: Let_def AccessKind_def)
qed

subsection \<open>The settings\<close>

lemma approx_ok_init: "approx_ok init_value_config"
  by (simp add: approx_ok_def init_value_config_def digits_defs)

text \<open>
  A level out of range is reported and changes nothing; after any call the degrees are such that the
  shifts of the truncations are defined.
\<close>

lemma redshow_approx_level_config_correct:
  assumes "approx_ok c"
  shows "case redshow_approx_level_config level c of (r, c') \<Rightarrow>
           approx_ok c' \<and> (r = REDSHOW_SUCCESS \<longleftrightarrow> level \<le> 5) \<and> (r \<noteq> REDSHOW_SUCCESS \<longrightarrow> c' = c)"
proof (cases "level \<le> 5")
  case True
  then have "unat level \<le> 5" by (simp add: word_le_nat_alt)
  then have "unat level \<in> {0, 1, 2, 3, 4, 5}" by auto
  then have "level \<in> {0, 1, 2, 3, 4, 5}" by (auto simp: word_unat_eq_iff)
  then show ?thesis
    by (auto simp: redshow_approx_level_config_def set_degrees_def approx_ok_def digits_defs)
next
  case False
  then have "level \<notin> {0, 1, 2, 3, 4, 5}" by auto
  with False assms show ?thesis by (auto simp: redshow_approx_level_config_def)
qed


end
