(* ===== verification/Symbols.thy ===== *)
theory Symbols
  imports Values
begin

section \<open>Symbols and program counters\<close>

text \<open>
  \<^verbatim>\<open>binutils/symbol.h\<close> and \<^verbatim>\<open>binutils/real_pc.h\<close>: the functions of a module with their run-time
  addresses, and the translation of a run-time program counter into a function and an offset. The
  vector is sorted by address when a cubin is registered, and the translation is a binary search in it.
\<close>

record symbol =
  sym_cubin_id :: u32
  sym_index :: u32
  sym_offset :: u64
  sym_pc :: u64

text \<open>No constructor of \<^verbatim>\<open>Symbol\<close> sets \<^verbatim>\<open>cubin_id\<close>: \<open>junk\<close> is what the memory holds.\<close>

definition Symbol :: "u32 \<Rightarrow> u32 \<Rightarrow> u64 \<Rightarrow> u64 \<Rightarrow> symbol" where
  "Symbol junk index offset pc =
     \<lparr>sym_cubin_id = junk, sym_index = index, sym_offset = offset, sym_pc = pc\<rparr>"

definition symbol_lt :: "symbol \<Rightarrow> symbol \<Rightarrow> bool" where
  "symbol_lt a b = (sym_pc a < sym_pc b)"

interpretation symbol_order: strict_weak symbol_lt
  by unfold_locales (auto simp: symbol_lt_def)

type_synonym symbol_vector = "symbol list"

record real_pc =
  rpc_cubin_id :: u32
  rpc_function_index :: u32
  rpc_pc_offset :: u64
  rpc_cubin_offset :: u64

definition RealPC :: "u32 \<Rightarrow> u32 \<Rightarrow> u64 \<Rightarrow> real_pc" where
  "RealPC cid fi off =
     \<lparr>rpc_cubin_id = cid, rpc_function_index = fi, rpc_pc_offset = off, rpc_cubin_offset = 0\<rparr>"

definition real_pc_lt :: "real_pc \<Rightarrow> real_pc \<Rightarrow> bool" where
  "real_pc_lt a b =
     (if rpc_cubin_id a = rpc_cubin_id b then
        if rpc_function_index a = rpc_function_index b then rpc_pc_offset a < rpc_pc_offset b
        else rpc_function_index a < rpc_function_index b
      else rpc_cubin_id a < rpc_cubin_id b)"

interpretation real_pc_order: strict_weak real_pc_lt
proof
  fix x y z :: real_pc
  show "\<not> real_pc_lt x x" by (simp add: real_pc_lt_def)
  show "real_pc_lt x y \<Longrightarrow> real_pc_lt y z \<Longrightarrow> real_pc_lt x z"
    by (auto simp: real_pc_lt_def split: if_splits)
  show "real_pc_lt x y \<Longrightarrow> real_pc_lt x z \<or> real_pc_lt z y"
    by (auto simp: real_pc_lt_def split: if_splits)
qed

text \<open>
  \<^verbatim>\<open>std::upper_bound\<close> on a sorted vector ends at the first symbol above the program counter; the element
  before it is the last one not above.
\<close>

definition transform_pc :: "symbol_vector \<Rightarrow> u64 \<Rightarrow> real_pc option" where
  "transform_pc symbols pc =
     (let before = takeWhile (\<lambda>s. \<not> pc < sym_pc s) symbols
      in if before = [] then None
         else let s = last before; off = pc - sym_pc s
           in Some \<lparr>rpc_cubin_id = sym_cubin_id s, rpc_function_index = sym_index s,
                    rpc_pc_offset = off, rpc_cubin_offset = off + sym_offset s\<rparr>)"

record record_view =
  rv_function_index :: u32
  rv_pc_offset :: u64
  rv_memory_id :: i32
  rv_memory_op_id :: u64
  rv_red_count :: u64
  rv_access_count :: u64

definition transform_view :: "symbol_vector \<Rightarrow> record_view \<Rightarrow> record_view" where
  "transform_view symbols v =
     (case transform_pc symbols (rv_pc_offset v) of
        None \<Rightarrow> v
      | Some r \<Rightarrow> v\<lparr>rv_function_index := rpc_function_index r, rv_pc_offset := rpc_pc_offset r\<rparr>)"

definition transform_data_views :: "symbol_vector \<Rightarrow> record_view list \<Rightarrow> record_view list" where
  "transform_data_views symbols views = map (transform_view symbols) views"

definition symbols_sorted :: "symbol_vector \<Rightarrow> bool" where
  "symbols_sorted symbols = sorted (map sym_pc symbols)"

lemma sorted_last: "sorted xs \<Longrightarrow> x \<in> set xs \<Longrightarrow> x \<le> last xs"
  by (induction xs) auto

text \<open>
  In a sorted vector the translation fails exactly when the program counter is below every symbol;
  otherwise it names a symbol with the greatest address not above the program counter, and the offset is
  the plain difference, without wrap-around.
\<close>

lemma transform_pc_correct:
  assumes "symbols_sorted symbols"
  shows "case transform_pc symbols pc of
      None \<Rightarrow> \<forall>s \<in> set symbols. pc < sym_pc s
    | Some r \<Rightarrow> \<exists>s \<in> set symbols. sym_pc s \<le> pc \<and> (\<forall>t \<in> set symbols. sym_pc t \<le> pc \<longrightarrow> sym_pc t \<le> sym_pc s)
        \<and> rpc_function_index r = sym_index s \<and> unat (rpc_pc_offset r) = unat pc - unat (sym_pc s)
        \<and> rpc_cubin_offset r = rpc_pc_offset r + sym_offset s"
proof -
  let ?before = "takeWhile (\<lambda>s. \<not> pc < sym_pc s) symbols"
  have "sorted_wrt (\<lambda>x y. \<not> pc < sym_pc y \<longrightarrow> \<not> pc < sym_pc x) symbols"
    using assms unfolding symbols_sorted_def sorted_map by (rule sorted_wrt_mono_rel [rotated]) auto
  then have f: "?before = filter (\<lambda>s. \<not> pc < sym_pc s) symbols" by (rule takeWhile_dropWhile_set)
  show ?thesis
  proof (cases "?before = []")
    case True
    then have "\<forall>s \<in> set symbols. pc < sym_pc s" unfolding f by (simp add: filter_empty_conv)
    with True show ?thesis by (simp add: transform_pc_def)
  next
    case False
    let ?s = "last ?before"
    have mem: "?s \<in> set ?before" using False by simp
    have sorted: "sorted (map sym_pc ?before)"
      using assms unfolding f symbols_sorted_def by (rule sorted_filter)
    have max: "sym_pc t \<le> sym_pc ?s" if "t \<in> set symbols" "sym_pc t \<le> pc" for t
    proof -
      have "t \<in> set ?before" using that unfolding f by auto
      then have "sym_pc t \<in> set (map sym_pc ?before)" by simp
      then have "sym_pc t \<le> last (map sym_pc ?before)"
        by (rule sorted_last [OF sorted])
      then show ?thesis using False by (simp add: last_map)
    qed
    have le: "sym_pc ?s \<le> pc" and "?s \<in> set symbols" using mem unfolding f by auto
    with False max le unat_diff_u64 [OF le] show ?thesis
      by (auto simp: transform_pc_def Let_def intro!: bexI [of _ ?s])
  qed
qed

end
