(* ===== verification/Graphs.thy ===== *)
theory Graphs
  imports Containers
begin

section \<open>Graphs and paths\<close>

text \<open>
  \<^verbatim>\<open>Graph<Index, Node, EdgeIndex, Edge>\<close> (\<^verbatim>\<open>redshow/include/common/graph.h\<close>) keeps four maps:
  the nodes, the edges, and for each node the sets of its incoming and outgoing edge indices.
  The class is a template, so the comparators of \<^verbatim>\<open>Index\<close> and \<^verbatim>\<open>EdgeIndex\<close> and the fields
  \<^verbatim>\<open>from\<close> and \<^verbatim>\<open>to\<close> of an edge index are arguments; the locale \<open>graph_keys\<close> states
  what they have to satisfy, and holds the invariant that the neighbour sets list exactly the edges.
  \<^verbatim>\<open>Path<T>\<close> (\<^verbatim>\<open>path.h\<close>) is an array with a fill index that doubles its capacity when it is full.
\<close>

record ('i, 'n, 'e, 'd) graph =
  g_incoming :: "('i, 'e oset) omap"
  g_outgoing :: "('i, 'e oset) omap"
  g_edges :: "('e, 'd) omap"
  g_nodes :: "('i, 'n) omap"

definition empty_graph :: "('i, 'n, 'e, 'd) graph" where
  "empty_graph = \<lparr>g_incoming = [], g_outgoing = [], g_edges = [], g_nodes = []\<rparr>"

definition incoming_edge_size :: "('i \<Rightarrow> 'i \<Rightarrow> bool) \<Rightarrow> ('i, 'n, 'e, 'd) graph \<Rightarrow> 'i \<Rightarrow> nat" where
  "incoming_edge_size lti g i =
     (case map_at lti (g_incoming g) i of None \<Rightarrow> 0 | Some s \<Rightarrow> length s)"

definition outgoing_edge_size :: "('i \<Rightarrow> 'i \<Rightarrow> bool) \<Rightarrow> ('i, 'n, 'e, 'd) graph \<Rightarrow> 'i \<Rightarrow> nat" where
  "outgoing_edge_size lti g i =
     (case map_at lti (g_outgoing g) i of None \<Rightarrow> 0 | Some s \<Rightarrow> length s)"

text \<open>\<^verbatim>\<open>incoming_edges(index)\<close>, \<^verbatim>\<open>outgoing_edges(index)\<close>: \<^verbatim>\<open>at()\<close> on a missing node is a fault.\<close>

definition incoming_edges :: "('i \<Rightarrow> 'i \<Rightarrow> bool) \<Rightarrow> ('i, 'n, 'e, 'd) graph \<Rightarrow> 'i \<Rightarrow> 'e oset outcome" where
  "incoming_edges lti g i = or_fault OutOfRange (map_at lti (g_incoming g) i)"

definition outgoing_edges :: "('i \<Rightarrow> 'i \<Rightarrow> bool) \<Rightarrow> ('i, 'n, 'e, 'd) graph \<Rightarrow> 'i \<Rightarrow> 'e oset outcome" where
  "outgoing_edges lti g i = or_fault OutOfRange (map_at lti (g_outgoing g) i)"

definition has_edge :: "('e \<Rightarrow> 'e \<Rightarrow> bool) \<Rightarrow> ('i, 'n, 'e, 'd) graph \<Rightarrow> 'e \<Rightarrow> bool" where
  "has_edge lte g e = map_has lte (g_edges g) e"

definition add_edge ::
  "('i \<Rightarrow> 'i \<Rightarrow> bool) \<Rightarrow> ('e \<Rightarrow> 'e \<Rightarrow> bool) \<Rightarrow> ('e \<Rightarrow> 'i) \<Rightarrow> ('e \<Rightarrow> 'i) \<Rightarrow>
   'e \<Rightarrow> 'd \<Rightarrow> ('i, 'n, 'e, 'd) graph \<Rightarrow> ('i, 'n, 'e, 'd) graph" where
  "add_edge lti lte efrom eto e d g =
     (if map_has lte (g_edges g) e then g
      else g\<lparr>g_edges := map_emplace lte (g_edges g) e d,
             g_incoming := map_upd lti [] (g_incoming g) (eto e) (\<lambda>s. set_insert lte s e),
             g_outgoing := map_upd lti [] (g_outgoing g) (efrom e) (\<lambda>s. set_insert lte s e)\<rparr>)"

definition remove_edge ::
  "('i \<Rightarrow> 'i \<Rightarrow> bool) \<Rightarrow> ('e \<Rightarrow> 'e \<Rightarrow> bool) \<Rightarrow> ('e \<Rightarrow> 'i) \<Rightarrow> ('e \<Rightarrow> 'i) \<Rightarrow>
   'e \<Rightarrow> ('i, 'n, 'e, 'd) graph \<Rightarrow> ('i, 'n, 'e, 'd) graph" where
  "remove_edge lti lte efrom eto e g =
     g\<lparr>g_incoming := map_upd lti [] (g_incoming g) (eto e) (\<lambda>s. set_erase lte s e),
       g_outgoing := map_upd lti [] (g_outgoing g) (efrom e) (\<lambda>s. set_erase lte s e),
       g_edges := map_erase lte (g_edges g) e\<rparr>"

definition has_node :: "('i \<Rightarrow> 'i \<Rightarrow> bool) \<Rightarrow> ('i, 'n, 'e, 'd) graph \<Rightarrow> 'i \<Rightarrow> bool" where
  "has_node lti g i = (map_find lti (g_nodes g) i \<noteq> None)"

definition add_node ::
  "('i \<Rightarrow> 'i \<Rightarrow> bool) \<Rightarrow> 'i \<Rightarrow> 'n \<Rightarrow> ('i, 'n, 'e, 'd) graph \<Rightarrow> ('i, 'n, 'e, 'd) graph" where
  "add_node lti i n g = g\<lparr>g_nodes := map_emplace lti (g_nodes g) i n\<rparr>"

definition remove_node :: "('i \<Rightarrow> 'i \<Rightarrow> bool) \<Rightarrow> 'i \<Rightarrow> ('i, 'n, 'e, 'd) graph \<Rightarrow> ('i, 'n, 'e, 'd) graph" where
  "remove_node lti i g = g\<lparr>g_nodes := map_erase lti (g_nodes g) i\<rparr>"

definition edge_at :: "('e \<Rightarrow> 'e \<Rightarrow> bool) \<Rightarrow> ('i, 'n, 'e, 'd) graph \<Rightarrow> 'e \<Rightarrow> 'd outcome" where
  "edge_at lte g e = or_fault OutOfRange (map_at lte (g_edges g) e)"

definition node_at :: "('i \<Rightarrow> 'i \<Rightarrow> bool) \<Rightarrow> ('i, 'n, 'e, 'd) graph \<Rightarrow> 'i \<Rightarrow> 'n outcome" where
  "node_at lti g i = or_fault OutOfRange (map_at lti (g_nodes g) i)"

text \<open>A change through the reference that \<^verbatim>\<open>edge(index)\<close> returns.\<close>

definition edge_modify ::
  "('e \<Rightarrow> 'e \<Rightarrow> bool) \<Rightarrow> 'e \<Rightarrow> ('d \<Rightarrow> 'd) \<Rightarrow> ('i, 'n, 'e, 'd) graph \<Rightarrow> ('i, 'n, 'e, 'd) graph" where
  "edge_modify lte e f g =
     (case map_at lte (g_edges g) e of
        None \<Rightarrow> g
      | Some d \<Rightarrow> g\<lparr>g_edges := map_set lte (g_edges g) e (f d)\<rparr>)"

definition graph_size :: "('i, 'n, 'e, 'd) graph \<Rightarrow> nat" where
  "graph_size g = length (g_nodes g)"

definition edge_size :: "('i, 'n, 'e, 'd) graph \<Rightarrow> nat" where
  "edge_size g = length (g_edges g)"

subsection \<open>The neighbour sets\<close>

definition neighbours_ok ::
  "('i \<Rightarrow> 'i \<Rightarrow> bool) \<Rightarrow> ('e \<Rightarrow> 'e \<Rightarrow> bool) \<Rightarrow> ('e \<Rightarrow> 'i) \<Rightarrow> ('e, 'd) omap \<Rightarrow> ('i, 'e oset) omap \<Rightarrow> bool" where
  "neighbours_ok lti lte side es nb \<longleftrightarrow>
     map_ok lti nb \<and>
     (\<forall>i. set_ok lte (map_touch lti [] nb i)) \<and>
     (\<forall>i e. e \<in> set (map_touch lti [] nb i) \<longleftrightarrow> map_has lte es e \<and> side e = i)"

definition graph_ok ::
  "('i \<Rightarrow> 'i \<Rightarrow> bool) \<Rightarrow> ('e \<Rightarrow> 'e \<Rightarrow> bool) \<Rightarrow> ('e \<Rightarrow> 'i) \<Rightarrow> ('e \<Rightarrow> 'i) \<Rightarrow> ('i, 'n, 'e, 'd) graph \<Rightarrow> bool" where
  "graph_ok lti lte efrom eto g \<longleftrightarrow>
     map_ok lti (g_nodes g) \<and> map_ok lte (g_edges g) \<and>
     neighbours_ok lti lte eto (g_edges g) (g_incoming g) \<and>
     neighbours_ok lti lte efrom (g_edges g) (g_outgoing g)"

locale graph_keys = index: strict_total lti + key: strict_total lte
  for lti :: "'i \<Rightarrow> 'i \<Rightarrow> bool" and lte :: "'e \<Rightarrow> 'e \<Rightarrow> bool" +
  fixes efrom :: "'e \<Rightarrow> 'i" and eto :: "'e \<Rightarrow> 'i"
begin

lemma touch_upd:
  "map_ok lti nb \<Longrightarrow>
   map_touch lti [] (map_upd lti [] nb i f) j = (if j = i then f (map_touch lti [] nb i) else map_touch lti [] nb j)"
  by (simp add: map_touch_def index.map_at_upd)

lemma neighbours_insert:
  assumes "map_ok lte es" "neighbours_ok lti lte side es nb"
  shows "neighbours_ok lti lte side (map_emplace lte es e d)
           (map_upd lti [] nb (side e) (\<lambda>s. set_insert lte s e))"
proof -
  have nb: "map_ok lti nb" and s: "\<And>i. set_ok lte (map_touch lti [] nb i)"
    and m: "\<And>i e. e \<in> set (map_touch lti [] nb i) \<longleftrightarrow> map_has lte es e \<and> side e = i"
    using assms(2) by (auto simp: neighbours_ok_def)
  have has: "map_has lte (map_emplace lte es e d) x \<longleftrightarrow> x = e \<or> map_has lte es x" for x
    by (auto simp: map_has_at key.map_at_emplace [OF assms(1)])
  show ?thesis
    unfolding neighbours_ok_def
    by (auto simp: touch_upd [OF nb] key.set_ok_insert [OF s] s has m
        key.set_set_insert_eq [OF s] index.map_ok_upd [OF nb])
qed

lemma neighbours_erase:
  assumes "map_ok lte es" "neighbours_ok lti lte side es nb"
  shows "neighbours_ok lti lte side (map_erase lte es e)
           (map_upd lti [] nb (side e) (\<lambda>s. set_erase lte s e))"
proof -
  have nb: "map_ok lti nb" and s: "\<And>i. set_ok lte (map_touch lti [] nb i)"
    and m: "\<And>i e. e \<in> set (map_touch lti [] nb i) \<longleftrightarrow> map_has lte es e \<and> side e = i"
    using assms(2) by (auto simp: neighbours_ok_def)
  have has: "map_has lte (map_erase lte es e) x \<longleftrightarrow> x \<noteq> e \<and> map_has lte es x" for x
    by (auto simp: map_has_at key.map_at_erase [OF assms(1)])
  show ?thesis
    unfolding neighbours_ok_def
    by (auto simp: touch_upd [OF nb] key.set_ok_erase [OF s] s has m
        key.set_set_erase_eq [OF s] index.map_ok_upd [OF nb])
qed

lemma graph_ok_empty: "graph_ok lti lte efrom eto empty_graph"
  by (simp add: graph_ok_def empty_graph_def neighbours_ok_def map_touch_def map_has_def)

lemma graph_ok_add_edge:
  assumes "graph_ok lti lte efrom eto g"
  shows "graph_ok lti lte efrom eto (add_edge lti lte efrom eto e d g)"
  using assms neighbours_insert key.map_ok_emplace
  by (auto simp: graph_ok_def add_edge_def)

lemma graph_ok_remove_edge:
  assumes "graph_ok lti lte efrom eto g"
  shows "graph_ok lti lte efrom eto (remove_edge lti lte efrom eto e g)"
  using assms neighbours_erase key.map_ok_erase
  by (auto simp: graph_ok_def remove_edge_def)

lemma graph_ok_add_node:
  "graph_ok lti lte efrom eto g \<Longrightarrow> graph_ok lti lte efrom eto (add_node lti i n g)"
  by (simp add: graph_ok_def add_node_def index.map_ok_emplace)

lemma graph_ok_remove_node:
  "graph_ok lti lte efrom eto g \<Longrightarrow> graph_ok lti lte efrom eto (remove_node lti i g)"
  by (simp add: graph_ok_def remove_node_def index.map_ok_erase)

lemma neighbours_same_keys:
  "(\<And>x. map_has lte es' x = map_has lte es x) \<Longrightarrow>
   neighbours_ok lti lte side es nb \<Longrightarrow> neighbours_ok lti lte side es' nb"
  by (simp add: neighbours_ok_def)

lemma graph_ok_edge_modify:
  assumes "graph_ok lti lte efrom eto g"
  shows "graph_ok lti lte efrom eto (edge_modify lte e f g)"
proof (cases "map_at lte (g_edges g) e")
  case (Some d)
  have ok: "map_ok lte (g_edges g)" using assms by (simp add: graph_ok_def)
  have "map_has lte (map_set lte (g_edges g) e (f d)) x = map_has lte (g_edges g) x" for x
    using Some by (simp add: map_has_at key.map_at_set [OF ok])
  with Some assms show ?thesis
    using neighbours_same_keys [of "map_set lte (g_edges g) e (f d)" "g_edges g"] key.map_ok_set [OF ok]
    by (auto simp: graph_ok_def edge_modify_def)
qed (use assms in \<open>simp add: edge_modify_def\<close>)

lemma edge_at_add_edge:
  assumes "graph_ok lti lte efrom eto g"
  shows "edge_at lte (add_edge lti lte efrom eto e d g) e' =
           (if e' = e \<and> \<not> has_edge lte g e then Inr d else edge_at lte g e')"
proof -
  have ok: "map_ok lte (g_edges g)" using assms by (simp add: graph_ok_def)
  show ?thesis
    by (simp add: edge_at_def add_edge_def has_edge_def map_has_at key.map_at_emplace [OF ok])
qed

lemma edge_at_modify:
  assumes "graph_ok lti lte efrom eto g"
  shows "edge_at lte (edge_modify lte e f g) e' =
           (if e' = e then map_sum id f (edge_at lte g e) else edge_at lte g e')"
proof -
  have ok: "map_ok lte (g_edges g)" using assms by (simp add: graph_ok_def)
  show ?thesis
    by (cases "map_at lte (g_edges g) e") (auto simp: edge_at_def edge_modify_def key.map_at_set [OF ok])
qed

lemma incoming_exactly:
  assumes "graph_ok lti lte efrom eto g" "incoming_edges lti g i = Inr s"
  shows "e \<in> set s \<longleftrightarrow> has_edge lte g e \<and> eto e = i"
proof -
  have "map_touch lti [] (g_incoming g) i = s"
    using assms(2) by (simp add: incoming_edges_def map_touch_def)
  then show ?thesis
    using assms(1) by (auto simp: graph_ok_def neighbours_ok_def has_edge_def)
qed

end

subsection \<open>Paths\<close>

record 'a path =
  p_entries :: "'a list"
  p_index :: nat
  p_capacity :: nat

text \<open>\<open>dflt\<close> is the value of \<^verbatim>\<open>T()\<close> that fills a new array.\<close>

definition new_path :: "'a \<Rightarrow> nat \<Rightarrow> 'a path" where
  "new_path dflt cap = \<lparr>p_entries = replicate cap dflt, p_index = 0, p_capacity = cap\<rparr>"

definition path_reserve :: "'a \<Rightarrow> nat \<Rightarrow> 'a path \<Rightarrow> 'a path" where
  "path_reserve dflt cap p =
     (if cap > p_capacity p
      then p\<lparr>p_entries := p_entries p @ replicate (cap - p_capacity p) dflt, p_capacity := cap\<rparr>
      else p)"

text \<open>A write past the array is a fault.\<close>

definition path_push_back :: "'a \<Rightarrow> 'a \<Rightarrow> 'a path \<Rightarrow> 'a path outcome" where
  "path_push_back dflt v p =
     (if p_index p \<ge> length (p_entries p) then Inl OutOfRange
      else let p' = p\<lparr>p_entries := (p_entries p)[p_index p := v], p_index := p_index p + 1\<rparr>
           in Inr (if p_index p' = p_capacity p' then path_reserve dflt (p_capacity p' * 2) p' else p'))"

definition path_pop_back :: "'a path \<Rightarrow> ('a \<times> 'a path) outcome" where
  "path_pop_back p =
     (if p_index p = 0 \<or> p_index p > length (p_entries p) then Inl OutOfRange
      else Inr (p_entries p ! (p_index p - 1), p\<lparr>p_index := p_index p - 1\<rparr>))"

definition path_get :: "'a path \<Rightarrow> nat \<Rightarrow> 'a outcome" where
  "path_get p i = (if i < length (p_entries p) then Inr (p_entries p ! i) else Inl OutOfRange)"

definition path_back :: "'a path \<Rightarrow> 'a outcome" where
  "path_back p = (if p_index p = 0 then Inl OutOfRange else path_get p (p_index p - 1))"

definition path_reset :: "'a path \<Rightarrow> 'a path" where
  "path_reset p = p\<lparr>p_index := 0\<rparr>"

definition path_resize :: "'a \<Rightarrow> nat \<Rightarrow> 'a path \<Rightarrow> 'a path" where
  "path_resize dflt n p =
     (let p' = p\<lparr>p_index := n\<rparr>
      in if n = p_capacity p' then path_reserve dflt (p_capacity p' * 2) p' else p')"

definition path_ok :: "'a path \<Rightarrow> bool" where
  "path_ok p \<longleftrightarrow> length (p_entries p) = p_capacity p \<and> p_index p < p_capacity p"

definition path_contents :: "'a path \<Rightarrow> 'a list" where
  "path_contents p = take (p_index p) (p_entries p)"

lemma path_ok_new: "0 < cap \<Longrightarrow> path_ok (new_path d cap)"
  by (simp add: path_ok_def new_path_def)

lemma path_contents_new [simp]: "path_contents (new_path d cap) = []"
  by (simp add: path_contents_def new_path_def)

lemma path_ok_reset: "path_ok p \<Longrightarrow> path_ok (path_reset p)"
  by (auto simp: path_ok_def path_reset_def)

lemma path_contents_reset [simp]: "path_contents (path_reset p) = []"
  by (simp add: path_contents_def path_reset_def)

lemma path_reserve_contents:
  "path_ok p \<or> length (p_entries p) = p_capacity p \<and> p_index p = p_capacity p \<Longrightarrow>
   path_contents (path_reserve d cap p) = path_contents p"
  by (auto simp: path_reserve_def path_contents_def path_ok_def)

lemma path_push_back_ok:
  assumes "path_ok p"
  shows "\<exists>p'. path_push_back d v p = Inr p' \<and> path_ok p' \<and> path_contents p' = path_contents p @ [v]"
proof -
  let ?es = "(p_entries p)[p_index p := v]"
  have i: "p_index p < length (p_entries p)" and l: "length (p_entries p) = p_capacity p"
    using assms by (auto simp: path_ok_def)
  have t: "take (Suc (p_index p)) ?es = take (p_index p) (p_entries p) @ [v]"
    using i by (simp add: take_Suc_conv_app_nth)
  have all: "?es = take (Suc (p_index p)) ?es" if "Suc (p_index p) = p_capacity p"
    using that l by simp
  show ?thesis
    using i l t all
    by (auto simp: path_push_back_def path_ok_def path_contents_def path_reserve_def Let_def)
qed

lemma path_get_contents: "path_ok p \<Longrightarrow> i < p_index p \<Longrightarrow> path_get p i = Inr (path_contents p ! i)"
  by (auto simp: path_get_def path_ok_def path_contents_def)

lemma path_resize_ok: "path_ok p \<Longrightarrow> path_ok (path_resize d n p) \<longleftrightarrow> n \<le> p_capacity p"
  by (auto simp: path_ok_def path_resize_def path_reserve_def Let_def)

end
