(* ===== verification/Instructions.thy ===== *)
theory Instructions
  imports Values Graphs
begin

section \<open>Instructions and their access kinds\<close>

text \<open>
  The parser of the instruction files (\<^verbatim>\<open>redshow/src/binutils/instruction.cpp\<close>): it reads the functions of
  a cubin into a graph of instructions, connects each instruction to those that assign its source
  registers, and finds for every memory instruction the kind of its accesses by a depth-first search along
  these dependences. The search goes forward from a load and backward from a store, keeps the set of visited
  program counters, and caches the kinds it finds for loads on the way. The model carries the graph and the
  visited set through the calls; the recursion takes a bound on its depth, and the theorems show that one
  more than the number of instructions is always enough. The property tree that \<^verbatim>\<open>boost\<close> reads from
  the file is a parameter.
\<close>

subsection \<open>Substrings\<close>

text \<open>\<^verbatim>\<open>s.find(p) != std::string::npos\<close>\<close>

fun has_sub :: "string \<Rightarrow> string \<Rightarrow> bool" where
  "has_sub [] p = (p = [])"
| "has_sub (c # s) p = (take (length p) (c # s) = p \<or> has_sub s p)"

subsection \<open>The instruction graph\<close>

record instruction =
  inst_op :: string
  inst_pc :: u32
  inst_predicate :: int
  inst_dsts :: "int list"
  inst_srcs :: "int list"
  inst_udsts :: "int list"
  inst_usrcs :: "int list"
  inst_assign_pcs :: "(int, int list) omap"
  inst_uassign_pcs :: "(int, int list) omap"
  inst_access_kind :: "access_kind option"

definition Instruction ::
  "string \<Rightarrow> int \<Rightarrow> int \<Rightarrow> int list \<Rightarrow> int list \<Rightarrow> int list \<Rightarrow> int list \<Rightarrow>
   (int, int list) omap \<Rightarrow> (int, int list) omap \<Rightarrow> instruction" where
  "Instruction op pc pred dsts srcs udsts usrcs apcs uapcs =
     \<lparr>inst_op = op, inst_pc = word_of_int pc, inst_predicate = pred, inst_dsts = dsts, inst_srcs = srcs,
      inst_udsts = udsts, inst_usrcs = usrcs, inst_assign_pcs = apcs, inst_uassign_pcs = uapcs,
      inst_access_kind = None\<rparr>"

record dependency_index =
  dep_from :: u64
  dep_to :: u64

definition dependency_lt :: "dependency_index \<Rightarrow> dependency_index \<Rightarrow> bool" where
  "dependency_lt a b = (if dep_from a = dep_from b then dep_to a < dep_to b else dep_from a < dep_from b)"

interpretation dependency_order: strict_total dependency_lt
proof
  fix x y z :: dependency_index
  show "\<not> dependency_lt x x" by (simp add: dependency_lt_def)
  show "dependency_lt x y \<Longrightarrow> dependency_lt y z \<Longrightarrow> dependency_lt x z"
    by (auto simp: dependency_lt_def split: if_splits)
  show "dependency_lt x y \<Longrightarrow> dependency_lt x z \<or> dependency_lt z y"
    by (auto simp: dependency_lt_def split: if_splits)
  show "\<not> dependency_lt x y \<Longrightarrow> \<not> dependency_lt y x \<Longrightarrow> x = y"
    by (auto simp: dependency_lt_def split: if_splits)
qed

interpretation inst_graph: graph_keys "(<) :: u64 \<Rightarrow> u64 \<Rightarrow> bool" dependency_lt dep_from dep_to
  by unfold_locales

text \<open>The data of an edge is \<^verbatim>\<open>InstructionDependency::inter_function\<close>.\<close>

type_synonym instruction_graph = "(u64, instruction, dependency_index, bool) graph"

subsection \<open>Access kinds from the opcode\<close>

definition op_vec_size :: "string \<Rightarrow> u32" where
  "op_vec_size op =
     (if has_sub op ''.128'' then 128
      else if has_sub op ''.64'' then 64
      else if has_sub op ''.32'' then 32
      else if has_sub op ''.16'' then 16
      else if has_sub op ''.8'' then 8
      else 32)"

definition default_access_kind :: "value_config \<Rightarrow> string \<Rightarrow> access_kind \<Rightarrow> access_kind" where
  "default_access_kind cfg op k =
     (let k1 = (if vec_size k = 0 then k\<lparr>vec_size := op_vec_size op\<rparr> else k);
          k2 = (if unit_size k1 = 0 then k1\<lparr>unit_size := min 32 (vec_size k1)\<rparr> else k1)
      in if data_type k2 = REDSHOW_DATA_UNKNOWN then k2\<lparr>data_type := snd (redshow_data_type_get cfg)\<rparr> else k2)"

definition direct_unit_size :: "bool \<Rightarrow> string \<Rightarrow> access_kind \<Rightarrow> access_kind" where
  "direct_unit_size load op k =
     (if unit_size k \<noteq> 0 then k
      else if has_sub op ''.64'' then k\<lparr>unit_size := min 64 (vec_size k)\<rparr>
      else if has_sub op ''.32'' then k\<lparr>unit_size := min 32 (vec_size k)\<rparr>
      else if has_sub op ''.16'' then k\<lparr>unit_size := min 16 (vec_size k)\<rparr>
      else if has_sub op ''.8'' then k\<lparr>unit_size := min 8 (vec_size k)\<rparr>
      else if has_sub op ''._64_TO_32'' then k\<lparr>unit_size := min (if load then 64 else 32) (vec_size k)\<rparr>
      else if has_sub op ''._32_TO_64'' then k\<lparr>unit_size := min (if load then 32 else 64) (vec_size k)\<rparr>
      else k)"

text \<open>What is still unknown is taken from another kind.\<close>

definition merge_kind :: "access_kind \<Rightarrow> redshow_data_type \<Rightarrow> u32 \<Rightarrow> access_kind" where
  "merge_kind k dt u =
     (let k1 = (if data_type k = REDSHOW_DATA_UNKNOWN then k\<lparr>data_type := dt\<rparr> else k)
      in if unit_size k1 = 0 then k1\<lparr>unit_size := u\<rparr> else k1)"

text \<open>An operand of the neighbour, \<^verbatim>\<open>srcs[i]\<close>, and whether the instruction defines it.\<close>

definition defines_src :: "instruction \<Rightarrow> instruction \<Rightarrow> nat \<Rightarrow> bool outcome" where
  "defines_src inst n i =
     (if i < length (inst_srcs n) then Inr (inst_srcs n ! i \<in> set (inst_dsts inst)) else Inl OutOfRange)"

text \<open>A load whose result is the address of another memory instruction.\<close>

definition address_kind :: "instruction \<Rightarrow> instruction \<Rightarrow> access_kind \<Rightarrow> access_kind outcome" where
  "address_kind inst n k =
     (if has_sub (inst_op n) ''.SHARED'' \<or> has_sub (inst_op n) ''.LOCAL'' then
        fbind (defines_src inst n 0) (\<lambda>b.
          Inr (if b then merge_kind k REDSHOW_DATA_INT 32 else k))
      else
        fbind (fbind (defines_src inst n 0) (\<lambda>b. if b then Inr True else defines_src inst n 1)) (\<lambda>b.
          Inr (if b then merge_kind k REDSHOW_DATA_INT 64 else k)))"

text \<open>The data type that an arithmetic neighbour tells.\<close>

definition compute_kind :: "bool \<Rightarrow> string \<Rightarrow> access_kind \<Rightarrow> access_kind" where
  "compute_kind load op k =
     (if has_sub op ''INTEGER'' \<or> has_sub op ''UNIFORM'' then k\<lparr>data_type := REDSHOW_DATA_INT\<rparr>
      else if has_sub op ''FLOAT'' then k\<lparr>data_type := REDSHOW_DATA_FLOAT\<rparr>
      else if has_sub op ''CONVERT'' then
        if has_sub op ''.I2F'' then k\<lparr>data_type := if load then REDSHOW_DATA_INT else REDSHOW_DATA_FLOAT\<rparr>
        else if has_sub op ''.F2F'' then k\<lparr>data_type := REDSHOW_DATA_FLOAT\<rparr>
        else if has_sub op ''.F2I'' then k\<lparr>data_type := if load then REDSHOW_DATA_FLOAT else REDSHOW_DATA_INT\<rparr>
        else if has_sub op ''.I2I'' then k\<lparr>data_type := REDSHOW_DATA_INT\<rparr>
        else k
      else if data_type k = REDSHOW_DATA_UNKNOWN then k\<lparr>data_type := REDSHOW_DATA_INT\<rparr>
      else k)"

subsection \<open>The search\<close>

text \<open>\<^verbatim>\<open>inst.access_kind = ...\<close> through the reference to the node.\<close>

definition set_access_kind :: "u64 \<Rightarrow> access_kind \<Rightarrow> instruction_graph \<Rightarrow> instruction_graph" where
  "set_access_kind i k g =
     (case map_at (<) (g_nodes g) i of
        None \<Rightarrow> g
      | Some n \<Rightarrow> g\<lparr>g_nodes := map_set (<) (g_nodes g) i (n\<lparr>inst_access_kind := Some k\<rparr>)\<rparr>)"

type_synonym search_state = "instruction_graph \<times> u32 oset"

type_synonym search = "instruction \<Rightarrow> bool \<Rightarrow> search_state \<Rightarrow> (access_kind \<times> search_state) outcome"

definition search_neighbor ::
  "value_config \<Rightarrow> search \<Rightarrow> instruction \<Rightarrow> bool \<Rightarrow> u64 \<Rightarrow> access_kind \<Rightarrow> search_state \<Rightarrow>
   (access_kind \<times> search_state) outcome" where
  "search_neighbor cfg again inst load pc k0 st =
     fbind (node_at (<) (fst st) pc) (\<lambda>n.
       let k = direct_unit_size load (inst_op n) k0
       in if has_sub (inst_op n) ''MOVE'' then
            fbind (again n load st) (\<lambda>(nk, st'). Inr (merge_kind k (data_type nk) (unit_size nk), st'))
          else if has_sub (inst_op n) ''MEMORY'' then
            if load then fbind (address_kind inst n k) (\<lambda>k'. Inr (k', st))
            else case inst_access_kind n of
                Some nk \<Rightarrow> Inr (merge_kind k (data_type nk) (unit_size nk), st)
              | None \<Rightarrow> fbind (again n True st) (\<lambda>(ik, st').
                  let nk = default_access_kind cfg (inst_op n) ik
                  in Inr (merge_kind k (data_type nk) (unit_size nk),
                          (set_access_kind pc nk (fst st'), snd st')))
          else Inr (compute_kind load (inst_op n) k, st))"

fun search_edges ::
  "value_config \<Rightarrow> search \<Rightarrow> instruction \<Rightarrow> bool \<Rightarrow> dependency_index list \<Rightarrow> access_kind \<Rightarrow> search_state \<Rightarrow>
   (access_kind \<times> search_state) outcome" where
  "search_edges cfg again inst load [] k st = Inr (k, st)"
| "search_edges cfg again inst load (e # es) k st =
     fbind (search_neighbor cfg again inst load (if load then dep_to e else dep_from e) k st) (\<lambda>(k', st').
       if data_type k' \<noteq> REDSHOW_DATA_UNKNOWN \<and> unit_size k' \<noteq> 0 then Inr (k', st')
       else search_edges cfg again inst load es k' st')"

definition opcode_kind :: "string \<Rightarrow> access_kind" where
  "opcode_kind op =
     (let k = unknown_kind\<lparr>vec_size := op_vec_size op\<rparr>
      in if has_sub op ''UNIFORM'' then k\<lparr>data_type := REDSHOW_DATA_INT\<rparr> else k)"

primrec init_access_kind ::
  "value_config \<Rightarrow> nat \<Rightarrow> search" where
  "init_access_kind cfg 0 inst load st = Inl OutOfFuel"
| "init_access_kind cfg (Suc fuel) inst load st =
     (if set_has (<) (snd st) (inst_pc inst) then Inr (unknown_kind, st)
      else let st' = (fst st, set_insert (<) (snd st) (inst_pc inst));
               i = ucast (inst_pc inst) :: u64
        in if load \<and> outgoing_edge_size (<) (fst st') i = 0 \<or> \<not> load \<and> incoming_edge_size (<) (fst st') i = 0
           then Inr (opcode_kind (inst_op inst), st')
           else fbind (if load then outgoing_edges (<) (fst st') i else incoming_edges (<) (fst st') i) (\<lambda>es.
             search_edges cfg (init_access_kind cfg fuel) inst load es (opcode_kind (inst_op inst)) st'))"

subsection \<open>Reading the instructions\<close>

text \<open>
  What the parser uses of \<^verbatim>\<open>boost::property_tree\<close>: \<^verbatim>\<open>get<T>(key, default)\<close>, the subtrees of
  \<^verbatim>\<open>get_child(key)\<close> (an exception when there is no such child), and \<^verbatim>\<open>lexical_cast<int>(data())\<close>.
\<close>

record 't ptree_lib =
  pt_get_int :: "'t \<Rightarrow> string \<Rightarrow> int \<Rightarrow> int"
  pt_get_string :: "'t \<Rightarrow> string \<Rightarrow> string \<Rightarrow> string"
  pt_children :: "'t \<Rightarrow> string \<Rightarrow> 't list outcome"
  pt_data_int :: "'t \<Rightarrow> int outcome"

fun fmap :: "('a \<Rightarrow> 'b outcome) \<Rightarrow> 'a list \<Rightarrow> 'b list outcome" where
  "fmap f [] = Inr []"
| "fmap f (x # xs) = fbind (f x) (\<lambda>y. fbind (fmap f xs) (\<lambda>ys. Inr (y # ys)))"

definition parse_registers :: "'t ptree_lib \<Rightarrow> string \<Rightarrow> 't \<Rightarrow> int list outcome" where
  "parse_registers pt key t = fbind (pt_children pt t key) (fmap (pt_data_int pt))"

definition parse_source ::
  "'t ptree_lib \<Rightarrow> string \<Rightarrow> int \<Rightarrow> 't \<Rightarrow> int list \<times> (int, int list) omap \<Rightarrow>
   (int list \<times> (int, int list) omap) outcome" where
  "parse_source pt key cubin_offset t acc =
     (let src = pt_get_int pt t ''id'' 0
      in fbind (pt_children pt t key) (\<lambda>ts.
         fbind (ffold (\<lambda>u m. fbind (pt_data_int pt u) (\<lambda>p.
                  Inr (map_upd (<) [] m src (\<lambda>ps. ps @ [p + cubin_offset])))) ts (snd acc)) (\<lambda>m.
         Inr (fst acc @ [src], m))))"

definition parse_sources ::
  "'t ptree_lib \<Rightarrow> string \<Rightarrow> string \<Rightarrow> int \<Rightarrow> 't \<Rightarrow> (int list \<times> (int, int list) omap) outcome" where
  "parse_sources pt key pcs_key cubin_offset t =
     fbind (pt_children pt t key) (\<lambda>ts. ffold (parse_source pt pcs_key cubin_offset) ts ([], []))"

definition parse_instruction ::
  "'t ptree_lib \<Rightarrow> int \<Rightarrow> 't \<Rightarrow> instruction_graph \<Rightarrow> instruction_graph outcome" where
  "parse_instruction pt cubin_offset t g =
     (let pc = pt_get_int pt t ''pc'' 0 + cubin_offset;
          op = pt_get_string pt t ''op'' [];
          pred = pt_get_int pt t ''pred'' (- 1)
      in fbind (parse_registers pt ''dsts'' t) (\<lambda>dsts.
         fbind (parse_sources pt ''srcs'' ''assign_pcs'' cubin_offset t) (\<lambda>(srcs, apcs).
         fbind (parse_registers pt ''udsts'' t) (\<lambda>udsts.
         fbind (parse_sources pt ''usrcs'' ''uassign_pcs'' cubin_offset t) (\<lambda>(usrcs, uapcs).
         Inr (add_node (<) (word_of_int pc) (Instruction op pc pred dsts srcs udsts usrcs apcs uapcs) g))))))"

definition parse_block :: "'t ptree_lib \<Rightarrow> int \<Rightarrow> 't \<Rightarrow> instruction_graph \<Rightarrow> instruction_graph outcome" where
  "parse_block pt cubin_offset t g =
     fbind (pt_children pt t ''insts'') (\<lambda>ts. ffold (parse_instruction pt cubin_offset) ts g)"

subsection \<open>The dependence graph\<close>

definition first_source :: "string \<Rightarrow> nat" where
  "first_source op =
     (if has_sub op ''STORE'' then if has_sub op ''.SHARED'' \<or> has_sub op ''.LOCAL'' then 1 else 2 else 0)"

text \<open>\<^verbatim>\<open>assign_pcs[src]\<close> creates the entry that is missing.\<close>

definition touch_sources :: "int list \<Rightarrow> (int, int list) omap \<Rightarrow> (int, int list) omap" where
  "touch_sources rs m = fold (\<lambda>r m. map_upd (<) [] m r (\<lambda>ps. ps)) rs m"

definition source_edges :: "u32 \<Rightarrow> int list \<Rightarrow> (int, int list) omap \<Rightarrow> dependency_index list" where
  "source_edges pc rs m =
     concat (map (\<lambda>r. map (\<lambda>p. \<lparr>dep_from = word_of_int p, dep_to = ucast pc\<rparr>) (map_touch (<) [] m r)) rs)"

text \<open>
  The index of the second loop starts where the first loop stopped: at the number of ordinary sources, or at
  the first index when there are fewer.
\<close>

definition inst_edges :: "instruction \<Rightarrow> dependency_index list" where
  "inst_edges n =
     (let i = first_source (inst_op n); j = max i (length (inst_srcs n))
      in source_edges (inst_pc n) (drop i (inst_srcs n)) (inst_assign_pcs n)
         @ source_edges (inst_pc n) (drop j (inst_usrcs n)) (inst_uassign_pcs n))"

definition touch_inst :: "instruction \<Rightarrow> instruction" where
  "touch_inst n =
     (let i = first_source (inst_op n); j = max i (length (inst_srcs n))
      in n\<lparr>inst_assign_pcs := touch_sources (drop i (inst_srcs n)) (inst_assign_pcs n),
           inst_uassign_pcs := touch_sources (drop j (inst_usrcs n)) (inst_uassign_pcs n)\<rparr>)"

definition link_instruction :: "u64 \<times> instruction \<Rightarrow> instruction_graph \<Rightarrow> instruction_graph" where
  "link_instruction kn g =
     fold (\<lambda>e g. add_edge (<) dependency_lt dep_from dep_to e False g) (inst_edges (snd kn))
       (g\<lparr>g_nodes := map_set (<) (g_nodes g) (fst kn) (touch_inst (snd kn))\<rparr>)"

definition link_instructions :: "instruction_graph \<Rightarrow> instruction_graph" where
  "link_instructions g = fold link_instruction (g_nodes g) g"

subsection \<open>The access kinds of the memory instructions\<close>

definition analyze_access_kind :: "value_config \<Rightarrow> u64 \<Rightarrow> instruction_graph \<Rightarrow> instruction_graph outcome" where
  "analyze_access_kind cfg i g =
     fbind (node_at (<) g i) (\<lambda>n.
       if \<not> has_sub (inst_op n) ''MEMORY'' \<or> inst_access_kind n \<noteq> None then Inr g
       else
         let g1 = set_access_kind i unknown_kind g; fuel = Suc (graph_size g)
         in fbind (if has_sub (inst_op n) ''.STORE'' then init_access_kind cfg fuel n False (g1, [])
                   else if has_sub (inst_op n) ''.LOAD'' then init_access_kind cfg fuel n True (g1, [])
                   else Inr (unknown_kind, (g1, []))) (\<lambda>(k, st).
            Inr (set_access_kind i (default_access_kind cfg (inst_op n) k) (fst st))))"

definition analyze_access_kinds :: "value_config \<Rightarrow> instruction_graph \<Rightarrow> instruction_graph outcome" where
  "analyze_access_kinds cfg g = ffold (analyze_access_kind cfg) (map fst (g_nodes g)) g"

definition finish_graph :: "value_config \<Rightarrow> instruction_graph \<Rightarrow> instruction_graph outcome" where
  "finish_graph cfg g = analyze_access_kinds cfg (link_instructions g)"

subsection \<open>Well-formed kinds\<close>

text \<open>
  The sizes the comments of \<^verbatim>\<open>AccessKind\<close> allow. A kind under construction may have no unit size yet, and a
  default-constructed one no vector size.
\<close>

definition vec_sizes :: "u32 set" where "vec_sizes = {8, 16, 32, 64, 128}"

definition unit_sizes :: "u32 set" where "unit_sizes = {8, 16, 32, 64}"

definition kind_wf :: "access_kind \<Rightarrow> bool" where
  "kind_wf k = (vec_size k \<in> vec_sizes \<and> unit_size k \<in> unit_sizes)"

definition kind_open :: "access_kind \<Rightarrow> bool" where
  "kind_open k = (vec_size k \<in> insert 0 vec_sizes \<and> unit_size k \<in> insert 0 unit_sizes)"

named_theorems kind_intros "kinds that are well formed"

lemma kind_wf_open: "kind_wf k \<Longrightarrow> kind_open k"
  by (auto simp: kind_wf_def kind_open_def)

lemma kind_open_unknown [kind_intros]: "kind_open unknown_kind"
  by (simp add: kind_open_def unknown_kind_def AccessKind_def)

lemma op_vec_size_ok: "op_vec_size op \<in> vec_sizes"
  by (simp add: op_vec_size_def vec_sizes_def)

lemma min_unit_ok: "u \<in> unit_sizes \<Longrightarrow> v \<in> insert 0 vec_sizes \<Longrightarrow> min u v \<in> insert 0 unit_sizes"
  by (auto simp: unit_sizes_def vec_sizes_def)

lemma min_32_ok: "v \<in> vec_sizes \<Longrightarrow> min 32 v \<in> unit_sizes"
  by (auto simp: unit_sizes_def vec_sizes_def)

lemma kind_wf_default: "kind_open k \<Longrightarrow> kind_wf (default_access_kind cfg op k)"
  using op_vec_size_ok [of op]
  by (auto simp: default_access_kind_def kind_open_def kind_wf_def Let_def min_32_ok)

lemma kind_open_opcode [kind_intros]: "kind_open (opcode_kind op)"
  using op_vec_size_ok [of op]
  by (simp add: opcode_kind_def kind_open_def unknown_kind_def AccessKind_def Let_def)

lemma kind_open_direct [kind_intros]: "kind_open k \<Longrightarrow> kind_open (direct_unit_size load op k)"
proof -
  assume k: "kind_open k"
  have "min u (vec_size k) \<in> insert 0 unit_sizes" if "u \<in> unit_sizes" for u
    using k min_unit_ok [OF that] by (simp add: kind_open_def)
  then show ?thesis
    using k by (auto simp: direct_unit_size_def kind_open_def unit_sizes_def)
qed

lemma kind_open_merge [kind_intros]:
  "kind_open k \<Longrightarrow> u \<in> insert 0 unit_sizes \<Longrightarrow> kind_open (merge_kind k dt u)"
  by (auto simp: merge_kind_def kind_open_def Let_def)

lemma kind_open_compute [kind_intros]: "kind_open k \<Longrightarrow> kind_open (compute_kind load op k)"
  by (simp add: compute_kind_def kind_open_def)

lemma kind_open_unit: "kind_open k \<Longrightarrow> unit_size k \<in> insert 0 unit_sizes"
  by (simp add: kind_open_def)

subsection \<open>What the search leaves alone\<close>

definition skeleton :: "instruction_graph \<Rightarrow> (u64 \<times> instruction) list" where
  "skeleton g = map (map_prod id (\<lambda>n. n\<lparr>inst_access_kind := None\<rparr>)) (g_nodes g)"

definition same_graph :: "instruction_graph \<Rightarrow> instruction_graph \<Rightarrow> bool" where
  "same_graph g h =
     (skeleton h = skeleton g \<and> g_edges h = g_edges g \<and> g_incoming h = g_incoming g \<and> g_outgoing h = g_outgoing g)"

lemma same_graph_refl [simp]: "same_graph g g"
  by (simp add: same_graph_def)

lemma same_graph_trans: "same_graph g h \<Longrightarrow> same_graph h i \<Longrightarrow> same_graph g i"
  by (simp add: same_graph_def)

lemma map_set_image:
  "map_at lt m k = Some v \<Longrightarrow> f w = f v \<Longrightarrow> map (map_prod id f) (map_set lt m k w) = map (map_prod id f) m"
  by (induction m) (auto split: if_splits)

lemma same_graph_set: "same_graph g (set_access_kind i k g)"
  by (auto simp: same_graph_def skeleton_def set_access_kind_def map_set_image split: option.split)

lemma map_at_image: "map_at lt (map (map_prod id f) m) k = map_option f (map_at lt m k)"
  by (induction m) auto

lemma same_graph_node:
  assumes "same_graph g h"
  shows "map_option (\<lambda>n. n\<lparr>inst_access_kind := None\<rparr>) (map_at (<) (g_nodes h) i)
       = map_option (\<lambda>n. n\<lparr>inst_access_kind := None\<rparr>) (map_at (<) (g_nodes g) i)"
  using assms by (metis map_at_image same_graph_def skeleton_def)

lemma same_graph_node_some:
  assumes "same_graph g h" "map_at (<) (g_nodes h) i = Some n"
  shows "\<exists>m. map_at (<) (g_nodes g) i = Some m \<and> n\<lparr>inst_access_kind := None\<rparr> = m\<lparr>inst_access_kind := None\<rparr>"
  using same_graph_node [OF assms(1), of i] assms(2) by (cases "map_at (<) (g_nodes g) i") auto

subsection \<open>The graphs the search handles\<close>

text \<open>
  Every dependence leads to an instruction, and a memory instruction has its address operands.
\<close>

definition node_srcs_ok :: "instruction \<Rightarrow> bool" where
  "node_srcs_ok n = (has_sub (inst_op n) ''MEMORY'' \<longrightarrow> 2 \<le> length (inst_srcs n))"

definition graph_pcs :: "instruction_graph \<Rightarrow> u32 set" where
  "graph_pcs g = (\<lambda>kn. inst_pc (snd kn)) ` set (g_nodes g)"

definition closed_graph :: "instruction_graph \<Rightarrow> bool" where
  "closed_graph g =
     (map_ok (<) (g_nodes g)
      \<and> (\<forall>es \<in> snd ` set (g_outgoing g). \<forall>e \<in> set es. map_has (<) (g_nodes g) (dep_to e))
      \<and> (\<forall>es \<in> snd ` set (g_incoming g). \<forall>e \<in> set es. map_has (<) (g_nodes g) (dep_from e))
      \<and> (\<forall>kn \<in> set (g_nodes g). node_srcs_ok (snd kn)))"

text \<open>The cached kinds: complete ones, except at the instruction whose kind is being found.\<close>

definition kinds_ok :: "u64 set \<Rightarrow> instruction_graph \<Rightarrow> bool" where
  "kinds_ok I g =
     (\<forall>i n k. map_at (<) (g_nodes g) i = Some n \<longrightarrow> inst_access_kind n = Some k \<longrightarrow>
        (if i \<in> I then kind_open k else kind_wf k))"

lemma graph_pcs_skeleton: "graph_pcs g = (\<lambda>kn. inst_pc (snd kn)) ` set (skeleton g)"
  by (force simp: graph_pcs_def skeleton_def)

lemma same_graph_pcs: "same_graph g h \<Longrightarrow> graph_pcs h = graph_pcs g"
  by (simp add: graph_pcs_skeleton same_graph_def)

lemma node_srcs_skeleton:
  "(\<forall>kn \<in> set (g_nodes g). node_srcs_ok (snd kn)) \<longleftrightarrow> (\<forall>kn \<in> set (skeleton g). node_srcs_ok (snd kn))"
  by (force simp: skeleton_def node_srcs_ok_def)

lemma map_has_skeleton: "map_has (<) (g_nodes g) i \<longleftrightarrow> map_has (<) (skeleton g) i"
  by (simp add: map_has_at skeleton_def map_at_image)

lemma map_ok_skeleton: "map_ok (<) (g_nodes g) \<longleftrightarrow> map_ok (<) (skeleton g)"
  by (simp add: map_ok_def skeleton_def sorted_wrt_map)

lemma same_graph_closed: "same_graph g h \<Longrightarrow> closed_graph g \<Longrightarrow> closed_graph h"
  by (simp add: closed_graph_def node_srcs_skeleton map_has_skeleton map_ok_skeleton same_graph_def)

lemma finite_graph_pcs [simp]: "finite (graph_pcs g)"
  by (simp add: graph_pcs_def)


lemma kinds_ok_set:
  assumes "map_ok (<) (g_nodes g)" "kinds_ok I g" "if i \<in> J then kind_open k else kind_wf k" "I \<subseteq> insert i J" "J \<subseteq> insert i I"
  shows "kinds_ok J (set_access_kind i k g)"
proof (cases "map_at (<) (g_nodes g) i")
  case None
  have "j \<in> J \<longleftrightarrow> j \<in> I" if "j \<noteq> i" for j using assms(4,5) that by auto
  with None assms(2) show ?thesis
    by (auto simp: set_access_kind_def kinds_ok_def split: if_splits) (metis not_None_eq)+
next
  case (Some n)
  have "j \<in> J \<longleftrightarrow> j \<in> I" if "j \<noteq> i" for j using assms(4,5) that by auto
  with Some assms(2,3) show ?thesis
    by (auto simp: set_access_kind_def kinds_ok_def u64_order.map_at_set [OF assms(1)] split: if_splits)
qed

text \<open>The instructions whose kind is known.\<close>

definition kinded :: "instruction_graph \<Rightarrow> u64 set" where
  "kinded g = {i. \<exists>n k. map_at (<) (g_nodes g) i = Some n \<and> inst_access_kind n = Some k}"

lemma kinded_set:
  assumes "map_ok (<) (g_nodes g)"
  shows "kinded (set_access_kind i k g) = (if map_has (<) (g_nodes g) i then insert i (kinded g) else kinded g)"
  by (auto simp: kinded_def set_access_kind_def map_has_at u64_order.map_at_set [OF assms] split: option.split)

subsection \<open>The search returns\<close>

text \<open>
  What a call gives: a value with a property, or the exception of a missing entry, which a condition excludes. In particular
  the call does not run out of fuel.
\<close>

definition gives :: "bool \<Rightarrow> ('a \<Rightarrow> bool) \<Rightarrow> 'a outcome \<Rightarrow> bool" where
  "gives C P x = (case x of Inl e \<Rightarrow> e = OutOfRange \<and> \<not> C | Inr a \<Rightarrow> P a)"

lemma gives_simps [simp]: "gives C P (Inr a) \<longleftrightarrow> P a" "gives C P (Inl e) \<longleftrightarrow> e = OutOfRange \<and> \<not> C"
  by (simp_all add: gives_def)

lemma gives_bind: "gives C P x \<Longrightarrow> (\<And>a. P a \<Longrightarrow> gives C Q (f a)) \<Longrightarrow> gives C Q (fbind x f)"
  by (cases x) simp_all

lemma gives_mono: "gives C P x \<Longrightarrow> (\<And>a. P a \<Longrightarrow> Q a) \<Longrightarrow> gives C Q x"
  by (cases x) simp_all

lemma gives_or_fault: "(C \<Longrightarrow> x \<noteq> None) \<Longrightarrow> (\<And>a. x = Some a \<Longrightarrow> P a) \<Longrightarrow> gives C P (or_fault OutOfRange x)"
  by (cases x) auto

lemma gives_result: "gives C P x \<Longrightarrow> (x = Inl OutOfRange \<and> \<not> C) \<or> (\<exists>a. x = Inr a \<and> P a)"
  by (cases x) simp_all

definition search_pre :: "u64 set \<Rightarrow> nat \<Rightarrow> search_state \<Rightarrow> bool" where
  "search_pre I fuel st =
     (map_ok (<) (g_nodes (fst st)) \<and> kinds_ok I (fst st) \<and> set_ok (<) (snd st)
      \<and> card (graph_pcs (fst st) - set (snd st)) < fuel)"

definition search_post :: "u64 set \<Rightarrow> search_state \<Rightarrow> access_kind \<times> search_state \<Rightarrow> bool" where
  "search_post I st r =
     (same_graph (fst st) (fst (snd r)) \<and> kinds_ok I (fst (snd r)) \<and> set_ok (<) (snd (snd r))
      \<and> set (snd st) \<subseteq> set (snd (snd r)) \<and> kind_open (fst r) \<and> kinded (fst st) \<subseteq> kinded (fst (snd r)))"

definition search_ok :: "bool \<Rightarrow> u64 set \<Rightarrow> nat \<Rightarrow> search \<Rightarrow> bool" where
  "search_ok C I fuel again =
     (\<forall>n load st. search_pre I fuel st \<longrightarrow> inst_pc n \<in> graph_pcs (fst st) \<longrightarrow> (C \<longrightarrow> closed_graph (fst st)) \<longrightarrow>
        gives C (search_post I st) (again n load st))"

lemma same_graph_map_ok: "same_graph g h \<Longrightarrow> map_ok (<) (g_nodes g) \<Longrightarrow> map_ok (<) (g_nodes h)"
  by (simp add: map_ok_skeleton same_graph_def)

lemma same_graph_has: "same_graph g h \<Longrightarrow> map_has (<) (g_nodes h) i = map_has (<) (g_nodes g) i"
  by (simp add: map_has_skeleton same_graph_def)

lemma search_pre_mono:
  assumes "search_pre I fuel st" "search_post I st (k, st')"
  shows "search_pre I fuel st'"
proof -
  have "card (graph_pcs (fst st') - set (snd st')) \<le> card (graph_pcs (fst st) - set (snd st))"
    using assms by (intro card_mono) (auto simp: search_post_def same_graph_pcs)
  then show ?thesis
    using assms by (auto simp: search_pre_def search_post_def intro: same_graph_map_ok)
qed

lemma search_post_closed: "search_post I st (k, st') \<Longrightarrow> closed_graph (fst st) \<Longrightarrow> closed_graph (fst st')"
  by (auto simp: search_post_def intro: same_graph_closed)

lemma search_post_trans: "search_post I st (k, st') \<Longrightarrow> search_post I st' r \<Longrightarrow> search_post I st r"
  by (auto simp: search_post_def intro: same_graph_trans)

lemma defines_src_gives: "(C \<Longrightarrow> i < length (inst_srcs n)) \<Longrightarrow> gives C (\<lambda>_. True) (defines_src inst n i)"
  by (auto simp: defines_src_def)

lemma address_kind_ok:
  assumes "C \<Longrightarrow> node_srcs_ok n" "has_sub (inst_op n) ''MEMORY''" "kind_open k"
  shows "gives C kind_open (address_kind inst n k)"
proof -
  have i: "C \<Longrightarrow> 0 < length (inst_srcs n)" "C \<Longrightarrow> 1 < length (inst_srcs n)"
    using assms(1,2) by (fastforce simp: node_srcs_ok_def)+
  have d: "gives C (\<lambda>_. True) (defines_src inst n 0)" "gives C (\<lambda>_. True) (defines_src inst n 1)"
    using i by (auto intro: defines_src_gives)
  have k: "kind_open (merge_kind k REDSHOW_DATA_INT 32)" "kind_open (merge_kind k REDSHOW_DATA_INT 64)"
    using assms(3) by (auto simp: unit_sizes_def intro!: kind_intros)
  have "gives C (\<lambda>_. True) (fbind (defines_src inst n 0) (\<lambda>b. if b then Inr True else defines_src inst n 1))"
    using d(2) by (intro gives_bind [OF d(1)]) simp
  then show ?thesis
    unfolding address_kind_def using k assms(3) d(1) by (auto intro: gives_bind)
qed

lemma node_pc: "map_at (<) (g_nodes g) i = Some n \<Longrightarrow> inst_pc n \<in> graph_pcs g"
  by (auto simp: graph_pcs_def dest!: map_at_Some_mem intro!: image_eqI)

lemma closed_srcs: "closed_graph g \<Longrightarrow> map_at (<) (g_nodes g) i = Some n \<Longrightarrow> node_srcs_ok n"
  by (force simp: closed_graph_def dest!: map_at_Some_mem)

lemma kinds_ok_open: "kinds_ok I g \<Longrightarrow> map_at (<) (g_nodes g) i = Some n \<Longrightarrow> inst_access_kind n = Some k \<Longrightarrow> kind_open k"
  by (auto simp: kinds_ok_def split: if_splits dest: kind_wf_open)

lemma search_neighbor_ok:
  assumes ag: "search_ok C I fuel again" and pre: "search_pre I fuel st" and cl: "C \<Longrightarrow> closed_graph (fst st)"
    and i: "C \<Longrightarrow> map_has (<) (g_nodes (fst st)) i" and k0: "kind_open k0"
  shows "gives C (search_post I st) (search_neighbor cfg again inst load i k0 st)"
  unfolding search_neighbor_def node_at_def
proof (rule gives_bind [OF gives_or_fault])
  show "map_at (<) (g_nodes (fst st)) i \<noteq> None" if C using i [OF that] by (simp add: map_has_at)
  show "map_at (<) (g_nodes (fst st)) i = Some n" if "map_at (<) (g_nodes (fst st)) i = Some n" for n by (rule that)
  fix n
  assume n: "map_at (<) (g_nodes (fst st)) i = Some n"
  define kd where "kd = direct_unit_size load (inst_op n) k0"
  have k: "kind_open kd" unfolding kd_def using k0 by (rule kind_intros)
  have again: "gives C (search_post I st) (again n l st)" for l
    using ag pre node_pc [OF n] cl unfolding search_ok_def by blast
  have refl: "search_post I st (k', st)" if "kind_open k'" for k'
    using pre that by (simp add: search_post_def search_pre_def)
  have mv: "gives C (search_post I st) (fbind (again n load st) (\<lambda>(nk, st'). Inr (merge_kind kd (data_type nk) (unit_size nk), st')))"
    by (rule gives_bind [OF again]) (use kind_open_merge [OF k kind_open_unit] in \<open>auto simp: search_post_def\<close>)
  have ld: "gives C (search_post I st) (fbind (address_kind inst n kd) (\<lambda>k'. Inr (k', st)))"
    if "has_sub (inst_op n) ''MEMORY''"
    by (rule gives_bind [OF address_kind_ok [OF closed_srcs [OF cl n] that k]]) (use refl in auto)
  have cached: "search_post I st (merge_kind kd (data_type nk) (unit_size nk), st)" if "inst_access_kind n = Some nk" for nk
  proof -
    have "kinds_ok I (fst st)" using pre by (simp add: search_pre_def)
    from kinds_ok_open [OF this n that] show ?thesis by (intro refl kind_open_merge [OF k] kind_open_unit)
  qed
  have st: "gives C (search_post I st) (fbind (again n True st) (\<lambda>(ik, st').
      let nk = default_access_kind cfg (inst_op n) ik
      in Inr (merge_kind kd (data_type nk) (unit_size nk), (set_access_kind i nk (fst st'), snd st'))))"
  proof (rule gives_bind [OF again], clarify)
    fix ik st1 v
    assume r: "search_post I st (ik, st1, v)"
    let ?nk = "default_access_kind cfg (inst_op n) ik"
    have nk: "kind_wf ?nk" using r by (intro kind_wf_default) (simp add: search_post_def)
    have m: "map_ok (<) (g_nodes st1)" using search_pre_mono [OF pre r] by (simp add: search_pre_def)
    then have "kinds_ok I (set_access_kind i ?nk st1)"
      using r nk kind_wf_open [OF nk] by (intro kinds_ok_set [where I = I]) (auto simp: search_post_def)
    moreover have "kind_open (merge_kind kd (data_type ?nk) (unit_size ?nk))"
      using k kind_open_unit [OF kind_wf_open [OF nk]] by (rule kind_intros)
    ultimately show "gives C (search_post I st) (let nk = ?nk
        in Inr (merge_kind kd (data_type nk) (unit_size nk), set_access_kind i nk (fst (st1, v)), snd (st1, v)))"
      using r same_graph_trans [OF _ same_graph_set] by (auto simp: search_post_def kinded_set [OF m] Let_def)
  qed
  show "gives C (search_post I st) (let k = direct_unit_size load (inst_op n) k0
       in if has_sub (inst_op n) ''MOVE'' then
            fbind (again n load st) (\<lambda>(nk, st'). Inr (merge_kind k (data_type nk) (unit_size nk), st'))
          else if has_sub (inst_op n) ''MEMORY'' then
            if load then fbind (address_kind inst n k) (\<lambda>k'. Inr (k', st))
            else case inst_access_kind n of
                Some nk \<Rightarrow> Inr (merge_kind k (data_type nk) (unit_size nk), st)
              | None \<Rightarrow> fbind (again n True st) (\<lambda>(ik, st').
                  let nk = default_access_kind cfg (inst_op n) ik
                  in Inr (merge_kind k (data_type nk) (unit_size nk),
                          (set_access_kind i nk (fst st'), snd st')))
          else Inr (compute_kind load (inst_op n) k, st))"
    unfolding kd_def [symmetric] Let_def [of kd]
    using mv ld cached st refl [OF kind_open_compute [OF k]] by (simp split: option.split)
qed

lemma search_edges_ok:
  assumes ag: "search_ok C I fuel again" and pre: "search_pre I fuel st" and cl: "C \<Longrightarrow> closed_graph (fst st)" and k: "kind_open k"
    and es: "C \<Longrightarrow> \<forall>e \<in> set es. map_has (<) (g_nodes (fst st)) (if load then dep_to e else dep_from e)"
  shows "gives C (search_post I st) (search_edges cfg again inst load es k st)"
  using pre cl k es
proof (induction es arbitrary: k st)
  case Nil
  then show ?case by (simp add: search_post_def search_pre_def)
next
  case (Cons e es)
  have step: "gives C (search_post I st) (search_neighbor cfg again inst load (if load then dep_to e else dep_from e) k st)"
    using Cons.prems by (intro search_neighbor_ok [OF ag]) auto
  have rest: "gives C (search_post I st) (search_edges cfg again inst load es k' st')" if r: "search_post I st (k', st')" for k' st'
  proof (rule gives_mono [OF Cons.IH])
    show "search_pre I fuel st'" using search_pre_mono [OF Cons.prems(1) r] .
    show "closed_graph (fst st')" if C using search_post_closed [OF r Cons.prems(2) [OF that]] .
    show "kind_open k'" using r by (simp add: search_post_def)
    show "\<forall>e \<in> set es. map_has (<) (g_nodes (fst st')) (if load then dep_to e else dep_from e)" if C
    proof -
      have "same_graph (fst st) (fst st')" using r by (simp add: search_post_def)
      from same_graph_has [OF this] Cons.prems(4) [OF that] show ?thesis by simp
    qed
    show "search_post I st r'" if "search_post I st' r'" for r' using search_post_trans [OF r that] .
  qed
  show ?case
    unfolding search_edges.simps
    by (rule gives_bind [OF step]) (use rest in auto)
qed

lemma closed_outgoing:
  "closed_graph g \<Longrightarrow> map_at (<) (g_outgoing g) i = Some es \<Longrightarrow> \<forall>e \<in> set es. map_has (<) (g_nodes g) (dep_to e)"
  by (force simp: closed_graph_def dest!: map_at_Some_mem)

lemma closed_incoming:
  "closed_graph g \<Longrightarrow> map_at (<) (g_incoming g) i = Some es \<Longrightarrow> \<forall>e \<in> set es. map_has (<) (g_nodes g) (dep_from e)"
  by (force simp: closed_graph_def dest!: map_at_Some_mem)

lemma visit_pre:
  assumes "search_pre I (Suc fuel) st" "pc \<in> graph_pcs (fst st)" "\<not> set_has (<) (snd st) pc"
  shows "search_pre I fuel (fst st, set_insert (<) (snd st) pc)"
proof -
  have ok: "set_ok (<) (snd st)" using assms(1) by (simp add: search_pre_def)
  have "pc \<in> graph_pcs (fst st) - set (snd st)" using assms(2,3) u32_order.set_has_mem [OF ok] by simp
  moreover have "graph_pcs (fst st) - set (set_insert (<) (snd st) pc) = graph_pcs (fst st) - set (snd st) - {pc}"
    by (auto simp: u32_order.set_set_insert_eq [OF ok])
  ultimately have "card (graph_pcs (fst st) - set (set_insert (<) (snd st) pc)) < card (graph_pcs (fst st) - set (snd st))"
    by (metis card_Diff1_less finite_Diff finite_graph_pcs)
  then show ?thesis
    using assms(1) u32_order.set_ok_insert [OF ok] by (simp add: search_pre_def)
qed

lemma init_access_kind_ok: "search_ok C I fuel (init_access_kind cfg fuel)"
proof (induction fuel)
  case 0
  then show ?case by (simp add: search_ok_def search_pre_def)
next
  case (Suc fuel)
  have "gives C (search_post I st) (init_access_kind cfg (Suc fuel) inst load st)"
    if pre: "search_pre I (Suc fuel) st" and pc: "inst_pc inst \<in> graph_pcs (fst st)" and cl: "C \<Longrightarrow> closed_graph (fst st)"
    for inst load st
  proof (cases "set_has (<) (snd st) (inst_pc inst)")
    case True
    with pre show ?thesis by (auto simp: search_post_def search_pre_def intro: kind_intros)
  next
    case False
    let ?st = "(fst st, set_insert (<) (snd st) (inst_pc inst))" and ?i = "ucast (inst_pc inst) :: u64"
    let ?k = "opcode_kind (inst_op inst)"
    have ok: "set_ok (<) (snd st)" using pre by (simp add: search_pre_def)
    have pre': "search_pre I fuel ?st" using visit_pre [OF pre pc False] .
    have post: "search_post I st (?k, ?st)"
      using pre pre' by (auto simp: search_post_def search_pre_def u32_order.set_set_insert_eq [OF ok] intro: kind_intros)
    have edges: "gives C (search_post I st) (search_edges cfg (init_access_kind cfg fuel) inst load es ?k ?st)"
      if "C \<Longrightarrow> \<forall>e \<in> set es. map_has (<) (g_nodes (fst st)) (if load then dep_to e else dep_from e)" for es
      by (rule gives_mono [OF search_edges_ok [OF Suc.IH pre']])
         (use that cl post search_post_trans in \<open>auto intro: kind_intros\<close>)
    show ?thesis
    proof (cases load)
      case True
      with False post edges closed_outgoing [OF cl, of ?i] show ?thesis
        by (cases "map_at (<) (g_outgoing (fst st)) ?i") (auto simp: outgoing_edge_size_def outgoing_edges_def Let_def)
    next
      case ld: False
      with False post edges closed_incoming [OF cl, of ?i] show ?thesis
        by (cases "map_at (<) (g_incoming (fst st)) ?i") (auto simp: incoming_edge_size_def incoming_edges_def Let_def)
    qed
  qed
  then show ?case unfolding search_ok_def by blast
qed

subsection \<open>The kinds of all memory instructions\<close>

lemma card_graph_pcs: "card (graph_pcs g) \<le> graph_size g"
  unfolding graph_pcs_def graph_size_def by (metis card_image_le card_length finite_set le_trans)



definition analyzed :: "instruction_graph \<Rightarrow> u64 set \<Rightarrow> instruction_graph \<Rightarrow> bool" where
  "analyzed g is h =
     (same_graph g h \<and> kinds_ok {} h \<and> kinded g \<subseteq> kinded h
      \<and> (\<forall>i \<in> is. \<forall>n. map_at (<) (g_nodes g) i = Some n \<longrightarrow> has_sub (inst_op n) ''MEMORY'' \<longrightarrow> i \<in> kinded h))"

lemma analyze_access_kind_ok:
  assumes mo: "map_ok (<) (g_nodes g)" and "kinds_ok {} g" "map_has (<) (g_nodes g) i" and cl: "C \<Longrightarrow> closed_graph g"
  shows "gives C (analyzed g {i}) (analyze_access_kind cfg i g)"
proof -
  obtain n where n: "map_at (<) (g_nodes g) i = Some n" using assms(3) by (auto simp: map_has_at)
  show ?thesis
  proof (cases "\<not> has_sub (inst_op n) ''MEMORY'' \<or> inst_access_kind n \<noteq> None")
    case True
    then show ?thesis
      using n assms(2) by (auto simp: analyze_access_kind_def node_at_def kinded_def analyzed_def)
  next
    case False
    let ?g = "set_access_kind i unknown_kind g"
    have cl': "C \<Longrightarrow> closed_graph ?g" using same_graph_closed [OF same_graph_set cl] .
    have ks: "kinds_ok {i} ?g" using kinds_ok_set [OF mo assms(2), of i "{i}"] by (simp add: kind_open_unknown)
    have pre: "search_pre {i} (Suc (graph_size g)) (?g, [])"
      using same_graph_map_ok [OF same_graph_set mo] ks card_graph_pcs [of g] same_graph_pcs [OF same_graph_set, of i unknown_kind g]
      by (simp add: search_pre_def)
    have pc: "inst_pc n \<in> graph_pcs ?g"
      using node_pc [OF n] same_graph_pcs [OF same_graph_set, of i unknown_kind g] by simp
    have post0: "search_post {i} (?g, []) (unknown_kind, (?g, []))"
      using pre by (simp add: search_post_def search_pre_def kind_open_unknown)
    have search: "gives C (search_post {i} (?g, [])) (init_access_kind cfg (Suc (graph_size g)) n load (?g, []))" for load
      using init_access_kind_ok [of C "{i}" "Suc (graph_size g)" cfg] pre pc cl' unfolding search_ok_def by auto
    have fin: "analyzed g {i} (set_access_kind i (default_access_kind cfg (inst_op n) k) (fst st))"
      if post: "search_post {i} (?g, []) (k, st)" for k st
    proof -
      have sg: "same_graph g (fst st)"
        using post same_graph_trans [OF same_graph_set] by (auto simp: search_post_def)
      have mo': "map_ok (<) (g_nodes (fst st))" using same_graph_map_ok [OF sg mo] .
      have has: "map_has (<) (g_nodes (fst st)) i" using assms(3) by (simp add: same_graph_has [OF sg])
      have "kinds_ok {} (set_access_kind i (default_access_kind cfg (inst_op n) k) (fst st))"
        using post by (intro kinds_ok_set [OF mo', of "{i}"]) (auto simp: search_post_def kind_wf_default)
      then show ?thesis
        using post has kinded_set [OF mo] kinded_set [OF mo'] assms(3) same_graph_trans [OF sg same_graph_set]
        by (auto simp: search_post_def analyzed_def)
    qed
    have "gives C (analyzed g {i}) (fbind x (\<lambda>(k, st). Inr (set_access_kind i (default_access_kind cfg (inst_op n) k) (fst st))))"
      if "gives C (search_post {i} (?g, [])) x" for x
      by (rule gives_bind [OF that]) (use fin in auto)
    with search post0 False n show ?thesis
      by (simp add: analyze_access_kind_def node_at_def Let_def)
  qed
qed

lemma analyzed_trans:
  assumes "analyzed g is h" "analyzed h js k"
  shows "analyzed g (is \<union> js) k"
proof -
  have "j \<in> kinded k" if j: "j \<in> js" "map_at (<) (g_nodes g) j = Some n" "has_sub (inst_op n) ''MEMORY''" for j n
  proof -
    have sym: "same_graph h g" using assms(1) by (simp add: same_graph_def analyzed_def)
    obtain m where m: "map_at (<) (g_nodes h) j = Some m" "n\<lparr>inst_access_kind := None\<rparr> = m\<lparr>inst_access_kind := None\<rparr>"
      using same_graph_node_some [OF sym j(2)] by blast
    from m(2) have "inst_op (n\<lparr>inst_access_kind := None\<rparr>) = inst_op (m\<lparr>inst_access_kind := None\<rparr>)" by (rule arg_cong)
    with m(1) assms(2) j show ?thesis by (auto simp: analyzed_def)
  qed
  then show ?thesis using assms by (auto simp: analyzed_def intro: same_graph_trans)
qed

lemma analyze_all:
  assumes "map_ok (<) (g_nodes g)" "kinds_ok {} g" "\<forall>i \<in> set is. map_has (<) (g_nodes g) i" "C \<Longrightarrow> closed_graph g"
  shows "gives C (analyzed g (set is)) (ffold (analyze_access_kind cfg) is g)"
  using assms
proof (induction "is" arbitrary: g)
  case Nil
  then show ?case by (simp add: analyzed_def)
next
  case (Cons i js)
  have "gives C (analyzed g (set (i # js))) (ffold (analyze_access_kind cfg) js h)" if h: "analyzed g {i} h" for h
  proof (rule gives_mono [OF Cons.IH])
    have sg: "same_graph g h" using h by (simp add: analyzed_def)
    show "map_ok (<) (g_nodes h)" using same_graph_map_ok [OF sg Cons.prems(1)] .
    show "kinds_ok {} h" using h by (simp add: analyzed_def)
    show "\<forall>j \<in> set js. map_has (<) (g_nodes h) j" using Cons.prems(3) by (simp add: same_graph_has [OF sg])
    show "closed_graph h" if C using same_graph_closed [OF sg Cons.prems(4) [OF that]] .
    show "analyzed g (set (i # js)) k" if "analyzed h (set js) k" for k
      using analyzed_trans [OF h that] by simp
  qed
  with Cons.prems show ?case
    by (simp del: set_simps) (rule gives_bind [OF analyze_access_kind_ok], auto)
qed

definition graph_kinds_wf :: "instruction_graph \<Rightarrow> bool" where
  "graph_kinds_wf g = (\<forall>(i, n) \<in> set (g_nodes g). \<forall>k. inst_access_kind n = Some k \<longrightarrow> kind_wf k)"

definition all_kinded :: "instruction_graph \<Rightarrow> bool" where
  "all_kinded g = (\<forall>(i, n) \<in> set (g_nodes g). has_sub (inst_op n) ''MEMORY'' \<longrightarrow> inst_access_kind n \<noteq> None)"

lemma analyze_access_kinds_complete:
  assumes mo: "map_ok (<) (g_nodes g)" and "\<forall>kn \<in> set (g_nodes g). inst_access_kind (snd kn) = None"
    and cl: "C \<Longrightarrow> closed_graph g"
  shows "gives C (\<lambda>h. same_graph g h \<and> graph_kinds_wf h \<and> all_kinded h) (analyze_access_kinds cfg g)"
proof -
  have "kinds_ok {} g" using assms(2) by (auto simp: kinds_ok_def dest!: map_at_Some_mem)
  moreover have "\<forall>i \<in> set (map fst (g_nodes g)). map_has (<) (g_nodes g) i"
    using u64_order.map_at_mem [OF mo] by (auto simp: map_has_at)
  ultimately have "gives C (analyzed g (set (map fst (g_nodes g)))) (analyze_access_kinds cfg g)"
    using analyze_all [OF mo] cl unfolding analyze_access_kinds_def by blast
  moreover have "same_graph g h \<and> graph_kinds_wf h \<and> all_kinded h" if h: "analyzed g (set (map fst (g_nodes g))) h" for h
  proof -
    have sg: "same_graph g h" using h by (simp add: analyzed_def)
    have mo': "map_ok (<) (g_nodes h)" using same_graph_map_ok [OF sg mo] .
    have "inst_access_kind n \<noteq> None" if n: "(i, n) \<in> set (g_nodes h)" "has_sub (inst_op n) ''MEMORY''" for i n
    proof -
      have at: "map_at (<) (g_nodes h) i = Some n" using u64_order.map_at_mem [OF mo' n(1)] .
      obtain m where m: "map_at (<) (g_nodes g) i = Some m" "n\<lparr>inst_access_kind := None\<rparr> = m\<lparr>inst_access_kind := None\<rparr>"
        using same_graph_node_some [OF sg at] by blast
      have "inst_op (n\<lparr>inst_access_kind := None\<rparr>) = inst_op (m\<lparr>inst_access_kind := None\<rparr>)" using m(2) by (rule arg_cong)
      moreover have "i \<in> set (map fst (g_nodes g))" using m(1) u64_order.map_at_iff_mem [OF mo] by force
      ultimately have "i \<in> kinded h" using h m(1) n(2) by (auto simp: analyzed_def)
      then show ?thesis using at by (auto simp: kinded_def)
    qed
    moreover have "graph_kinds_wf h"
      using h u64_order.map_at_mem [OF mo'] by (fastforce simp: graph_kinds_wf_def analyzed_def kinds_ok_def)
    ultimately show ?thesis using sg by (auto simp: all_kinded_def)
  qed
  ultimately show ?thesis by (rule gives_mono)
qed

subsection \<open>The dependence edges\<close>

lemma has_edge_add_edge:
  assumes "map_ok dependency_lt (g_edges g)"
  shows "has_edge dependency_lt (add_edge (<) dependency_lt dep_from dep_to e d g) x \<longleftrightarrow> x = e \<or> has_edge dependency_lt g x"
  by (auto simp: has_edge_def add_edge_def map_has_at dependency_order.map_at_emplace [OF assms])

abbreviation igraph_ok :: "instruction_graph \<Rightarrow> bool" where
  "igraph_ok g \<equiv> graph_ok (<) dependency_lt dep_from dep_to g"

lemma g_nodes_add_edge [simp]: "g_nodes (add_edge lti lte ef et e d g) = g_nodes g"
  by (simp add: add_edge_def)

lemma fold_add_edge:
  fixes g :: instruction_graph and es :: "dependency_index list"
  assumes "igraph_ok g"
  defines "h \<equiv> fold (\<lambda>e g. add_edge (<) dependency_lt dep_from dep_to e False g) es g"
  shows "igraph_ok h \<and> g_nodes h = g_nodes g
    \<and> (\<forall>x. has_edge dependency_lt h x \<longleftrightarrow> x \<in> set es \<or> has_edge dependency_lt g x)"
  using assms(1) unfolding h_def
proof (induction es arbitrary: g)
  case (Cons e es)
  have "map_ok dependency_lt (g_edges g)" using Cons.prems by (simp add: graph_ok_def)
  with Cons.IH [OF inst_graph.graph_ok_add_edge [OF Cons.prems, of e False]] show ?case
    by (auto simp: has_edge_add_edge)
qed simp

lemma link_instruction_ok:
  assumes "igraph_ok g" "map_has (<) (g_nodes g) (fst kn)"
  shows "igraph_ok (link_instruction kn g)"
    "map_has (<) (g_nodes (link_instruction kn g)) i \<longleftrightarrow> map_has (<) (g_nodes g) i"
    "has_edge dependency_lt (link_instruction kn g) x \<longleftrightarrow> x \<in> set (inst_edges (snd kn)) \<or> has_edge dependency_lt g x"
    "map_at (<) (g_nodes (link_instruction kn g)) i =
       (if i = fst kn then Some (touch_inst (snd kn)) else map_at (<) (g_nodes g) i)"
proof -
  let ?g = "g\<lparr>g_nodes := map_set (<) (g_nodes g) (fst kn) (touch_inst (snd kn))\<rparr>"
  have mo: "map_ok (<) (g_nodes g)" using assms(1) by (simp add: graph_ok_def)
  have g: "igraph_ok ?g" using assms(1) u64_order.map_ok_set [OF mo] by (simp add: graph_ok_def)
  note f = fold_add_edge [OF g, of "inst_edges (snd kn)"]
  show "igraph_ok (link_instruction kn g)" using f by (simp add: link_instruction_def)
  show at: "map_at (<) (g_nodes (link_instruction kn g)) i =
       (if i = fst kn then Some (touch_inst (snd kn)) else map_at (<) (g_nodes g) i)" for i
    using f by (simp add: link_instruction_def u64_order.map_at_set [OF mo])
  then show "map_has (<) (g_nodes (link_instruction kn g)) i \<longleftrightarrow> map_has (<) (g_nodes g) i"
    using assms(2) by (auto simp: map_has_at)
  show "has_edge dependency_lt (link_instruction kn g) x \<longleftrightarrow> x \<in> set (inst_edges (snd kn)) \<or> has_edge dependency_lt g x"
    using f by (simp add: link_instruction_def has_edge_def)
qed

lemma fold_link_ok:
  assumes "igraph_ok g" "\<forall>kn \<in> set kns. map_has (<) (g_nodes g) (fst kn)"
  defines "h \<equiv> fold link_instruction kns g"
  shows "igraph_ok h \<and> (\<forall>i. map_has (<) (g_nodes h) i \<longleftrightarrow> map_has (<) (g_nodes g) i)
    \<and> (\<forall>x. has_edge dependency_lt h x \<longleftrightarrow> (\<exists>kn \<in> set kns. x \<in> set (inst_edges (snd kn))) \<or> has_edge dependency_lt g x)
    \<and> (\<forall>i n. map_at (<) (g_nodes h) i = Some n \<longrightarrow>
         map_at (<) (g_nodes g) i = Some n \<or> (\<exists>m. (i, m) \<in> set kns \<and> n = touch_inst m))"
  using assms(1,2) unfolding h_def
proof (induction kns arbitrary: g)
  case (Cons kn kns)
  have kn: "map_has (<) (g_nodes g) (fst kn)" using Cons.prems by simp
  note l = link_instruction_ok [OF Cons.prems(1) kn]
  have "\<forall>kn' \<in> set kns. map_has (<) (g_nodes (link_instruction kn g)) (fst kn')"
    using Cons.prems(2) l(2) by simp
  from Cons.IH [OF l(1) this] have ih:
    "igraph_ok (fold link_instruction kns (link_instruction kn g))"
    "map_has (<) (g_nodes (fold link_instruction kns (link_instruction kn g))) i \<longleftrightarrow> map_has (<) (g_nodes g) i"
    "has_edge dependency_lt (fold link_instruction kns (link_instruction kn g)) x \<longleftrightarrow>
       (\<exists>kn \<in> set kns. x \<in> set (inst_edges (snd kn))) \<or> x \<in> set (inst_edges (snd kn)) \<or> has_edge dependency_lt g x"
    "map_at (<) (g_nodes (fold link_instruction kns (link_instruction kn g))) i = Some n \<Longrightarrow>
       map_at (<) (g_nodes (link_instruction kn g)) i = Some n \<or> (\<exists>m. (i, m) \<in> set kns \<and> n = touch_inst m)" for i x n
    by (simp_all add: l(2,3))
  have "map_at (<) (g_nodes g) i = Some n \<or> (\<exists>m. (i, m) \<in> set (kn # kns) \<and> n = touch_inst m)"
    if "map_at (<) (g_nodes (fold link_instruction kns (link_instruction kn g))) i = Some n" for i n
    using ih(4) [OF that] l(4) [of i] by (cases kn) (auto split: if_splits)
  with ih(1-3) show ?case by simp blast
qed simp

lemma link_instructions_ok:
  assumes "igraph_ok g"
  shows "igraph_ok (link_instructions g)"
    "has_edge dependency_lt (link_instructions g) e \<longleftrightarrow>
       has_edge dependency_lt g e \<or> (\<exists>kn \<in> set (g_nodes g). e \<in> set (inst_edges (snd kn)))"
proof -
  have "map_ok (<) (g_nodes g)" using assms by (simp add: graph_ok_def)
  then have "\<forall>kn \<in> set (g_nodes g). map_has (<) (g_nodes g) (fst kn)"
    using u64_order.map_at_mem by (fastforce simp: map_has_at)
  from fold_link_ok [OF assms this] show "igraph_ok (link_instructions g)"
    "has_edge dependency_lt (link_instructions g) e \<longleftrightarrow>
       has_edge dependency_lt g e \<or> (\<exists>kn \<in> set (g_nodes g). e \<in> set (inst_edges (snd kn)))"
    by (auto simp: link_instructions_def)
qed


text \<open>
  The graph that the reading loop leaves: instructions only. It is complete when the instructions are stored under their program
  counters, memory instructions have their address operands, and the program counters that assign a used source are among them. The file
  need not be so.
\<close>

definition read_graph :: "instruction_graph \<Rightarrow> bool" where
  "read_graph g =
     (g_edges g = [] \<and> g_incoming g = [] \<and> g_outgoing g = [] \<and> map_ok (<) (g_nodes g)
      \<and> (\<forall>kn \<in> set (g_nodes g). inst_access_kind (snd kn) = None))"

definition complete_inst :: "instruction_graph \<Rightarrow> u64 \<times> instruction \<Rightarrow> bool" where
  "complete_inst g kn =
     (fst kn = ucast (inst_pc (snd kn)) \<and> node_srcs_ok (snd kn)
      \<and> (\<forall>e \<in> set (inst_edges (snd kn)). map_has (<) (g_nodes g) (dep_from e)))"

definition complete_graph :: "instruction_graph \<Rightarrow> bool" where
  "complete_graph g = list_all (complete_inst g) (g_nodes g)"

lemma read_graph_ok: "read_graph g \<Longrightarrow> igraph_ok g"
  by (simp add: read_graph_def graph_ok_def neighbours_ok_def map_touch_def map_has_def)

lemma read_graph_empty: "read_graph empty_graph"
  by (simp add: read_graph_def empty_graph_def)

lemma neighbour_edges:
  fixes nb :: "(u64, dependency_index oset) omap"
  assumes "neighbours_ok (<) dependency_lt side es nb" "(i, s) \<in> set nb" "e \<in> set s"
  shows "map_has dependency_lt es e"
proof -
  have "map_at (<) nb i = Some s"
    using assms u64_order.map_at_mem by (auto simp: neighbours_ok_def)
  then have "e \<in> set (map_touch (<) [] nb i)" using assms(3) by (simp add: map_touch_def)
  then show ?thesis using assms(1) by (auto simp: neighbours_ok_def)
qed

lemma inst_edges_to: "e \<in> set (inst_edges n) \<Longrightarrow> dep_to e = ucast (inst_pc n)"
  by (auto simp: inst_edges_def source_edges_def Let_def)

lemma link_nodes:
  assumes "read_graph g" "map_at (<) (g_nodes (link_instructions g)) i = Some n"
  shows "\<exists>m. (i, m) \<in> set (g_nodes g) \<and> (n = m \<or> n = touch_inst m)"
proof -
  have ok: "igraph_ok g" and mo: "map_ok (<) (g_nodes g)"
    using read_graph_ok [OF assms(1)] assms(1) by (simp_all add: read_graph_def)
  have "\<forall>kn \<in> set (g_nodes g). map_has (<) (g_nodes g) (fst kn)"
    using u64_order.map_at_mem [OF mo] by (fastforce simp: map_has_at)
  from fold_link_ok [OF ok this, folded link_instructions_def] assms(2) show ?thesis
    using u64_order.map_at_iff_mem [OF mo] by blast
qed

lemma read_link:
  assumes "read_graph g"
  shows "igraph_ok (link_instructions g)" "\<forall>kn \<in> set (g_nodes (link_instructions g)). inst_access_kind (snd kn) = None"
proof -
  show ok: "igraph_ok (link_instructions g)" using link_instructions_ok(1) [OF read_graph_ok [OF assms]] .
  have "inst_access_kind n = None" if "(i, n) \<in> set (g_nodes (link_instructions g))" for i n
  proof -
    have "map_at (<) (g_nodes (link_instructions g)) i = Some n"
      using ok that u64_order.map_at_mem by (auto simp: graph_ok_def)
    from link_nodes [OF assms this] assms show ?thesis by (fastforce simp: read_graph_def touch_inst_def Let_def)
  qed
  then show "\<forall>kn \<in> set (g_nodes (link_instructions g)). inst_access_kind (snd kn) = None" by fastforce
qed

lemma link_keys:
  assumes "read_graph g"
  shows "map_has (<) (g_nodes (link_instructions g)) i = map_has (<) (g_nodes g) i"
proof -
  have mo: "map_ok (<) (g_nodes g)" using assms by (simp add: read_graph_def)
  then have "\<forall>kn \<in> set (g_nodes g). map_has (<) (g_nodes g) (fst kn)"
    using u64_order.map_at_mem by (fastforce simp: map_has_at)
  from fold_link_ok [OF read_graph_ok [OF assms] this, folded link_instructions_def] show ?thesis by blast
qed

lemma complete_link_closed:
  assumes "read_graph g" "complete_graph g"
  defines "h \<equiv> link_instructions g"
  shows "closed_graph h"
proof -
  have ok: "igraph_ok g" and mo: "map_ok (<) (g_nodes g)"
    using read_graph_ok [OF assms(1)] assms(1) by (simp_all add: read_graph_def)
  have complete: "complete_inst g kn" if "kn \<in> set (g_nodes g)" for kn
    using assms(2) that by (auto simp: complete_graph_def list_all_iff)
  have keys: "map_has (<) (g_nodes g) (fst kn)" if "kn \<in> set (g_nodes g)" for kn
    using u64_order.map_at_mem [OF mo, of "fst kn" "snd kn"] that by (simp add: map_has_at)
  have gh: "igraph_ok h" unfolding h_def using read_link(1) [OF assms(1)] .
  have edge: "map_has (<) (g_nodes h) (dep_from e) \<and> map_has (<) (g_nodes h) (dep_to e)"
    if "has_edge dependency_lt h e" for e
  proof -
    have "\<not> has_edge dependency_lt g e" using assms(1) by (simp add: read_graph_def has_edge_def map_has_def)
    with that obtain kn where kn: "kn \<in> set (g_nodes g)" "e \<in> set (inst_edges (snd kn))"
      unfolding h_def link_instructions_ok(2) [OF ok] by blast
    then show ?thesis
      using complete [OF kn(1)] inst_edges_to [OF kn(2)] keys [OF kn(1)] unfolding h_def link_keys [OF assms(1)]
      by (auto simp: complete_inst_def)
  qed
  have node: "node_srcs_ok n" if "(i, n) \<in> set (g_nodes h)" for i n
  proof -
    have "map_at (<) (g_nodes h) i = Some n"
      using gh that u64_order.map_at_mem by (auto simp: graph_ok_def)
    from link_nodes [OF assms(1) this [unfolded h_def]] obtain m where "(i, m) \<in> set (g_nodes g)" "n = m \<or> n = touch_inst m"
      by blast
    with complete [of "(i, m)"] show ?thesis
      by (auto simp: complete_inst_def touch_inst_def node_srcs_ok_def Let_def)
  qed
  show "closed_graph h"
    unfolding closed_graph_def
    using gh node edge neighbour_edges [of dep_to] neighbour_edges [of dep_from]
    by (fastforce simp: graph_ok_def has_edge_def)
qed

lemma finish_graph_gives:
  assumes "read_graph g"
  shows "gives (complete_graph g)
    (\<lambda>h. (\<forall>i. map_has (<) (g_nodes h) i = map_has (<) (g_nodes g) i) \<and> graph_kinds_wf h \<and> all_kinded h) (finish_graph cfg g)"
  unfolding finish_graph_def
proof (rule gives_mono [OF analyze_access_kinds_complete])
  show "map_ok (<) (g_nodes (link_instructions g))" using read_link(1) [OF assms] by (simp add: graph_ok_def)
  show "\<forall>kn \<in> set (g_nodes (link_instructions g)). inst_access_kind (snd kn) = None" using read_link(2) [OF assms] .
  show "closed_graph (link_instructions g)" if "complete_graph g" using complete_link_closed [OF assms that] .
  show "(\<forall>i. map_has (<) (g_nodes h) i = map_has (<) (g_nodes g) i) \<and> graph_kinds_wf h \<and> all_kinded h"
    if "same_graph (link_instructions g) h \<and> graph_kinds_wf h \<and> all_kinded h" for h
    using that same_graph_has [of "link_instructions g" h] link_keys [OF assms] by simp
qed

text \<open>Reading keeps the graph one of instructions without kinds.\<close>

lemma parse_instruction_read:
  assumes "read_graph g" "parse_instruction pt off t g = Inr h"
  shows "read_graph h"
proof -
  obtain n where h: "h = add_node (<) (word_of_int (pt_get_int pt t ''pc'' 0 + off)) n g" "inst_access_kind n = None"
    using assms(2) by (auto simp: parse_instruction_def fbind_eq_Inr Instruction_def Let_def split: prod.splits)
  with assms(1) show ?thesis
    using u64_order.map_set_all [of "g_nodes g" "\<lambda>kn. inst_access_kind (snd kn) = None"]
    by (auto simp: add_node_def read_graph_def u64_order.map_ok_emplace map_emplace_def u64_order.map_ok_set split: if_splits)
qed

lemma parse_block_read: "read_graph g \<Longrightarrow> parse_block pt off t g = Inr h \<Longrightarrow> read_graph h"
  by (auto simp: parse_block_def fbind_eq_Inr intro: ffold_invariant [where P = read_graph, OF parse_instruction_read])

lemma source_edges_mem:
  "e \<in> set (source_edges pc (drop i rs) m) \<longleftrightarrow>
     dep_to e = ucast pc \<and> (\<exists>j p. i \<le> j \<and> j < length rs \<and> p \<in> set (map_touch (<) [] m (rs ! j)) \<and> dep_from e = word_of_int p)"
proof -
  have drop: "r \<in> set (drop i rs) \<longleftrightarrow> (\<exists>j. i \<le> j \<and> j < length rs \<and> r = rs ! j)" (is "?l \<longleftrightarrow> ?r") for r
  proof
    assume ?l
    then obtain j where "j < length (drop i rs)" "drop i rs ! j = r" by (auto simp: in_set_conv_nth)
    then show ?r by (intro exI [of _ "i + j"]) auto
  next
    assume ?r
    then obtain j where "i \<le> j" "j < length rs" "r = rs ! j" by blast
    then show ?l unfolding in_set_conv_nth by (intro exI [of _ "j - i"]) auto
  qed
  have e: "e = \<lparr>dep_from = a, dep_to = b\<rparr> \<longleftrightarrow> dep_from e = a \<and> dep_to e = b" for a b by (cases e) simp
  have "e \<in> set (source_edges pc (drop i rs) m) \<longleftrightarrow>
      (\<exists>r \<in> set (drop i rs). \<exists>p \<in> set (map_touch (<) [] m r). dep_from e = word_of_int p \<and> dep_to e = ucast pc)"
    by (simp add: source_edges_def image_iff e)
  also have "\<dots> \<longleftrightarrow> dep_to e = ucast pc \<and>
      (\<exists>j p. i \<le> j \<and> j < length rs \<and> p \<in> set (map_touch (<) [] m (rs ! j)) \<and> dep_from e = word_of_int p)"
    unfolding Bex_def drop by blast
  finally show ?thesis .
qed

text \<open>
  C26. The dependence graph gets exactly these edges: to every instruction, one from each program counter that assigns one of the
  sources that count. All sources count but the address operands of a store: the first of a store to shared or local memory, the first
  two of another store. Of the uniform sources only those count whose index is not below the number of ordinary sources, because the second
  loop goes on with the index of the first. No other edge is added or lost, and the neighbour sets stay consistent.
\<close>

theorem link_instructions_edges:
  assumes "igraph_ok g"
  shows "igraph_ok (link_instructions g) \<and>
    (has_edge dependency_lt (link_instructions g) e \<longleftrightarrow>
       has_edge dependency_lt g e \<or>
       (\<exists>(i, n) \<in> set (g_nodes g). dep_to e = ucast (inst_pc n) \<and>
          (\<exists>j p. dep_from e = word_of_int p \<and>
             (has_sub (inst_op n) ''STORE'' \<longrightarrow>
                (if has_sub (inst_op n) ''.SHARED'' \<or> has_sub (inst_op n) ''.LOCAL'' then 1 \<le> j else 2 \<le> j)) \<and>
             (j < length (inst_srcs n) \<and> p \<in> set (map_touch (<) [] (inst_assign_pcs n) (inst_srcs n ! j)) \<or>
              length (inst_srcs n) \<le> j \<and> j < length (inst_usrcs n)
                \<and> p \<in> set (map_touch (<) [] (inst_uassign_pcs n) (inst_usrcs n ! j))))))"
proof -
  have first: "first_source op \<le> j \<longleftrightarrow> (has_sub op ''STORE'' \<longrightarrow>
      (if has_sub op ''.SHARED'' \<or> has_sub op ''.LOCAL'' then 1 \<le> j else 2 \<le> j))" for op j
    by (simp add: first_source_def)
  show ?thesis
    unfolding link_instructions_ok(2) [OF assms] inst_edges_def Let_def set_append Un_iff source_edges_mem first [symmetric]
    using link_instructions_ok(1) [OF assms] by (fastforce simp: split_beta)
qed

text \<open>
  A load of two words at 0 whose first register a float multiplication at 16 uses, and a uniform register
  that the instruction at 32 sets.
\<close>

definition sample_graph :: instruction_graph where
  "sample_graph =
     empty_graph\<lparr>g_nodes :=
       [(0, Instruction ''MEMORY.LOAD.64'' 0 (- 1) [4] [2, 3] [] [] [] []),
        (16, Instruction ''FLOAT.MUL.32'' 16 (- 1) [5] [4, 4] [] [9] [(4, [0])] [(9, [32])]),
        (32, Instruction ''UNIFORM.ADD'' 32 (- 1) [] [] [9] [] [] [])]\<rparr>"

lemmas sample_defs = sample_graph_def empty_graph_def Instruction_def

lemma read_sample: "read_graph sample_graph" "complete_graph sample_graph"
  by (simp_all add: sample_defs read_graph_def complete_graph_def map_ok_def complete_inst_def node_srcs_ok_def inst_edges_def
      source_edges_def first_source_def map_touch_def map_has_def)

text \<open>The multiplication depends on the load, but not on the instruction that sets its only uniform source.\<close>

theorem link_instructions_edges_witness:
  "igraph_ok sample_graph
   \<and> has_edge dependency_lt (link_instructions sample_graph) \<lparr>dep_from = 0, dep_to = 16\<rparr>
   \<and> \<not> has_edge dependency_lt (link_instructions sample_graph) \<lparr>dep_from = 32, dep_to = 16\<rparr>"
proof -
  have "\<not> has_edge dependency_lt sample_graph e" for e by (simp add: sample_defs has_edge_def map_has_def)
  moreover have "has_edge dependency_lt (link_instructions sample_graph) \<lparr>dep_from = 0, dep_to = 16\<rparr>"
    unfolding link_instructions_edges [OF read_graph_ok [OF read_sample(1)], THEN conjunct2]
    by (rule disjI2, rule bexI [where x = "(16, Instruction ''FLOAT.MUL.32'' 16 (- 1) [5] [4, 4] [] [9] [(4, [0])] [(9, [32])])"])
       (auto simp: sample_defs map_touch_def intro!: exI [of _ 0] exI [of _ "0 :: int"])
  ultimately show ?thesis
    using link_instructions_edges [OF read_graph_ok [OF read_sample(1)], of "\<lparr>dep_from = 32, dep_to = 16\<rparr>"]
      read_graph_ok [OF read_sample(1)]
    by (auto simp: sample_defs map_touch_def split: if_splits)
qed

end
