(* ===== verification/Cubins.thy ===== *)
theory Cubins
  imports Symbols Instructions
begin

section \<open>The registry of cubins\<close>

text \<open>
  \<^verbatim>\<open>binutils/cubin.h\<close> and the registration functions of \<^verbatim>\<open>redshow.cpp\<close>: \<^verbatim>\<open>cubin_map\<close> holds the
  analysed cubins with one symbol vector per module, \<^verbatim>\<open>cubin_cache_map\<close> the ones that are analysed when
  a trace needs them. The instruction file of a cubin is outside the program: whether it can be opened, the tree
  that \<^verbatim>\<open>boost\<close> reads from it and the content of uninitialised fields are fields of a parameter.
\<close>

subsection \<open>Parsing an instruction file\<close>

record 't cubin_files =
  cf_good :: "string \<Rightarrow> bool"
  cf_json :: "string \<Rightarrow> 't list outcome"
  cf_ptree :: "'t ptree_lib"
  cf_junk :: u32

definition parse_function ::
  "'t cubin_files \<Rightarrow> 't \<Rightarrow> symbol_vector \<times> instruction_graph \<Rightarrow> (symbol_vector \<times> instruction_graph) outcome" where
  "parse_function cf t sg =
     (let pt = cf_ptree cf;
          function_index = pt_get_int pt t ''index'' 0;
          cubin_offset = pt_get_int pt t ''address'' 0;
          symbols = fst sg @ replicate (nat (function_index + 1) - length (fst sg)) (Symbol (cf_junk cf) 0 0 0)
      in if function_index < 0 then Inl OutOfRange
         else
           fbind (pt_children pt t ''blocks'') (\<lambda>blocks.
           fbind (ffold (parse_block pt cubin_offset) blocks (snd sg)) (\<lambda>g.
           Inr (symbols[nat function_index := Symbol (cf_junk cf) (word_of_int function_index) (word_of_int cubin_offset) 0], g))))"

definition parse ::
  "'t cubin_files \<Rightarrow> value_config \<Rightarrow> string \<Rightarrow> symbol_vector \<Rightarrow> instruction_graph \<Rightarrow>
   (bool \<times> symbol_vector \<times> instruction_graph) outcome" where
  "parse cf cfg file_path symbols g =
     fbind (cf_json cf file_path) (\<lambda>functions.
     fbind (ffold (parse_function cf) functions (symbols, g)) (\<lambda>(symbols', g').
     fbind (finish_graph cfg g') (\<lambda>g''.
     Inr (True, symbols', g''))))"

text \<open>\<^verbatim>\<open>s.rfind("/", from)\<close>: the last position not after \<open>from\<close> (\<^const>\<open>None\<close> for \<^verbatim>\<open>npos\<close>).\<close>

definition rfind_slash :: "string \<Rightarrow> nat option \<Rightarrow> nat option" where
  "rfind_slash s from =
     (let is = filter (\<lambda>i. s ! i = CHR ''/'' \<and> (case from of None \<Rightarrow> True | Some m \<Rightarrow> i \<le> m)) [0..<length s]
      in if is = [] then None else Some (last is))"

definition inst_file_path :: "string \<Rightarrow> nat \<Rightarrow> string" where
  "inst_file_path path i =
     (let cubin_name = drop (i + 1) path;
          j = rfind_slash path (if i = 0 then None else Some (i - 1));
          dir_name = (case j of None \<Rightarrow> path | Some m \<Rightarrow> take m path)
      in dir_name @ ''/structs/nvidia/'' @ cubin_name @ ''.inst'')"

definition analyze_cubin ::
  "'t cubin_files \<Rightarrow> value_config \<Rightarrow> string \<Rightarrow> symbol_vector \<Rightarrow> instruction_graph \<Rightarrow>
   (redshow_result \<times> symbol_vector \<times> instruction_graph) outcome" where
  "analyze_cubin cf cfg path symbols g =
     (case rfind_slash path None of
        None \<Rightarrow> Inr (REDSHOW_ERROR_NO_SUCH_FILE, symbols, g)
      | Some i \<Rightarrow>
          let inst_path = inst_file_path path i
          in if \<not> cf_good cf inst_path then Inr (REDSHOW_ERROR_NO_SUCH_FILE, symbols, g)
             else fbind (parse cf cfg inst_path symbols g) (\<lambda>(ok, symbols', g').
               Inr (if ok then REDSHOW_SUCCESS else REDSHOW_ERROR_FAILED_ANALYZE_CUBIN, symbols', g')))"

subsection \<open>The access kinds of an instruction file\<close>

lemma parse_function_read:
  assumes "read_graph (snd sg)" "parse_function cf t sg = Inr sg'"
  shows "read_graph (snd sg')"
proof -
  obtain blocks h off where "ffold (parse_block (cf_ptree cf) off) blocks (snd sg) = Inr h" "snd sg' = h"
    using assms(2) by (auto simp: parse_function_def fbind_eq_Inr Let_def split: if_splits)
  with assms(1) show ?thesis by (auto intro: ffold_invariant [where P = read_graph, OF parse_block_read])
qed

lemma parse_functions_read:
  assumes "ffold (parse_function cf) fns (symbols, empty_graph) = Inr (symbols', g)"
  shows "read_graph g"
  using ffold_invariant [where P = "\<lambda>sg. read_graph (snd sg)", OF parse_function_read _ assms] read_graph_empty by simp

text \<open>
  C15. Whatever an instruction file holds, the search for access kinds on the graph that is read from it ends. It gives every memory
  instruction an access kind, and all kinds have a vector size and a unit size that are allowed, so that no unit size is zero. The search
  only faults, by the exception of a missing instruction or a read beyond the sources of an instruction, and only when the graph is
  not complete: when a program counter that assigns a used source is no instruction, a memory instruction has less than two sources,
  or a program counter does not fit into 32 bits.
\<close>

theorem parse_access_kinds:
  assumes "ffold (parse_function cf) fns (symbols, empty_graph) = Inr (symbols', g)"
  shows "finish_graph cfg g = Inl OutOfRange \<and> \<not> complete_graph g \<or>
    (\<exists>h. finish_graph cfg g = Inr h \<and> (\<forall>i. map_has (<) (g_nodes h) i = map_has (<) (g_nodes g) i) \<and>
       (\<forall>(i, n) \<in> set (g_nodes h).
          (has_sub (inst_op n) ''MEMORY'' \<longrightarrow> inst_access_kind n \<noteq> None) \<and>
          (\<forall>k. inst_access_kind n = Some k \<longrightarrow> vec_size k \<in> {8, 16, 32, 64, 128} \<and> unit_size k \<in> {8, 16, 32, 64})))"
  using gives_result [OF finish_graph_gives [OF parse_functions_read [OF assms]], of cfg]
  unfolding graph_kinds_wf_def all_kinded_def kind_wf_def vec_sizes_def unit_sizes_def by fast

lemma parse_kinds:
  assumes "parse cf cfg path symbols empty_graph = Inr (ok, symbols', h)"
  shows "graph_kinds_wf h"
proof -
  obtain fns g where g: "ffold (parse_function cf) fns (symbols, empty_graph) = Inr (symbols', g)"
    "finish_graph cfg g = Inr h"
    using assms by (auto simp: parse_def fbind_eq_Inr)
  with finish_graph_gives [OF parse_functions_read [OF g(1)], of cfg] show ?thesis by simp
qed

lemma analyze_cubin_kinds:
  assumes "analyze_cubin cf cfg path symbols empty_graph = Inr (r, symbols', h)"
  shows "graph_kinds_wf h"
proof -
  have "graph_kinds_wf empty_graph" by (simp add: graph_kinds_wf_def empty_graph_def)
  then show ?thesis
    using assms parse_kinds
    by (auto simp: analyze_cubin_def fbind_eq_Inr Let_def split: option.splits if_splits)
qed

text \<open>
  A property tree, and a file with one function: a load of two words at 0, a float multiplication at 16 that uses its first register
  and a uniform register, and the instruction at 32 that sets the uniform register.
\<close>

datatype json = JNum int | JText string | JTree "(string \<times> json) list"

fun json_child :: "json \<Rightarrow> string \<Rightarrow> json option" where
  "json_child (JTree cs) key = map_of cs key"
| "json_child t key = None"

definition json_lib :: "json ptree_lib" where
  "json_lib =
     \<lparr>pt_get_int = (\<lambda>t key d. case json_child t key of Some (JNum n) \<Rightarrow> n | _ \<Rightarrow> d),
      pt_get_string = (\<lambda>t key d. case json_child t key of Some (JText s) \<Rightarrow> s | _ \<Rightarrow> d),
      pt_children = (\<lambda>t key. case json_child t key of Some (JTree cs) \<Rightarrow> Inr (map snd cs) | _ \<Rightarrow> Inl AssertFail),
      pt_data_int = (\<lambda>t. case t of JNum n \<Rightarrow> Inr n | _ \<Rightarrow> Inl AssertFail)\<rparr>"

definition json_list :: "json list \<Rightarrow> json" where
  "json_list ts = JTree (map (Pair []) ts)"

definition json_source :: "string \<Rightarrow> int \<Rightarrow> int list \<Rightarrow> json" where
  "json_source key src pcs = JTree [(''id'', JNum src), (key, json_list (map JNum pcs))]"

definition json_inst :: "int \<Rightarrow> string \<Rightarrow> int list \<Rightarrow> (int \<times> int list) list \<Rightarrow> int list \<Rightarrow> (int \<times> int list) list \<Rightarrow> json" where
  "json_inst pc op dsts srcs udsts usrcs =
     JTree [(''pc'', JNum pc), (''op'', JText op), (''dsts'', json_list (map JNum dsts)),
       (''srcs'', json_list (map (\<lambda>(s, ps). json_source ''assign_pcs'' s ps) srcs)),
       (''udsts'', json_list (map JNum udsts)),
       (''usrcs'', json_list (map (\<lambda>(s, ps). json_source ''uassign_pcs'' s ps) usrcs))]"

definition json_function :: json where
  "json_function =
     JTree [(''index'', JNum 0), (''address'', JNum 0),
       (''blocks'', json_list [JTree [(''insts'', json_list
          [json_inst 0 ''MEMORY.LOAD.64'' [4] [(2, []), (3, [])] [] [],
           json_inst 16 ''FLOAT.MUL.32'' [5] [(4, [0]), (4, [0])] [] [(9, [32])],
           json_inst 32 ''UNIFORM.ADD'' [] [] [9] []])]])]"

definition json_files :: "json cubin_files" where
  "json_files = \<lparr>cf_good = (\<lambda>_. True), cf_json = (\<lambda>_. Inr [json_function]), cf_ptree = json_lib, cf_junk = 7\<rparr>"

theorem parse_access_kinds_witness:
  "\<exists>symbols' g h. ffold (parse_function json_files) [json_function] ([], empty_graph) = Inr (symbols', g)
    \<and> finish_graph init_value_config g = Inr h
    \<and> map_option inst_access_kind (map_at (<) (g_nodes h) 0) = Some (Some (AccessKind 32 64 REDSHOW_DATA_FLOAT))"
proof -
  have read: "ffold (parse_function json_files) [json_function] ([], empty_graph) =
      Inr (projr (ffold (parse_function json_files) [json_function] ([], empty_graph)))" by code_simp
  let ?g = "snd (projr (ffold (parse_function json_files) [json_function] ([], empty_graph)))"
  have complete: "complete_graph ?g" by code_simp
  have k: "map_option inst_access_kind (map_at (<) (g_nodes (projr (finish_graph init_value_config ?g))) 0)
      = Some (Some (AccessKind 32 64 REDSHOW_DATA_FLOAT))" by code_simp
  have p: "ffold (parse_function json_files) [json_function] ([], empty_graph)
      = Inr (fst (projr (ffold (parse_function json_files) [json_function] ([], empty_graph))), ?g)"
    using read by simp
  from parse_access_kinds [OF p, of init_value_config] complete obtain h where
    "finish_graph init_value_config ?g = Inr h" by blast
  with p k show ?thesis
    by (intro exI [of _ "fst (projr (ffold (parse_function json_files) [json_function] ([], empty_graph)))"] exI [of _ ?g] exI [of _ h])
       (simp del: ffold.simps)
qed

subsection \<open>Registration\<close>

record cubin =
  cub_id :: u32
  cub_path :: string
  cub_symbols :: "(u32, symbol_vector) omap"
  cub_graph :: instruction_graph

record cubin_cache =
  cc_id :: u32
  cc_nsymbols :: u32
  cc_symbol_pcs :: "(u32, u64 list) omap"
  cc_path :: string

type_synonym cubin_map = "(u32, cubin) omap"
type_synonym cubin_cache_map = "(u32, cubin_cache) omap"

definition assign_symbol_pcs :: "nat \<Rightarrow> u64 list \<Rightarrow> symbol_vector \<Rightarrow> symbol_vector outcome" where
  "assign_symbol_pcs n pcs symbols =
     (if length pcs < n \<or> length symbols < n then Inl OutOfRange
      else Inr (map2 (\<lambda>s pc. s\<lparr>sym_pc := pc\<rparr>) (take n symbols) (take n pcs) @ drop n symbols))"

definition cubin_insert ::
  "u32 \<Rightarrow> u32 \<Rightarrow> string \<Rightarrow> instruction_graph \<Rightarrow> symbol_vector \<Rightarrow> cubin_map \<Rightarrow> redshow_result \<times> cubin_map" where
  "cubin_insert cubin_id mod_id path g symbols cm =
     (case map_at (<) cm cubin_id of
        None \<Rightarrow>
          (REDSHOW_SUCCESS,
           map_set (<) cm cubin_id
             \<lparr>cub_id = cubin_id, cub_path = path, cub_symbols = map_set (<) [] mod_id symbols, cub_graph = g\<rparr>)
      | Some c \<Rightarrow>
          if map_find (<) (cub_symbols c) mod_id = None then
            (REDSHOW_SUCCESS, map_set (<) cm cubin_id (c\<lparr>cub_symbols := map_set (<) (cub_symbols c) mod_id symbols\<rparr>))
          else (REDSHOW_ERROR_DUPLICATE_ENTRY, cm))"

text \<open>\<^verbatim>\<open>std::sort\<close> orders the symbols by address; the order of symbols at one address is the one they had.\<close>

definition redshow_cubin_register ::
  "'t cubin_files \<Rightarrow> value_config \<Rightarrow> u32 \<Rightarrow> u32 \<Rightarrow> u32 \<Rightarrow> u64 list \<Rightarrow> string \<Rightarrow> cubin_map \<Rightarrow>
   (redshow_result \<times> cubin_map) outcome" where
  "redshow_cubin_register cf cfg cubin_id mod_id nsymbols symbol_pcs path cm =
     fbind (analyze_cubin cf cfg path (replicate (unat nsymbols) (Symbol (cf_junk cf) 0 0 0)) empty_graph)
       (\<lambda>(result, symbols, g).
         if result = REDSHOW_SUCCESS \<or> result = REDSHOW_ERROR_NO_SUCH_FILE then
           fbind (assign_symbol_pcs (unat nsymbols) symbol_pcs symbols) (\<lambda>symbols'.
             Inr (cubin_insert cubin_id mod_id path g (sort_key sym_pc symbols') cm))
         else Inr (result, cm))"

definition redshow_cubin_cache_register ::
  "u32 \<Rightarrow> u32 \<Rightarrow> u32 \<Rightarrow> u64 list \<Rightarrow> string \<Rightarrow> cubin_cache_map \<Rightarrow> (redshow_result \<times> cubin_cache_map) outcome" where
  "redshow_cubin_cache_register cubin_id mod_id nsymbols symbol_pcs path ccm =
     (let c = (case map_at (<) ccm cubin_id of
                 None \<Rightarrow> \<lparr>cc_id = cubin_id, cc_nsymbols = nsymbols, cc_symbol_pcs = [], cc_path = path\<rparr>
               | Some c \<Rightarrow> c)
      in if map_find (<) (cc_symbol_pcs c) mod_id \<noteq> None then Inr (REDSHOW_ERROR_DUPLICATE_ENTRY, ccm)
         else if length symbol_pcs < unat nsymbols then Inl OutOfRange
         else Inr (REDSHOW_SUCCESS,
                   map_set (<) ccm cubin_id
                     (c\<lparr>cc_symbol_pcs := map_set (<) (cc_symbol_pcs c) mod_id (take (unat nsymbols) symbol_pcs)\<rparr>)))"

definition redshow_cubin_unregister :: "u32 \<Rightarrow> u32 \<Rightarrow> cubin_map \<Rightarrow> redshow_result \<times> cubin_map" where
  "redshow_cubin_unregister cubin_id mod_id cm =
     (case map_at (<) cm cubin_id of
        None \<Rightarrow> (REDSHOW_ERROR_NOT_EXIST_ENTRY, cm)
      | Some c \<Rightarrow>
          let syms = map_erase (<) (cub_symbols c) mod_id
          in (REDSHOW_SUCCESS,
              if length syms = 0 then map_erase (<) cm cubin_id
              else map_set (<) cm cubin_id (c\<lparr>cub_symbols := syms\<rparr>)))"

subsection \<open>Fetching the cubin of a trace\<close>

definition find_module :: "u32 \<Rightarrow> u32 \<Rightarrow> cubin_map \<Rightarrow> (symbol_vector \<times> instruction_graph) option" where
  "find_module cubin_id mod_id cm =
     (case map_at (<) cm cubin_id of
        None \<Rightarrow> None
      | Some c \<Rightarrow> (case map_at (<) (cub_symbols c) mod_id of None \<Rightarrow> None | Some v \<Rightarrow> Some (v, cub_graph c)))"

definition fetch_cubin ::
  "'t cubin_files \<Rightarrow> value_config \<Rightarrow> u32 \<Rightarrow> u32 \<Rightarrow> cubin_cache_map \<Rightarrow> cubin_map \<Rightarrow>
   (redshow_result \<times> (symbol_vector \<times> instruction_graph) option \<times> cubin_map) outcome" where
  "fetch_cubin cf cfg cubin_id mod_id ccm cm =
     (case find_module cubin_id mod_id cm of
        Some vg \<Rightarrow> Inr (REDSHOW_SUCCESS, Some vg, cm)
      | None \<Rightarrow>
          (case map_at (<) ccm cubin_id of
             None \<Rightarrow> Inr (REDSHOW_ERROR_NOT_EXIST_ENTRY, None, cm)
           | Some cc \<Rightarrow>
               (case map_at (<) (cc_symbol_pcs cc) mod_id of
                  None \<Rightarrow> Inr (REDSHOW_ERROR_NOT_EXIST_ENTRY, None, cm)
                | Some pcs \<Rightarrow>
                    fbind (redshow_cubin_register cf cfg cubin_id mod_id (cc_nsymbols cc) pcs (cc_path cc) cm)
                      (\<lambda>(result, cm').
                        if result \<noteq> REDSHOW_SUCCESS then Inr (result, None, cm')
                        else case find_module cubin_id mod_id cm' of
                            None \<Rightarrow> Inr (REDSHOW_ERROR_NOT_EXIST_ENTRY, None, cm')
                          | Some vg \<Rightarrow> Inr (REDSHOW_SUCCESS, Some vg, cm')))))"

subsection \<open>The invariant of the registry\<close>

definition cubin_ok :: "u32 \<Rightarrow> cubin \<Rightarrow> bool" where
  "cubin_ok i c =
     (cub_id c = i \<and> cub_symbols c \<noteq> [] \<and> map_ok (<) (cub_symbols c)
      \<and> (\<forall>mv \<in> set (cub_symbols c). symbols_sorted (snd mv)))"

definition cubins_ok :: "cubin_map \<Rightarrow> bool" where
  "cubins_ok cm = (map_ok (<) cm \<and> (\<forall>ic \<in> set cm. cubin_ok (fst ic) (snd ic)))"

lemma cubins_ok_Nil: "cubins_ok []"
  by (simp add: cubins_ok_def)

lemma cubins_ok_at: "cubins_ok cm \<Longrightarrow> map_at (<) cm i = Some c \<Longrightarrow> cubin_ok i c"
  using u32_order.map_at_iff_mem by (fastforce simp: cubins_ok_def)

lemma cubins_ok_set: "cubins_ok cm \<Longrightarrow> cubin_ok i c \<Longrightarrow> cubins_ok (map_set (<) cm i c)"
  using u32_order.map_set_all [of cm "\<lambda>ic. cubin_ok (fst ic) (snd ic)" i c]
  by (simp add: cubins_ok_def u32_order.map_ok_set)

lemma cubins_ok_erase: "cubins_ok cm \<Longrightarrow> cubins_ok (map_erase (<) cm i)"
  using set_map_erase [of "(<)" cm i] by (auto simp: cubins_ok_def u32_order.map_ok_erase)

lemma cubin_ok_set: "cubin_ok i c \<Longrightarrow> symbols_sorted v \<Longrightarrow> cubin_ok i (c\<lparr>cub_symbols := map_set (<) (cub_symbols c) m v\<rparr>)"
  using u32_order.map_set_all [of "cub_symbols c" "\<lambda>mv. symbols_sorted (snd mv)" m v]
  by (simp add: cubin_ok_def u32_order.map_ok_set)

lemma find_module_sorted:
  assumes "cubins_ok cm" "find_module i m cm = Some (v, g)"
  shows "symbols_sorted v"
proof -
  obtain c where c: "map_at (<) cm i = Some c" "map_at (<) (cub_symbols c) m = Some v"
    using assms(2) by (auto simp: find_module_def split: option.splits)
  with cubins_ok_at [OF assms(1) c(1)] show ?thesis by (auto simp: cubin_ok_def dest!: map_at_Some_mem)
qed

text \<open>A module that is not registered yet becomes known with its symbols, and no other module changes.\<close>

lemma cubin_insert_ok:
  assumes "cubins_ok cm" "symbols_sorted v"
  shows "cubins_ok (snd (cubin_insert i m path g v cm))"
    "fst (cubin_insert i m path g v cm) =
       (if find_module i m cm = None then REDSHOW_SUCCESS else REDSHOW_ERROR_DUPLICATE_ENTRY)"
    "map_option fst (find_module j l (snd (cubin_insert i m path g v cm))) =
       (if (j, l) = (i, m) \<and> find_module i m cm = None then Some v else map_option fst (find_module j l cm))"
proof -
  have mo: "map_ok (<) cm" using assms(1) by (simp add: cubins_ok_def)
  have so: "map_at (<) cm i = Some c \<Longrightarrow> map_ok (<) (cub_symbols c)" for c
    using cubins_ok_at [OF assms(1)] by (simp add: cubin_ok_def)
  show "cubins_ok (snd (cubin_insert i m path g v cm))"
    using assms cubins_ok_at [OF assms(1)]
    by (auto simp: cubin_insert_def cubin_ok_set intro!: cubins_ok_set split: option.split) (simp add: cubin_ok_def map_ok_def)
  show "fst (cubin_insert i m path g v cm) =
      (if find_module i m cm = None then REDSHOW_SUCCESS else REDSHOW_ERROR_DUPLICATE_ENTRY)"
    by (auto simp: cubin_insert_def find_module_def map_at_def split: option.splits)
  show "map_option fst (find_module j l (snd (cubin_insert i m path g v cm))) =
      (if (j, l) = (i, m) \<and> find_module i m cm = None then Some v else map_option fst (find_module j l cm))"
    using so
    by (auto simp: cubin_insert_def find_module_def u32_order.map_at_set [OF mo] u32_order.map_at_set split: option.splits)
      (auto simp: map_at_def)
qed


lemma assign_symbol_pcs_ok:
  assumes "assign_symbol_pcs n pcs v = Inr w"
  shows "map sym_pc (take n w) = take n pcs" "length w = length v"
proof -
  let ?u = "map2 (\<lambda>s pc. s\<lparr>sym_pc := pc\<rparr>) (take n v) (take n pcs)"
  have l: "n \<le> length pcs" "n \<le> length v" and w: "w = ?u @ drop n v"
    using assms by (auto simp: assign_symbol_pcs_def split: if_splits)
  then have "length ?u = n" by simp
  moreover have "map sym_pc ?u = take n pcs"
    using l by (intro nth_equalityI) auto
  ultimately show "map sym_pc (take n w) = take n pcs" "length w = length v" using l by (simp_all add: w)
qed

lemma symbols_sorted_sort [simp]: "symbols_sorted (sort_key sym_pc v)"
  by (simp add: symbols_sorted_def)

lemma register_cases:
  assumes "redshow_cubin_register cf cfg i m n pcs path cm = Inr (r, cm')"
  shows "r \<noteq> REDSHOW_SUCCESS \<and> cm' = cm \<or>
    (\<exists>v g. (r, cm') = cubin_insert i m path g v cm \<and> symbols_sorted v \<and> set (take (unat n) pcs) \<subseteq> sym_pc ` set v
       \<and> (\<exists>r0 v0. analyze_cubin cf cfg path (replicate (unat n) (Symbol (cf_junk cf) 0 0 0)) empty_graph = Inr (r0, v0, g)))"
proof -
  obtain r0 v0 g where a: "analyze_cubin cf cfg path (replicate (unat n) (Symbol (cf_junk cf) 0 0 0)) empty_graph = Inr (r0, v0, g)"
    using assms by (auto simp: redshow_cubin_register_def fbind_eq_Inr)
  show ?thesis
  proof (cases "r0 = REDSHOW_SUCCESS \<or> r0 = REDSHOW_ERROR_NO_SUCH_FILE")
    case False
    with assms a show ?thesis by (auto simp: redshow_cubin_register_def)
  next
    case True
    with assms a obtain w where w: "assign_symbol_pcs (unat n) pcs v0 = Inr w"
      "(r, cm') = cubin_insert i m path g (sort_key sym_pc w) cm"
      by (auto simp: redshow_cubin_register_def fbind_eq_Inr)
    have "set (take (unat n) pcs) = sym_pc ` set (take (unat n) w)"
      using assign_symbol_pcs_ok(1) [OF w(1)] by (metis set_map)
    also have "\<dots> \<subseteq> sym_pc ` set (sort_key sym_pc w)" using set_take_subset by force
    finally show ?thesis using w(2) a symbols_sorted_sort by blast
  qed
qed

text \<open>
  C29. Registering a cubin module keeps the registry consistent (identifiers, one sorted symbol vector per
  module, no cubin without modules) and succeeds only for a module that is not registered, whose addresses it then makes
  known; when it fails nothing changes. It touches no other cubin. A cubin that was registered already keeps its path, its instruction
  graph and its other modules, and a new one gets the path and the graph of the analysed file and no other module.
\<close>

theorem redshow_cubin_register_correct:
  assumes "cubins_ok cm" "redshow_cubin_register cf cfg i m n pcs path cm = Inr (r, cm')"
  shows "cubins_ok cm'
    \<and> (if r = REDSHOW_SUCCESS
       then find_module i m cm = None
         \<and> (\<exists>v g. find_module i m cm' = Some (v, g) \<and> symbols_sorted v \<and> set (take (unat n) pcs) \<subseteq> sym_pc ` set v)
       else cm' = cm)
    \<and> (\<forall>j. j \<noteq> i \<longrightarrow> map_at (<) cm' j = map_at (<) cm j)
    \<and> (\<forall>c. map_at (<) cm i = Some c \<longrightarrow>
         (\<exists>c'. map_at (<) cm' i = Some c' \<and> cub_path c' = cub_path c \<and> cub_graph c' = cub_graph c
            \<and> (\<forall>l. l \<noteq> m \<longrightarrow> map_at (<) (cub_symbols c') l = map_at (<) (cub_symbols c) l)))
    \<and> (map_at (<) cm i = None \<and> r = REDSHOW_SUCCESS \<longrightarrow>
         (\<exists>c'. map_at (<) cm' i = Some c' \<and> cub_path c' = path
            \<and> (\<exists>r0 v0. analyze_cubin cf cfg path (replicate (unat n) (Symbol (cf_junk cf) 0 0 0)) empty_graph
                 = Inr (r0, v0, cub_graph c'))
            \<and> (\<forall>l. l \<noteq> m \<longrightarrow> map_at (<) (cub_symbols c') l = None)))"
proof -
  consider (same) "r \<noteq> REDSHOW_SUCCESS" "cm' = cm" | (new) v g r0 v0 where "(r, cm') = cubin_insert i m path g v cm"
    "symbols_sorted v" "set (take (unat n) pcs) \<subseteq> sym_pc ` set v"
    "analyze_cubin cf cfg path (replicate (unat n) (Symbol (cf_junk cf) 0 0 0)) empty_graph = Inr (r0, v0, g)"
    using register_cases [OF assms(2)] by blast
  then show ?thesis
  proof cases
    case same
    then show ?thesis using assms(1) by auto
  next
    case new
    note ins = cubin_insert_ok [OF assms(1) new(2), where i = i and m = m and path = path and g = g]
    have mo: "map_ok (<) cm" using assms(1) by (simp add: cubins_ok_def)
    have r: "r = fst (cubin_insert i m path g v cm)" and cm': "cm' = snd (cubin_insert i m path g v cm)"
      using new(1) by (metis fst_conv, metis snd_conv)
    have fail: "cm' = cm" if "find_module i m cm \<noteq> None"
      using that unfolding cm' by (auto simp: cubin_insert_def find_module_def map_at_def split: option.splits)
    have "\<exists>g. find_module i m cm' = Some (v, g)" if "find_module i m cm = None"
      using ins(3) [where j = i and l = m] that unfolding cm' by auto
    moreover have "map_at (<) cm' j = map_at (<) cm j" if "j \<noteq> i" for j
      using that unfolding cm' by (auto simp: cubin_insert_def u32_order.map_at_set [OF mo] split: option.split)
    moreover have "\<exists>c'. map_at (<) cm' i = Some c' \<and> cub_path c' = cub_path c \<and> cub_graph c' = cub_graph c
        \<and> (\<forall>l. l \<noteq> m \<longrightarrow> map_at (<) (cub_symbols c') l = map_at (<) (cub_symbols c) l)" if c: "map_at (<) cm i = Some c" for c
      using c cubins_ok_at [OF assms(1) c] unfolding cm'
      by (simp add: cubin_insert_def u32_order.map_at_set [OF mo] cubin_ok_def u32_order.map_at_set)
    moreover have "\<exists>c'. map_at (<) cm' i = Some c' \<and> cub_path c' = path \<and> cub_graph c' = g
        \<and> (\<forall>l. l \<noteq> m \<longrightarrow> map_at (<) (cub_symbols c') l = None)" if c: "map_at (<) cm i = None"
      using c unfolding cm' by (simp add: cubin_insert_def u32_order.map_at_set [OF mo] u32_order.map_at_set)
    ultimately show ?thesis
      using ins(1,2) fail new(2,3,4) unfolding cm' [symmetric] r [symmetric] by auto
  qed
qed

text \<open>Files of which none can be opened, so that only the addresses are registered.\<close>

definition no_files :: "unit cubin_files" where
  "no_files =
     \<lparr>cf_good = (\<lambda>_. False), cf_json = (\<lambda>_. Inl NullDeref),
      cf_ptree = \<lparr>pt_get_int = (\<lambda>_ _ d. d), pt_get_string = (\<lambda>_ _ d. d), pt_children = (\<lambda>_ _. Inr []), pt_data_int = (\<lambda>_. Inr 0)\<rparr>,
      cf_junk = 7\<rparr>"

definition one_cubin :: cubin_map where
  "one_cubin =
     [(3, \<lparr>cub_id = 3, cub_path = ''c/m'', cub_symbols = [(1, [Symbol 7 0 0 0x10, Symbol 7 0 0 0x20])], cub_graph = empty_graph\<rparr>)]"

lemma register_one_cubin:
  "redshow_cubin_register no_files init_value_config 3 1 2 [0x20, 0x10] ''c/m'' [] = Inr (REDSHOW_SUCCESS, one_cubin)"
  by code_simp

lemma register_second_module:
  "redshow_cubin_register no_files init_value_config 3 2 1 [0x30] ''d/n'' one_cubin =
     Inr (REDSHOW_SUCCESS,
       [(3, \<lparr>cub_id = 3, cub_path = ''c/m'', cub_symbols = [(1, [Symbol 7 0 0 0x10, Symbol 7 0 0 0x20]), (2, [Symbol 7 0 0 0x30])],
             cub_graph = empty_graph\<rparr>)])"
  by code_simp

theorem redshow_cubin_register_correct_witness:
  "cubins_ok one_cubin
   \<and> (\<exists>cm' c'. redshow_cubin_register no_files init_value_config 3 2 1 [0x30] ''d/n'' one_cubin = Inr (REDSHOW_SUCCESS, cm')
        \<and> cubins_ok cm' \<and> map_at (<) cm' 3 = Some c' \<and> cub_path c' = ''c/m''
        \<and> map_at (<) (cub_symbols c') 1 = Some [Symbol 7 0 0 0x10, Symbol 7 0 0 0x20])"
proof -
  have ok: "cubins_ok one_cubin"
    using redshow_cubin_register_correct [OF cubins_ok_Nil register_one_cubin] by simp
  show ?thesis
    using redshow_cubin_register_correct [OF ok register_second_module] ok register_second_module
    by (auto simp: one_cubin_def)
qed

text \<open>
  C30. Unregistering a module right after it was registered restores the registry exactly.
\<close>

theorem cubin_register_unregister:
  assumes "cubins_ok cm" "redshow_cubin_register cf cfg i m n pcs path cm = Inr (REDSHOW_SUCCESS, cm')"
  shows "redshow_cubin_unregister i m cm' = (REDSHOW_SUCCESS, cm)"
proof -
  obtain v g where new: "(REDSHOW_SUCCESS, cm') = cubin_insert i m path g v cm"
    using register_cases [OF assms(2)] by blast
  have mo: "map_ok (<) cm" using assms(1) by (simp add: cubins_ok_def)
  show ?thesis
  proof (cases "map_at (<) cm i")
    case None
    with new show ?thesis
      by (auto simp: cubin_insert_def redshow_cubin_unregister_def u32_order.map_at_set [OF mo]
          u32_order.map_erase_set [OF mo])
  next
    case (Some c)
    have c: "map_ok (<) (cub_symbols c)" "cub_symbols c \<noteq> []"
      using cubins_ok_at [OF assms(1) Some] by (simp_all add: cubin_ok_def)
    have none: "map_at (<) (cub_symbols c) m = None"
      using new Some by (auto simp: cubin_insert_def map_at_def split: if_splits)
    from new Some none have "cm' = map_set (<) cm i (c\<lparr>cub_symbols := map_set (<) (cub_symbols c) m v\<rparr>)"
      by (auto simp: cubin_insert_def map_at_def split: if_splits)
    with Some c none show ?thesis
      by (simp add: redshow_cubin_unregister_def u32_order.map_at_set [OF mo] u32_order.map_erase_set
          u32_order.map_set_set u32_order.map_set_same)
  qed
qed

theorem cubin_register_unregister_witness:
  "redshow_cubin_register no_files init_value_config 3 1 2 [0x20, 0x10] ''c/m'' [] = Inr (REDSHOW_SUCCESS, one_cubin)
   \<and> redshow_cubin_unregister 3 1 one_cubin = (REDSHOW_SUCCESS, [])"
  using cubin_register_unregister [OF cubins_ok_Nil register_one_cubin] register_one_cubin by simp

text \<open>The instruction graphs of the registry have the kinds that the parser gives.\<close>

definition cubins_kinds :: "cubin_map \<Rightarrow> bool" where
  "cubins_kinds cm = (\<forall>ic \<in> set cm. graph_kinds_wf (cub_graph (snd ic)))"

lemma cubins_kinds_Nil: "cubins_kinds []"
  by (simp add: cubins_kinds_def)

lemma cubins_kinds_set: "cubins_kinds cm \<Longrightarrow> graph_kinds_wf (cub_graph c) \<Longrightarrow> cubins_kinds (map_set (<) cm i c)"
  using u32_order.map_set_all [of cm "\<lambda>ic. graph_kinds_wf (cub_graph (snd ic))" i c] by (simp add: cubins_kinds_def)

lemma cubins_kinds_at: "cubins_kinds cm \<Longrightarrow> map_at (<) cm i = Some c \<Longrightarrow> graph_kinds_wf (cub_graph c)"
  by (force simp: cubins_kinds_def dest!: map_at_Some_mem)

lemma find_module_kinds: "cubins_kinds cm \<Longrightarrow> find_module i m cm = Some (v, g) \<Longrightarrow> graph_kinds_wf g"
  by (auto simp: find_module_def cubins_kinds_at split: option.splits)

lemma register_kinds:
  assumes "cubins_kinds cm" "redshow_cubin_register cf cfg i m n pcs path cm = Inr (r, cm')"
  shows "cubins_kinds cm'"
proof -
  consider "cm' = cm" | v g where "(r, cm') = cubin_insert i m path g v cm" "graph_kinds_wf g"
    using register_cases [OF assms(2)] analyze_cubin_kinds by metis
  then show ?thesis
    using assms(1) cubins_kinds_at [OF assms(1)]
    by cases (auto simp: cubin_insert_def intro!: cubins_kinds_set split: option.splits if_splits)
qed

lemma unregister_kinds: "cubins_kinds cm \<Longrightarrow> cubins_kinds (snd (redshow_cubin_unregister i m cm))"
  using set_map_erase [of "(<)" cm i]
  by (auto simp: redshow_cubin_unregister_def Let_def cubins_kinds_at intro!: cubins_kinds_set split: option.split)
    (auto simp: cubins_kinds_def)

lemma fetch_cubin_kinds:
  assumes "cubins_kinds cm" "fetch_cubin cf cfg i m ccm cm = Inr (r, vg, cm')"
  shows "cubins_kinds cm'"
  using assms register_kinds [OF assms(1)]
  by (auto simp: fetch_cubin_def fbind_eq_Inr split: option.splits if_splits)

text \<open>The symbols a trace is analysed with are sorted, whether they were registered or come from the cache.\<close>

lemma fetch_cubin_sorted:
  assumes "cubins_ok cm" "fetch_cubin cf cfg i m ccm cm = Inr (r, vg, cm')"
  shows "cubins_ok cm'" "vg = Some (v, g) \<Longrightarrow> symbols_sorted v" "r = REDSHOW_SUCCESS \<longleftrightarrow> vg \<noteq> None"
proof -
  have reg: "cubins_ok cm''" if "redshow_cubin_register cf cfg i m n pcs path cm = Inr (r', cm'')" for n pcs path r' cm''
    using register_cases [OF that] cubin_insert_ok(1) [OF assms(1)] assms(1) by (metis snd_conv)
  have "cubins_ok cm' \<and> (vg \<noteq> None \<longrightarrow> find_module i m cm' = vg) \<and> (r = REDSHOW_SUCCESS \<longleftrightarrow> vg \<noteq> None)"
    using assms reg by (auto simp: fetch_cubin_def fbind_eq_Inr split: option.splits if_splits) metis+
  then show "cubins_ok cm'" "vg = Some (v, g) \<Longrightarrow> symbols_sorted v" "r = REDSHOW_SUCCESS \<longleftrightarrow> vg \<noteq> None"
    using find_module_sorted by auto
qed

end
