(* ===== verification/Trace.thy ===== *)
theory Trace
  imports Memory_Snapshot Cubins
begin

section \<open>From GPU traces to analysis callbacks\<close>

text \<open>
  \<^verbatim>\<open>trace_analyze\<close> of \<^verbatim>\<open>redshow.cpp\<close> and its three variants turn a buffer that the patched kernel filled
  into calls of the enabled analyses: complete records with values (\<^verbatim>\<open>trace_analyze_default\<close>), addresses
  only (\<^verbatim>\<open>trace_analyze_address_patch\<close>), and address regions that the GPU merged
  (\<^verbatim>\<open>trace_analyze_address_analysis\<close>). Every access is attributed to a memory object of the snapshot that was
  current when the kernel was launched. The analyses enter as one function \<open>call\<close>, from a callback
  and the state of the analyses to the new state, so that every result here holds for whatever they do; the
  theory \<open>Redshow\<close> instantiates it with the map of enabled analyses. For complete records the theory lists the callbacks
  record by record (\<open>record_calls\<close>) and names the record that stops the loop (\<open>record_stop\<close>).
\<close>

subsection \<open>Buffers and callbacks\<close>

definition GPU_PATCH_WARP_SIZE :: nat where "GPU_PATCH_WARP_SIZE = 32"

record gpu_patch_record =
  gr_pc :: u64
  gr_size :: u32
  gr_active :: u32
  gr_flat_thread_id :: u32
  gr_flat_block_id :: u32
  gr_flags :: u32
  gr_address :: "u64 list"
  gr_value :: "u8 list list"

record gpu_patch_record_address =
  ga_pc :: u64
  ga_flags :: u32
  ga_active :: u32
  ga_size :: u32
  ga_address :: "u64 list"

record gpu_patch_analysis_address =
  aa_start :: u64
  aa_end :: u64

text \<open>The array behind \<^verbatim>\<open>records\<close>, by the type of the buffer; \<^verbatim>\<open>head_index\<close> of its entries are valid.\<close>

datatype gpu_records =
    DefaultRecords "gpu_patch_record list"
  | AddressRecords "gpu_patch_record_address list"
  | AnalysisRecords "gpu_patch_analysis_address list"

record gpu_patch_buffer =
  gb_head_index :: u32
  gb_flags :: u32
  gb_records :: gpu_records

definition gb_type :: "gpu_patch_buffer \<Rightarrow> gpu_patch_type" where
  "gb_type b =
     (case gb_records b of
        DefaultRecords _ \<Rightarrow> GPU_PATCH_TYPE_DEFAULT
      | AddressRecords _ \<Rightarrow> GPU_PATCH_TYPE_ADDRESS_PATCH
      | AnalysisRecords _ \<Rightarrow> GPU_PATCH_TYPE_ADDRESS_ANALYSIS)"

definition head_records :: "u32 \<Rightarrow> 'a list \<Rightarrow> 'a list outcome" where
  "head_records n rs = (if unat n \<le> length rs then Inr (take (unat n) rs) else Inl OutOfRange)"

record unit_args =
  ua_kernel_id :: i32
  ua_host_op_id :: u64
  ua_thread :: thread_id
  ua_kind :: access_kind
  ua_memory :: memory
  ua_pc :: u64
  ua_value :: u64
  ua_addr :: u64
  ua_index :: u32
  ua_flags :: u32

datatype analysis_call =
    AnalysisBegin u32 i32 u64 u32 u32 u32 gpu_patch_type
  | UnitAccess unit_args
  | BlockExit thread_id
  | AnalysisEnd u32 i32

type_synonym 's dispatch = "analysis_call \<Rightarrow> 's \<Rightarrow> 's outcome"

text \<open>The lanes of a warp that are set in the mask, in ascending order.\<close>

definition active_lanes :: "u32 \<Rightarrow> nat list" where
  "active_lanes active = filter (\<lambda>j. active AND push_bit j 1 \<noteq> 0) [0..<GPU_PATCH_WARP_SIZE]"

text \<open>An element of an array of the record.\<close>

definition array_at :: "'a list \<Rightarrow> nat \<Rightarrow> 'a outcome" where
  "array_at xs j = (if j < length xs then Inr (xs ! j) else Inl OutOfRange)"

definition lane_thread :: "gpu_patch_record \<Rightarrow> nat \<Rightarrow> thread_id" where
  "lane_thread r j =
     \<lparr>flat_block_id = gr_flat_block_id r, flat_thread_id = gr_flat_thread_id r div 32 * 32 + of_nat j\<rparr>"

definition no_thread :: thread_id where
  "no_thread = \<lparr>flat_block_id = 0, flat_thread_id = 0\<rparr>"

subsection \<open>Finding the memory object\<close>

text \<open>
  \<^verbatim>\<open>memory_map->prev\<close>: \<^const>\<open>None\<close> when no object starts at or before the address; otherwise the object, and
  whether the access lies inside it.
\<close>

definition find_object :: "memory_map \<Rightarrow> u64 \<Rightarrow> u32 \<Rightarrow> (memory \<times> bool) option" where
  "find_object mm addr len =
     (case map_prev range_lt mm (MemoryRange addr (addr + ucast len)) of
        None \<Rightarrow> None
      | Some (_, m) \<Rightarrow>
          Some (m, mr_start (mem_range m) \<le> addr \<and> addr + ucast len \<le> mr_end (mem_range m)))"

subsection \<open>Complete records\<close>

definition default_kind :: "value_config \<Rightarrow> gpu_patch_record \<Rightarrow> access_kind \<Rightarrow> access_kind" where
  "default_kind cfg r k =
     (if data_type k = REDSHOW_DATA_UNKNOWN then
        let k1 = k\<lparr>data_type := default_data_type cfg\<rparr>
        in if vec_size k1 = 0 then k1\<lparr>vec_size := gr_size r * 8, unit_size := min 32 (gr_size r * 8)\<rparr> else k1
      else k)"

definition record_kind ::
  "value_config \<Rightarrow> instruction_graph \<Rightarrow> real_pc \<Rightarrow> gpu_patch_record \<Rightarrow> access_kind outcome" where
  "record_kind cfg g rpc r =
     fbind (if graph_size g \<noteq> 0 then
              fbind (node_at (<) g (rpc_cubin_offset rpc)) (\<lambda>n.
                Inr (case inst_access_kind n of None \<Rightarrow> unknown_kind | Some k \<Rightarrow> k))
            else Inr unknown_kind) (\<lambda>k.
       Inr (default_kind cfg r k))"

text \<open>The object of a lane: an object of the map, or local or shared memory; \<^const>\<open>None\<close> skips the lane.\<close>

definition lane_memory :: "memory_map \<Rightarrow> gpu_patch_record \<Rightarrow> u64 \<Rightarrow> memory option" where
  "lane_memory mm r addr =
     (let oc = (case map_prev range_lt mm (MemoryRange addr addr) of
                  None \<Rightarrow> Some (0, 0, 0, 0)
                | Some (_, m) \<Rightarrow>
                    if mr_start (mem_range m) \<le> addr \<and> addr + ucast (gr_size r) \<le> mr_end (mem_range m)
                    then Some (op_id m, ctx_id m, mr_start (mem_range m), mem_len m)
                    else None)
      in case oc of
          None \<Rightarrow> None
        | Some (oid, ctx, start, len) \<Rightarrow>
            if oid \<noteq> 0 then Some (Memory_access oid ctx start len)
            else if has_flag (gr_flags r) GPU_PATCH_LOCAL then
              Some (Memory_access REDSHOW_MEMORY_LOCAL LOCAL_MEMORY_CTX_ID start len)
            else if has_flag (gr_flags r) GPU_PATCH_SHARED then
              Some (Memory_access REDSHOW_MEMORY_SHARED SHARED_MEMORY_CTX_ID start len)
            else None)"

text \<open>\<^verbatim>\<open>memcpy(&value, &record->value[j][m * byte_size], byte_size)\<close> on a little-endian machine.\<close>

fun bytes_value :: "u8 list \<Rightarrow> u64" where
  "bytes_value [] = 0"
| "bytes_value (b # bs) = ucast b + 256 * bytes_value bs"

definition unit_value :: "u8 list \<Rightarrow> nat \<Rightarrow> nat \<Rightarrow> u64 outcome" where
  "unit_value row m byte_size =
     (if m * byte_size + byte_size \<le> length row \<and> byte_size \<le> 8
      then Inr (bytes_value (take byte_size (drop (m * byte_size) row)))
      else Inl OutOfRange)"

definition unit_call ::
  "'s dispatch \<Rightarrow> value_config \<Rightarrow> i32 \<Rightarrow> u64 \<Rightarrow> gpu_patch_record \<Rightarrow> access_kind \<Rightarrow> memory \<Rightarrow> nat \<Rightarrow> u64 \<Rightarrow> u8 list \<Rightarrow>
   nat \<Rightarrow> 's \<Rightarrow> 's outcome" where
  "unit_call call cfg kernel_id host_op_id r k mem j addr row m s =
     fbind (unit_value row m (unat (drop_bit 3 (unit_size k)))) (\<lambda>v.
       call (UnitAccess
         \<lparr>ua_kernel_id = kernel_id, ua_host_op_id = host_op_id, ua_thread = lane_thread r j, ua_kind = k,
          ua_memory = mem, ua_pc = gr_pc r,
          ua_value = value_to_basic_type k v (decimal_degree_f32 cfg) (decimal_degree_f64 cfg),
          ua_addr = addr, ua_index = of_nat m, ua_flags = gr_flags r\<rparr>) s)"

definition lane_calls ::
  "'s dispatch \<Rightarrow> value_config \<Rightarrow> i32 \<Rightarrow> u64 \<Rightarrow> memory_map \<Rightarrow> gpu_patch_record \<Rightarrow> access_kind \<Rightarrow> nat \<Rightarrow> 's \<Rightarrow> 's outcome" where
  "lane_calls call cfg kernel_id host_op_id mm r k j s =
     fbind (array_at (gr_address r) j) (\<lambda>addr.
       case lane_memory mm r addr of
         None \<Rightarrow> Inr s
       | Some mem \<Rightarrow>
           if unit_size k = 0 then Inl DivideByZero
           else fbind (array_at (gr_value r) j) (\<lambda>row.
             ffold (unit_call call cfg kernel_id host_op_id r (k\<lparr>vec_size := unit_size k\<rparr>) mem j addr row)
               [0..<unat (vec_size k div unit_size k)] s))"

text \<open>One record: a result other than success ends the loop.\<close>

definition default_record ::
  "'s dispatch \<Rightarrow> value_config \<Rightarrow> i32 \<Rightarrow> u64 \<Rightarrow> instruction_graph \<Rightarrow> symbol_vector \<Rightarrow> memory_map \<Rightarrow>
   gpu_patch_record \<Rightarrow> 's \<Rightarrow> (redshow_result \<times> 's) outcome" where
  "default_record call cfg kernel_id host_op_id g symbols mm r s =
     (if gr_size r = 0 \<or> has_flag (gr_flags r) GPU_PATCH_BLOCK_ENTER_FLAG then Inr (REDSHOW_SUCCESS, s)
      else if has_flag (gr_flags r) GPU_PATCH_BLOCK_EXIT_FLAG then
        fbind (ffold (\<lambda>j. call (BlockExit (lane_thread r j))) (active_lanes (gr_active r)) s) (\<lambda>s'.
          Inr (REDSHOW_SUCCESS, s'))
      else case transform_pc symbols (gr_pc r) of
          None \<Rightarrow> Inr (REDSHOW_ERROR_FAILED_ANALYZE_CUBIN, s)
        | Some rpc \<Rightarrow>
            fbind (record_kind cfg g rpc r) (\<lambda>k.
            fbind (ffold (lane_calls call cfg kernel_id host_op_id mm r k) (active_lanes (gr_active r)) s) (\<lambda>s'.
              Inr (REDSHOW_SUCCESS, s'))))"

text \<open>A loop over records that stops at the first error result.\<close>

fun record_loop :: "('r \<Rightarrow> 's \<Rightarrow> (redshow_result \<times> 's) outcome) \<Rightarrow> 'r list \<Rightarrow> 's \<Rightarrow> (redshow_result \<times> 's) outcome" where
  "record_loop f [] s = Inr (REDSHOW_SUCCESS, s)"
| "record_loop f (r # rs) s =
     fbind (f r s) (\<lambda>(result, s'). if result \<noteq> REDSHOW_SUCCESS then Inr (result, s') else record_loop f rs s')"

definition trace_analyze_default ::
  "'s dispatch \<Rightarrow> value_config \<Rightarrow> i32 \<Rightarrow> u64 \<Rightarrow> instruction_graph \<Rightarrow> symbol_vector \<Rightarrow> memory_map \<Rightarrow> u32 \<Rightarrow>
   gpu_patch_record list \<Rightarrow> 's \<Rightarrow> (redshow_result \<times> 's) outcome" where
  "trace_analyze_default call cfg kernel_id host_op_id g symbols mm n rs s =
     fbind (head_records n rs) (\<lambda>rs'.
       record_loop (default_record call cfg kernel_id host_op_id g symbols mm) rs' s)"

subsection \<open>Addresses only\<close>

definition address_call ::
  "'s dispatch \<Rightarrow> i32 \<Rightarrow> u64 \<Rightarrow> access_kind \<Rightarrow> u32 \<Rightarrow> u64 \<Rightarrow> memory \<Rightarrow> 's \<Rightarrow> 's outcome" where
  "address_call call kernel_id host_op_id k flags pc mem =
     call (UnitAccess
       \<lparr>ua_kernel_id = kernel_id, ua_host_op_id = host_op_id, ua_thread = no_thread, ua_kind = k,
        ua_memory = mem, ua_pc = pc, ua_value = 0, ua_addr = 0, ua_index = 0, ua_flags = flags\<rparr>)"

definition address_lane ::
  "'s dispatch \<Rightarrow> i32 \<Rightarrow> u64 \<Rightarrow> symbol_vector \<Rightarrow> memory_map \<Rightarrow> gpu_patch_record_address \<Rightarrow> nat \<Rightarrow> 's \<Rightarrow>
   (redshow_result \<times> 's) outcome" where
  "address_lane call kernel_id host_op_id symbols mm r j s =
     fbind (array_at (ga_address r) j) (\<lambda>addr.
       case find_object mm addr (ga_size r) of
         None \<Rightarrow> Inr (REDSHOW_SUCCESS, s)
       | Some (m, inside) \<Rightarrow>
           if \<not> inside \<or> op_id m = 0 then Inr (REDSHOW_SUCCESS, s)
           else case transform_pc symbols (ga_pc r) of
               None \<Rightarrow> Inr (REDSHOW_ERROR_FAILED_ANALYZE_CUBIN, s)
             | Some rpc \<Rightarrow>
                 fbind (address_call call kernel_id host_op_id (unknown_kind\<lparr>unit_size := ga_size r\<rparr>) (ga_flags r)
                          (rpc_pc_offset rpc) (Memory_access (op_id m) (ctx_id m) addr (ucast (ga_size r))) s) (\<lambda>s'.
                   Inr (REDSHOW_SUCCESS, s')))"

definition trace_analyze_address_patch ::
  "'s dispatch \<Rightarrow> i32 \<Rightarrow> u64 \<Rightarrow> symbol_vector \<Rightarrow> memory_map \<Rightarrow> u32 \<Rightarrow> gpu_patch_record_address list \<Rightarrow> 's \<Rightarrow>
   (redshow_result \<times> 's) outcome" where
  "trace_analyze_address_patch call kernel_id host_op_id symbols mm n rs s =
     fbind (head_records n rs) (\<lambda>rs'.
       record_loop (\<lambda>r. record_loop (address_lane call kernel_id host_op_id symbols mm r) (active_lanes (ga_active r))) rs' s)"

subsection \<open>Merged regions\<close>

text \<open>The object that holds the first byte of the rest of the region.\<close>

definition region_object :: "memory_map \<Rightarrow> u64 \<Rightarrow> (memory_range \<times> memory) option" where
  "region_object mm addr =
     (case map_prev range_lt mm (MemoryRange addr addr) of
        None \<Rightarrow> None
      | Some (r, m) \<Rightarrow> if mr_start r \<le> addr \<and> mr_end r > addr \<and> op_id m \<noteq> 0 then Some (r, m) else None)"

text \<open>
  The \<^verbatim>\<open>while\<close> loop that cuts a region at the ends of the objects; every turn moves the start of the rest up to
  the end of an object that lies above it.
\<close>

function region_loop ::
  "'s dispatch \<Rightarrow> i32 \<Rightarrow> u64 \<Rightarrow> memory_map \<Rightarrow> u32 \<Rightarrow> u64 \<Rightarrow> u64 \<Rightarrow> u64 \<Rightarrow> 's \<Rightarrow> 's outcome" where
  "region_loop call kernel_id host_op_id mm flags region_end addr_start addr_end s =
     (if \<not> addr_end < region_end then Inr s
      else case region_object mm addr_start of
          None \<Rightarrow> Inr s
        | Some (r, m) \<Rightarrow>
            let e = min region_end (mr_end r)
            in fbind (address_call call kernel_id host_op_id unknown_kind flags 0
                        (Memory_access (op_id m) (ctx_id m) addr_start (e - addr_start)) s)
                 (region_loop call kernel_id host_op_id mm flags region_end (mr_end r) e))"
  by pat_completeness auto

termination region_loop
proof (relation "measure (\<lambda>(call, kid, hid, mm, flags, re, a, e, s). 2 ^ 64 - unat a)", goal_cases)
  case 1
  show ?case by simp
next
  case (2 call kid hid mm flags re a e s rm r m x xa)
  then have "a < mr_end r" by (auto simp: region_object_def split: option.splits if_splits)
  then have "unat a < unat (mr_end r)" by (simp add: word_less_nat_alt)
  moreover have "unat (mr_end r) < 2 ^ 64" using unsigned_less [of "mr_end r"] by simp
  ultimately show ?case by simp
qed

definition trace_analyze_address_analysis ::
  "'s dispatch \<Rightarrow> i32 \<Rightarrow> u64 \<Rightarrow> memory_map \<Rightarrow> u32 \<Rightarrow> u32 \<Rightarrow> gpu_patch_analysis_address list \<Rightarrow> 's \<Rightarrow>
   (redshow_result \<times> 's) outcome" where
  "trace_analyze_address_analysis call kernel_id host_op_id mm flags n rs s =
     fbind (head_records n rs) (\<lambda>rs'.
     fbind (ffold (\<lambda>r. region_loop call kernel_id host_op_id mm flags (aa_end r) (aa_start r) (aa_start r)) rs' s) (\<lambda>s'.
       Inr (REDSHOW_SUCCESS, s')))"

subsection \<open>A whole trace\<close>

definition trace_records ::
  "'s dispatch \<Rightarrow> value_config \<Rightarrow> i32 \<Rightarrow> u64 \<Rightarrow> instruction_graph \<Rightarrow> symbol_vector \<Rightarrow> memory_map \<Rightarrow> gpu_patch_buffer \<Rightarrow>
   's \<Rightarrow> (redshow_result \<times> 's) outcome" where
  "trace_records call cfg kernel_id host_op_id g symbols mm b s =
     (case gb_records b of
        DefaultRecords rs \<Rightarrow> trace_analyze_default call cfg kernel_id host_op_id g symbols mm (gb_head_index b) rs s
      | AddressRecords rs \<Rightarrow> trace_analyze_address_patch call kernel_id host_op_id symbols mm (gb_head_index b) rs s
      | AnalysisRecords rs \<Rightarrow>
          trace_analyze_address_analysis call kernel_id host_op_id mm (gb_flags b) (gb_head_index b) rs s)"

definition trace_analyze ::
  "'t cubin_files \<Rightarrow> 's dispatch \<Rightarrow> value_config \<Rightarrow> u32 \<Rightarrow> u32 \<Rightarrow> u32 \<Rightarrow> i32 \<Rightarrow> u64 \<Rightarrow> u32 \<Rightarrow> gpu_patch_buffer \<Rightarrow>
   cubin_cache_map \<Rightarrow> snapshots \<Rightarrow> cubin_map \<times> 's \<Rightarrow> (redshow_result \<times> cubin_map \<times> 's) outcome" where
  "trace_analyze cf call cfg cpu_thread cubin_id mod_id kernel_id host_op_id stream_id b ccm snap cs =
     fbind (fetch_cubin cf cfg cubin_id mod_id ccm (fst cs)) (\<lambda>(result, vg, cm).
       case vg of
         None \<Rightarrow> Inr (result, cm, snd cs)
       | Some (symbols, g) \<Rightarrow>
           (case map_prev (<) snap host_op_id of
              None \<Rightarrow> Inr (REDSHOW_ERROR_NOT_EXIST_ENTRY, cm, snd cs)
            | Some (_, mm) \<Rightarrow>
                fbind (call (AnalysisBegin cpu_thread kernel_id host_op_id stream_id cubin_id mod_id (gb_type b)) (snd cs)) (\<lambda>s1.
                fbind (trace_records call cfg kernel_id host_op_id g symbols mm b s1) (\<lambda>(result', s2).
                fbind (call (AnalysisEnd cpu_thread kernel_id) s2) (\<lambda>s3.
                Inr (result', cm, s3))))))"

declare region_loop.simps [simp del]

subsection \<open>Cutting a region at the objects\<close>

text \<open>The callbacks in the order they are made.\<close>

definition log_call :: "analysis_call list dispatch" where
  "log_call c cs = Inr (cs @ [c])"

text \<open>Ranges that start at an address, follow each other without a gap, and end at another address.\<close>

fun contiguous :: "u64 \<Rightarrow> memory_range list \<Rightarrow> u64 \<Rightarrow> bool" where
  "contiguous a [] e = (a = e)"
| "contiguous a (p # ps) e = (mr_start p = a \<and> a < mr_end p \<and> contiguous (mr_end p) ps e)"

definition region_call :: "i32 \<Rightarrow> u64 \<Rightarrow> u32 \<Rightarrow> memory \<Rightarrow> analysis_call" where
  "region_call kernel_id host_op_id flags mem =
     UnitAccess
       \<lparr>ua_kernel_id = kernel_id, ua_host_op_id = host_op_id, ua_thread = no_thread, ua_kind = unknown_kind,
        ua_memory = mem, ua_pc = 0, ua_value = 0, ua_addr = 0, ua_index = 0, ua_flags = flags\<rparr>"

text \<open>A piece of an object of the map.\<close>

definition piece_of :: "memory_map \<Rightarrow> memory \<Rightarrow> bool" where
  "piece_of mm p =
     (\<exists>(r, m) \<in> set mm. op_id p = op_id m \<and> ctx_id p = ctx_id m
        \<and> mr_start r \<le> mr_start (mem_range p) \<and> mr_end (mem_range p) \<le> mr_end r)"

lemma region_object_Some:
  "region_object mm a = Some (r, m) \<Longrightarrow> (r, m) \<in> set mm \<and> mr_start r \<le> a \<and> a < mr_end r \<and> op_id m \<noteq> 0"
  by (auto simp: region_object_def split: option.splits if_splits dest: map_prev_Some_mem)

lemma region_loop_pieces_gen:
  assumes "call = log_call" "e < re \<longrightarrow> a = e" "e \<le> re"
  shows "\<exists>ps z. region_loop call kid hid mm flags re a e cs = Inr (cs @ map (region_call kid hid flags) ps)
    \<and> contiguous e (map mem_range ps) z \<and> z \<le> re \<and> (z = re \<or> region_object mm z = None) \<and> (\<forall>p \<in> set ps. piece_of mm p)"
  using assms
proof (induction call kid hid mm flags re a e cs rule: region_loop.induct)
  case (1 call kid hid mm flags re a e cs)
  show ?case
  proof (cases "e < re \<and> region_object mm a \<noteq> None")
    case False
    then have "region_loop call kid hid mm flags re a e cs = Inr (cs @ map (region_call kid hid flags) [])"
      by (subst region_loop.simps) (auto split: option.splits)
    moreover have "e = re \<or> region_object mm e = None" using False "1.prems" by auto
    ultimately show ?thesis using "1.prems"(3) by (intro exI [of _ "[]"] exI [of _ e]) simp
  next
    case True
    then obtain r m where o: "region_object mm a = Some (r, m)" by auto
    let ?z = "min re (mr_end r)" and ?p = "Memory_access (op_id m) (ctx_id m) a (min re (mr_end r) - a)"
    have a: "a = e" "a < re" using True "1.prems"(2) by auto
    have r: "(r, m) \<in> set mm" "mr_start r \<le> a" "a < mr_end r" using region_object_Some [OF o] by auto
    have p: "mem_range ?p = MemoryRange a ?z" by (simp add: Memory_access_def)
    have step: "region_loop call kid hid mm flags re a e cs =
        region_loop call kid hid mm flags re (mr_end r) ?z (cs @ [region_call kid hid flags ?p])"
      using True o "1.prems"(1)
      by (subst region_loop.simps) (simp add: address_call_def log_call_def region_call_def Let_def)
    have "\<exists>ps z. region_loop call kid hid mm flags re (mr_end r) ?z (cs @ [region_call kid hid flags ?p]) =
          Inr ((cs @ [region_call kid hid flags ?p]) @ map (region_call kid hid flags) ps)
        \<and> contiguous ?z (map mem_range ps) z \<and> z \<le> re \<and> (z = re \<or> region_object mm z = None) \<and> (\<forall>p \<in> set ps. piece_of mm p)"
      using True o "1.prems"(1) by (intro "1.IH") (auto simp: min_def split: if_splits)
    then obtain ps z where ih: "region_loop call kid hid mm flags re a e cs =
          Inr (cs @ map (region_call kid hid flags) (?p # ps))"
        "contiguous ?z (map mem_range ps) z" "z \<le> re" "z = re \<or> region_object mm z = None" "\<forall>p \<in> set ps. piece_of mm p"
      unfolding step by auto
    have "contiguous e (map mem_range (?p # ps)) z" using a r ih(2) p by simp
    moreover have "\<forall>q \<in> set (?p # ps). piece_of mm q"
      using ih(5) r p by (auto simp: piece_of_def Memory_access_def intro!: bexI [of _ "(r, m)"])
    ultimately show ?thesis using ih(1,3,4) by blast
  qed
qed

text \<open>
  C12. The loop over a merged region ends; its callbacks report contiguous pieces that start where the region starts,
  each inside one memory object of the map, and together they reach the end of the region or the first address that
  no known object holds.
\<close>

theorem region_loop_pieces:
  assumes "a \<le> region_end"
  shows "\<exists>ps z. region_loop log_call kernel_id host_op_id mm flags region_end a a [] =
      Inr (map (region_call kernel_id host_op_id flags) ps)
    \<and> contiguous a (map mem_range ps) z \<and> z \<le> region_end \<and> (z = region_end \<or> region_object mm z = None)
    \<and> (\<forall>p \<in> set ps. piece_of mm p)"
  using region_loop_pieces_gen [of log_call a region_end a kernel_id host_op_id mm flags "[]"] assms by simp

definition two_objects :: memory_map where
  "two_objects =
     [(MemoryRange 0x100 0x200, Memory_object 0 11 1 (MemoryRange 0x100 0x200) 0 0),
      (MemoryRange 0x200 0x280, Memory_object 0 12 2 (MemoryRange 0x200 0x280) 0 0)]"

theorem region_loop_pieces_witness:
  "region_loop log_call 5 9 two_objects 1 0x300 0x180 0x180 [] =
     Inr (map (region_call 5 9 1) [Memory_access 11 1 0x180 0x80, Memory_access 12 2 0x200 0x80])
   \<and> (\<exists>ps z. contiguous 0x180 (map mem_range ps) z \<and> z \<le> 0x300
        \<and> region_loop log_call 5 9 two_objects 1 0x300 0x180 0x180 [] = Inr (map (region_call 5 9 1) ps))"
proof -
  have "region_loop log_call 5 9 two_objects 1 0x300 0x180 0x180 [] =
     Inr (map (region_call 5 9 1) [Memory_access 11 1 0x180 0x80, Memory_access 12 2 0x200 0x80])"
    by code_simp
  moreover have "(0x180 :: u64) \<le> 0x300" by simp
  ultimately show ?thesis using region_loop_pieces [of "0x180" "0x300" 5 9 two_objects 1] by blast
qed


subsection \<open>Complete records are processed without a fault\<close>

definition record_ok :: "gpu_patch_record \<Rightarrow> bool" where
  "record_ok r =
     (gr_size r \<le> 16 \<and> length (gr_address r) = GPU_PATCH_WARP_SIZE \<and> length (gr_value r) = GPU_PATCH_WARP_SIZE
      \<and> (\<forall>row \<in> set (gr_value r). length row = 16))"

text \<open>
  Where the loop stops: at an access whose program counter lies below every symbol, with an error result; at one whose
  instruction the graph of the module does not have, with the exception of \<^verbatim>\<open>at()\<close>.
\<close>

definition record_stop :: "instruction_graph \<Rightarrow> symbol_vector \<Rightarrow> gpu_patch_record \<Rightarrow> redshow_result outcome option" where
  "record_stop g symbols r =
     (if gr_size r = 0 \<or> has_flag (gr_flags r) GPU_PATCH_BLOCK_ENTER_FLAG \<or> has_flag (gr_flags r) GPU_PATCH_BLOCK_EXIT_FLAG
      then None
      else case transform_pc symbols (gr_pc r) of
          None \<Rightarrow> Some (Inr REDSHOW_ERROR_FAILED_ANALYZE_CUBIN)
        | Some rpc \<Rightarrow>
            if graph_size g \<noteq> 0 \<and> \<not> map_has (<) (g_nodes g) (rpc_cubin_offset rpc) then Some (Inl OutOfRange) else None)"

definition first_stop :: "instruction_graph \<Rightarrow> symbol_vector \<Rightarrow> gpu_patch_record list \<Rightarrow> redshow_result outcome option" where
  "first_stop g symbols rs =
     (case dropWhile (\<lambda>r. record_stop g symbols r = None) rs of [] \<Rightarrow> None | r # _ \<Rightarrow> record_stop g symbols r)"

definition stop_result :: "redshow_result outcome option \<Rightarrow> 's \<Rightarrow> (redshow_result \<times> 's) outcome" where
  "stop_result stop s =
     (case stop of None \<Rightarrow> Inr (REDSHOW_SUCCESS, s) | Some (Inl e) \<Rightarrow> Inl e | Some (Inr result) \<Rightarrow> Inr (result, s))"

text \<open>The access kind of a record that does not stop the loop.\<close>

definition kind_of_record :: "value_config \<Rightarrow> instruction_graph \<Rightarrow> symbol_vector \<Rightarrow> gpu_patch_record \<Rightarrow> access_kind" where
  "kind_of_record cfg g symbols r =
     default_kind cfg r
       (case transform_pc symbols (gr_pc r) of
          None \<Rightarrow> unknown_kind
        | Some rpc \<Rightarrow>
            (case map_at (<) (g_nodes g) (rpc_cubin_offset rpc) of
               None \<Rightarrow> unknown_kind
             | Some n \<Rightarrow> (case inst_access_kind n of None \<Rightarrow> unknown_kind | Some k \<Rightarrow> k)))"

text \<open>The callbacks of a record: lane by lane and, within a lane, unit by unit.\<close>

definition unit_access :: "value_config \<Rightarrow> i32 \<Rightarrow> u64 \<Rightarrow> gpu_patch_record \<Rightarrow> access_kind \<Rightarrow> memory \<Rightarrow> nat \<Rightarrow> nat \<Rightarrow> unit_args" where
  "unit_access cfg kernel_id host_op_id r k mem j m =
     (let w = unat (unit_size k) div 8
      in \<lparr>ua_kernel_id = kernel_id, ua_host_op_id = host_op_id, ua_thread = lane_thread r j,
          ua_kind = k\<lparr>vec_size := unit_size k\<rparr>, ua_memory = mem, ua_pc = gr_pc r,
          ua_value = value_to_basic_type (k\<lparr>vec_size := unit_size k\<rparr>) (bytes_value (take w (drop (m * w) (gr_value r ! j))))
                       (decimal_degree_f32 cfg) (decimal_degree_f64 cfg),
          ua_addr = gr_address r ! j, ua_index = of_nat m, ua_flags = gr_flags r\<rparr>)"

definition access_calls ::
  "value_config \<Rightarrow> i32 \<Rightarrow> u64 \<Rightarrow> memory_map \<Rightarrow> gpu_patch_record \<Rightarrow> access_kind \<Rightarrow> nat \<Rightarrow> analysis_call list" where
  "access_calls cfg kernel_id host_op_id mm r k j =
     (case lane_memory mm r (gr_address r ! j) of
        None \<Rightarrow> []
      | Some mem \<Rightarrow>
          map (\<lambda>m. UnitAccess (unit_access cfg kernel_id host_op_id r k mem j m)) [0..<unat (vec_size k) div unat (unit_size k)])"

definition record_calls ::
  "value_config \<Rightarrow> i32 \<Rightarrow> u64 \<Rightarrow> instruction_graph \<Rightarrow> symbol_vector \<Rightarrow> memory_map \<Rightarrow> gpu_patch_record \<Rightarrow> analysis_call list" where
  "record_calls cfg kernel_id host_op_id g symbols mm r =
     (if gr_size r = 0 \<or> has_flag (gr_flags r) GPU_PATCH_BLOCK_ENTER_FLAG then []
      else if has_flag (gr_flags r) GPU_PATCH_BLOCK_EXIT_FLAG
      then map (\<lambda>j. BlockExit (lane_thread r j)) (active_lanes (gr_active r))
      else concat (map (access_calls cfg kernel_id host_op_id mm r (kind_of_record cfg g symbols r)) (active_lanes (gr_active r))))"

text \<open>
  What an analysis is told of an access: a lane of the warp that is active, the address the record has for it, a
  non-zero unit size, and an object of the snapshot that holds the whole access or a special memory of the GPU.
\<close>

definition access_told :: "memory_map \<Rightarrow> gpu_patch_record \<Rightarrow> unit_args \<Rightarrow> bool" where
  "access_told mm r a =
     ((\<exists>j \<in> set (active_lanes (gr_active r)). ua_addr a = gr_address r ! j \<and> ua_thread a = lane_thread r j)
      \<and> unit_size (ua_kind a) \<noteq> 0 \<and> vec_size (ua_kind a) = unit_size (ua_kind a)
      \<and> (op_id (ua_memory a) = REDSHOW_MEMORY_LOCAL \<and> has_flag (gr_flags r) GPU_PATCH_LOCAL
         \<or> op_id (ua_memory a) = REDSHOW_MEMORY_SHARED \<and> has_flag (gr_flags r) GPU_PATCH_SHARED
         \<or> (\<exists>(_, m) \<in> set mm. op_id (ua_memory a) = op_id m \<and> ctx_id (ua_memory a) = ctx_id m \<and> op_id m \<noteq> 0
              \<and> mr_start (mem_range m) \<le> ua_addr a \<and> ua_addr a + ucast (gr_size r) \<le> mr_end (mem_range m))))"

definition call_told :: "memory_map \<Rightarrow> gpu_patch_record \<Rightarrow> analysis_call \<Rightarrow> bool" where
  "call_told mm r c =
     (case c of
        UnitAccess a \<Rightarrow> access_told mm r a
      | BlockExit th \<Rightarrow> \<exists>j \<in> set (active_lanes (gr_active r)). th = lane_thread r j
      | _ \<Rightarrow> False)"

definition kind_safe :: "access_kind \<Rightarrow> bool" where
  "kind_safe k = (0 < unit_size k \<and> unat (unit_size k) \<le> 64 \<and> unat (vec_size k) \<le> 128)"

lemma kind_wf_safe: "kind_wf k \<Longrightarrow> kind_safe k"
  by (auto simp: kind_wf_def kind_safe_def unit_sizes_def vec_sizes_def)

lemma size_bits:
  assumes "(n :: u32) \<le> 16"
  shows "unat (n * 8) = unat n * 8" "unat n * 8 \<le> 128"
proof -
  have "unat n \<le> 16" using assms by (simp add: word_le_nat_alt)
  then show "unat n * 8 \<le> 128" by simp
  with unat_mult_lem [of n 8] show "unat (n * 8) = unat n * 8" by simp
qed

lemma default_kind_safe:
  assumes "k = unknown_kind \<or> kind_wf k" "gr_size r \<le> 16" "gr_size r \<noteq> 0"
  shows "kind_safe (default_kind cfg r k)"
proof (cases "kind_wf k")
  case True
  then have "vec_size k \<noteq> 0" by (auto simp: kind_wf_def vec_sizes_def)
  with kind_wf_safe [OF True] show ?thesis by (simp add: default_kind_def kind_safe_def Let_def)
next
  case False
  with assms(1) have k: "k = unknown_kind" by simp
  note b = size_bits [OF assms(2)]
  have "0 < unat (gr_size r)" using assms(3) by (simp add: unat_gt_0)
  then have "0 < unat (gr_size r * 8)" using b by simp
  then have "0 < gr_size r * 8" by (simp add: word_less_nat_alt)
  with b show ?thesis
    by (auto simp: k default_kind_def unknown_kind_def AccessKind_def kind_safe_def Let_def min_def word_le_nat_alt)
qed

lemma kind_of_record_safe:
  assumes "graph_kinds_wf g" "gr_size r \<le> 16" "gr_size r \<noteq> 0"
  shows "kind_safe (kind_of_record cfg g symbols r)"
proof -
  have "kind_wf k" if "map_at (<) (g_nodes g) i = Some n" "inst_access_kind n = Some k" for i n k
    using assms(1) that by (auto simp: graph_kinds_wf_def dest!: map_at_Some_mem)
  then show ?thesis
    unfolding kind_of_record_def by (intro default_kind_safe [OF _ assms(2,3)]) (auto split: option.split)
qed

lemma record_kind_of_record:
  assumes "transform_pc symbols (gr_pc r) = Some rpc" "graph_size g = 0 \<or> map_has (<) (g_nodes g) (rpc_cubin_offset rpc)"
  shows "record_kind cfg g rpc r = Inr (kind_of_record cfg g symbols r)"
  using assms by (auto simp: record_kind_def kind_of_record_def node_at_def map_has_at graph_size_def split: option.split)

lemma unit_value_total:
  assumes "kind_safe k" "m < unat (vec_size k) div unat (unit_size k)" "length row = 16"
  shows "unit_value row m (unat (drop_bit 3 (unit_size k))) =
    Inr (bytes_value (take (unat (unit_size k) div 8) (drop (m * (unat (unit_size k) div 8)) row)))"
proof -
  let ?u = "unat (unit_size k)" and ?v = "unat (vec_size k)"
  have b: "unat (drop_bit 3 (unit_size k)) = ?u div 8" unfolding unat_drop_bit_eq by (simp add: drop_bit_eq_div)
  have "Suc m \<le> ?v div ?u" using assms(2) by simp
  then have "Suc m * (?u div 8) * 8 \<le> ?v div ?u * (?u div 8 * 8)" by (simp only: mult.assoc mult_le_mono1)
  also have "\<dots> \<le> ?v div ?u * ?u" by (intro mult_le_mono2) simp
  also have "\<dots> \<le> ?v" by simp
  also have "\<dots> \<le> 128" using assms(1) by (simp add: kind_safe_def)
  finally have "Suc m * (?u div 8) \<le> 16" by simp
  moreover have "?u div 8 \<le> 8" using assms(1) div_le_mono [of ?u 64 8] by (simp add: kind_safe_def)
  ultimately show ?thesis using assms(3) by (simp add: unit_value_def b add.commute)
qed

text \<open>The model's loops make exactly these callbacks.\<close>

lemma ffold_map: "ffold (\<lambda>x. f (g x)) xs s = ffold f (map g xs) s"
proof (induction xs arbitrary: s)
  case (Cons x xs)
  have "ffold (\<lambda>x. f (g x)) xs = ffold f (map g xs)" using Cons by auto
  then show ?case by simp
qed simp

lemma ffold_cong: "(\<And>x s. x \<in> set xs \<Longrightarrow> f x s = g x s) \<Longrightarrow> ffold f xs s = ffold g xs s"
proof (induction xs arbitrary: s)
  case (Cons x xs)
  have "ffold f xs = ffold g xs" using Cons by auto
  with Cons.prems show ?case by simp
qed simp

lemma ffold_concat:
  assumes "\<And>x s. x \<in> set xs \<Longrightarrow> f x s = ffold g (h x) s"
  shows "ffold f xs s = ffold g (concat (map h xs)) s"
  using assms
proof (induction xs arbitrary: s)
  case (Cons x xs)
  have "ffold f xs = ffold g (concat (map h xs))" using Cons by auto
  with Cons.prems show ?case by (simp add: ffold_append)
qed simp

lemma lane_calls_list:
  assumes "kind_safe k" "record_ok r" "j < GPU_PATCH_WARP_SIZE"
  shows "lane_calls call cfg kid hid mm r k j s = ffold call (access_calls cfg kid hid mm r k j) s"
proof -
  have row: "length (gr_value r ! j) = 16" using assms(2,3) by (auto simp: record_ok_def)
  have u: "unit_size k \<noteq> 0" using assms(1) by (auto simp: kind_safe_def)
  have "ffold (unit_call call cfg kid hid r (k\<lparr>vec_size := unit_size k\<rparr>) mem j (gr_address r ! j) (gr_value r ! j))
       [0..<unat (vec_size k) div unat (unit_size k)] s
     = ffold call (map (\<lambda>m. UnitAccess (unit_access cfg kid hid r k mem j m)) [0..<unat (vec_size k) div unat (unit_size k)]) s" for mem
    unfolding ffold_map [symmetric]
    by (rule ffold_cong) (simp add: unit_call_def unit_value_total [OF assms(1) _ row] unit_access_def Let_def)
  with assms(2,3) u show ?thesis
    by (simp add: lane_calls_def access_calls_def array_at_def record_ok_def unat_div split: option.split)
qed

lemma active_lane_bound: "j \<in> set (active_lanes a) \<Longrightarrow> j < GPU_PATCH_WARP_SIZE"
  by (simp add: active_lanes_def)

lemma default_record_list:
  assumes "graph_kinds_wf g" "record_ok r"
  shows "default_record call cfg kid hid g symbols mm r s =
    (case record_stop g symbols r of
       None \<Rightarrow> fbind (ffold call (record_calls cfg kid hid g symbols mm r) s) (\<lambda>t. Inr (REDSHOW_SUCCESS, t))
     | stop \<Rightarrow> stop_result stop s)"
proof -
  let ?k = "kind_of_record cfg g symbols r"
  have lanes: "ffold (lane_calls call cfg kid hid mm r ?k) (active_lanes (gr_active r)) s
      = ffold call (concat (map (access_calls cfg kid hid mm r ?k) (active_lanes (gr_active r)))) s" if "gr_size r \<noteq> 0"
    using assms that active_lane_bound
    by (intro ffold_concat lane_calls_list kind_of_record_safe) (auto simp: record_ok_def)
  show ?thesis
  proof (cases "gr_size r = 0 \<or> has_flag (gr_flags r) GPU_PATCH_BLOCK_ENTER_FLAG \<or> has_flag (gr_flags r) GPU_PATCH_BLOCK_EXIT_FLAG")
    case True
    then show ?thesis
      using ffold_map [of call "\<lambda>j. BlockExit (lane_thread r j)"]
      by (auto simp: default_record_def record_stop_def record_calls_def)
  next
    case False
    show ?thesis
    proof (cases "transform_pc symbols (gr_pc r)")
      case None
      with False show ?thesis by (simp add: default_record_def record_stop_def stop_result_def)
    next
      case (Some rpc)
      show ?thesis
      proof (cases "graph_size g = 0 \<or> map_has (<) (g_nodes g) (rpc_cubin_offset rpc)")
        case True
        with False Some lanes record_kind_of_record [OF Some True] show ?thesis
          by (auto simp: default_record_def record_stop_def record_calls_def)
      next
        case unknown: False
        with False Some show ?thesis
          by (simp add: default_record_def record_stop_def stop_result_def record_kind_def node_at_def map_has_at split: option.split)
      qed
    qed
  qed
qed

lemma first_stop_Cons:
  "first_stop g symbols (r # rs) = (if record_stop g symbols r = None then first_stop g symbols rs else record_stop g symbols r)"
  by (simp add: first_stop_def)

lemma record_stop_not_success: "record_stop g symbols r \<noteq> Some (Inr REDSHOW_SUCCESS)"
  by (simp add: record_stop_def split: option.split)

lemma record_loop_list:
  assumes "graph_kinds_wf g" "\<forall>r \<in> set rs. record_ok r"
  shows "record_loop (default_record call cfg kid hid g symbols mm) rs s =
    fbind (ffold call (concat (map (record_calls cfg kid hid g symbols mm) (takeWhile (\<lambda>r. record_stop g symbols r = None) rs))) s)
      (stop_result (first_stop g symbols rs))"
  using assms(2)
proof (induction rs arbitrary: s)
  case Nil
  show ?case by (simp add: first_stop_def stop_result_def)
next
  case (Cons r rs)
  have r: "record_ok r" using Cons.prems by simp
  show ?case
  proof (cases "record_stop g symbols r")
    case None
    have rest: "record_loop (default_record call cfg kid hid g symbols mm) rs t =
        fbind (ffold call (concat (map (record_calls cfg kid hid g symbols mm) (takeWhile (\<lambda>r. record_stop g symbols r = None) rs))) t)
          (stop_result (first_stop g symbols rs))" for t
      using Cons by simp
    show ?thesis
      using None default_record_list [OF assms(1) r, of call cfg kid hid symbols mm s]
      by (cases "ffold call (record_calls cfg kid hid g symbols mm r) s") (simp_all add: first_stop_Cons ffold_append rest)
  next
    case (Some stop)
    with default_record_list [OF assms(1) r, of call cfg kid hid symbols mm s] record_stop_not_success [of g symbols r] show ?thesis
      by (cases stop) (simp_all add: first_stop_Cons stop_result_def)
  qed
qed

abbreviation processed :: "instruction_graph \<Rightarrow> symbol_vector \<Rightarrow> u32 \<Rightarrow> gpu_patch_record list \<Rightarrow> gpu_patch_record list" where
  "processed g symbols n rs \<equiv> takeWhile (\<lambda>r. record_stop g symbols r = None) (take (unat n) rs)"

lemma trace_analyze_default_list:
  assumes "graph_kinds_wf g" "unat n \<le> length rs" "\<forall>r \<in> set (take (unat n) rs). record_ok r"
  shows "trace_analyze_default call cfg kid hid g symbols mm n rs s =
    fbind (ffold call (concat (map (record_calls cfg kid hid g symbols mm) (processed g symbols n rs))) s)
      (stop_result (first_stop g symbols (take (unat n) rs)))"
  using record_loop_list [OF assms(1,3)] assms(2) by (simp add: trace_analyze_default_def head_records_def)

lemma lane_memory_told:
  assumes "lane_memory mm r addr = Some mem"
  shows "op_id mem = REDSHOW_MEMORY_LOCAL \<and> has_flag (gr_flags r) GPU_PATCH_LOCAL
         \<or> op_id mem = REDSHOW_MEMORY_SHARED \<and> has_flag (gr_flags r) GPU_PATCH_SHARED
         \<or> (\<exists>(_, m) \<in> set mm. op_id mem = op_id m \<and> ctx_id mem = ctx_id m \<and> op_id m \<noteq> 0
              \<and> mr_start (mem_range m) \<le> addr \<and> addr + ucast (gr_size r) \<le> mr_end (mem_range m))"
proof (cases "map_prev range_lt mm (MemoryRange addr addr)")
  case None
  with assms show ?thesis by (auto simp: lane_memory_def Memory_access_def split: if_splits)
next
  case (Some a)
  obtain rg m where a: "a = (rg, m)" by (cases a)
  with map_prev_Some_mem [of range_lt mm "MemoryRange addr addr" a] Some have "(rg, m) \<in> set mm" by simp
  with assms Some a show ?thesis
    by (auto simp: lane_memory_def Memory_access_def Let_def split: if_splits)
qed

lemma record_calls_told:
  assumes "graph_kinds_wf g" "record_ok r" "c \<in> set (record_calls cfg kid hid g symbols mm r)"
  shows "call_told mm r c"
proof -
  let ?k = "kind_of_record cfg g symbols r"
  consider (leave) j where "j \<in> set (active_lanes (gr_active r))" "c = BlockExit (lane_thread r j)"
    | (acc) j mem m where "gr_size r \<noteq> 0" "j \<in> set (active_lanes (gr_active r))" "lane_memory mm r (gr_address r ! j) = Some mem"
        "c = UnitAccess (unit_access cfg kid hid r ?k mem j m)"
    using assms(3) by (auto simp: record_calls_def access_calls_def split: if_splits option.splits dest!: sym [of "Some _"])
  then show ?thesis
  proof cases
    case leave
    then show ?thesis by (auto simp: call_told_def)
  next
    case acc
    have "kind_safe ?k" using kind_of_record_safe [OF assms(1) _ acc(1)] assms(2) by (simp add: record_ok_def)
    then have "unit_size ?k \<noteq> 0" by (auto simp: kind_safe_def)
    with acc lane_memory_told [OF acc(3)] show ?thesis
      by (auto simp: call_told_def access_told_def unit_access_def Let_def)
  qed
qed

text \<open>Accesses and block exits return in every state that satisfies an invariant, and keep it.\<close>

definition record_call_of :: "analysis_call \<Rightarrow> bool" where
  "record_call_of c = (case c of UnitAccess _ \<Rightarrow> True | BlockExit _ \<Rightarrow> True | _ \<Rightarrow> False)"

definition calls_keep :: "('s \<Rightarrow> bool) \<Rightarrow> 's dispatch \<Rightarrow> bool" where
  "calls_keep I call = (\<forall>c s. record_call_of c \<and> I s \<longrightarrow> (\<exists>t. call c s = Inr t \<and> I t))"

lemma calls_keepD:
  "calls_keep I call \<Longrightarrow> I s \<Longrightarrow> \<exists>t. call (UnitAccess a) s = Inr t \<and> I t"
  "calls_keep I call \<Longrightarrow> I s \<Longrightarrow> \<exists>t. call (BlockExit th) s = Inr t \<and> I t"
  by (simp_all add: calls_keep_def record_call_of_def)

lemma record_calls_of: "c \<in> set (record_calls cfg kid hid g symbols mm r) \<Longrightarrow> record_call_of c"
  by (auto simp: record_calls_def access_calls_def record_call_of_def split: if_splits option.splits)

lemma trace_analyze_default_total:
  assumes "calls_keep I call" "graph_kinds_wf g" "unat n \<le> length rs" "\<forall>r \<in> set (take (unat n) rs). record_ok r" "I s"
  shows "\<exists>t. trace_analyze_default call cfg kid hid g symbols mm n rs s =
      stop_result (first_stop g symbols (take (unat n) rs)) t \<and> I t"
proof -
  let ?cs = "concat (map (record_calls cfg kid hid g symbols mm) (processed g symbols n rs))"
  have "record_call_of c" if "c \<in> set ?cs" for c using that record_calls_of by fastforce
  then have "\<exists>t. ffold call ?cs s = Inr t \<and> I t"
    using assms(1) by (intro ffold_total [where P = I, OF _ assms(5)]) (auto simp: calls_keep_def)
  then show ?thesis unfolding trace_analyze_default_list [OF assms(2-4)] by auto
qed

text \<open>
  C10. Analysing complete records makes exactly the callbacks of the records up to the first one that stops the loop,
  record by record, lane by lane and unit by unit; whatever the analyses do, no fault comes from the loop itself: no
  unit size is zero, no address or value is read beyond the record, and every access that is reported lies in an object
  of the snapshot or in local or shared memory. The loop stops with an error at an access below every symbol and with
  an exception at an access of an instruction that a non-empty graph does not know. The access kinds of the graph are
  those the parser gives (\<open>graph_kinds_wf\<close>, which \<open>reachable_well_formed\<close> shows for every reachable state), the buffer
  holds the records it counts, and every record has 32 lanes of 16 bytes and accesses at most 16 bytes.
\<close>

theorem trace_analyze_default_safe:
  assumes "graph_kinds_wf g" "unat n \<le> length rs" "\<forall>r \<in> set (take (unat n) rs). record_ok r"
  shows "trace_analyze_default call cfg kernel_id host_op_id g symbols mm n rs s =
      fbind (ffold call (concat (map (record_calls cfg kernel_id host_op_id g symbols mm) (processed g symbols n rs))) s)
        (stop_result (first_stop g symbols (take (unat n) rs)))
    \<and> (\<forall>r \<in> set (processed g symbols n rs). \<forall>c \<in> set (record_calls cfg kernel_id host_op_id g symbols mm r). call_told mm r c)"
  using trace_analyze_default_list [OF assms] record_calls_told [OF assms(1)] assms(3)
  by (auto dest!: set_takeWhileD)

definition sample_record :: gpu_patch_record where
  "sample_record =
     \<lparr>gr_pc = 0x40, gr_size = 8, gr_active = 1, gr_flat_thread_id = 0, gr_flat_block_id = 0, gr_flags = GPU_PATCH_READ,
      gr_address = replicate 32 0x110, gr_value = replicate 32 (7 # replicate 15 0)\<rparr>"

text \<open>A graph that knows one instruction, at offset \<open>0x20\<close>, with accesses of two floats.\<close>

definition load_graph :: instruction_graph where
  "load_graph = empty_graph\<lparr>g_nodes := [(0x20, (Instruction ''MEMORY.LOAD.64'' 0x20 (- 1) [4] [2, 3] [] [] [] [])\<lparr>inst_access_kind := Some (AccessKind 32 64 REDSHOW_DATA_FLOAT)\<rparr>)]\<rparr>"

lemma ffold_log: "ffold log_call cs s = Inr (s @ cs)"
  by (induction cs arbitrary: s) (simp_all add: log_call_def)

theorem trace_analyze_default_safe_witness:
  "(\<exists>cs. trace_analyze_default log_call init_value_config 5 9 load_graph [Symbol 0 1 0 0x20] two_objects 1
       [sample_record, sample_record\<lparr>gr_pc := 0x50\<rparr>] [] = Inr (REDSHOW_SUCCESS, cs)
     \<and> length cs = 2 \<and> (\<forall>c \<in> set cs. call_told two_objects sample_record c))
   \<and> trace_analyze_default log_call init_value_config 5 9 load_graph [Symbol 0 1 0 0x20] two_objects 2
       [sample_record, sample_record\<lparr>gr_pc := 0x50\<rparr>] [] = Inl OutOfRange"
proof -
  let ?rs = "[sample_record, sample_record\<lparr>gr_pc := 0x50\<rparr>]" and ?y = "[Symbol 0 1 0 0x20]"
  let ?cs = "record_calls init_value_config 5 9 load_graph ?y two_objects sample_record"
  have g: "graph_kinds_wf load_graph"
    by (simp add: graph_kinds_wf_def load_graph_def kind_wf_def AccessKind_def unit_sizes_def vec_sizes_def)
  have ok: "\<forall>r \<in> set ?rs. record_ok r" by (simp add: record_ok_def sample_record_def GPU_PATCH_WARP_SIZE_def)
  have p: "record_stop load_graph ?y sample_record = None"
    "record_stop load_graph ?y (sample_record\<lparr>gr_pc := 0x50\<rparr>) = Some (Inl OutOfRange)" by code_simp+
  have two: "length ?cs = 2" by code_simp
  from trace_analyze_default_safe [OF g, of 1 ?rs log_call init_value_config 5 9 ?y two_objects "[]"] ok p
  have one: "trace_analyze_default log_call init_value_config 5 9 load_graph ?y two_objects 1 ?rs [] = Inr (REDSHOW_SUCCESS, ?cs)"
    "\<forall>c \<in> set ?cs. call_told two_objects sample_record c"
    by (simp_all add: ffold_log stop_result_def first_stop_def)
  from trace_analyze_default_safe [OF g, of 2 ?rs log_call init_value_config 5 9 ?y two_objects "[]"] ok p
  have "trace_analyze_default log_call init_value_config 5 9 load_graph ?y two_objects 2 ?rs [] = Inl OutOfRange"
    by (simp add: ffold_log stop_result_def first_stop_def)
  with one two show ?thesis by blast
qed

lemma calls_keep_log: "calls_keep (\<lambda>_. True) log_call"
  by (simp add: calls_keep_def log_call_def)

subsection \<open>What every callback keeps, a trace keeps\<close>

definition keeps :: "('s \<Rightarrow> bool) \<Rightarrow> 's dispatch \<Rightarrow> bool" where
  "keeps P call = (\<forall>c s t. P s \<and> call c s = Inr t \<longrightarrow> P t)"

lemma keepsD: "keeps P call \<Longrightarrow> P s \<Longrightarrow> call c s = Inr t \<Longrightarrow> P t"
  by (auto simp: keeps_def)

lemma ffold_keeps:
  assumes "\<And>x s t. P s \<Longrightarrow> f x s = Inr t \<Longrightarrow> P t"
  shows "P s \<Longrightarrow> ffold f xs s = Inr t \<Longrightarrow> P t"
  using ffold_invariant [of xs P f s t] assms by blast

lemma lane_calls_keeps:
  assumes "keeps P call" "P s" "lane_calls call cfg kid hid mm r k j s = Inr t"
  shows "P t"
proof -
  have unit: "P b" if "P a" "unit_call call cfg kid hid r k' mem j addr row m a = Inr b" for a b k' mem addr row m
    using that keepsD [OF assms(1)] by (auto simp: unit_call_def fbind_eq_Inr)
  have units: "P a \<Longrightarrow> ffold (unit_call call cfg kid hid r k' mem j addr row) ms a = Inr b \<Longrightarrow> P b" for a b k' mem addr row ms
    using unit by (rule ffold_keeps)
  obtain addr where addr: "array_at (gr_address r) j = Inr addr" using assms(3) by (auto simp: lane_calls_def fbind_eq_Inr)
  show ?thesis
  proof (cases "lane_memory mm r addr")
    case None
    with assms(2,3) addr show ?thesis by (simp add: lane_calls_def)
  next
    case (Some mem)
    with assms(3) addr obtain row where
      "ffold (unit_call call cfg kid hid r (k\<lparr>vec_size := unit_size k\<rparr>) mem j addr row) [0..<unat (vec_size k div unit_size k)] s = Inr t"
      by (auto simp: lane_calls_def fbind_eq_Inr split: if_splits)
    with units assms(2) show ?thesis by blast
  qed
qed

lemma default_record_keeps:
  assumes "keeps P call" "P s" "default_record call cfg kid hid g symbols mm r s = Inr (res, t)"
  shows "P t"
proof -
  have exits: "P a \<Longrightarrow> ffold (\<lambda>j. call (BlockExit (lane_thread r j))) js a = Inr b \<Longrightarrow> P b" for a b js
    using keepsD [OF assms(1)] by (rule ffold_keeps)
  have lanes: "P a \<Longrightarrow> ffold (lane_calls call cfg kid hid mm r k) js a = Inr b \<Longrightarrow> P b" for a b k js
    using lane_calls_keeps [OF assms(1)] by (rule ffold_keeps)
  consider "t = s"
    | js where "ffold (\<lambda>j. call (BlockExit (lane_thread r j))) js s = Inr t"
    | js k where "ffold (lane_calls call cfg kid hid mm r k) js s = Inr t"
    using assms(3) by (auto simp: default_record_def fbind_eq_Inr split: option.splits if_splits)
  then show ?thesis using assms(2) exits lanes by cases blast+
qed

lemma record_loop_keeps:
  assumes "\<And>r s res t. P s \<Longrightarrow> f r s = Inr (res, t) \<Longrightarrow> P t"
    and "P s" "record_loop f rs s = Inr (res, t)"
  shows "P t"
  using assms(2,3)
proof (induction rs arbitrary: s)
  case (Cons r rs)
  then show ?case using assms(1) by (fastforce simp: fbind_eq_Inr split: if_splits)
qed simp

lemma address_lane_keeps:
  assumes "keeps P call" "P s" "address_lane call kid hid symbols mm r j s = Inr (res, t)"
  shows "P t"
proof -
  obtain addr where addr: "array_at (ga_address r) j = Inr addr" using assms(3) by (auto simp: address_lane_def fbind_eq_Inr)
  show ?thesis
    using assms(2,3) addr keepsD [OF assms(1)]
    by (cases "find_object mm addr (ga_size r)"; cases "transform_pc symbols (ga_pc r)")
       (auto simp: address_lane_def address_call_def fbind_eq_Inr split: if_splits)
qed

lemma region_loop_keeps:
  assumes "keeps P call" "P s" "region_loop call kid hid mm flags re a e s = Inr t"
  shows "P t"
  using assms
proof (induction call kid hid mm flags re a e s rule: region_loop.induct)
  case (1 call kid hid mm flags re a e s)
  show ?case
  proof (cases "e < re \<and> region_object mm a \<noteq> None")
    case False
    with "1.prems" show ?thesis by (subst (asm) region_loop.simps) (auto split: option.splits if_splits)
  next
    case True
    then obtain r m where o: "region_object mm a = Some (r, m)" by auto
    let ?z = "min re (mr_end r)"
    from "1.prems"(3) True o obtain u where
      u: "address_call call kid hid unknown_kind flags 0 (Memory_access (op_id m) (ctx_id m) a (?z - a)) s = Inr u"
        "region_loop call kid hid mm flags re (mr_end r) ?z u = Inr t"
      by (subst (asm) region_loop.simps) (auto simp: Let_def fbind_eq_Inr)
    have "P u" using keepsD [OF "1.prems"(1,2)] u(1) by (auto simp: address_call_def)
    with "1.IH" [of "(r, m)" r m ?z u] True o u "1.prems"(1) show ?thesis by auto
  qed
qed

lemma trace_records_keeps:
  assumes "keeps P call" "P s" "trace_records call cfg kid hid g symbols mm b s = Inr (res, t)"
  shows "P t"
proof (cases "gb_records b")
  case (DefaultRecords rs)
  with assms(2,3) record_loop_keeps [where P = P, OF default_record_keeps [OF assms(1)]] show ?thesis
    by (auto simp: trace_records_def trace_analyze_default_def fbind_eq_Inr)
next
  case (AddressRecords rs)
  with assms(2,3) record_loop_keeps [where P = P, OF record_loop_keeps [where P = P, OF address_lane_keeps [OF assms(1)]]]
  show ?thesis by (auto simp: trace_records_def trace_analyze_address_patch_def fbind_eq_Inr)
next
  case (AnalysisRecords rs)
  with assms(2,3) ffold_keeps [where P = P, OF region_loop_keeps [OF assms(1)]] show ?thesis
    by (auto simp: trace_records_def trace_analyze_address_analysis_def fbind_eq_Inr)
qed

lemma trace_analyze_keeps:
  assumes "keeps P call" "P s" "cubins_ok cm"
    and "trace_analyze cf call cfg thr cid mid kid hid sid b ccm snap (cm, s) = Inr (res, cm', t)"
  shows "P t" "cubins_ok cm'" "cubins_kinds cm \<Longrightarrow> cubins_kinds cm'"
proof -
  obtain r vg cm1 where f: "fetch_cubin cf cfg cid mid ccm cm = Inr (r, vg, cm1)"
    using assms(4) by (auto simp: trace_analyze_def fbind_eq_Inr)
  with assms(4) have "cm' = cm1" by (auto simp: trace_analyze_def fbind_eq_Inr split: option.splits)
  with fetch_cubin_sorted(1) [OF assms(3) f] fetch_cubin_kinds [OF _ f]
  show "cubins_ok cm'" "cubins_kinds cm \<Longrightarrow> cubins_kinds cm'" by simp_all
  show "P t"
  proof (cases "vg = None \<or> map_prev (<) snap hid = None")
    case True
    with assms(2,4) f show ?thesis by (auto simp: trace_analyze_def split: option.splits)
  next
    case False
    then obtain symbols g k mm where "vg = Some (symbols, g)" "map_prev (<) snap hid = Some (k, mm)" by auto
    with assms(4) f obtain s1 s2 r2 where
      "call (AnalysisBegin thr kid hid sid cid mid (gb_type b)) s = Inr s1"
      "trace_records call cfg kid hid g symbols mm b s1 = Inr (r2, s2)" "call (AnalysisEnd thr kid) s2 = Inr t"
      by (auto simp: trace_analyze_def fbind_eq_Inr)
    with assms(2) trace_records_keeps [OF assms(1)] keepsD [OF assms(1)] show ?thesis by blast
  qed
qed

end
