(* ===== verification/Redundancy.thy ===== *)
theory Redundancy
  imports Cubins "HOL-Library.Multiset"
begin

section \<open>What the two redundancy analyses share\<close>

text \<open>
  Nested counters (\<^verbatim>\<open>PCPairs\<close>, \<^verbatim>\<open>SpatialTrace\<close>), the bounded queues of the views with the
  highest counts (\<^verbatim>\<open>TopViews\<close> of \<^verbatim>\<open>analysis/analysis.h\<close>, \<^verbatim>\<open>TopRealPCPairs\<close> of \<^verbatim>\<open>real_pc.h\<close>), the
  buffer of views handed to the profiler, and the ratios of the reports. The laws of the counters are proved
  in the locale \<open>counters\<close>, and those of the queue in the locale \<open>min_queue\<close>, which asks of a
  priority queue only what the C++ standard promises.
\<close>

subsection \<open>Nested counters\<close>

text \<open>\<^verbatim>\<open>m[a][b][c] += 1\<close> on unsigned 64-bit counters, and the count of a triple.\<close>

type_synonym ('a, 'b, 'c) counts = "('a, ('b, ('c, u64) omap) omap) omap"

definition count_inc ::
  "('a \<Rightarrow> 'a \<Rightarrow> bool) \<Rightarrow> ('b \<Rightarrow> 'b \<Rightarrow> bool) \<Rightarrow> ('c \<Rightarrow> 'c \<Rightarrow> bool) \<Rightarrow> ('a, 'b, 'c) counts \<Rightarrow> 'a \<Rightarrow> 'b \<Rightarrow> 'c \<Rightarrow>
   ('a, 'b, 'c) counts" where
  "count_inc lta ltb ltc m a b c =
     map_upd lta [] m a (\<lambda>m1. map_upd ltb [] m1 b (\<lambda>m2. map_upd ltc 0 m2 c (\<lambda>n. n + 1)))"

definition count_at ::
  "('a \<Rightarrow> 'a \<Rightarrow> bool) \<Rightarrow> ('b \<Rightarrow> 'b \<Rightarrow> bool) \<Rightarrow> ('c \<Rightarrow> 'c \<Rightarrow> bool) \<Rightarrow> ('a, 'b, 'c) counts \<Rightarrow> 'a \<Rightarrow> 'b \<Rightarrow> 'c \<Rightarrow> u64" where
  "count_at lta ltb ltc m a b c = map_touch ltc 0 (map_touch ltb [] (map_touch lta [] m a) b) c"

definition counts_ok ::
  "('a \<Rightarrow> 'a \<Rightarrow> bool) \<Rightarrow> ('b \<Rightarrow> 'b \<Rightarrow> bool) \<Rightarrow> ('c \<Rightarrow> 'c \<Rightarrow> bool) \<Rightarrow> ('a, 'b, 'c) counts \<Rightarrow> bool" where
  "counts_ok lta ltb ltc m =
     (map_ok lta m \<and> (\<forall>a. map_ok ltb (map_touch lta [] m a))
      \<and> (\<forall>a b. map_ok ltc (map_touch ltb [] (map_touch lta [] m a) b)))"

locale counters = fst_key: strict_total lta + snd_key: strict_total ltb + trd_key: strict_total ltc
  for lta :: "'a \<Rightarrow> 'a \<Rightarrow> bool" and ltb :: "'b \<Rightarrow> 'b \<Rightarrow> bool" and ltc :: "'c \<Rightarrow> 'c \<Rightarrow> bool"
begin

lemma counts_ok_Nil: "counts_ok lta ltb ltc []"
  by (simp add: counts_ok_def map_touch_def)

lemma touch_upd_fst:
  "map_ok lta m \<Longrightarrow> map_touch lta d (map_upd lta d m a f) x = (if x = a then f (map_touch lta d m a) else map_touch lta d m x)"
  by (simp add: map_touch_def fst_key.map_at_upd)

lemma touch_upd_snd:
  "map_ok ltb m \<Longrightarrow> map_touch ltb d (map_upd ltb d m a f) x = (if x = a then f (map_touch ltb d m a) else map_touch ltb d m x)"
  by (simp add: map_touch_def snd_key.map_at_upd)

lemma touch_upd_trd:
  "map_ok ltc m \<Longrightarrow> map_touch ltc d (map_upd ltc d m a f) x = (if x = a then f (map_touch ltc d m a) else map_touch ltc d m x)"
  by (simp add: map_touch_def trd_key.map_at_upd)

lemma counts_ok_inc: "counts_ok lta ltb ltc m \<Longrightarrow> counts_ok lta ltb ltc (count_inc lta ltb ltc m a b c)"
  by (simp add: counts_ok_def count_inc_def touch_upd_fst touch_upd_snd fst_key.map_ok_upd snd_key.map_ok_upd
      trd_key.map_ok_upd)

lemma count_at_inc:
  "counts_ok lta ltb ltc m \<Longrightarrow>
   count_at lta ltb ltc (count_inc lta ltb ltc m a b c) x y z =
     count_at lta ltb ltc m x y z + (if x = a \<and> y = b \<and> z = c then 1 else 0)"
  by (auto simp: counts_ok_def count_inc_def count_at_def touch_upd_fst touch_upd_snd touch_upd_trd)

end

text \<open>\<^verbatim>\<open>std::pair<u64, AccessKind>\<close>\<close>

definition value_kind_lt :: "u64 \<times> access_kind \<Rightarrow> u64 \<times> access_kind \<Rightarrow> bool" where
  "value_kind_lt p q = (fst p < fst q \<or> \<not> fst q < fst p \<and> access_kind_lt (snd p) (snd q))"

interpretation value_kind_order: strict_total value_kind_lt
proof
  fix x y z :: "u64 \<times> access_kind"
  show "\<not> value_kind_lt x x" by (simp add: value_kind_lt_def kind_order.lt_irrefl)
  show "value_kind_lt x y \<Longrightarrow> value_kind_lt y z \<Longrightarrow> value_kind_lt x z"
    by (auto simp: value_kind_lt_def intro: kind_order.lt_trans)
  show "value_kind_lt x y \<Longrightarrow> value_kind_lt x z \<or> value_kind_lt z y"
    using kind_order.lt_weak by (auto simp: value_kind_lt_def)
  show "\<not> value_kind_lt x y \<Longrightarrow> \<not> value_kind_lt y x \<Longrightarrow> x = y"
    using kind_order.lt_total by (auto simp: value_kind_lt_def prod_eq_iff)
qed

text \<open>\<^verbatim>\<open>PCPairs\<close> and \<^verbatim>\<open>SpatialTrace\<close>\<close>

interpretation pc_pairs: counters "(<) :: u64 \<Rightarrow> u64 \<Rightarrow> bool" "(<) :: u64 \<Rightarrow> u64 \<Rightarrow> bool" value_kind_lt ..

interpretation spatial_counts: counters value_kind_lt "(<) :: u64 \<Rightarrow> u64 \<Rightarrow> bool" "(<) :: u64 \<Rightarrow> u64 \<Rightarrow> bool" ..

type_synonym pc_pairs = "(u64, u64, u64 \<times> access_kind) counts"

text \<open>\<^verbatim>\<open>PCAccessCount\<close>\<close>

type_synonym pc_count = "(u64, u64) omap"

subsection \<open>The queues of the top counts\<close>

text \<open>
  \<^verbatim>\<open>std::priority_queue\<close> with a comparator that puts the lowest count on top. What the code relies on: the
  contents as a multiset, and that \<^verbatim>\<open>top()\<close> has the lowest key.
\<close>

locale min_queue =
  fixes key :: "'a \<Rightarrow> u64" and qpush :: "'a \<Rightarrow> 'q \<Rightarrow> 'q" and qtop :: "'q \<Rightarrow> 'a" and qpop :: "'q \<Rightarrow> 'q"
    and items :: "'q \<Rightarrow> 'a multiset" and qinv :: "'q \<Rightarrow> bool"
  assumes inv_push: "qinv q \<Longrightarrow> qinv (qpush x q)"
    and inv_pop: "qinv q \<Longrightarrow> items q \<noteq> {#} \<Longrightarrow> qinv (qpop q)"
    and items_push: "qinv q \<Longrightarrow> items (qpush x q) = add_mset x (items q)"
    and items_pop: "qinv q \<Longrightarrow> items q \<noteq> {#} \<Longrightarrow> items q = add_mset (qtop q) (items (qpop q))"
    and top_min: "qinv q \<Longrightarrow> x \<in># items q \<Longrightarrow> key (qtop q) \<le> key x"
begin

text \<open>One step of the selection loops of \<^verbatim>\<open>record_temporal_trace\<close> and \<^verbatim>\<open>record_spatial_trace\<close>.\<close>

definition offer :: "nat \<Rightarrow> 'a \<Rightarrow> 'q \<Rightarrow> 'q" where
  "offer limit x q =
     (if size (items q) < limit then qpush x q
      else if key (qtop q) < key x then qpush x (qpop q) else q)"

text \<open>What was seen is what is kept and what was dropped, and no dropped item has a higher key than a kept one.\<close>

definition selected :: "nat \<Rightarrow> 'a multiset \<Rightarrow> 'q \<Rightarrow> bool" where
  "selected limit seen q =
     (qinv q \<and> (\<exists>dropped. seen = items q + dropped
        \<and> size (items q) = min limit (size seen)
        \<and> (\<forall>x \<in># items q. \<forall>y \<in># dropped. key y \<le> key x)))"

lemma selected_offer:
  assumes "selected limit seen q" "0 < limit"
  shows "selected limit (add_mset x seen) (offer limit x q)"
proof -
  obtain dropped where i: "qinv q" and d: "seen = items q + dropped" "size (items q) = min limit (size seen)"
    "\<forall>x \<in># items q. \<forall>y \<in># dropped. key y \<le> key x" using assms(1) unfolding selected_def by blast
  show ?thesis
  proof (cases "size (items q) < limit")
    case True
    have "size seen = size (items q) + size dropped" using d(1) by simp
    with True d(2) have "size dropped = 0" by linarith
    then have "seen = items q" using d(1) by simp
    with True i show ?thesis
      unfolding selected_def offer_def by (auto simp: items_push inv_push intro: exI [of _ "{#}"])
  next
    case full: False
    then have ne: "items q \<noteq> {#}" using assms(2) by auto
    have sz: "size (items q) = limit" using full d(2) by linarith
    have all: "size (add_mset x seen) \<ge> limit" using d sz by simp
    show ?thesis
    proof (cases "key (qtop q) < key x")
      case False
      have "key x \<le> key z" if "z \<in># items q" for z using False top_min [OF i that] by simp
      then have "\<forall>z \<in># items q. \<forall>y \<in># add_mset x dropped. key y \<le> key z" using d(3) by simp
      moreover have "add_mset x seen = items q + add_mset x dropped" using d(1) by simp
      moreover have "size (items q) = min limit (size (add_mset x seen))" using sz all by simp
      ultimately have "selected limit (add_mset x seen) q" using i unfolding selected_def by blast
      with full False show ?thesis unfolding offer_def by simp
    next
      case True
      note sub = items_pop [OF i ne]
      have pop: "qinv (qpop q)" using i ne by (rule inv_pop)
      have top: "key (qtop q) \<le> key z" if "z \<in># items (qpop q)" for z using top_min [OF i, of z] sub that by simp
      have "key y \<le> key z" if "z \<in># add_mset x (items (qpop q))" "y \<in># add_mset (qtop q) dropped" for y z
      proof -
        have "key y \<le> key (qtop q) \<or> y \<in># dropped \<and> z \<in># items q"
          using that sub d(3) by auto
        then show ?thesis using that d(3) True top sub by (auto intro: order_trans less_imp_le)
      qed
      moreover have "add_mset x seen = items (qpush x (qpop q)) + add_mset (qtop q) dropped"
        using d(1) sub by (simp add: items_push [OF pop])
      moreover have "size (items (qpush x (qpop q))) = min limit (size (add_mset x seen))"
        using sz sub all by (simp add: items_push [OF pop])
      ultimately have "selected limit (add_mset x seen) (qpush x (qpop q))"
        using inv_push [OF pop] unfolding selected_def items_push [OF pop] by blast
      with full True show ?thesis unfolding offer_def by simp
    qed
  qed
qed

lemma selected_fold:
  assumes "selected limit seen q" "0 < limit"
  shows "selected limit (mset xs + seen) (fold (offer limit) xs q)"
  using assms
proof (induction xs arbitrary: seen q)
  case (Cons x xs)
  from Cons.IH [OF selected_offer [OF Cons.prems], of x] Cons.prems(2) show ?case by simp
qed simp

end

text \<open>
  The model keeps the queue as a list in ascending order; among equal counts, whose order the standard leaves open, the
  one pushed last comes first.
\<close>

definition pq_push :: "('a \<Rightarrow> u64) \<Rightarrow> 'a \<Rightarrow> 'a list \<Rightarrow> 'a list" where
  "pq_push key x q = insort_key key x q"

definition pq_offer :: "('a \<Rightarrow> u64) \<Rightarrow> nat \<Rightarrow> 'a \<Rightarrow> 'a list \<Rightarrow> 'a list outcome" where
  "pq_offer key limit x q =
     (if length q < limit then Inr (pq_push key x q)
      else case q of
          [] \<Rightarrow> Inl OutOfRange
        | t # q' \<Rightarrow> Inr (if key t < key x then pq_push key x q' else q))"

interpretation count_queue: min_queue key "pq_push key" hd tl mset "\<lambda>q. sorted (map key q)" for key :: "'a \<Rightarrow> u64"
proof
  fix q :: "'a list" and x :: 'a
  show "sorted (map key q) \<Longrightarrow> sorted (map key (pq_push key x q))" by (simp add: pq_push_def sorted_insort_key)
  show "sorted (map key q) \<Longrightarrow> mset q \<noteq> {#} \<Longrightarrow> sorted (map key (tl q))" by (cases q) auto
  show "mset (pq_push key x q) = add_mset x (mset q)" by (simp add: pq_push_def)
  show "mset q \<noteq> {#} \<Longrightarrow> mset q = add_mset (hd q) (mset (tl q))" by (cases q) auto
  show "sorted (map key q) \<Longrightarrow> x \<in># mset q \<Longrightarrow> key (hd q) \<le> key x" by (cases q) auto
qed

lemma pq_offer_total: "0 < limit \<Longrightarrow> pq_offer key limit x q = Inr (count_queue.offer key limit x q)"
  by (cases q) (auto simp: pq_offer_def count_queue.offer_def)

lemma pq_offer_fold: "0 < limit \<Longrightarrow> ffold (pq_offer key limit) xs q = Inr (fold (count_queue.offer key limit) xs q)"
  by (induction xs arbitrary: q) (simp_all add: pq_offer_total)

text \<open>The selection of at most \<open>limit\<close> items with the highest keys out of a sequence.\<close>

definition top_items :: "('a \<Rightarrow> u64) \<Rightarrow> nat \<Rightarrow> 'a list \<Rightarrow> 'a list \<Rightarrow> bool" where
  "top_items key limit xs q =
     (sorted (map key q) \<and> length q = min limit (length xs)
      \<and> (\<exists>dropped. mset xs = mset q + dropped \<and> (\<forall>x \<in> set q. \<forall>y \<in># dropped. key y \<le> key x)))"

lemma pq_select:
  assumes "0 < limit"
  shows "\<exists>q. ffold (pq_offer key limit) xs [] = Inr q \<and> top_items key limit xs q"
proof -
  have "count_queue.selected key limit {#} []" by (simp add: count_queue.selected_def)
  from count_queue.selected_fold [OF this assms, of xs] show ?thesis
    by (auto simp: pq_offer_fold [OF assms] count_queue.selected_def top_items_def)
qed

subsection \<open>Views, pairs of program counters and ratios\<close>

record real_pc_pair =
  rp_to :: real_pc
  rp_from :: real_pc
  rp_value :: u64
  rp_kind :: access_kind
  rp_red_count :: u64
  rp_access_count :: u64

text \<open>The three fields that a recording writes into a slot of the view buffer; the others keep what they had.\<close>

definition put_view :: "nat \<Rightarrow> record_view \<Rightarrow> record_view list \<Rightarrow> record_view list outcome" where
  "put_view i v buf =
     (if i < length buf
      then Inr (buf[i := (buf ! i)\<lparr>rv_pc_offset := rv_pc_offset v, rv_red_count := rv_red_count v,
                                  rv_access_count := rv_access_count v\<rparr>])
      else Inl OutOfRange)"

fun put_views :: "nat \<Rightarrow> record_view list \<Rightarrow> record_view list \<Rightarrow> record_view list outcome" where
  "put_views i [] buf = Inr buf"
| "put_views i (v # vs) buf = fbind (put_view i v buf) (put_views (Suc i) vs)"

text \<open>\<^verbatim>\<open>transform_data_views\<close> on the first \<^verbatim>\<open>num_views\<close> slots.\<close>

definition transform_first :: "symbol_vector \<Rightarrow> nat \<Rightarrow> record_view list \<Rightarrow> record_view list" where
  "transform_first symbols n buf = transform_data_views symbols (take n buf) @ drop n buf"

definition zero_view :: record_view where
  "zero_view =
     \<lparr>rv_function_index = 0, rv_pc_offset = 0, rv_memory_id = 0, rv_memory_op_id = 0, rv_red_count = 0, rv_access_count = 0\<rparr>"

text \<open>What \<^verbatim>\<open>record_data_callback\<close> is called with.\<close>

datatype redshow_access_type =
    REDSHOW_ACCESS_UNKNOWN
  | REDSHOW_ACCESS_READ
  | REDSHOW_ACCESS_WRITE

record record_call =
  call_cubin_id :: u32
  call_kernel_id :: i32
  call_access_type :: redshow_access_type
  call_views :: "record_view list"

text \<open>A quotient of counts in \<^verbatim>\<open>double\<close>, as the stream prints it; a zero divisor gives an infinity or no number.\<close>

definition ratio_string :: "u64 \<Rightarrow> u64 \<Rightarrow> string" where
  "ratio_string a b =
     ieee_to_string
       (if b = 0 then if a = 0 then Nan True else Infinity False
        else Finite False (double_div (double_of (uint a)) (double_of (uint b))))"

definition u64_to_string :: "u64 \<Rightarrow> string" where
  "u64_to_string a = int_to_string (uint a)"

definition u32_to_string :: "u32 \<Rightarrow> string" where
  "u32_to_string a = int_to_string (uint a)"

text \<open>The sum of the counters of a map, on unsigned 64-bit integers.\<close>

definition sum_counts :: "('k, u64) omap \<Rightarrow> u64" where
  "sum_counts m = fold (\<lambda>e n. n + snd e) m 0"

definition transform_real_pc :: "symbol_vector \<Rightarrow> real_pc \<Rightarrow> real_pc" where
  "transform_real_pc symbols r =
     (case transform_pc symbols (rpc_pc_offset r) of
        None \<Rightarrow> r
      | Some x \<Rightarrow> r\<lparr>rpc_cubin_id := rpc_cubin_id x, rpc_function_index := rpc_function_index x,
                    rpc_pc_offset := rpc_pc_offset x\<rparr>)"

lemma put_views_length: "put_views i vs buf = Inr b \<Longrightarrow> length b = length buf"
  by (induction i vs buf rule: put_views.induct) (auto simp: put_view_def fbind_eq_Inr split: if_splits)

lemma put_views_total: "i + length vs \<le> length buf \<Longrightarrow> \<exists>b. put_views i vs buf = Inr b"
  by (induction i vs buf rule: put_views.induct) (auto simp: put_view_def)

text \<open>The first slots hold the recorded program counters and counts.\<close>

definition view_counts :: "record_view \<Rightarrow> u64 \<times> u64 \<times> u64" where
  "view_counts v = (rv_pc_offset v, rv_red_count v, rv_access_count v)"

lemma put_views_contents:
  assumes "put_views i vs buf = Inr b"
  shows "map view_counts (take (length vs) (drop i b)) = map view_counts vs \<and> take i b = take i buf"
  using assms
proof (induction i vs buf rule: put_views.induct)
  case (2 i v vs buf)
  let ?buf = "buf[i := (buf ! i)\<lparr>rv_pc_offset := rv_pc_offset v, rv_red_count := rv_red_count v, rv_access_count := rv_access_count v\<rparr>]"
  have i: "i < length buf" and r: "put_views (Suc i) vs ?buf = Inr b"
    using 2(2) by (auto simp: put_view_def split: if_splits)
  have ih: "map view_counts (take (length vs) (drop (Suc i) b)) = map view_counts vs" "take (Suc i) b = take (Suc i) ?buf"
    using 2(1) [of ?buf] r i by (auto simp: put_view_def)
  have len: "length b = length buf" using put_views_length [OF r] by simp
  have bi: "b ! i = ?buf ! i" using ih(2) i len by (metis lessI nth_take)
  have "drop i b = b ! i # drop (Suc i) b" using i len by (simp add: Cons_nth_drop_Suc)
  then have "map view_counts (take (length (v # vs)) (drop i b)) = view_counts (b ! i) # map view_counts vs"
    using ih(1) by simp
  also have "view_counts (b ! i) = view_counts v" using bi i by (simp add: view_counts_def)
  finally show ?case using ih(2) by (metis list.simps(9) take_Suc_conv_app_nth take_take min.absorb1 le_SucI order_refl
      take_update_cancel nth_take lessI append_same_eq i length_list_update)
qed simp

subsection \<open>Addresses of units, lines of the reports, the state of a flush\<close>

text \<open>\<^verbatim>\<open>addr += index * access_kind.unit_size / 8\<close>: the product is a 32-bit integer.\<close>

definition unit_addr :: "access_kind \<Rightarrow> u64 \<Rightarrow> u32 \<Rightarrow> u64" where
  "unit_addr kind addr index = addr + ucast (index * unit_size kind div 8)"

definition newline :: string where
  "newline = [char_of (10 :: nat)]"

definition rate_line :: "u64 \<Rightarrow> u64 \<Rightarrow> string" where
  "rate_line red all =
     ''redundant_access_count,total_access_count,redundancy_rate'' @ newline
     @ u64_to_string red @ '','' @ u64_to_string all @ '','' @ ratio_string red all @ newline"

record flush_state =
  fl_views :: "record_view list"
  fl_calls :: "record_call list"
  fl_read :: string
  fl_write :: string
  fl_count :: u64
  fl_read_red :: u64
  fl_write_red :: u64

definition init_flush :: "u32 \<Rightarrow> flush_state" where
  "init_flush pc_limit =
     \<lparr>fl_views = replicate (unat pc_limit) zero_view, fl_calls = [], fl_read = [], fl_write = [],
      fl_count = 0, fl_read_red = 0, fl_write_red = 0\<rparr>"

end
