(* ===== verification/Temporal.thy ===== *)
theory Temporal
  imports Redundancy
begin

section \<open>Temporal redundancy\<close>

text \<open>
  \<^verbatim>\<open>analysis/temporal_redundancy.cpp\<close>: an access is redundant when the last access of the same thread to
  the same address, in the same direction, had the same value. The analysis keeps for every thread the last
  program counter and value of each address, and counts the redundant accesses per pair of program counters,
  value and access kind. A flush reports the program counters with the most redundant accesses.
\<close>

subsection \<open>State\<close>

type_synonym temporal_trace = "(thread_id, (u64, u64 \<times> u64) omap) omap"

record temporal_kernel =
  tk_cubin_id :: u32
  tk_mod_id :: u32
  tk_read_trace :: temporal_trace
  tk_read_pairs :: pc_pairs
  tk_read_count :: pc_count
  tk_write_trace :: temporal_trace
  tk_write_pairs :: pc_pairs
  tk_write_count :: pc_count

text \<open>
  \<^verbatim>\<open>_kernel_trace\<close>, and \<^verbatim>\<open>_trace\<close> as the thread and the kernel it points to (\<^const>\<open>None\<close> for a null
  pointer). The pointer is local to an analysis thread; the model is that of one such thread.
\<close>

record temporal =
  tp_kernels :: "(u32, (i32, temporal_kernel) omap) omap"
  tp_current :: "(u32 \<times> i32) option"

definition init_temporal :: temporal where
  "init_temporal = \<lparr>tp_kernels = [], tp_current = None\<rparr>"

definition new_temporal_kernel :: "u32 \<Rightarrow> u32 \<Rightarrow> temporal_kernel" where
  "new_temporal_kernel cubin_id mod_id =
     \<lparr>tk_cubin_id = cubin_id, tk_mod_id = mod_id, tk_read_trace = [], tk_read_pairs = [], tk_read_count = [],
      tk_write_trace = [], tk_write_pairs = [], tk_write_count = []\<rparr>"

subsection \<open>Accesses\<close>

definition temporal_analysis_begin ::
  "u32 \<Rightarrow> i32 \<Rightarrow> u32 \<Rightarrow> u32 \<Rightarrow> gpu_patch_type \<Rightarrow> temporal \<Rightarrow> temporal outcome" where
  "temporal_analysis_begin cpu_thread kernel_id cubin_id mod_id type s =
     (if type \<noteq> GPU_PATCH_TYPE_DEFAULT then Inl AssertFail
      else
        let ks = (if map_at2 (<) (<) (tp_kernels s) cpu_thread kernel_id = None
                  then map_set2 (<) (<) (tp_kernels s) cpu_thread kernel_id (new_temporal_kernel cubin_id mod_id)
                  else tp_kernels s)
        in Inr (s\<lparr>tp_kernels := ks, tp_current := Some (cpu_thread, kernel_id)\<rparr>))"

definition temporal_analysis_end :: "temporal \<Rightarrow> temporal" where
  "temporal_analysis_end s = s\<lparr>tp_current := None\<rparr>"

text \<open>A change of the kernel trace that \<^verbatim>\<open>_trace\<close> points to.\<close>

definition temporal_modify :: "(temporal_kernel \<Rightarrow> temporal_kernel) \<Rightarrow> temporal \<Rightarrow> temporal outcome" where
  "temporal_modify f s =
     (case tp_current s of
        None \<Rightarrow> Inl NullDeref
      | Some (t, k) \<Rightarrow>
          fbind (or_fault NullDeref (map_at2 (<) (<) (tp_kernels s) t k)) (\<lambda>tr.
            Inr (s\<lparr>tp_kernels := map_set2 (<) (<) (tp_kernels s) t k (f tr)\<rparr>)))"

definition kernel_block_exit :: "thread_id \<Rightarrow> temporal_kernel \<Rightarrow> temporal_kernel" where
  "kernel_block_exit t tr =
     tr\<lparr>tk_read_trace := map_erase thread_id_lt (tk_read_trace tr) t,
        tk_write_trace := map_erase thread_id_lt (tk_write_trace tr) t\<rparr>"

definition temporal_block_exit :: "thread_id \<Rightarrow> temporal \<Rightarrow> temporal outcome" where
  "temporal_block_exit t = temporal_modify (kernel_block_exit t)"

definition update_temporal_trace ::
  "u64 \<Rightarrow> thread_id \<Rightarrow> u64 \<Rightarrow> u64 \<Rightarrow> access_kind \<Rightarrow> temporal_trace \<times> pc_pairs \<Rightarrow> temporal_trace \<times> pc_pairs" where
  "update_temporal_trace pc t addr value kind tp =
     (case map_at thread_id_lt (fst tp) t of
        None \<Rightarrow> (map_set thread_id_lt (fst tp) t (map_set (<) [] addr (pc, value)), snd tp)
      | Some m \<Rightarrow>
          (map_set thread_id_lt (fst tp) t (map_set (<) m addr (pc, value)),
           case map_at (<) m addr of
             None \<Rightarrow> snd tp
           | Some (prev_pc, prev_value) \<Rightarrow>
               if prev_value = value
               then count_inc (<) (<) value_kind_lt (snd tp) pc prev_pc (prev_value, kind)
               else snd tp))"

definition kernel_unit_access ::
  "thread_id \<Rightarrow> access_kind \<Rightarrow> u64 \<Rightarrow> u64 \<Rightarrow> u64 \<Rightarrow> u32 \<Rightarrow> u32 \<Rightarrow> temporal_kernel \<Rightarrow> temporal_kernel" where
  "kernel_unit_access t kind pc value addr index flags tr =
     (let a = unit_addr kind addr index;
          tr1 = (if has_flag flags GPU_PATCH_READ then
                   let tp = update_temporal_trace pc t a value kind (tk_read_trace tr, tk_read_pairs tr)
                   in tr\<lparr>tk_read_trace := fst tp, tk_read_pairs := snd tp,
                         tk_read_count := map_upd (<) 0 (tk_read_count tr) pc (\<lambda>n. n + 1)\<rparr>
                 else tr)
      in if has_flag flags GPU_PATCH_WRITE then
           let tp = update_temporal_trace pc t a value kind (tk_write_trace tr1, tk_write_pairs tr1)
           in tr1\<lparr>tk_write_trace := fst tp, tk_write_pairs := snd tp,
                  tk_write_count := map_upd (<) 0 (tk_write_count tr1) pc (\<lambda>n. n + 1)\<rparr>
         else tr1)"

definition temporal_unit_access ::
  "thread_id \<Rightarrow> access_kind \<Rightarrow> u64 \<Rightarrow> u64 \<Rightarrow> u64 \<Rightarrow> u32 \<Rightarrow> u32 \<Rightarrow> temporal \<Rightarrow> temporal outcome" where
  "temporal_unit_access t kind pc value addr index flags s =
     (if has_flag flags GPU_PATCH_READ \<or> has_flag flags GPU_PATCH_WRITE
      then temporal_modify (kernel_unit_access t kind pc value addr index flags) s
      else Inr s)"

subsection \<open>Recording\<close>

definition pairs_red_count :: "(u64, ((u64 \<times> access_kind), u64) omap) omap \<Rightarrow> u64" where
  "pairs_red_count froms = fold (\<lambda>f n. fold (\<lambda>v n. n + snd v) (snd f) n) froms 0"

definition temporal_view :: "pc_count \<Rightarrow> u64 \<times> (u64, ((u64 \<times> access_kind), u64) omap) omap \<Rightarrow> record_view" where
  "temporal_view counts e =
     zero_view\<lparr>rv_pc_offset := fst e, rv_red_count := pairs_red_count (snd e),
               rv_access_count := map_touch (<) 0 counts (fst e)\<rparr>"

definition temporal_pick ::
  "nat \<Rightarrow> u64 \<times> (u64, ((u64 \<times> access_kind), u64) omap) omap \<Rightarrow> pc_count \<times> u64 \<times> record_view list \<Rightarrow>
   (pc_count \<times> u64 \<times> record_view list) outcome" where
  "temporal_pick limit e st =
     (case st of (counts, n, tops) \<Rightarrow>
        let v = temporal_view counts e
        in fbind (pq_offer rv_red_count limit v tops) (\<lambda>tops'.
             Inr (map_upd (<) 0 counts (fst e) (\<lambda>c. c), n + rv_red_count v, tops')))"

definition from_pairs :: "record_view \<Rightarrow> pc_pairs \<Rightarrow> real_pc_pair list" where
  "from_pairs v pairs =
     concat (map (\<lambda>f. map (\<lambda>e.
         \<lparr>rp_to = RealPC 0 0 (rv_pc_offset v), rp_from = RealPC 0 0 (fst f), rp_value = fst (fst e),
          rp_kind = snd (fst e), rp_red_count = snd e, rp_access_count = rv_access_count v\<rparr>) (snd f))
       (map_touch (<) [] pairs (rv_pc_offset v)))"

type_synonym temporal_stats = "(u64, real_pc_pair list) omap"

definition temporal_detail ::
  "nat \<Rightarrow> pc_pairs \<Rightarrow> record_view \<Rightarrow> temporal_stats \<Rightarrow> temporal_stats outcome" where
  "temporal_detail limit pairs v stats =
     (if limit = 0 then Inr stats
      else fbind (ffold (pq_offer rp_red_count limit) (from_pairs v pairs) []) (\<lambda>tops.
        Inr (fold (\<lambda>p st. map_upd (<) [] st (rv_pc_offset v) (\<lambda>ps. ps @ [p])) tops stats)))"

text \<open>
  \<^verbatim>\<open>record_temporal_trace\<close>: the updated access counts, the redundant accesses of the kernel, the details per
  program counter, the view buffer and the number of views.
\<close>

definition record_temporal_trace ::
  "u32 \<Rightarrow> u32 \<Rightarrow> pc_pairs \<Rightarrow> pc_count \<Rightarrow> record_view list \<Rightarrow>
   (pc_count \<times> u64 \<times> temporal_stats \<times> record_view list \<times> nat) outcome" where
  "record_temporal_trace pc_limit mem_limit pairs counts buf =
     fbind (ffold (temporal_pick (unat pc_limit)) pairs (counts, 0, [])) (\<lambda>(counts', n, tops).
     fbind (ffold (temporal_detail (unat mem_limit) pairs) tops []) (\<lambda>stats.
     fbind (put_views 0 tops buf) (\<lambda>buf'.
     Inr (counts', n, stats, buf', length tops))))"

subsection \<open>Reports\<close>

definition temporal_row :: "u64 \<Rightarrow> real_pc_pair \<Rightarrow> string" where
  "temporal_row all p =
     u32_to_string (rpc_cubin_id (rp_from p)) @ '','' @ u32_to_string (rpc_function_index (rp_from p)) @ '',''
     @ u64_to_string (rpc_pc_offset (rp_from p)) @ '','' @ u32_to_string (rpc_function_index (rp_to p)) @ '',''
     @ u64_to_string (rpc_pc_offset (rp_to p)) @ '','' @ value_to_string (rp_kind p) (rp_value p) True @ '',''
     @ access_kind_to_string (rp_kind p) @ '','' @ u64_to_string (rp_red_count p) @ '',''
     @ ratio_string (rp_red_count p) (rp_access_count p) @ '','' @ ratio_string (rp_red_count p) all @ newline"

definition show_temporal_trace ::
  "u32 \<Rightarrow> i32 \<Rightarrow> u64 \<Rightarrow> u64 \<Rightarrow> temporal_stats \<Rightarrow> bool \<Rightarrow> string" where
  "show_temporal_trace cpu_thread kernel_id red all stats is_thread =
     (if is_thread then ''cpu_thread,'' @ u32_to_string cpu_thread @ newline @ rate_line red all
      else ''kernel_id,'' @ int_to_string kernel_id @ newline @ rate_line red all
        @ ''cubin_id,f_function_index,f_pc_offset,t_function_index,t_pc_offest,value,data_type,''
        @ ''vector_size,unit_size,count,rate,norm_rate'' @ newline
        @ concat (map (\<lambda>e. concat (map (temporal_row all) (snd e))) stats))"

definition transform_temporal_statistics :: "symbol_vector \<Rightarrow> temporal_stats \<Rightarrow> temporal_stats" where
  "transform_temporal_statistics symbols stats =
     map (\<lambda>e. (fst e, map (\<lambda>p. p\<lparr>rp_to := transform_real_pc symbols (rp_to p),
                                 rp_from := transform_real_pc symbols (rp_from p)\<rparr>) (snd e))) stats"

subsection \<open>Flushing a thread\<close>

text \<open>The part of a kernel's flush that is the same for reads and writes.\<close>

definition flush_side ::
  "bool \<Rightarrow> u32 \<Rightarrow> u32 \<Rightarrow> symbol_vector \<Rightarrow> u32 \<Rightarrow> i32 \<Rightarrow> redshow_access_type \<Rightarrow> pc_pairs \<Rightarrow> pc_count \<Rightarrow> flush_state \<Rightarrow>
   (pc_count \<times> u64 \<times> temporal_stats \<times> flush_state) outcome" where
  "flush_side callback pc_limit mem_limit symbols cubin_id kernel_id type pairs counts fs =
     fbind (record_temporal_trace pc_limit mem_limit pairs counts (fl_views fs)) (\<lambda>(counts', n, stats, buf, num).
       let views = transform_first symbols num buf
       in if \<not> callback then Inl NullDeref
          else Inr (counts', n, transform_temporal_statistics symbols stats,
                    fs\<lparr>fl_views := views,
                       fl_calls := fl_calls fs @ [\<lparr>call_cubin_id = cubin_id, call_kernel_id = kernel_id,
                                                   call_access_type = type, call_views = take num views\<rparr>]\<rparr>))"

definition flush_kernel ::
  "bool \<Rightarrow> u32 \<Rightarrow> u32 \<Rightarrow> cubin_map \<Rightarrow> u32 \<Rightarrow> i32 \<times> temporal_kernel \<Rightarrow>
   flush_state \<times> (i32, temporal_kernel) omap \<Rightarrow> (flush_state \<times> (i32, temporal_kernel) omap) outcome" where
  "flush_kernel callback pc_limit mem_limit cubins cpu_thread kt fk =
     (let kernel_id = fst kt; tr = snd kt
      in fbind (or_fault OutOfRange (map_at (<) cubins (tk_cubin_id tr))) (\<lambda>c.
         fbind (or_fault OutOfRange (map_at (<) (cub_symbols c) (tk_mod_id tr))) (\<lambda>symbols.
         fbind (flush_side callback pc_limit mem_limit symbols (tk_cubin_id tr) kernel_id REDSHOW_ACCESS_READ
                  (tk_read_pairs tr) (tk_read_count tr) (fst fk)) (\<lambda>(rc, rred, rstats, fs1).
         fbind (flush_side callback pc_limit mem_limit symbols (tk_cubin_id tr) kernel_id REDSHOW_ACCESS_WRITE
                  (tk_write_pairs tr) (tk_write_count tr) fs1) (\<lambda>(wc, wred, wstats, fs2).
         let n = sum_counts rc + sum_counts wc;
             show = (\<lambda>red stats. if mem_limit \<noteq> 0 \<and> stats \<noteq> [] then
                       show_temporal_trace cpu_thread kernel_id red n stats False else [])
         in Inr (fs2\<lparr>fl_count := fl_count fs2 + n, fl_read_red := fl_read_red fs2 + rred,
                     fl_write_red := fl_write_red fs2 + wred,
                     fl_read := fl_read fs2 @ show rred rstats, fl_write := fl_write fs2 @ show wred wstats\<rparr>,
                 map_set (<) (snd fk) kernel_id (tr\<lparr>tk_read_count := rc, tk_write_count := wc\<rparr>)))))))"

text \<open>The result: the calls of the profiler's callback, the two files, and the new state.\<close>

definition temporal_flush_thread ::
  "bool \<Rightarrow> u32 \<Rightarrow> u32 \<Rightarrow> cubin_map \<Rightarrow> u32 \<Rightarrow> string \<Rightarrow> temporal \<Rightarrow>
   (record_call list \<times> (string \<times> string) list \<times> temporal) outcome" where
  "temporal_flush_thread callback pc_limit mem_limit cubins cpu_thread output_dir s =
     fbind (or_fault OutOfRange (map_at (<) (tp_kernels s) cpu_thread)) (\<lambda>kernels.
     fbind (ffold (flush_kernel callback pc_limit mem_limit cubins cpu_thread) kernels (init_flush pc_limit, kernels))
       (\<lambda>(fs, kernels').
         let summary = (\<lambda>red. if mem_limit \<noteq> 0 \<and> fl_count fs \<noteq> 0 then
                                show_temporal_trace cpu_thread 0 red (fl_count fs) [] True else [])
         in Inr (fl_calls fs,
                 [(output_dir @ ''temporal_read_t'' @ u32_to_string cpu_thread @ ''.csv'', fl_read fs @ summary (fl_read_red fs)),
                  (output_dir @ ''temporal_write_t'' @ u32_to_string cpu_thread @ ''.csv'', fl_write fs @ summary (fl_write_red fs))],
                 s\<lparr>tp_kernels := map_set (<) (tp_kernels s) cpu_thread kernels'\<rparr>)))"

subsection \<open>The abstract account of redundancy\<close>

text \<open>
  A history of one direction of accesses, newest first. The previous access of a thread to an address is the
  last one since the thread left its block; an access is redundant when that one had the same value.
\<close>

datatype temporal_event =
    TUnit thread_id access_kind u64 u64 u64 u32 u32
  | TExit thread_id

definition event_access :: "u32 \<Rightarrow> temporal_event \<Rightarrow> bool" where
  "event_access flag e = (case e of TUnit t k pc v a i f \<Rightarrow> has_flag f flag | TExit t \<Rightarrow> False)"

fun last_access :: "u32 \<Rightarrow> temporal_event list \<Rightarrow> thread_id \<Rightarrow> u64 \<Rightarrow> (u64 \<times> u64) option" where
  "last_access flag [] t a = None"
| "last_access flag (TUnit u k pc v b i f # es) t a =
     (if has_flag f flag \<and> u = t \<and> unit_addr k b i = a then Some (pc, v) else last_access flag es t a)"
| "last_access flag (TExit u # es) t a = (if u = t then None else last_access flag es t a)"

fun redundant :: "u32 \<Rightarrow> temporal_event list \<Rightarrow> (u64 \<times> u64 \<times> (u64 \<times> access_kind)) list" where
  "redundant flag [] = []"
| "redundant flag (TUnit t k pc v b i f # es) =
     (if has_flag f flag then
        case last_access flag es t (unit_addr k b i) of
          Some (prev_pc, prev_v) \<Rightarrow> if prev_v = v then [(pc, prev_pc, (v, k))] else []
        | None \<Rightarrow> []
      else []) @ redundant flag es"
| "redundant flag (TExit t # es) = redundant flag es"

definition access_number :: "u32 \<Rightarrow> temporal_event list \<Rightarrow> u64 \<Rightarrow> nat" where
  "access_number flag es pc =
     length (filter (\<lambda>e. event_access flag e \<and> (case e of TUnit t k q v a i f \<Rightarrow> q = pc | TExit t \<Rightarrow> False)) es)"

fun kernel_event :: "temporal_event \<Rightarrow> temporal_kernel \<Rightarrow> temporal_kernel" where
  "kernel_event (TUnit t k pc v a i f) tr = kernel_unit_access t k pc v a i f tr"
| "kernel_event (TExit t) tr = kernel_block_exit t tr"

subsection \<open>One direction\<close>

definition trace_ok :: "temporal_trace \<Rightarrow> bool" where
  "trace_ok tr = (map_ok thread_id_lt tr \<and> (\<forall>t. map_ok (<) (map_touch thread_id_lt [] tr t)))"

definition side_ok :: "u32 \<Rightarrow> temporal_event list \<Rightarrow> temporal_trace \<Rightarrow> pc_pairs \<Rightarrow> pc_count \<Rightarrow> bool" where
  "side_ok flag es tr pairs counts =
     (trace_ok tr \<and> counts_ok (<) (<) value_kind_lt pairs \<and> map_ok (<) counts
      \<and> (\<forall>t a. map_at (<) (map_touch thread_id_lt [] tr t) a = last_access flag es t a)
      \<and> (\<forall>pc q k. count_at (<) (<) value_kind_lt pairs pc q k = of_nat (count_list (redundant flag es) (pc, q, k)))
      \<and> (\<forall>pc. map_touch (<) 0 counts pc = of_nat (access_number flag es pc)))"

lemma touch_set_thread:
  "map_ok thread_id_lt tr \<Longrightarrow> map_touch thread_id_lt [] (map_set thread_id_lt tr t m) x = (if x = t then m else map_touch thread_id_lt [] tr x)"
  by (simp add: map_touch_def thread_order.map_at_set)

lemma update_trace_eq:
  "fst (update_temporal_trace pc t a v k (tr, pairs)) =
     map_set thread_id_lt tr t (map_set (<) (map_touch thread_id_lt [] tr t) a (pc, v))"
  by (auto simp: update_temporal_trace_def map_touch_def split: option.split)

lemma update_pairs_eq:
  "snd (update_temporal_trace pc t a v k (tr, pairs)) =
     (case map_at (<) (map_touch thread_id_lt [] tr t) a of
        None \<Rightarrow> pairs
      | Some (q, w) \<Rightarrow> if w = v then count_inc (<) (<) value_kind_lt pairs pc q (w, k) else pairs)"
  by (auto simp: update_temporal_trace_def map_touch_def split: option.split)

lemma side_ok_access:
  fixes t :: thread_id and k :: access_kind and pc v b :: u64 and i :: u32
  assumes ok: "side_ok flag es tr pairs counts" and f: "has_flag f flag"
  defines "tp \<equiv> update_temporal_trace pc t (unit_addr k b i) v k (tr, pairs)"
  shows "side_ok flag (TUnit t k pc v b i f # es) (fst tp) (snd tp) (map_upd (<) 0 counts pc (\<lambda>n. n + 1))"
proof -
  let ?a = "unit_addr k b i" and ?es = "TUnit t k pc v b i f # es"
  have tr: "map_ok thread_id_lt tr" "\<And>t. map_ok (<) (map_touch thread_id_lt [] tr t)"
    and p: "counts_ok (<) (<) value_kind_lt pairs" and c: "map_ok (<) counts"
    and la: "\<And>t a. map_at (<) (map_touch thread_id_lt [] tr t) a = last_access flag es t a"
    and cnt: "\<And>pc q k. count_at (<) (<) value_kind_lt pairs pc q k = of_nat (count_list (redundant flag es) (pc, q, k))"
    and num: "\<And>pc. map_touch (<) 0 counts pc = of_nat (access_number flag es pc)"
    using ok by (auto simp: side_ok_def trace_ok_def)
  have "trace_ok (fst tp)"
    unfolding tp_def update_trace_eq trace_ok_def
    using tr by (simp add: touch_set_thread thread_order.map_ok_set u64_order.map_ok_set)
  moreover have "map_at (<) (map_touch thread_id_lt [] (fst tp) x) y = last_access flag ?es x y" for x y
    unfolding tp_def update_trace_eq
    using tr f by (auto simp: touch_set_thread u64_order.map_at_set la)
  moreover have "counts_ok (<) (<) value_kind_lt (snd tp)"
    unfolding tp_def update_pairs_eq using p by (auto simp: pc_pairs.counts_ok_inc split: option.split)
  moreover have "count_at (<) (<) value_kind_lt (snd tp) x y z = of_nat (count_list (redundant flag ?es) (x, y, z))" for x y z
    unfolding tp_def update_pairs_eq
    using f by (auto simp: la cnt pc_pairs.count_at_inc [OF p] split: option.split)
  moreover have "map_touch (<) 0 (map_upd (<) 0 counts pc (\<lambda>n. n + 1)) x = of_nat (access_number flag ?es x)" for x
    unfolding pc_pairs.touch_upd_fst [OF c] num
    using f by (cases "x = pc") (simp_all add: access_number_def event_access_def)
  moreover have "map_ok (<) (map_upd (<) 0 counts pc (\<lambda>n. n + 1))" using c by (rule u64_order.map_ok_upd)
  ultimately show ?thesis unfolding side_ok_def by blast
qed

lemma side_ok_skip:
  "side_ok flag es tr pairs counts \<Longrightarrow> \<not> has_flag f flag \<Longrightarrow> side_ok flag (TUnit t k pc v b i f # es) tr pairs counts"
  by (simp add: side_ok_def access_number_def event_access_def)

lemma side_ok_exit:
  assumes "side_ok flag es tr pairs counts"
  shows "side_ok flag (TExit t # es) (map_erase thread_id_lt tr t) pairs counts"
proof -
  have tr: "map_ok thread_id_lt tr" using assms by (simp add: side_ok_def trace_ok_def)
  have "map_touch thread_id_lt [] (map_erase thread_id_lt tr t) x = (if x = t then [] else map_touch thread_id_lt [] tr x)" for x
    by (simp add: map_touch_def thread_order.map_at_erase [OF tr])
  with assms thread_order.map_ok_erase [OF tr] show ?thesis
    by (auto simp: side_ok_def trace_ok_def access_number_def event_access_def)
qed

definition kernel_ok :: "temporal_event list \<Rightarrow> temporal_kernel \<Rightarrow> bool" where
  "kernel_ok es tr =
     (side_ok GPU_PATCH_READ es (tk_read_trace tr) (tk_read_pairs tr) (tk_read_count tr)
      \<and> side_ok GPU_PATCH_WRITE es (tk_write_trace tr) (tk_write_pairs tr) (tk_write_count tr))"

lemma kernel_ok_new: "kernel_ok [] (new_temporal_kernel c m)"
  by (simp add: kernel_ok_def side_ok_def trace_ok_def new_temporal_kernel_def map_touch_def counts_ok_def count_at_def
      access_number_def)

lemma kernel_ok_event: "kernel_ok es tr \<Longrightarrow> kernel_ok (e # es) (kernel_event e tr)"
proof (cases e)
  case (TUnit t k pc v b i f)
  assume "kernel_ok es tr"
  then show ?thesis
    using side_ok_access side_ok_skip
    by (auto simp: TUnit kernel_ok_def kernel_unit_access_def Let_def)
next
  case (TExit t)
  assume "kernel_ok es tr"
  then show ?thesis by (simp add: TExit kernel_ok_def kernel_block_exit_def side_ok_exit)
qed

lemma kernel_ok_fold: "kernel_ok es tr \<Longrightarrow> kernel_ok (rev evs @ es) (fold kernel_event evs tr)"
proof (induction evs arbitrary: es tr)
  case (Cons e evs)
  from Cons.IH [OF kernel_ok_event [OF Cons.prems]] show ?case by simp
qed simp

text \<open>
  C3. After any sequence of accesses and block exits of a kernel, the counter of a pair of program counters, a
  value and an access kind is the number of redundant accesses of that sort in the history, separately for
  reads and writes, and the access counter of a program counter is its number of accesses.
\<close>

theorem temporal_counts_history:
  fixes evs :: "temporal_event list" and cubin_id mod_id :: u32
  defines "tr \<equiv> fold kernel_event evs (new_temporal_kernel cubin_id mod_id)"
  shows "count_at (<) (<) value_kind_lt (tk_read_pairs tr) pc prev_pc (v, k)
           = of_nat (count_list (redundant GPU_PATCH_READ (rev evs)) (pc, prev_pc, (v, k)))
       \<and> count_at (<) (<) value_kind_lt (tk_write_pairs tr) pc prev_pc (v, k)
           = of_nat (count_list (redundant GPU_PATCH_WRITE (rev evs)) (pc, prev_pc, (v, k)))
       \<and> map_touch (<) 0 (tk_read_count tr) pc = of_nat (access_number GPU_PATCH_READ (rev evs) pc)
       \<and> map_touch (<) 0 (tk_write_count tr) pc = of_nat (access_number GPU_PATCH_WRITE (rev evs) pc)"
  using kernel_ok_fold [OF kernel_ok_new, of evs cubin_id mod_id]
  by (simp add: tr_def kernel_ok_def side_ok_def)


subsection \<open>The views that are reported\<close>

lemma touch_same: "map_ok (<) (m :: pc_count) \<Longrightarrow> map_touch (<) 0 (map_upd (<) 0 m k (\<lambda>c. c)) = map_touch (<) 0 m"
  by (auto simp: map_touch_def u64_order.map_at_upd)

lemma temporal_pick_fold:
  assumes "0 < limit" "map_ok (<) counts"
  shows "\<exists>counts'. ffold (temporal_pick limit) es (counts, n, q) =
     Inr (counts', n + sum_list (map (pairs_red_count \<circ> snd) es),
          fold (count_queue.offer rv_red_count limit) (map (temporal_view counts) es) q)"
  using assms(2)
proof (induction es arbitrary: counts n q)
  case (Cons e es)
  let ?c = "map_upd (<) 0 counts (fst e) (\<lambda>c. c)"
  have v: "temporal_view ?c = temporal_view counts"
    by (simp add: temporal_view_def touch_same [OF Cons.prems] fun_eq_iff)
  have ok: "map_ok (<) ?c" using Cons.prems by (rule u64_order.map_ok_upd)
  have step: "temporal_pick limit e (counts, n, q) =
      Inr (?c, n + pairs_red_count (snd e), count_queue.offer rv_red_count limit (temporal_view counts e) q)"
    by (simp add: temporal_pick_def pq_offer_total [OF assms(1)] temporal_view_def)
  show ?case
    using Cons.IH [OF ok, of "n + pairs_red_count (snd e)" "count_queue.offer rv_red_count limit (temporal_view counts e) q"]
    unfolding v by (simp add: step add.assoc)
qed simp

lemma temporal_detail_total: "\<exists>st. ffold (temporal_detail limit pairs) vs stats = Inr st"
proof (induction vs arbitrary: stats)
  case (Cons v vs)
  have "\<exists>st. temporal_detail limit pairs v stats = Inr st"
    by (cases "limit = 0") (auto simp: temporal_detail_def pq_offer_fold)
  with Cons.IH show ?case by auto
qed simp

text \<open>
  C31. Recording never fails when at least one view is allowed: it fills the buffer with the views of the
  program counters that have the most redundant accesses, in ascending order, at most as many as allowed, and
  the count of the kernel is the sum over all program counters.
\<close>

theorem record_temporal_trace_top:
  assumes "0 < pc_limit" "length buf = unat pc_limit" "map_ok (<) counts"
  shows "\<exists>counts' stats buf' tops.
     record_temporal_trace pc_limit mem_limit pairs counts buf =
       Inr (counts', sum_list (map (pairs_red_count \<circ> snd) pairs), stats, buf', length tops)
     \<and> top_items rv_red_count (unat pc_limit) (map (temporal_view counts) pairs) tops
     \<and> map view_counts (take (length tops) buf') = map view_counts tops"
proof -
  have l: "0 < unat pc_limit" using assms(1) by (simp add: unat_gt_0 word_greater_zero_iff)
  let ?vs = "map (temporal_view counts) pairs"
  obtain tops where t: "ffold (pq_offer rv_red_count (unat pc_limit)) ?vs [] = Inr tops"
    "top_items rv_red_count (unat pc_limit) ?vs tops" using pq_select [OF l] by blast
  obtain counts' where p: "ffold (temporal_pick (unat pc_limit)) pairs (counts, 0, []) =
      Inr (counts', sum_list (map (pairs_red_count \<circ> snd) pairs), tops)"
    using temporal_pick_fold [OF l assms(3), of pairs 0 "[]"] t(1) by (auto simp: pq_offer_fold [OF l])
  obtain stats where s: "ffold (temporal_detail (unat mem_limit) pairs) tops [] = Inr stats"
    using temporal_detail_total by blast
  have "length tops \<le> length buf" using t(2) assms(2) by (simp add: top_items_def)
  then obtain buf' where b: "put_views 0 tops buf = Inr buf'" using put_views_total [of 0 tops buf] by auto
  from put_views_contents [OF b] p s b t(2) show ?thesis
    by (auto simp: record_temporal_trace_def)
qed

text \<open>
  With no view allowed, the recording reads the top of an empty queue as soon as there is one redundant
  access.
\<close>

lemma record_temporal_trace_no_views:
  assumes "pairs \<noteq> []"
  shows "record_temporal_trace 0 mem_limit pairs counts buf = Inl OutOfRange"
  using assms by (cases pairs) (simp_all add: record_temporal_trace_def temporal_pick_def pq_offer_def)

definition sample_pairs :: pc_pairs where
  "sample_pairs =
     count_inc (<) (<) value_kind_lt
       (count_inc (<) (<) value_kind_lt
         (count_inc (<) (<) value_kind_lt [] 0x10 0x20 (7, AccessKind 32 32 REDSHOW_DATA_INT))
         0x30 0x10 (5, AccessKind 32 32 REDSHOW_DATA_INT))
       0x30 0x10 (5, AccessKind 32 32 REDSHOW_DATA_INT)"

theorem record_temporal_trace_top_witness:
  "\<exists>counts' stats buf'. record_temporal_trace 1 4 sample_pairs [] [zero_view] = Inr (counts', 3, stats, buf', 1)"
proof -
  have n: "sum_list (map (pairs_red_count \<circ> snd) sample_pairs) = 3" "length sample_pairs = 2" by code_simp+
  from record_temporal_trace_top [of 1 "[zero_view]" "[]" 4 sample_pairs] obtain counts' stats buf' tops where
    "record_temporal_trace 1 4 sample_pairs [] [zero_view] = Inr (counts', 3, stats, buf', length tops)"
    "top_items rv_red_count 1 (map (temporal_view []) sample_pairs) tops"
    by (auto simp: n)
  then show ?thesis by (auto simp: top_items_def n)
qed

end
