(* ===== verification/Spatial.thy ===== *)
theory Spatial
  imports Redundancy
begin

section \<open>Spatial redundancy\<close>

text \<open>
  \<^verbatim>\<open>analysis/spatial_redundancy.cpp\<close>: how often each value is read or written at a program counter in
  a memory object. A flush reports, for the program counters whose most frequent value is the most frequent, the
  values with the highest counts.
\<close>

subsection \<open>State and accesses\<close>

type_synonym spatial_trace = "(u64 \<times> access_kind, u64, u64) counts"

record spatial_kernel =
  sk_cubin_id :: u32
  sk_mod_id :: u32
  sk_read_trace :: spatial_trace
  sk_write_trace :: spatial_trace
  sk_read_count :: pc_count
  sk_write_count :: pc_count

record spatial =
  sp_kernels :: "(u32, (i32, spatial_kernel) omap) omap"
  sp_current :: "(u32 \<times> i32) option"

definition init_spatial :: spatial where
  "init_spatial = \<lparr>sp_kernels = [], sp_current = None\<rparr>"

definition new_spatial_kernel :: "u32 \<Rightarrow> u32 \<Rightarrow> spatial_kernel" where
  "new_spatial_kernel cubin_id mod_id =
     \<lparr>sk_cubin_id = cubin_id, sk_mod_id = mod_id, sk_read_trace = [], sk_write_trace = [],
      sk_read_count = [], sk_write_count = []\<rparr>"

definition spatial_analysis_begin ::
  "u32 \<Rightarrow> i32 \<Rightarrow> u32 \<Rightarrow> u32 \<Rightarrow> gpu_patch_type \<Rightarrow> spatial \<Rightarrow> spatial outcome" where
  "spatial_analysis_begin cpu_thread kernel_id cubin_id mod_id type s =
     (if type \<noteq> GPU_PATCH_TYPE_DEFAULT then Inl AssertFail
      else
        let ks = (if map_at2 (<) (<) (sp_kernels s) cpu_thread kernel_id = None
                  then map_set2 (<) (<) (sp_kernels s) cpu_thread kernel_id (new_spatial_kernel cubin_id mod_id)
                  else sp_kernels s)
        in Inr (s\<lparr>sp_kernels := ks, sp_current := Some (cpu_thread, kernel_id)\<rparr>))"

definition spatial_analysis_end :: "spatial \<Rightarrow> spatial" where
  "spatial_analysis_end s = s\<lparr>sp_current := None\<rparr>"

definition update_spatial_trace :: "u64 \<Rightarrow> u64 \<Rightarrow> u64 \<Rightarrow> access_kind \<Rightarrow> spatial_trace \<Rightarrow> spatial_trace" where
  "update_spatial_trace pc value memory_op_id kind tr =
     count_inc value_kind_lt (<) (<) tr (memory_op_id, kind) pc value"

definition spatial_kernel_access ::
  "access_kind \<Rightarrow> u64 \<Rightarrow> u64 \<Rightarrow> u64 \<Rightarrow> u32 \<Rightarrow> spatial_kernel \<Rightarrow> spatial_kernel" where
  "spatial_kernel_access kind memory_op_id pc value flags tr =
     (let tr1 = (if has_flag flags GPU_PATCH_READ then
                   tr\<lparr>sk_read_trace := update_spatial_trace pc value memory_op_id kind (sk_read_trace tr),
                      sk_read_count := map_upd (<) 0 (sk_read_count tr) pc (\<lambda>n. n + 1)\<rparr>
                 else tr)
      in if has_flag flags GPU_PATCH_WRITE then
           tr1\<lparr>sk_write_trace := update_spatial_trace pc value memory_op_id kind (sk_write_trace tr1),
               sk_write_count := map_upd (<) 0 (sk_write_count tr1) pc (\<lambda>n. n + 1)\<rparr>
         else tr1)"

text \<open>The address is computed and not used; the kernel is dereferenced only for a read or a write.\<close>

definition spatial_unit_access ::
  "access_kind \<Rightarrow> memory \<Rightarrow> u64 \<Rightarrow> u64 \<Rightarrow> u32 \<Rightarrow> spatial \<Rightarrow> spatial outcome" where
  "spatial_unit_access kind mem pc value flags s =
     (if has_flag flags GPU_PATCH_READ \<or> has_flag flags GPU_PATCH_WRITE then
        case sp_current s of
          None \<Rightarrow> Inl NullDeref
        | Some (t, k) \<Rightarrow>
            fbind (or_fault NullDeref (map_at2 (<) (<) (sp_kernels s) t k)) (\<lambda>tr.
              Inr (s\<lparr>sp_kernels := map_set2 (<) (<) (sp_kernels s) t k
                      (spatial_kernel_access kind (op_id mem) pc value flags tr)\<rparr>))
      else Inr s)"

subsection \<open>Recording\<close>

text \<open>
  \<^verbatim>\<open>auto max_count = 0\<close> is a 32-bit signed integer: every step compares it as an unsigned 64-bit integer
  and cuts the larger count to 32 bits.
\<close>

definition max_step :: "u64 \<Rightarrow> u32 \<Rightarrow> u32" where
  "max_step n m = (let m' = scast m :: u64 in if n > m' then ucast n else ucast m')"

definition max_count :: "(u64, u64) omap \<Rightarrow> u32" where
  "max_count vals = fold (\<lambda>e m. max_step (snd e) m) vals 0"

definition spatial_view :: "pc_count \<Rightarrow> u64 \<Rightarrow> u64 \<times> (u64, u64) omap \<Rightarrow> record_view" where
  "spatial_view counts memory_op_id e =
     zero_view\<lparr>rv_pc_offset := fst e, rv_memory_op_id := memory_op_id, rv_red_count := scast (max_count (snd e)),
               rv_access_count := map_touch (<) 0 counts (fst e)\<rparr>"

definition spatial_pick ::
  "nat \<Rightarrow> u64 \<times> u64 \<times> (u64, u64) omap \<Rightarrow> pc_count \<times> u64 \<times> record_view list \<Rightarrow>
   (pc_count \<times> u64 \<times> record_view list) outcome" where
  "spatial_pick limit e st =
     (case st of (counts, n, tops) \<Rightarrow>
        let v = spatial_view counts (fst e) (snd e)
        in fbind (pq_offer rv_red_count limit v tops) (\<lambda>tops'.
             Inr (map_upd (<) 0 counts (fst (snd e)) (\<lambda>c. c), n + rv_red_count v, tops')))"

text \<open>The order of the two nested loops: memory objects, then program counters.\<close>

definition spatial_entries :: "spatial_trace \<Rightarrow> (u64 \<times> u64 \<times> (u64, u64) omap) list" where
  "spatial_entries tr = concat (map (\<lambda>e. map (\<lambda>p. (fst (fst e), p)) (snd e)) tr)"

type_synonym spatial_stats = "(u64, (u64, real_pc_pair list) omap) omap"

text \<open>The source program counter of these pairs is not set, and not read.\<close>

definition value_pairs :: "record_view \<Rightarrow> access_kind \<Rightarrow> (u64, u64) omap \<Rightarrow> real_pc_pair list" where
  "value_pairs v kind vals =
     map (\<lambda>e. \<lparr>rp_to = RealPC 0 0 (rv_pc_offset v), rp_from = RealPC 0 0 0, rp_value = fst e, rp_kind = kind,
               rp_red_count = snd e, rp_access_count = rv_access_count v\<rparr>) vals"

definition spatial_memory_detail ::
  "nat \<Rightarrow> record_view \<Rightarrow> (u64 \<times> access_kind) \<times> (u64, (u64, u64) omap) omap \<Rightarrow> spatial_stats \<Rightarrow> spatial_stats outcome" where
  "spatial_memory_detail limit v e stats =
     (if fst (fst e) \<noteq> rv_memory_op_id v then Inr stats
      else fbind (ffold (pq_offer rp_red_count limit)
                    (value_pairs v (snd (fst e)) (map_touch (<) [] (snd e) (rv_pc_offset v))) []) (\<lambda>tops.
        Inr (fold (\<lambda>p st. map_upd (<) [] st (rv_memory_op_id v)
                            (\<lambda>m. map_upd (<) [] m (rv_pc_offset v) (\<lambda>ps. ps @ [p]))) tops stats)))"

text \<open>\<^verbatim>\<open>memory_iter.second[pc]\<close> creates the entry for the access kinds that never used the program counter.\<close>

definition touch_pc :: "record_view \<Rightarrow> spatial_trace \<Rightarrow> spatial_trace" where
  "touch_pc v tr =
     map (\<lambda>e. if fst (fst e) = rv_memory_op_id v
              then (fst e, map_upd (<) [] (snd e) (rv_pc_offset v) (\<lambda>m. m)) else e) tr"

definition spatial_detail ::
  "nat \<Rightarrow> record_view \<Rightarrow> spatial_trace \<times> spatial_stats \<Rightarrow> (spatial_trace \<times> spatial_stats) outcome" where
  "spatial_detail limit v ts =
     (if limit = 0 then Inr ts
      else fbind (ffold (spatial_memory_detail limit v) (fst ts) (snd ts)) (\<lambda>stats.
        Inr (touch_pc v (fst ts), stats)))"

definition record_spatial_trace ::
  "u32 \<Rightarrow> u32 \<Rightarrow> spatial_trace \<Rightarrow> pc_count \<Rightarrow> record_view list \<Rightarrow>
   (spatial_trace \<times> pc_count \<times> u64 \<times> spatial_stats \<times> record_view list \<times> nat) outcome" where
  "record_spatial_trace pc_limit mem_limit tr counts buf =
     fbind (ffold (spatial_pick (unat pc_limit)) (spatial_entries tr) (counts, 0, [])) (\<lambda>(counts', n, tops).
     fbind (ffold (spatial_detail (unat mem_limit)) tops (tr, [])) (\<lambda>(tr', stats).
     fbind (put_views 0 tops buf) (\<lambda>buf'.
     Inr (tr', counts', n, stats, buf', length tops))))"

subsection \<open>Reports\<close>

definition spatial_row :: "u64 \<Rightarrow> u64 \<Rightarrow> real_pc_pair \<Rightarrow> string" where
  "spatial_row all memory_op_id p =
     u64_to_string memory_op_id @ '','' @ u32_to_string (rpc_cubin_id (rp_to p)) @ '',''
     @ u32_to_string (rpc_function_index (rp_to p)) @ '','' @ u64_to_string (rpc_pc_offset (rp_to p)) @ '',''
     @ value_to_string (rp_kind p) (rp_value p) True @ '','' @ access_kind_to_string (rp_kind p) @ '',''
     @ u64_to_string (rp_red_count p) @ '','' @ ratio_string (rp_red_count p) (rp_access_count p) @ '',''
     @ ratio_string (rp_red_count p) all @ newline"

text \<open>The summary of a thread prints the kernel, not the thread, after \<^verbatim>\<open>cpu_thread\<close>.\<close>

definition show_spatial_trace ::
  "u32 \<Rightarrow> i32 \<Rightarrow> u64 \<Rightarrow> u64 \<Rightarrow> spatial_stats \<Rightarrow> bool \<Rightarrow> string" where
  "show_spatial_trace cpu_thread kernel_id red all stats is_thread =
     (if is_thread then ''cpu_thread,'' @ int_to_string kernel_id @ newline @ rate_line red all
      else ''kernel_id,'' @ int_to_string kernel_id @ newline @ rate_line red all
        @ ''memory_op_id,cubin_id,function_index,pc_offset,value,data_type,vector_size,unit_size,''
        @ ''count,rate,norm_rate'' @ newline
        @ concat (map (\<lambda>e. concat (map (\<lambda>p. concat (map (spatial_row all (fst e)) (snd p))) (snd e))) stats))"

definition transform_spatial_statistics :: "symbol_vector \<Rightarrow> spatial_stats \<Rightarrow> spatial_stats" where
  "transform_spatial_statistics symbols stats =
     map (\<lambda>e. (fst e, map (\<lambda>p. (fst p, map (\<lambda>r. r\<lparr>rp_to := transform_real_pc symbols (rp_to r)\<rparr>) (snd p))) (snd e))) stats"

subsection \<open>Flushing a thread\<close>

definition spatial_flush_side ::
  "bool \<Rightarrow> u32 \<Rightarrow> u32 \<Rightarrow> symbol_vector \<Rightarrow> u32 \<Rightarrow> i32 \<Rightarrow> redshow_access_type \<Rightarrow> spatial_trace \<Rightarrow> pc_count \<Rightarrow> flush_state \<Rightarrow>
   (spatial_trace \<times> pc_count \<times> u64 \<times> spatial_stats \<times> flush_state) outcome" where
  "spatial_flush_side callback pc_limit mem_limit symbols cubin_id kernel_id type tr counts fs =
     fbind (record_spatial_trace pc_limit mem_limit tr counts (fl_views fs)) (\<lambda>(tr', counts', n, stats, buf, num).
       let views = transform_first symbols num buf
       in if \<not> callback then Inl NullDeref
          else Inr (tr', counts', n, transform_spatial_statistics symbols stats,
                    fs\<lparr>fl_views := views,
                       fl_calls := fl_calls fs @ [\<lparr>call_cubin_id = cubin_id, call_kernel_id = kernel_id,
                                                   call_access_type = type, call_views = take num views\<rparr>]\<rparr>))"

definition spatial_flush_kernel ::
  "bool \<Rightarrow> u32 \<Rightarrow> u32 \<Rightarrow> cubin_map \<Rightarrow> u32 \<Rightarrow> i32 \<times> spatial_kernel \<Rightarrow>
   flush_state \<times> (i32, spatial_kernel) omap \<Rightarrow> (flush_state \<times> (i32, spatial_kernel) omap) outcome" where
  "spatial_flush_kernel callback pc_limit mem_limit cubins cpu_thread kt fk =
     (let kernel_id = fst kt; k = snd kt
      in fbind (or_fault OutOfRange (map_at (<) cubins (sk_cubin_id k))) (\<lambda>c.
         fbind (or_fault OutOfRange (map_at (<) (cub_symbols c) (sk_mod_id k))) (\<lambda>symbols.
         fbind (spatial_flush_side callback pc_limit mem_limit symbols (sk_cubin_id k) kernel_id REDSHOW_ACCESS_READ
                  (sk_read_trace k) (sk_read_count k) (fst fk)) (\<lambda>(rtr, rc, rred, rstats, fs1).
         fbind (spatial_flush_side callback pc_limit mem_limit symbols (sk_cubin_id k) kernel_id REDSHOW_ACCESS_WRITE
                  (sk_write_trace k) (sk_write_count k) fs1) (\<lambda>(wtr, wc, wred, wstats, fs2).
         let n = sum_counts rc + sum_counts wc;
             show = (\<lambda>red stats. if mem_limit \<noteq> 0 \<and> stats \<noteq> [] then
                       show_spatial_trace cpu_thread kernel_id red n stats False else [])
         in Inr (fs2\<lparr>fl_count := fl_count fs2 + n, fl_read_red := fl_read_red fs2 + rred,
                     fl_write_red := fl_write_red fs2 + wred,
                     fl_read := fl_read fs2 @ show rred rstats, fl_write := fl_write fs2 @ show wred wstats\<rparr>,
                 map_set (<) (snd fk) kernel_id
                   (k\<lparr>sk_read_trace := rtr, sk_write_trace := wtr, sk_read_count := rc, sk_write_count := wc\<rparr>)))))))"

definition spatial_flush_thread ::
  "bool \<Rightarrow> u32 \<Rightarrow> u32 \<Rightarrow> cubin_map \<Rightarrow> u32 \<Rightarrow> string \<Rightarrow> spatial \<Rightarrow>
   (record_call list \<times> (string \<times> string) list \<times> spatial) outcome" where
  "spatial_flush_thread callback pc_limit mem_limit cubins cpu_thread output_dir s =
     fbind (or_fault OutOfRange (map_at (<) (sp_kernels s) cpu_thread)) (\<lambda>kernels.
     fbind (ffold (spatial_flush_kernel callback pc_limit mem_limit cubins cpu_thread) kernels (init_flush pc_limit, kernels))
       (\<lambda>(fs, kernels').
         let summary = (\<lambda>red. if mem_limit \<noteq> 0 \<and> fl_count fs \<noteq> 0 then
                                show_spatial_trace cpu_thread 0 red (fl_count fs) [] True else [])
         in Inr (fl_calls fs,
                 [(output_dir @ ''spatial_read_t'' @ u32_to_string cpu_thread @ ''.csv'', fl_read fs @ summary (fl_read_red fs)),
                  (output_dir @ ''spatial_write_t'' @ u32_to_string cpu_thread @ ''.csv'', fl_write fs @ summary (fl_write_red fs))],
                 s\<lparr>sp_kernels := map_set (<) (sp_kernels s) cpu_thread kernels'\<rparr>)))"

subsection \<open>The counts\<close>

text \<open>One access: its kind, memory object, program counter, value and flags.\<close>

type_synonym spatial_access = "access_kind \<times> u64 \<times> u64 \<times> u64 \<times> u32"

fun spatial_event :: "spatial_access \<Rightarrow> spatial_kernel \<Rightarrow> spatial_kernel" where
  "spatial_event (kind, mem, pc, v, flags) tr = spatial_kernel_access kind mem pc v flags tr"

fun same_access :: "u32 \<Rightarrow> u64 \<Rightarrow> access_kind \<Rightarrow> u64 \<Rightarrow> u64 \<Rightarrow> spatial_access \<Rightarrow> bool" where
  "same_access flag mem kind pc v (k, m, p, w, flags) = (has_flag flags flag \<and> m = mem \<and> k = kind \<and> p = pc \<and> w = v)"

definition spatial_side_ok :: "u32 \<Rightarrow> spatial_access list \<Rightarrow> spatial_trace \<Rightarrow> bool" where
  "spatial_side_ok flag es tr =
     (counts_ok value_kind_lt (<) (<) tr
      \<and> (\<forall>mem kind pc v. count_at value_kind_lt (<) (<) tr (mem, kind) pc v
            = of_nat (length (filter (same_access flag mem kind pc v) es))))"

lemma spatial_side_access:
  "spatial_side_ok flag es tr \<Longrightarrow> has_flag f flag \<Longrightarrow>
   spatial_side_ok flag (es @ [(k, m, p, w, f)]) (update_spatial_trace p w m k tr)"
  by (auto simp: spatial_side_ok_def update_spatial_trace_def spatial_counts.counts_ok_inc spatial_counts.count_at_inc)

lemma spatial_side_skip:
  "spatial_side_ok flag es tr \<Longrightarrow> \<not> has_flag f flag \<Longrightarrow> spatial_side_ok flag (es @ [(k, m, p, w, f)]) tr"
  by (simp add: spatial_side_ok_def)

lemma spatial_fold:
  assumes "spatial_side_ok GPU_PATCH_READ es (sk_read_trace tr)" "spatial_side_ok GPU_PATCH_WRITE es (sk_write_trace tr)"
  shows "spatial_side_ok GPU_PATCH_READ (es @ evs) (sk_read_trace (fold spatial_event evs tr))
    \<and> spatial_side_ok GPU_PATCH_WRITE (es @ evs) (sk_write_trace (fold spatial_event evs tr))"
  using assms
proof (induction evs arbitrary: es tr)
  case (Cons e evs)
  obtain k m p w f where e: "e = (k, m, p, w, f)" by (cases e)
  have "spatial_side_ok GPU_PATCH_READ (es @ [e]) (sk_read_trace (spatial_event e tr))"
    "spatial_side_ok GPU_PATCH_WRITE (es @ [e]) (sk_write_trace (spatial_event e tr))"
    using Cons.prems spatial_side_access spatial_side_skip by (auto simp: e spatial_kernel_access_def Let_def)
  from Cons.IH [OF this] show ?case by simp
qed simp

text \<open>
  C19. After any sequence of accesses of a kernel, the counter of a memory object, access kind, program counter and
  value is the number of such accesses, separately for reads and writes.
\<close>

theorem spatial_counts_history:
  fixes evs :: "spatial_access list" and cubin_id mod_id :: u32
  defines "tr \<equiv> fold spatial_event evs (new_spatial_kernel cubin_id mod_id)"
  shows "count_at value_kind_lt (<) (<) (sk_read_trace tr) (mem, kind) pc v
           = of_nat (length (filter (same_access GPU_PATCH_READ mem kind pc v) evs))
       \<and> count_at value_kind_lt (<) (<) (sk_write_trace tr) (mem, kind) pc v
           = of_nat (length (filter (same_access GPU_PATCH_WRITE mem kind pc v) evs))"
proof -
  have "spatial_side_ok flag [] []" for flag
    by (simp add: spatial_side_ok_def spatial_counts.counts_ok_Nil count_at_def map_touch_def)
  then show ?thesis
    using spatial_fold [of "[]" "new_spatial_kernel cubin_id mod_id" evs]
    by (simp add: tr_def new_spatial_kernel_def spatial_side_ok_def)
qed

subsection \<open>The count of the most frequent value\<close>

lemma scast_small:
  assumes "unat (m :: u32) < 2 ^ 31"
  shows "unat (scast m :: u64) = unat m"
proof -
  have u: "uint m < 2 ^ 31" using assms unfolding unat_eq_nat_uint by (simp only: nat_less_iff [OF uint_ge_0]) simp
  have "sint m = signed_take_bit 31 (uint m)" by (simp add: sint_uint)
  also have "\<dots> = uint m"
  proof (rule signed_take_bit_int_eq_self)
    show "- (2 ^ 31) \<le> uint m" by (rule order_trans [OF _ uint_ge_0]) simp
  qed (rule u)
  finally have s: "sint m = uint m" .
  have "(scast m :: u64) = word_of_int (sint m)" by simp
  then have "uint (scast m :: u64) = take_bit 64 (uint m)" unfolding s by (simp add: unsigned_ucast_eq)
  also have "\<dots> = uint m" using u by (intro take_bit_int_eq_self) simp_all
  finally have "uint (scast m :: u64) = uint m" .
  then show ?thesis unfolding unat_eq_nat_uint by (rule arg_cong)
qed
lemma ucast_small: "unat (n :: u64) < 2 ^ 31 \<Longrightarrow> unat (ucast n :: u32) = unat n"
  by (simp add: unsigned_ucast_eq take_bit_nat_eq_self)

lemma max_step_small:
  assumes "unat n < 2 ^ 31" "unat m < 2 ^ 31"
  shows "unat (max_step n m) = max (unat n) (unat m)"
  using scast_small [OF assms(2)] ucast_small [OF assms(1)] ucast_small [of "scast m :: u64"] assms
  by (auto simp: max_step_def Let_def word_less_nat_alt)

lemma max_count_fold:
  assumes "\<forall>e \<in> set vals. unat (snd e) < 2 ^ 31" "unat m < 2 ^ 31"
  shows "unat (fold (\<lambda>e m. max_step (snd e) m) vals m) = fold max (map (unat \<circ> snd) vals) (unat m)
    \<and> unat (fold (\<lambda>e m. max_step (snd e) m) vals m) < 2 ^ 31"
  using assms
proof (induction vals arbitrary: m)
  case (Cons e vals)
  have "unat (max_step (snd e) m) = max (unat (snd e)) (unat m)" using Cons.prems by (intro max_step_small) auto
  with Cons.IH [of "max_step (snd e) m"] Cons.prems show ?case by auto
qed simp

text \<open>
  C32. As long as every counter is below \<open>2 ^ 31\<close>, the redundancy count of a view is the count of its most
  frequent value; a count of \<open>2 ^ 32\<close> is cut to zero.
\<close>

theorem spatial_view_max:
  assumes "\<forall>e \<in> set vals. unat (snd e) < 2 ^ 31"
  shows "unat (rv_red_count (spatial_view counts mem (pc, vals))) = Max (insert 0 (set (map (unat \<circ> snd) vals)))"
proof -
  have "unat (max_count vals) = fold max (map (unat \<circ> snd) vals) 0" "unat (max_count vals) < 2 ^ 31"
    using max_count_fold [OF assms, of 0] by (simp_all add: max_count_def)
  with scast_small [of "max_count vals"] show ?thesis
    by (simp add: spatial_view_def Max.set_eq_fold [symmetric])
qed

theorem spatial_view_max_witness:
  "unat (rv_red_count (spatial_view [] 9 (0x10, [(1, 4), (2, 7), (3, 5)]))) = 7
   \<and> rv_red_count (spatial_view [] 9 (0x10, [(1, 2 ^ 32)])) = 0"
proof -
  have "unat (rv_red_count (spatial_view [] 9 (0x10, [(1, 4), (2, 7), (3, 5)]))) = 7"
    by (subst spatial_view_max) simp_all
  moreover have "rv_red_count (spatial_view [] 9 (0x10, [(1, 2 ^ 32)])) = 0"
    by (simp add: spatial_view_def max_count_def max_step_def)
  ultimately show ?thesis ..
qed

end
