(* ===== verification/Host_Memory.thy ===== *)
theory Host_Memory
  imports Operations
begin

section \<open>Byte loops over host memory\<close>

text \<open>
  The shadow copies of device objects live in host memory, a function from addresses to bytes.
  \<^verbatim>\<open>compute_memcpy_redundancy<update>\<close> (\<^verbatim>\<open>operation/memcpy.cpp\<close>) compares two areas byte by
  byte, and with \<^verbatim>\<open>update\<close> overwrites the first with the second;
  \<^verbatim>\<open>compute_memset_redundancy\<close> (\<^verbatim>\<open>operation/memset.cpp\<close>) counts the bytes that hold a value already;
  \<^verbatim>\<open>memory_copy\<close> (\<^verbatim>\<open>common/utils.cpp\<close>) and \<^verbatim>\<open>memset\<close> write. The loops are the ones of a build
  without \<^verbatim>\<open>OPENMP\<close>.
\<close>

type_synonym host = "u64 \<Rightarrow> u8"

text \<open>
  \<^verbatim>\<open>same += 1\<close> on a \<^verbatim>\<open>double\<close>: exact below \<open>2 ^ 53\<close>; from there on the sum rounds back.
\<close>

definition double_inc :: "nat \<Rightarrow> nat" where
  "double_inc n = (if n < 2 ^ 53 then Suc n else n)"

fun memcpy_redundancy_loop :: "bool \<Rightarrow> u64 \<Rightarrow> u64 \<Rightarrow> nat \<Rightarrow> nat \<Rightarrow> host \<Rightarrow> nat \<times> host" where
  "memcpy_redundancy_loop upd dst src 0 same h = (same, h)"
| "memcpy_redundancy_loop upd dst src (Suc n) same h =
     (if h dst = h src then memcpy_redundancy_loop upd (dst + 1) (src + 1) n (double_inc same) h
      else memcpy_redundancy_loop upd (dst + 1) (src + 1) n same (if upd then h(dst := h src) else h))"

definition compute_memcpy_redundancy :: "bool \<Rightarrow> u64 \<Rightarrow> u64 \<Rightarrow> u64 \<Rightarrow> host \<Rightarrow> u64 \<times> host" where
  "compute_memcpy_redundancy upd dst src len h =
     (case memcpy_redundancy_loop upd dst src (unat len) 0 h of (same, h') \<Rightarrow> (of_nat same, h'))"

fun memset_redundancy_loop :: "u64 \<Rightarrow> u8 \<Rightarrow> nat \<Rightarrow> u64 \<Rightarrow> host \<Rightarrow> u64" where
  "memset_redundancy_loop start v 0 same h = same"
| "memset_redundancy_loop start v (Suc n) same h =
     memset_redundancy_loop (start + 1) v n (if h start = v then same + 1 else same) h"

definition compute_memset_redundancy :: "u64 \<Rightarrow> u32 \<Rightarrow> u64 \<Rightarrow> host \<Rightarrow> u64" where
  "compute_memset_redundancy start v len h = memset_redundancy_loop start (ucast v) (unat len) 0 h"

fun host_copy :: "u64 \<Rightarrow> u64 \<Rightarrow> nat \<Rightarrow> host \<Rightarrow> host" where
  "host_copy dst src 0 h = h"
| "host_copy dst src (Suc n) h = host_copy (dst + 1) (src + 1) n (h(dst := h src))"

definition memory_copy :: "u64 \<Rightarrow> u64 \<Rightarrow> u64 \<Rightarrow> host \<Rightarrow> host" where
  "memory_copy dst src len h = host_copy dst src (unat len) h"

fun host_fill :: "u64 \<Rightarrow> u8 \<Rightarrow> nat \<Rightarrow> host \<Rightarrow> host" where
  "host_fill start v 0 h = h"
| "host_fill start v (Suc n) h = host_fill (start + 1) v n (h(start := v))"

subsection \<open>The area a loop runs over\<close>

definition area :: "u64 \<Rightarrow> nat \<Rightarrow> u64 set" where
  "area a n = (\<lambda>i. a + of_nat i) ` {..<n}"

lemma area_0 [simp]: "area a 0 = {}"
  by (simp add: area_def)

lemma area_Suc: "area a (Suc n) = insert a (area (a + 1) n)"
  by (auto simp: area_def lessThan_Suc_eq_insert_0 image_iff algebra_simps)

lemma of_nat_u64_inj: "i < 2 ^ 64 \<Longrightarrow> j < 2 ^ 64 \<Longrightarrow> (of_nat i :: u64) = of_nat j \<longleftrightarrow> i = j"
  by (simp add: word_of_nat_eq_iff take_bit_nat_eq_self)

lemma area_first_notin:
  assumes "Suc n \<le> 2 ^ 64"
  shows "a \<notin> area (a + 1) n"
proof
  assume "a \<in> area (a + 1) n"
  then obtain i where "i < n" "a = a + 1 + of_nat i" by (auto simp: area_def)
  then have "1 + of_nat i = (0 :: u64)" by (simp add: add.assoc)
  then have "(of_nat (Suc i) :: u64) = of_nat 0" by simp
  with \<open>i < n\<close> assms show False by (subst (asm) of_nat_u64_inj) auto
qed

lemma unat_len_area: "unat (len :: u64) \<le> 2 ^ 64"
  using unsigned_less [of len, where ?'a = nat] by simp

subsection \<open>Without update: the loop counts equal bytes and writes nothing\<close>

definition equal_bytes :: "u64 \<Rightarrow> u64 \<Rightarrow> nat \<Rightarrow> host \<Rightarrow> nat" where
  "equal_bytes dst src n h = card {i. i < n \<and> h (dst + of_nat i) = h (src + of_nat i)}"

lemma equal_bytes_Suc:
  "equal_bytes dst src (Suc n) h =
     (if h dst = h src then Suc (equal_bytes (dst + 1) (src + 1) n h) else equal_bytes (dst + 1) (src + 1) n h)"
proof -
  let ?S = "{i. i < n \<and> h (dst + 1 + of_nat i) = h (src + 1 + of_nat i)}"
  have "{i. i < Suc n \<and> h (dst + of_nat i) = h (src + of_nat i)} =
      (if h dst = h src then insert 0 (Suc ` ?S) else Suc ` ?S)"
    by (auto simp: image_iff less_Suc_eq_0_disj algebra_simps)
  moreover have "card (insert 0 (Suc ` ?S)) = Suc (card ?S)" and "card (Suc ` ?S) = card ?S"
    by (simp_all add: card_image)
  ultimately show ?thesis by (simp add: equal_bytes_def)
qed

lemma equal_bytes_cong:
  "(\<And>a. a \<in> area dst n \<union> area src n \<Longrightarrow> h a = g a) \<Longrightarrow> equal_bytes dst src n h = equal_bytes dst src n g"
  unfolding equal_bytes_def by (rule arg_cong [where f = card]) (auto simp: area_def)

lemma equal_bytes_le: "equal_bytes dst src n h \<le> n"
  unfolding equal_bytes_def by (rule order_trans [OF card_mono [of "{..<n}"]]) auto

lemma memcpy_redundancy_loop_count:
  "same + n \<le> 2 ^ 53 \<Longrightarrow>
   memcpy_redundancy_loop False dst src n same h = (same + equal_bytes dst src n h, h)"
  by (induction n arbitrary: dst src same) (auto simp: double_inc_def equal_bytes_Suc, simp add: equal_bytes_def)

text \<open>With update, on areas that do not overlap: the count is the same, and the first area becomes the second.\<close>

lemma memcpy_redundancy_loop_update:
  assumes "same + n \<le> 2 ^ 53" and "area dst n \<inter> area src n = {}"
  shows "fst (memcpy_redundancy_loop True dst src n same h) = same + equal_bytes dst src n h
     \<and> snd (memcpy_redundancy_loop True dst src n same h) = host_copy dst src n h"
  using assms
proof (induction n arbitrary: dst src same h)
  case 0
  then show ?case by (simp add: equal_bytes_def)
next
  case (Suc n)
  have dj: "area (dst + 1) n \<inter> area (src + 1) n = {}" and d: "dst \<notin> area (src + 1) n"
    using Suc.prems(2) by (auto simp: area_Suc)
  have notin: "dst \<notin> area (dst + 1) n"
    using Suc.prems(1) by (intro area_first_notin) simp
  have eq: "equal_bytes (dst + 1) (src + 1) n (h(dst := h src)) = equal_bytes (dst + 1) (src + 1) n h"
    using d notin by (intro equal_bytes_cong) auto
  show ?case
  proof (cases "h dst = h src")
    case True
    then have "h(dst := h src) = h" by auto
    with True Suc.IH [OF _ dj, of "double_inc same" h] Suc.prems(1) show ?thesis
      by (simp add: equal_bytes_Suc double_inc_def)
  next
    case False
    have "same + n \<le> 2 ^ 53" using Suc.prems(1) by simp
    note ih = Suc.IH [OF this dj, of "h(dst := h src)"]
    from False ih show ?thesis unfolding eq by (simp only: equal_bytes_Suc memcpy_redundancy_loop.simps
        host_copy.simps if_False if_True)
  qed
qed

lemma host_copy_outside: "a \<notin> area dst n \<Longrightarrow> host_copy dst src n h a = h a"
  by (induction n arbitrary: dst src h) (auto simp: area_Suc)

lemma host_copy_inside:
  assumes "n \<le> 2 ^ 64" and "area dst n \<inter> area src n = {}" and "i < n"
  shows "host_copy dst src n h (dst + of_nat i) = h (src + of_nat i)"
  using assms
proof (induction n arbitrary: dst src h i)
  case (Suc n)
  have dj: "area (dst + 1) n \<inter> area (src + 1) n = {}" and d: "dst \<notin> area (src + 1) n"
    using Suc.prems(2) by (auto simp: area_Suc)
  have notin: "dst \<notin> area (dst + 1) n" using Suc.prems(1) by (rule area_first_notin)
  show ?case
  proof (cases i)
    case 0
    with notin show ?thesis by (simp add: host_copy_outside)
  next
    case (Suc j)
    have "j < n" using Suc Suc.prems(3) by simp
    then have "src + 1 + of_nat j \<in> area (src + 1) n" by (auto simp: area_def)
    with d have "src + 1 + of_nat j \<noteq> dst" by blast
    moreover have "host_copy (dst + 1) (src + 1) n (h(dst := h src)) (dst + 1 + of_nat j) =
        (h(dst := h src)) (src + 1 + of_nat j)"
      using Suc.IH [OF _ dj \<open>j < n\<close>] Suc.prems(1) by simp
    ultimately show ?thesis using Suc by (simp add: algebra_simps)
  qed
qed simp

lemma host_fill_at:
  "n \<le> 2 ^ 64 \<Longrightarrow> host_fill start v n h a = (if a \<in> area start n then v else h a)"
proof (induction n arbitrary: start h)
  case (Suc n)
  then show ?case using area_first_notin [of n start] by (auto simp: area_Suc)
qed simp

lemma unat_of_nat_u64: "n < 2 ^ 64 \<Longrightarrow> unat (of_nat n :: u64) = n"
  by (simp add: unat_of_nat)

text \<open>
  C22. \<^verbatim>\<open>compute_memcpy_redundancy<true>\<close> on areas that do not overlap, up to \<open>2 ^ 53\<close> bytes long: the
  result is the number of bytes that were equal before the call, the first area afterwards holds
  the bytes of the second, and no other byte of the host changes.
\<close>

theorem compute_memcpy_redundancy_update:
  assumes "unat len \<le> 2 ^ 53" and "area dst (unat len) \<inter> area src (unat len) = {}"
    and "compute_memcpy_redundancy True dst src len h = (n, h')"
  shows "unat n = equal_bytes dst src (unat len) h
     \<and> (\<forall>i < unat len. h' (dst + of_nat i) = h (src + of_nat i))
     \<and> (\<forall>a. a \<notin> area dst (unat len) \<longrightarrow> h' a = h a)"
proof -
  from memcpy_redundancy_loop_update [of 0 "unat len" dst src h] assms
  have n: "n = of_nat (equal_bytes dst src (unat len) h)" and h': "h' = host_copy dst src (unat len) h"
    by (auto simp: compute_memcpy_redundancy_def split: prod.splits)
  have "equal_bytes dst src (unat len) h < 2 ^ 64"
    using equal_bytes_le [of dst src "unat len" h] assms(1) by (simp add: le_less_trans)
  with n h' show ?thesis
    using host_copy_inside [OF _ assms(2)] host_copy_outside assms(1) by (simp add: unat_of_nat_u64)
qed

theorem compute_memcpy_redundancy_update_witness:
  "\<exists>n h'. compute_memcpy_redundancy True 100 200 3 (\<lambda>a. if a = 100 then 1 else if a = 201 then 1 else 0) = (n, h')
     \<and> unat n = equal_bytes 100 200 3 (\<lambda>a. if a = 100 then 1 else if a = 201 then 1 else 0)
     \<and> h' 101 = 1"
proof -
  let ?h = "\<lambda>a :: u64. if a = 100 then 1 else if a = 201 then 1 else 0 :: u8"
  obtain n h' where r: "compute_memcpy_redundancy True 100 200 3 ?h = (n, h')"
    by (cases "compute_memcpy_redundancy True 100 200 3 ?h")
  have len: "unat (3 :: u64) = 3" by simp
  have dj: "area 100 3 \<inter> area 200 3 = {}"
    by (simp add: area_def numeral_3_eq_3 lessThan_Suc)
  have "unat (3 :: u64) \<le> 2 ^ 53" by simp
  note u = compute_memcpy_redundancy_update [OF this _ r, unfolded len, OF dj]
  have "h' (100 + of_nat 1) = ?h (200 + of_nat 1)"
    by (rule u [THEN conjunct2, THEN conjunct1, rule_format]) simp
  then have "h' 101 = 1" by simp
  with u [THEN conjunct1] r show ?thesis by blast
qed

text \<open>
  Without update the loop writes nothing and returns the number of equal bytes.
\<close>

lemma compute_memcpy_redundancy_count:
  assumes "unat len \<le> 2 ^ 53"
  shows "compute_memcpy_redundancy False dst src len h = (of_nat (equal_bytes dst src (unat len) h), h)"
  using assms by (simp add: compute_memcpy_redundancy_def memcpy_redundancy_loop_count)

lemma memset_redundancy_loop_count:
  "memset_redundancy_loop start v n same h = same + of_nat (card {i. i < n \<and> h (start + of_nat i) = v})"
proof (induction n arbitrary: start same)
  case (Suc n)
  let ?S = "{i. i < n \<and> h (start + 1 + of_nat i) = v}"
  have "{i. i < Suc n \<and> h (start + of_nat i) = v} = (if h start = v then insert 0 (Suc ` ?S) else Suc ` ?S)"
    by (auto simp: image_iff less_Suc_eq_0_disj algebra_simps)
  moreover have "card (insert 0 (Suc ` ?S)) = Suc (card ?S)" and "card (Suc ` ?S) = card ?S"
    by (simp_all add: card_image)
  ultimately show ?case using Suc.IH by simp
qed simp

text \<open>
  After \<^verbatim>\<open>memset\<close> of an area every byte of it is redundant for the same value: the count is the
  whole length.
\<close>

lemma memset_then_all_redundant:
  "compute_memset_redundancy start v len (host_fill start (ucast v) (unat len) h) = len"
proof -
  have "{i. i < unat len \<and> host_fill start (ucast v) (unat len) h (start + of_nat i) = ucast v} = {..<unat len}"
    by (auto simp: host_fill_at [OF unat_len_area] area_def)
  then show ?thesis by (simp add: compute_memset_redundancy_def memset_redundancy_loop_count)
qed

end
