(* ===== verification/Sha256.thy ===== *)
theory Sha256
  imports Host_Memory
begin

section \<open>The hash of a memory object\<close>

text \<open>
  \<^verbatim>\<open>redshow/src/common/hash.cpp\<close>: the class \<^verbatim>\<open>SHA256\<close> with its macros, \<^verbatim>\<open>transform\<close>, \<^verbatim>\<open>init\<close>,
  \<^verbatim>\<open>update\<close> and \<^verbatim>\<open>final\<close>, the function \<^verbatim>\<open>sha256\<close>, and \<^verbatim>\<open>compute_memory_hash\<close>
  (\<^verbatim>\<open>operation/memory.cpp\<close>). Lengths are the code's 32-bit unsigned integers. The index
  computation \<^verbatim>\<open>i << 6\<close> of \<^verbatim>\<open>transform\<close> is on a signed \<^verbatim>\<open>int\<close>: from \<open>2 ^ 25\<close> blocks
  on it leaves the buffer, which is a fault of the model. The specification is FIPS 180-2: padding with a
  64-bit length, the message schedule as a recursive function, rotations as rotations. The class
  implements it, for any division of the message into calls of \<^verbatim>\<open>update\<close>, as long as the length in bits fits
  the 32 bits that \<^verbatim>\<open>final\<close> writes.
\<close>

subsection \<open>Macros and constants\<close>

definition SHA2_SHFR :: "u32 \<Rightarrow> nat \<Rightarrow> u32" where
  "SHA2_SHFR x n = drop_bit n x"

definition SHA2_ROTR :: "u32 \<Rightarrow> nat \<Rightarrow> u32" where
  "SHA2_ROTR x n = drop_bit n x OR push_bit (32 - n) x"

definition SHA2_CH :: "u32 \<Rightarrow> u32 \<Rightarrow> u32 \<Rightarrow> u32" where
  "SHA2_CH x y z = (x AND y) XOR (NOT x AND z)"

definition SHA2_MAJ :: "u32 \<Rightarrow> u32 \<Rightarrow> u32 \<Rightarrow> u32" where
  "SHA2_MAJ x y z = ((x AND y) XOR (x AND z)) XOR (y AND z)"

definition SHA256_F1 :: "u32 \<Rightarrow> u32" where
  "SHA256_F1 x = (SHA2_ROTR x 2 XOR SHA2_ROTR x 13) XOR SHA2_ROTR x 22"

definition SHA256_F2 :: "u32 \<Rightarrow> u32" where
  "SHA256_F2 x = (SHA2_ROTR x 6 XOR SHA2_ROTR x 11) XOR SHA2_ROTR x 25"

definition SHA256_F3 :: "u32 \<Rightarrow> u32" where
  "SHA256_F3 x = (SHA2_ROTR x 7 XOR SHA2_ROTR x 18) XOR SHA2_SHFR x 3"

definition SHA256_F4 :: "u32 \<Rightarrow> u32" where
  "SHA256_F4 x = (SHA2_ROTR x 17 XOR SHA2_ROTR x 19) XOR SHA2_SHFR x 10"

definition SHA2_UNPACK32 :: "u32 \<Rightarrow> u8 list" where
  "SHA2_UNPACK32 x =
     [ucast (drop_bit 24 x), ucast (drop_bit 16 x), ucast (drop_bit 8 x), ucast x]"

definition SHA2_PACK32 :: "u8 list \<Rightarrow> nat \<Rightarrow> u32" where
  "SHA2_PACK32 str i =
     ((ucast (str ! (i + 3)) OR push_bit 8 (ucast (str ! (i + 2))))
       OR push_bit 16 (ucast (str ! (i + 1)))) OR push_bit 24 (ucast (str ! i))"

definition sha256_k :: "u32 list" where
  "sha256_k = concat
     [[0x428a2f98, 0x71374491, 0xb5c0fbcf, 0xe9b5dba5, 0x3956c25b, 0x59f111f1, 0x923f82a4],
      [0xab1c5ed5, 0xd807aa98, 0x12835b01, 0x243185be, 0x550c7dc3, 0x72be5d74, 0x80deb1fe],
      [0x9bdc06a7, 0xc19bf174, 0xe49b69c1, 0xefbe4786, 0x0fc19dc6, 0x240ca1cc, 0x2de92c6f],
      [0x4a7484aa, 0x5cb0a9dc, 0x76f988da, 0x983e5152, 0xa831c66d, 0xb00327c8, 0xbf597fc7],
      [0xc6e00bf3, 0xd5a79147, 0x06ca6351, 0x14292967, 0x27b70a85, 0x2e1b2138, 0x4d2c6dfc],
      [0x53380d13, 0x650a7354, 0x766a0abb, 0x81c2c92e, 0x92722c85, 0xa2bfe8a1, 0xa81a664b],
      [0xc24b8b70, 0xc76c51a3, 0xd192e819, 0xd6990624, 0xf40e3585, 0x106aa070, 0x19a4c116],
      [0x1e376c08, 0x2748774c, 0x34b0bcb5, 0x391c0cb3, 0x4ed8aa4a, 0x5b9cca4f, 0x682e6ff3],
      [0x748f82ee, 0x78a5636f, 0x84c87814, 0x8cc70208, 0x90befffa, 0xa4506ceb, 0xbef9a3f7],
      [0xc67178f2]]"

subsection \<open>The class\<close>

text \<open>The eight words \<^verbatim>\<open>m_h[0..7]\<close>, and the working variables \<^verbatim>\<open>wv[0..7]\<close>.\<close>

type_synonym sha_words = "u32 \<times> u32 \<times> u32 \<times> u32 \<times> u32 \<times> u32 \<times> u32 \<times> u32"

record sha256_ctx =
  m_tot_len :: u32
  m_len :: u32
  m_block :: "u8 list"
  m_h :: sha_words

definition sha256_schedule :: "u8 list \<Rightarrow> u32 list" where
  "sha256_schedule sub_block =
     foldl (\<lambda>w j. w @ [SHA256_F4 (w ! (j - 2)) + w ! (j - 7) + SHA256_F3 (w ! (j - 15)) + w ! (j - 16)])
       (map (\<lambda>j. SHA2_PACK32 sub_block (4 * j)) [0..<16]) [16..<64]"

fun sha256_round :: "sha_words \<Rightarrow> u32 \<times> u32 \<Rightarrow> sha_words" where
  "sha256_round (v0, v1, v2, v3, v4, v5, v6, v7) (k, w) =
     (let t1 = v7 + SHA256_F2 v4 + SHA2_CH v4 v5 v6 + k + w;
          t2 = SHA256_F1 v0 + SHA2_MAJ v0 v1 v2
      in (t1 + t2, v0, v1, v2, v3 + t1, v4, v5, v6))"

fun sha_words_add :: "sha_words \<Rightarrow> sha_words \<Rightarrow> sha_words" where
  "sha_words_add (a0, a1, a2, a3, a4, a5, a6, a7) (b0, b1, b2, b3, b4, b5, b6, b7) =
     (a0 + b0, a1 + b1, a2 + b2, a3 + b3, a4 + b4, a5 + b5, a6 + b6, a7 + b7)"

definition transform_block :: "sha_words \<Rightarrow> u8 list \<Rightarrow> sha_words" where
  "transform_block h sub_block =
     sha_words_add h (foldl sha256_round h (zip sha256_k (sha256_schedule sub_block)))"

fun transform_blocks :: "u8 list \<Rightarrow> nat \<Rightarrow> sha_words \<Rightarrow> sha_words" where
  "transform_blocks message 0 h = h"
| "transform_blocks message (Suc n) h =
     transform_block (transform_blocks message n h) (take 64 (drop (64 * n) message))"

definition sha256_transform :: "u8 list \<Rightarrow> nat \<Rightarrow> sha_words \<Rightarrow> sha_words outcome" where
  "sha256_transform message block_nb h =
     (if block_nb > 2 ^ 25 then Inl OutOfRange else Inr (transform_blocks message block_nb h))"

definition sha256_init :: "sha256_ctx \<Rightarrow> sha256_ctx" where
  "sha256_init c =
     c\<lparr>m_h := (0x6a09e667, 0xbb67ae85, 0x3c6ef372, 0xa54ff53a, 0x510e527f, 0x9b05688c, 0x1f83d9ab, 0x5be0cd19),
       m_len := 0, m_tot_len := 0\<rparr>"

text \<open>\<^verbatim>\<open>memcpy\<close> and \<^verbatim>\<open>memset\<close> into \<^verbatim>\<open>m_block\<close>.\<close>

definition block_write :: "u8 list \<Rightarrow> nat \<Rightarrow> u8 list \<Rightarrow> u8 list" where
  "block_write blk off bytes = take off blk @ bytes @ drop (off + length bytes) blk"

definition sha256_update :: "u8 list \<Rightarrow> sha256_ctx \<Rightarrow> sha256_ctx outcome" where
  "sha256_update message c =
     (let len = of_nat (length message) :: u32;
          tmp_len = 64 - m_len c;
          rem_len = (if len < tmp_len then len else tmp_len);
          blk = block_write (m_block c) (unat (m_len c)) (take (unat rem_len) message)
      in if m_len c + len < 64 then Inr (c\<lparr>m_block := blk, m_len := m_len c + len\<rparr>)
         else let new_len = len - rem_len;
                  block_nb = new_len div 64;
                  shifted_message = drop (unat rem_len) message;
                  rem_len' = new_len mod 64
              in fbind (sha256_transform blk 1 (m_h c)) (\<lambda>h1.
                 fbind (sha256_transform shifted_message (unat block_nb) h1) (\<lambda>h2.
                   Inr (c\<lparr>m_h := h2,
                          m_block := block_write blk 0
                            (take (unat rem_len') (drop (unat (push_bit 6 block_nb)) shifted_message)),
                          m_len := rem_len',
                          m_tot_len := m_tot_len c + push_bit 6 (block_nb + 1)\<rparr>))))"

fun sha_words_bytes :: "sha_words \<Rightarrow> u8 list" where
  "sha_words_bytes (a0, a1, a2, a3, a4, a5, a6, a7) =
     concat (map SHA2_UNPACK32 [a0, a1, a2, a3, a4, a5, a6, a7])"

definition sha256_final :: "sha256_ctx \<Rightarrow> u8 list outcome" where
  "sha256_final c =
     (let block_nb = (if 55 < m_len c mod 64 then 2 else 1) :: u32;
          len_b = push_bit 3 (m_tot_len c + m_len c);
          pm_len = push_bit 6 block_nb;
          blk0 = block_write (m_block c) (unat (m_len c)) (replicate (unat (pm_len - m_len c)) 0);
          blk1 = block_write blk0 (unat (m_len c)) [0x80];
          blk2 = block_write blk1 (unat (pm_len - 4)) (SHA2_UNPACK32 len_b)
      in fbind (sha256_transform blk2 (unat block_nb) (m_h c)) (\<lambda>h. Inr (sha_words_bytes h)))"

text \<open>\<^verbatim>\<open>SHA256()\<close> zeroes the object; \<^verbatim>\<open>sprintf("%02x")\<close> prints each byte of the digest.\<close>

definition sha256_new :: sha256_ctx where
  "sha256_new = \<lparr>m_tot_len = 0, m_len = 0, m_block = replicate 128 0, m_h = (0, 0, 0, 0, 0, 0, 0, 0)\<rparr>"

definition hex_digit :: "nat \<Rightarrow> char" where
  "hex_digit n = ''0123456789abcdef'' ! n"

definition hex_bytes :: "u8 list \<Rightarrow> string" where
  "hex_bytes bs = concat (map (\<lambda>b. [hex_digit (unat b div 16), hex_digit (unat b mod 16)]) bs)"

definition sha256 :: "u8 list \<Rightarrow> string outcome" where
  "sha256 input =
     fbind (sha256_update input (sha256_init sha256_new)) (\<lambda>c.
     fbind (sha256_final c) (\<lambda>digest. Inr (hex_bytes digest)))"

text \<open>The bytes of an area of host memory; \<^verbatim>\<open>sha256\<close> takes the length as a 32-bit integer.\<close>

definition host_bytes :: "host \<Rightarrow> u64 \<Rightarrow> nat \<Rightarrow> u8 list" where
  "host_bytes h start n = map (\<lambda>i. h (start + of_nat i)) [0..<n]"

definition compute_memory_hash :: "host \<Rightarrow> u64 \<Rightarrow> u64 \<Rightarrow> string outcome" where
  "compute_memory_hash h start len = sha256 (host_bytes h start (unat (ucast len :: u32)))"

subsection \<open>FIPS 180-2\<close>

definition fips_sigma0 :: "u32 \<Rightarrow> u32" where
  "fips_sigma0 x = word_rotr 7 x XOR word_rotr 18 x XOR drop_bit 3 x"

definition fips_sigma1 :: "u32 \<Rightarrow> u32" where
  "fips_sigma1 x = word_rotr 17 x XOR word_rotr 19 x XOR drop_bit 10 x"

definition fips_Sigma0 :: "u32 \<Rightarrow> u32" where
  "fips_Sigma0 x = word_rotr 2 x XOR word_rotr 13 x XOR word_rotr 22 x"

definition fips_Sigma1 :: "u32 \<Rightarrow> u32" where
  "fips_Sigma1 x = word_rotr 6 x XOR word_rotr 11 x XOR word_rotr 25 x"

definition big_endian :: "u8 list \<Rightarrow> u32" where
  "big_endian bs = foldl (\<lambda>a b. 256 * a + ucast b) 0 bs"

fun fips_W :: "u8 list \<Rightarrow> nat \<Rightarrow> u32" where
  "fips_W blk t =
     (if t < 16 then big_endian [blk ! (4 * t), blk ! (4 * t + 1), blk ! (4 * t + 2), blk ! (4 * t + 3)]
      else fips_sigma1 (fips_W blk (t - 2)) + fips_W blk (t - 7) + fips_sigma0 (fips_W blk (t - 15)) + fips_W blk (t - 16))"

declare fips_W.simps [simp del]

fun fips_round :: "u8 list \<Rightarrow> nat \<Rightarrow> sha_words \<Rightarrow> sha_words" where
  "fips_round blk t (a, b, c, d, e, f, g, h) =
     (let T1 = h + fips_Sigma1 e + ((e AND f) XOR (NOT e AND g)) + sha256_k ! t + fips_W blk t;
          T2 = fips_Sigma0 a + ((a AND b) XOR (a AND c) XOR (b AND c))
      in (T1 + T2, a, b, c, d + T1, e, f, g))"

definition fips_block :: "sha_words \<Rightarrow> u8 list \<Rightarrow> sha_words" where
  "fips_block h blk = sha_words_add h (fold (fips_round blk) [0..<64] h)"

text \<open>One \<open>1\<close> bit, the fewest zeros that complete a block, and the length in bits as 64 bits.\<close>

definition fips_pad :: "u8 list \<Rightarrow> u8 list" where
  "fips_pad msg = msg @ [0x80] @ replicate ((119 - length msg mod 64) mod 64) 0
     @ map (\<lambda>i. of_nat (8 * length msg div 256 ^ i)) (rev [0..<8])"

fun fips_blocks :: "u8 list \<Rightarrow> sha_words \<Rightarrow> nat \<Rightarrow> sha_words" where
  "fips_blocks msg h 0 = h"
| "fips_blocks msg h (Suc n) = fips_blocks (drop 64 msg) (fips_block h (take 64 msg)) n"

definition fips_H0 :: sha_words where
  "fips_H0 = (0x6a09e667, 0xbb67ae85, 0x3c6ef372, 0xa54ff53a, 0x510e527f, 0x9b05688c, 0x1f83d9ab, 0x5be0cd19)"

definition fips_sha256 :: "u8 list \<Rightarrow> u8 list" where
  "fips_sha256 msg = sha_words_bytes (fips_blocks (fips_pad msg) fips_H0 (length (fips_pad msg) div 64))"

subsection \<open>The compression function\<close>


lemma SHA2_ROTR_rotr:
  assumes n: "0 < n" "n < 32"
  shows "SHA2_ROTR x n = word_rotr n x"
proof (rule bit_word_eqI)
  fix i assume i: "i < LENGTH(32)"
  show "bit (SHA2_ROTR x n) i = bit (word_rotr n x) i"
  proof (cases "i + n < 32")
    case True
    then show ?thesis using n i
      by (auto simp: SHA2_ROTR_def bit_simps add.commute)
  next
    case False
    then have "(i + n) mod 32 = i + n - 32" using n i by (simp add: mod_if)
    moreover have "i - (32 - n) = i + n - 32" using False n by simp
    ultimately show ?thesis using n i False
      by (auto simp: SHA2_ROTR_def bit_simps dest: bit_imp_le_length)
  qed
qed

lemma SHA2_PACK32_big_endian:
  "SHA2_PACK32 str i = big_endian [str ! i, str ! (i + 1), str ! (i + 2), str ! (i + 3)]"
proof -
  have *: "((ucast b OR push_bit 8 (ucast c)) OR push_bit 16 (ucast d)) OR push_bit 24 (ucast a)
      = (ucast b + push_bit 8 (ucast c) + push_bit 16 (ucast d) + push_bit 24 (ucast a) :: u32)" for a b c d :: u8
  proof -
    have 1: "ucast b + push_bit 8 (ucast c) = (ucast b OR push_bit 8 (ucast c) :: u32)"
      by (rule disjunctive_add_eq_or, rule bit_word_eqI) (auto simp: bit_simps dest: bit_imp_le_length)
    have 2: "(ucast b OR push_bit 8 (ucast c)) + push_bit 16 (ucast d)
        = ((ucast b OR push_bit 8 (ucast c)) OR push_bit 16 (ucast d) :: u32)"
      by (rule disjunctive_add_eq_or, rule bit_word_eqI) (auto simp: bit_simps dest: bit_imp_le_length)
    have 3: "((ucast b OR push_bit 8 (ucast c)) OR push_bit 16 (ucast d)) + push_bit 24 (ucast a)
        = (((ucast b OR push_bit 8 (ucast c)) OR push_bit 16 (ucast d)) OR push_bit 24 (ucast a) :: u32)"
      by (rule disjunctive_add_eq_or, rule bit_word_eqI) (auto simp: bit_simps dest: bit_imp_le_length)
    show ?thesis by (simp only: 1 2 3)
  qed
  show ?thesis
    unfolding SHA2_PACK32_def *
    by (simp add: big_endian_def push_bit_eq_mult distrib_left)
qed

lemma ucast_drop_bit_of_nat:
  assumes "n < 2 ^ 32"
  shows "(ucast (drop_bit k (of_nat n :: u32)) :: u8) = of_nat (n div 2 ^ k)"
proof -
  have "unat (of_nat n :: u32) = n" using assms by (simp add: unat_of_nat)
  then have "unat (drop_bit k (of_nat n :: u32)) = n div 2 ^ k"
    by (simp only: unat_drop_bit_eq) (simp add: drop_bit_eq_div)
  then show ?thesis
    by (metis of_nat_unat)
qed

lemma SHA2_UNPACK32_of_nat: 
  assumes "n < 2 ^ 32" 
  shows "SHA2_UNPACK32 (of_nat n) = map (\<lambda>i. of_nat (n div 256 ^ i)) (rev [0..<4])"
  using ucast_drop_bit_of_nat [OF assms, of 24] ucast_drop_bit_of_nat [OF assms, of 16]
    ucast_drop_bit_of_nat [OF assms, of 8] ucast_drop_bit_of_nat [OF assms, of 0]
  by (simp add: SHA2_UNPACK32_def upt_conv_Cons)

lemma sha_macros:
  "SHA256_F1 = fips_Sigma0" "SHA256_F2 = fips_Sigma1" "SHA256_F3 = fips_sigma0" "SHA256_F4 = fips_sigma1"
  by (simp_all add: fun_eq_iff SHA256_F1_def SHA256_F2_def SHA256_F3_def SHA256_F4_def SHA2_ROTR_rotr SHA2_SHFR_def
      fips_Sigma0_def fips_Sigma1_def fips_sigma0_def fips_sigma1_def xor.assoc)

lemma schedule_prefix:
  "foldl (\<lambda>w j. w @ [SHA256_F4 (w ! (j - 2)) + w ! (j - 7) + SHA256_F3 (w ! (j - 15)) + w ! (j - 16)])
     (map (\<lambda>j. SHA2_PACK32 blk (4 * j)) [0..<16]) [16..<16 + k] = map (fips_W blk) [0..<16 + k]"
proof (induction k)
  case 0
  have "map (\<lambda>j. SHA2_PACK32 blk (4 * j)) [0..<16] = map (fips_W blk) [0..<16]"
    by (rule map_cong [OF refl]) (auto simp: SHA2_PACK32_big_endian fips_W.simps [of blk])
  then show ?case by simp
next
  case (Suc k)
  have "[16..<16 + Suc k] = [16..<16 + k] @ [16 + k]" and "[0..<16 + Suc k] = [0..<16 + k] @ [16 + k]"
    using upt_Suc_append [of 16 "16 + k"] upt_Suc_append [of 0 "16 + k"] by simp_all
  moreover have "fips_W blk (16 + k) =
      SHA256_F4 (fips_W blk (16 + k - 2)) + fips_W blk (16 + k - 7) + SHA256_F3 (fips_W blk (16 + k - 15))
        + fips_W blk (16 + k - 16)"
    by (subst fips_W.simps) (simp add: sha_macros)
  ultimately show ?case
    using Suc by (simp add: nth_append del: upt_Suc)
qed

lemma sha256_schedule_W: "sha256_schedule blk = map (fips_W blk) [0..<64]"
proof -
  have "16 + 48 = (64 :: nat)" by simp
  from schedule_prefix [of blk 48, unfolded this] show ?thesis by (simp only: sha256_schedule_def)
qed

lemma prod_cases8:
  obtains a b c d e f g h where "(v :: sha_words) = (a, b, c, d, e, f, g, h)"
  by (cases v) auto

lemma sha256_round_fips: "sha256_round v (sha256_k ! t, fips_W blk t) = fips_round blk t v"
  by (cases v rule: prod_cases8) (simp add: Let_def sha_macros SHA2_CH_def SHA2_MAJ_def xor.assoc)

lemma transform_block_fips: "transform_block h blk = fips_block h blk"
proof -
  have "length sha256_k = 64" by (simp add: sha256_k_def)
  then have "zip sha256_k (map (fips_W blk) [0..<64]) = map (\<lambda>t. (sha256_k ! t, fips_W blk t)) [0..<64]"
    by (intro nth_equalityI) auto
  then show ?thesis
    by (simp add: transform_block_def fips_block_def sha256_schedule_W foldl_conv_fold fold_map comp_def
        sha256_round_fips)
qed

lemma fips_blocks_add: "fips_blocks msg h (n + k) = fips_blocks (drop (64 * n) msg) (fips_blocks msg h n) k"
  by (induction n arbitrary: msg h) (simp_all add: add.commute)

lemma transform_blocks_fips: "transform_blocks msg n h = fips_blocks msg h n"
proof (induction n)
  case (Suc n)
  then show ?case using fips_blocks_add [of msg h n 1] by (simp add: transform_block_fips)
qed simp

lemma fips_blocks_prefix: "64 * n \<le> length m \<Longrightarrow> fips_blocks (m @ m') h n = fips_blocks m h n"
  by (induction n arbitrary: m h) simp_all

lemma fips_blocks_append:
  "length m = 64 * k \<Longrightarrow> fips_blocks (m @ m') h (k + n) = fips_blocks m' (fips_blocks m h k) n"
  by (simp add: fips_blocks_add fips_blocks_prefix)

subsection \<open>The buffered message\<close>

text \<open>What the object holds after the message \<open>m\<close> has been fed to it.\<close>

definition sha_rep :: "sha256_ctx \<Rightarrow> u8 list \<Rightarrow> bool" where
  "sha_rep c m \<longleftrightarrow>
     m_h c = fips_blocks m fips_H0 (length m div 64) \<and>
     m_len c = of_nat (length m mod 64) \<and>
     m_tot_len c = of_nat (64 * (length m div 64)) \<and>
     length (m_block c) = 128 \<and>
     take (length m mod 64) (m_block c) = drop (64 * (length m div 64)) m"

lemma unat_small: "n < 2 ^ 32 \<Longrightarrow> unat (of_nat n :: u32) = n"
  by (simp add: unat_of_nat)

lemma sha_rep_init: "sha_rep (sha256_init sha256_new) []"
  by (simp add: sha_rep_def sha256_init_def sha256_new_def fips_H0_def)

lemma take_block_write:
  "off \<le> length blk \<Longrightarrow> take (off + length bytes) (block_write blk off bytes) = take off blk @ bytes"
  by (simp add: block_write_def)

lemma length_block_write:
  "off + length bytes \<le> length blk \<Longrightarrow> length (block_write blk off bytes) = length blk"
  by (simp add: block_write_def)

lemma divmod_block:
  "a + k < 64 \<Longrightarrow> (64 * q + a + k) div 64 = (q :: nat)"
  "a + k < 64 \<Longrightarrow> (64 * q + a + k) mod 64 = a + k"
  by (simp_all add: add.assoc)

lemma update_within_block:
  assumes rep: "sha_rep c m" and small: "length m mod 64 + length msg < 64"
  shows "\<exists>c'. sha256_update msg c = Inr c' \<and> sha_rep c' (m @ msg)"
proof -
  define a q where "a = length m mod 64" and "q = length m div 64"
  have n: "length m = 64 * q + a" and a: "a < 64" unfolding a_def q_def by simp_all
  have ml: "unat (m_len c) = a" "m_len c = of_nat a" using rep a by (simp_all add: sha_rep_def a_def unat_small)
  have L: "unat (of_nat (length msg) :: u32) = length msg" using small by (simp add: unat_small)
  have tmp: "unat (64 - m_len c) = 64 - a"
    using ml a by (simp add: unat_sub word_le_nat_alt)
  have lt: "(of_nat (length msg) :: u32) < 64 - m_len c"
    using small tmp L by (simp add: word_less_nat_alt a_def)
  have sum: "m_len c + of_nat (length msg) = (of_nat (a + length msg) :: u32)" using ml by simp
  have sum_lt: "(of_nat (a + length msg) :: u32) < 64"
    using small by (simp add: word_less_nat_alt unat_small a_def del: of_nat_add)
  let ?blk = "block_write (m_block c) a msg"
  have upd: "sha256_update msg c = Inr (c\<lparr>m_block := ?blk, m_len := of_nat (a + length msg)\<rparr>)"
    using lt sum sum_lt L ml(1) by (simp add: sha256_update_def Let_def)
  have dm: "(length m + length msg) div 64 = q" "(length m + length msg) mod 64 = a + length msg"
    using divmod_block [of a "length msg" q] small [folded a_def] n by simp_all
  have blen: "length (m_block c) = 128" using rep by (simp add: sha_rep_def)
  have "take (a + length msg) ?blk = drop (64 * q) m @ msg"
    using rep take_block_write [of a "m_block c" msg] blen a
    by (simp add: sha_rep_def a_def [symmetric] q_def [symmetric])
  then show ?thesis
    using rep upd dm n small blen length_block_write [of a msg "m_block c"]
    by (simp add: sha_rep_def a_def [symmetric] q_def [symmetric] fips_blocks_prefix)
qed

lemma update_across_block:
  assumes rep: "sha_rep c m" and big: "64 \<le> length m mod 64 + length msg" and L: "length msg < 2 ^ 31"
  shows "\<exists>c'. sha256_update msg c = Inr c' \<and> sha_rep c' (m @ msg)"
proof -
  define a q where "a = length m mod 64" and "q = length m div 64"
  have n: "length m = 64 * q + a" and a: "a < 64" unfolding a_def q_def by simp_all
  have al: "64 \<le> a + length msg" using big by (simp only: a_def)
  have ml: "unat (m_len c) = a" "m_len c = of_nat a" using rep a by (simp_all add: sha_rep_def a_def unat_small)
  have tmp: "(64 :: u32) - m_len c = of_nat (64 - a)"
    using ml a by (simp add: of_nat_diff)
  have len: "unat (of_nat (length msg) :: u32) = length msg" "unat (of_nat (64 - a) :: u32) = 64 - a"
    using L a by (simp_all add: unat_small del: of_nat_diff)
  have nlt: "\<not> (of_nat (length msg) :: u32) < of_nat (64 - a)"
    using al by (simp only: word_less_nat_alt len)
  have nlt2: "\<not> m_len c + of_nat (length msg) < (64 :: u32)"
    using al a L ml by (simp add: word_less_nat_alt unat_small flip: of_nat_add)
  define nl where "nl = length msg - (64 - a)"
  have msg: "length msg = 64 - a + nl" using al by (simp add: nl_def)
  have new: "(of_nat (length msg) :: u32) - of_nat (64 - a) = of_nat nl"
    using al a by (simp add: nl_def of_nat_diff)
  have nl: "nl < 2 ^ 31" "nl div 64 < 2 ^ 25" using L by (simp_all add: nl_def)
  have nbw: "(of_nat nl :: u32) div 64 = of_nat (nl div 64)" "(of_nat nl :: u32) mod 64 = of_nat (nl mod 64)"
    using nl by (simp_all add: word_arith_nat_div word_arith_nat_mod unat_small)
  have push: "unat (push_bit 6 (of_nat (nl div 64)) :: u32) = 64 * (nl div 64)"
  proof -
    have "push_bit 6 (of_nat (nl div 64)) = (of_nat (64 * (nl div 64)) :: u32)" by (simp add: push_bit_eq_mult)
    then show ?thesis using nl by (simp only:) (rule unat_small, simp)
  qed
  let ?blk = "block_write (m_block c) a (take (64 - a) msg)"
  let ?rest = "drop (64 - a) msg"
  let ?tail = "drop (64 * (nl div 64)) ?rest"
  let ?c = "c\<lparr>m_h := fips_blocks ?rest (fips_blocks ?blk (m_h c) 1) (nl div 64),
      m_block := block_write ?blk 0 (take (nl mod 64) ?tail), m_len := of_nat (nl mod 64),
      m_tot_len := m_tot_len c + push_bit 6 (of_nat (nl div 64) + 1)\<rparr>"
  have upd: "sha256_update msg c = Inr ?c"
    unfolding sha256_update_def Let_def tmp
    using nlt nlt2 nl(2) push
    by (simp only: new nbw len ml(1) if_False sha256_transform_def transform_blocks_fips)
       (simp add: unat_small new nbw nl(1))
  have tot: "length m + length msg = 64 * (q + 1) + nl" using n msg a by simp
  have dm: "(length m + length msg) div 64 = q + 1 + nl div 64" "(length m + length msg) mod 64 = nl mod 64"
    unfolding tot using div_mult_self4 [of 64 "q + 1" nl] mod_mult_self4 [of 64 "q + 1" nl] by linarith+
  define full where "full = drop (64 * q) m @ take (64 - a) msg"
  have lfull: "length full = 64" using n msg a by (simp add: full_def)
  have blen: "length (m_block c) = 128" using rep by (simp add: sha_rep_def)
  have tb: "take 64 ?blk = full"
    using rep take_block_write [of a "m_block c" "take (64 - a) msg"] blen a msg
    by (simp add: sha_rep_def a_def [symmetric] q_def [symmetric] full_def)
  have split: "m @ msg = (take (64 * q) m @ full) @ ?rest" by (simp add: full_def)
  have lsplit: "length (take (64 * q) m @ full) = 64 * (q + 1)" "length (take (64 * q) m) = 64 * q"
    using lfull n by simp_all
  have hq: "m_h c = fips_blocks (take (64 * q) m) fips_H0 q"
    using rep [unfolded sha_rep_def, folded q_def] fips_blocks_prefix [of q "take (64 * q) m" "drop (64 * q) m"]
      lsplit(2) by simp
  have hash: "fips_blocks (m @ msg) fips_H0 (q + 1 + nl div 64) = m_h ?c"
    unfolding split fips_blocks_append [OF lsplit(1)] fips_blocks_append [OF lsplit(2)]
    by (simp add: tb hq lfull)
  have ltail: "length ?tail = nl mod 64" using msg a by (simp add: minus_mult_div_eq_mod)
  have tail: "drop (64 * (q + 1 + nl div 64)) (m @ msg) = ?tail"
    unfolding split using lsplit(1) by (simp add: add.commute)
  have "length ?blk = 128"
    using blen a msg length_block_write [of a "take (64 - a) msg" "m_block c"] by simp
  moreover have "nl mod 64 \<le> 128" using mod_less_divisor [of 64 nl] by linarith
  ultimately have "sha_rep ?c (m @ msg)"
    using rep dm hash ltail tail nl take_block_write [of 0 ?blk ?tail] length_block_write [of 0 ?tail ?blk]
    by (simp add: sha_rep_def q_def [symmetric] push_bit_eq_mult)
  with upd show ?thesis by blast
qed

lemma sha256_update_rep:
  assumes "sha_rep c m" "length msg < 2 ^ 31"
  shows "\<exists>c'. sha256_update msg c = Inr c' \<and> sha_rep c' (m @ msg)"
  using update_within_block [OF assms(1)] update_across_block [OF assms(1) _ assms(2)] by fastforce

text \<open>The bytes that \<^verbatim>\<open>final\<close> appends.\<close>

lemma replicate_split: "k \<le> n \<Longrightarrow> replicate n x = replicate k x @ replicate (n - k) x"
  by (simp flip: replicate_add)

lemma take_prefix: "length xs = n \<Longrightarrow> take n (xs @ ys) = xs"
  by simp

lemma pad_count:
  assumes "a < 64" "pm = (if 55 < a then 128 else 64 :: nat)"
  shows "pm - a - 5 = (119 - a) mod 64 + 4"
proof (cases "55 < a")
  case False
  then have "(119 - a) mod 64 = 55 - a" using mod_add_self1 [of 64 "55 - a"] by simp
  with False assms show ?thesis by simp
qed (use assms in simp)

lemma block_write_middle:
  "length x = length b \<Longrightarrow> block_write (p @ x @ d) (length p) b = p @ b @ d"
  by (simp add: block_write_def)

lemma final_block:
  assumes a: "a < 64" and pm: "a + 9 \<le> pm" "pm \<le> length blk" and l: "length lenb = 4"
  shows "take pm (block_write (block_write (block_write blk a (replicate (pm - a) 0)) a [0x80]) (pm - 4) lenb)
       = take a blk @ [0x80] @ replicate (pm - a - 5) 0 @ lenb"
proof -
  let ?b0 = "block_write blk a (replicate (pm - a) 0)"
  have b0: "?b0 = take a blk @ replicate (pm - a) 0 @ drop pm blk"
    using pm by (simp add: block_write_def)
  have r: "replicate (pm - a) 0 = (0 :: u8) # replicate (pm - a - 5) 0 @ replicate 4 0"
    using pm by (simp add: replicate_add [symmetric] replicate_Suc [symmetric] del: replicate_Suc)
  have b1: "block_write ?b0 a [0x80] = take a blk @ 0x80 # replicate (pm - a - 5) 0 @ replicate 4 0 @ drop pm blk"
    unfolding b0 r using pm by (simp add: block_write_def)
  let ?pre = "take a blk @ 0x80 # replicate (pm - a - 5) 0"
  have pre: "length ?pre = pm - 4" using pm by simp
  have "block_write (?pre @ replicate 4 0 @ drop pm blk) (length ?pre) lenb = ?pre @ lenb @ drop pm blk"
    by (rule block_write_middle) (simp add: l)
  then have "block_write (block_write ?b0 a [0x80]) (pm - 4) lenb = ?pre @ lenb @ drop pm blk"
    unfolding b1 pre by simp
  moreover have "take pm ((?pre @ lenb) @ drop pm blk) = ?pre @ lenb"
    using pre l pm by (intro take_prefix) simp
  ultimately show ?thesis by simp
qed

lemma fips_pad_final:
  assumes "8 * length m < 2 ^ 32"
    and "pm = (if 55 < length m mod 64 then 128 else 64)"
  shows "fips_pad m = m @ [0x80] @ replicate (pm - length m mod 64 - 5) 0 @ SHA2_UNPACK32 (of_nat (8 * length m))"
proof -
  have z: "(8 * length m) div 256 ^ i = 0" if "4 \<le> i" for i
  proof -
    have "(256 :: nat) ^ 4 \<le> 256 ^ i" using that by (intro power_increasing) auto
    with assms(1) show ?thesis by simp
  qed
  have zeros: "replicate 4 (0 :: u8) = [0, 0, 0, 0]" by (simp add: numeral_eq_Suc)
  have u: "rev [0..<8] = [7, 6, 5, 4] @ rev [0..<4 :: nat]" by (simp add: upt_conv_Cons)
  have top: "map (\<lambda>i. of_nat (8 * length m div 256 ^ i)) [7, 6, 5, 4] = replicate 4 (0 :: u8)"
    using z [of 7] z [of 6] z [of 5] z [of 4] by (simp only: zeros list.map of_nat_0 le_numeral_extra numeral_le_iff semiring_norm if_True) simp
  have "map (\<lambda>i. of_nat (8 * length m div 256 ^ i)) (rev [0..<8])
      = replicate 4 0 @ (SHA2_UNPACK32 (of_nat (8 * length m)))"
    unfolding u SHA2_UNPACK32_of_nat [OF assms(1)]
    by (simp only: map_append top)
  moreover have "pm - length m mod 64 - 5 = (119 - length m mod 64) mod 64 + 4"
    by (rule pad_count [OF _ assms(2)]) simp
  ultimately show ?thesis by (simp add: fips_pad_def replicate_add)
qed

lemma sha256_final_rep:
  assumes rep: "sha_rep c m" and n: "8 * length m < 2 ^ 32"
  shows "sha256_final c = Inr (fips_sha256 m)"
proof -
  define a q where "a = length m mod 64" and "q = length m div 64"
  have len: "length m = 64 * q + a" and a: "a < 64" unfolding a_def q_def by simp_all
  define pm where "pm = (if 55 < a then 128 else 64 :: nat)"
  have ml: "unat (m_len c) = a" "m_len c = of_nat a" using rep a by (simp_all add: sha_rep_def a_def unat_small)
  have blen: "length (m_block c) = 128" using rep by (simp add: sha_rep_def)
  let ?blk = "block_write (block_write (block_write (m_block c) a (replicate (pm - a) 0)) a [0x80]) (pm - 4)
           (SHA2_UNPACK32 (of_nat (8 * length m)))"
  let ?last = "drop (64 * q) m @ [0x80] @ replicate (pm - a - 5) 0 @ SHA2_UNPACK32 (of_nat (8 * length m))"
  have fin: "sha256_final c = Inr (sha_words_bytes (fips_blocks ?blk (m_h c) (pm div 64)))"
  proof -
    have "(55 < m_len c mod 64) = (55 < a)"
      using a ml(1) by (simp add: word_less_nat_alt unat_mod)
    moreover have "push_bit 3 (m_tot_len c + m_len c) = of_nat (8 * length m)"
      using rep [unfolded sha_rep_def, folded a_def q_def] len by (simp add: push_bit_eq_mult algebra_simps)
    moreover have "unat (64 - m_len c) = 64 - a" "unat (128 - m_len c) = 128 - a"
      using a ml(1) by (simp_all add: unat_sub word_le_nat_alt)
    ultimately show ?thesis
      by (simp add: sha256_final_def Let_def ml(1) pm_def sha256_transform_def transform_blocks_fips)
  qed
  have l4: "length (SHA2_UNPACK32 w) = 4" for w by (simp add: SHA2_UNPACK32_def)
  have pm: "a + 9 \<le> pm" "pm \<le> 128" "64 * (pm div 64) = pm" using a by (simp_all add: pm_def)
  have "take pm ?blk = ?last"
    using final_block [OF a pm(1) _ l4] pm(2) rep [unfolded sha_rep_def, folded a_def q_def] by simp
  then have blk: "?blk = ?last @ drop pm ?blk" by (metis append_take_drop_id)
  have lend: "length ?last = pm" using len a pm l4 by simp
  have pad: "fips_pad m = take (64 * q) m @ ?last"
    unfolding fips_pad_final [OF n pm_def [unfolded a_def]] by (simp add: a_def)
  have lq: "length (take (64 * q) m) = 64 * q" using len by simp
  have lpad: "length (fips_pad m) div 64 = q + pm div 64"
    unfolding pad using lq lend pm(3) by simp
  have mh: "m_h c = fips_blocks (take (64 * q) m) fips_H0 q"
    using rep [unfolded sha_rep_def, folded q_def] fips_blocks_prefix [of q "take (64 * q) m" "drop (64 * q) m"]
      lq by simp
  have "fips_blocks ?blk (m_h c) (pm div 64) = fips_blocks (fips_pad m) fips_H0 (length (fips_pad m) div 64)"
    unfolding lpad unfolding pad fips_blocks_append [OF lq]
    by (subst blk, subst mh) (rule fips_blocks_prefix, simp only: lend pm(3) le_refl)
  then show ?thesis by (simp add: fin fips_sha256_def)
qed

lemma compute_memory_hash_total:
  assumes "len < 2 ^ 31"
  shows "\<exists>x. compute_memory_hash h start len = Inr x"
proof -
  have "unat (ucast len :: u32) < 2 ^ 31"
    using unat_mono [OF assms] by (simp add: unsigned_ucast_eq take_bit_nat_eq_self)
  then have "length (host_bytes h start (unat (ucast len :: u32))) < 2 ^ 31" by (simp add: host_bytes_def)
  from sha256_update_rep [OF sha_rep_init this] show ?thesis
    by (auto simp: compute_memory_hash_def sha256_def sha256_final_def sha256_transform_def Let_def)
qed

text \<open>
  C13. Feeding a message to the object in any number of pieces and then calling \<^verbatim>\<open>final\<close>
  gives the FIPS 180-2 digest of the concatenation, when the message has fewer than \<open>2 ^ 29\<close> bytes.
\<close>

theorem sha256_chunks_digest:
  assumes "8 * length (concat pieces) < 2 ^ 32"
  shows "fbind (ffold sha256_update pieces (sha256_init sha256_new)) sha256_final
       = Inr (fips_sha256 (concat pieces))"
proof -
  have "\<exists>c'. ffold sha256_update pieces c = Inr c' \<and> sha_rep c' (m @ concat pieces)"
    if "sha_rep c m" "length (concat pieces) < 2 ^ 31" for c m
    using that
  proof (induction pieces arbitrary: c m)
    case (Cons p ps)
    from sha256_update_rep [OF Cons.prems(1), of p] Cons.prems(2)
    obtain c' where "sha256_update p c = Inr c'" "sha_rep c' (m @ p)" by auto
    with Cons.IH [of c' "m @ p"] Cons.prems(2) show ?case by auto
  qed simp
  from this [OF sha_rep_init] assms obtain c where
    "ffold sha256_update pieces (sha256_init sha256_new) = Inr c" "sha_rep c (concat pieces)" by auto
  with sha256_final_rep assms show ?thesis by simp
qed

theorem sha256_chunks_digest_witness:
  "fbind (ffold sha256_update [[0x61], [0x62, 0x63]] (sha256_init sha256_new)) sha256_final
     = Inr (fips_sha256 [0x61, 0x62, 0x63])"
  using sha256_chunks_digest [of "[[0x61], [0x62, 0x63]]"] by simp

text \<open>
  \<^verbatim>\<open>compute_memory_hash\<close> is the hexadecimal FIPS 180-2 digest of the bytes of the area, when the area is
  smaller than 512 MB: above that \<^verbatim>\<open>final\<close> writes only the low 32 bits of the length in bits.
\<close>

lemma compute_memory_hash_fips:
  assumes "len < 2 ^ 29"
  shows "compute_memory_hash h start len = Inr (hex_bytes (fips_sha256 (host_bytes h start (unat len))))"
proof -
  have "unat len < 2 ^ 29" using assms unat_mono [OF assms] by simp
  then have u: "unat (ucast len :: u32) = unat len" by (simp add: unsigned_ucast_eq take_bit_nat_eq_self)
  let ?m = "host_bytes h start (unat len)"
  have l: "length ?m = unat len" by (simp add: host_bytes_def)
  from sha256_update_rep [OF sha_rep_init, of ?m] l \<open>unat len < 2 ^ 29\<close>
  obtain c where c: "sha256_update ?m (sha256_init sha256_new) = Inr c" "sha_rep c ?m" by auto
  with sha256_final_rep [OF c(2)] l \<open>unat len < 2 ^ 29\<close> show ?thesis
    by (simp add: compute_memory_hash_def sha256_def u)
qed

end
