(* ===== verification/Data_Flow.thy ===== *)
theory Data_Flow
  imports Graphs Sha256 Doubles
begin

section \<open>The data-flow analysis\<close>

text \<open>
  \<^verbatim>\<open>redshow/src/analysis/data_flow.cpp\<close>. The analysis keeps a graph whose nodes are calling contexts and
  whose edges say that one context wrote (or read) a memory object last touched by another one, with the
  bytes written and the bytes that were already there. \<^verbatim>\<open>data_dependency.cpp\<close> is the same code under another class
  name.

  The state is the record \<open>data_flow\<close>. The pointer \<^verbatim>\<open>_trace\<close> always points to an entry of
  \<^verbatim>\<open>_kernel_trace\<close>, so it is the key of that entry: a change through it changes the entry. The host memory
  that the shadow buffers live in is passed beside the state. The tool's copy from the device, \<^verbatim>\<open>_dtoh\<close>,
  is an argument: it is registered by the tool at run time. \<^verbatim>\<open>int\<close> accumulators are 32-bit
  words that are read as signed.
\<close>

datatype analysis_config =
    REDSHOW_ANALYSIS_READ_TRACE_IGNORE
  | REDSHOW_ANALYSIS_DATA_FLOW_HASH

type_synonym dtoh_func = "u64 \<Rightarrow> u64 \<Rightarrow> u64 \<Rightarrow> host \<Rightarrow> host"

text \<open>\<^verbatim>\<open>Analysis::dtoh\<close>: nothing happens until a function is registered.\<close>

definition dtoh :: "dtoh_func option \<Rightarrow> u64 \<Rightarrow> u64 \<Rightarrow> u64 \<Rightarrow> host \<Rightarrow> host" where
  "dtoh fn dst device len h = (case fn of None \<Rightarrow> h | Some f \<Rightarrow> f dst device len h)"

subsection \<open>Nodes and edges\<close>

record df_node =
  n_ctx :: i32
  n_type :: operation_type

datatype edge_type = DATA_FLOW_EDGE_ORDER | DATA_FLOW_EDGE_READ | DATA_FLOW_EDGE_SINK

fun edge_type_no :: "edge_type \<Rightarrow> nat" where
  "edge_type_no DATA_FLOW_EDGE_ORDER = 0"
| "edge_type_no DATA_FLOW_EDGE_READ = 1"
| "edge_type_no DATA_FLOW_EDGE_SINK = 2"

definition get_data_flow_edge_type :: "edge_type \<Rightarrow> string" where
  "get_data_flow_edge_type ty = [''WRITE'', ''READ'', ''SINK''] ! edge_type_no ty"

record edge_index =
  e_from :: i32
  e_to :: i32
  e_mem_ctx :: i32
  e_type :: edge_type

definition EdgeIndex :: "i32 \<Rightarrow> i32 \<Rightarrow> i32 \<Rightarrow> edge_type \<Rightarrow> edge_index" where
  "EdgeIndex src dst mem ty = \<lparr>e_from = src, e_to = dst, e_mem_ctx = mem, e_type = ty\<rparr>"

definition edge_index_lt :: "edge_index \<Rightarrow> edge_index \<Rightarrow> bool" where
  "edge_index_lt a b =
     (if e_from a = e_from b then
        if e_to a = e_to b then
          if e_mem_ctx a = e_mem_ctx b then edge_type_no (e_type a) < edge_type_no (e_type b)
          else e_mem_ctx a < e_mem_ctx b
        else e_to a < e_to b
      else e_from a < e_from b)"

record df_edge =
  ed_type :: edge_type
  ed_redundancy :: u64
  ed_overwrite :: u64
  ed_count :: u64

definition Edge :: "edge_type \<Rightarrow> df_edge" where
  "Edge ty = \<lparr>ed_type = ty, ed_redundancy = 0, ed_overwrite = 0, ed_count = 0\<rparr>"

type_synonym df_graph_t = "(i32, df_node, edge_index, df_edge) graph"

record df_trace =
  t_ctx_id :: i32
  t_cubin_id :: u32
  t_mod_id :: u32
  t_read :: "(u64, memory_range oset) omap"
  t_write :: "(u64, memory_range oset) omap"

record data_flow =
  df_kernel_trace :: "(u32, (i32, df_trace) omap) omap"
  df_configs :: "analysis_config \<Rightarrow> bool"
  df_trace_at :: "(u32 \<times> i32) option"
  df_graph :: df_graph_t
  df_op_node :: "(u64, i32) omap"
  df_node_hash :: "(i32, string oset) omap"
  df_node_count :: "(i32, u64) omap"
  df_memories :: "(u64, memory) omap"
  df_ranges :: "memory_range path"

subsection \<open>Construction\<close>

definition df_add_node :: "i32 \<Rightarrow> operation_type \<Rightarrow> df_graph_t \<Rightarrow> df_graph_t" where
  "df_add_node ctx ty g = add_node (<) ctx \<lparr>n_ctx = ctx, n_type = ty\<rparr> g"

definition df_init :: "data_flow \<Rightarrow> data_flow" where
  "df_init s =
     s\<lparr>df_op_node :=
         map_set (<) (map_set (<) (map_set (<) (map_set (<) (map_set (<) (df_op_node s)
           REDSHOW_MEMORY_SHARED SHARED_MEMORY_CTX_ID)
           REDSHOW_MEMORY_LOCAL LOCAL_MEMORY_CTX_ID)
           REDSHOW_MEMORY_CONSTANT CONSTANT_MEMORY_CTX_ID)
           REDSHOW_MEMORY_UVM UVM_MEMORY_CTX_ID)
           REDSHOW_MEMORY_HOST HOST_MEMORY_CTX_ID,
       df_graph :=
         df_add_node LOCAL_MEMORY_CTX_ID OPERATION_TYPE_MEMORY
           (df_add_node HOST_MEMORY_CTX_ID OPERATION_TYPE_MEMORY
             (df_add_node UVM_MEMORY_CTX_ID OPERATION_TYPE_MEMORY
               (df_add_node CONSTANT_MEMORY_CTX_ID OPERATION_TYPE_MEMORY
                 (df_add_node SHARED_MEMORY_CTX_ID OPERATION_TYPE_MEMORY (df_graph s))))),
       df_memories :=
         map_set (<) (map_set (<) (map_set (<) (map_set (<) (map_set (<) (df_memories s)
           REDSHOW_MEMORY_SHARED (Memory_special REDSHOW_MEMORY_SHARED SHARED_MEMORY_CTX_ID))
           REDSHOW_MEMORY_LOCAL (Memory_special REDSHOW_MEMORY_LOCAL LOCAL_MEMORY_CTX_ID))
           REDSHOW_MEMORY_CONSTANT (Memory_special REDSHOW_MEMORY_CONSTANT CONSTANT_MEMORY_CTX_ID))
           REDSHOW_MEMORY_UVM (Memory_special REDSHOW_MEMORY_UVM UVM_MEMORY_CTX_ID))
           REDSHOW_MEMORY_HOST (Memory_special REDSHOW_MEMORY_HOST HOST_MEMORY_CTX_ID)\<rparr>"

definition DataFlow :: data_flow where
  "DataFlow =
     df_init \<lparr>df_kernel_trace = [], df_configs = (\<lambda>_. False), df_trace_at = None, df_graph = empty_graph,
       df_op_node = [], df_node_hash = [], df_node_count = [], df_memories = [],
       df_ranges = new_path (MemoryRange 0 0) 1\<rparr>"

subsection \<open>Linking contexts\<close>

definition df_link_ctx_node :: "i32 \<Rightarrow> i32 \<Rightarrow> i32 \<Rightarrow> edge_type \<Rightarrow> data_flow \<Rightarrow> data_flow" where
  "df_link_ctx_node src dst mem ty s =
     s\<lparr>df_graph := add_edge (<) edge_index_lt e_from e_to (EdgeIndex src dst mem ty) (Edge ty) (df_graph s)\<rparr>"

definition df_link_op_node :: "u64 \<Rightarrow> i32 \<Rightarrow> i32 \<Rightarrow> data_flow \<Rightarrow> data_flow" where
  "df_link_op_node oid ctx mem s =
     (case map_at (<) (df_op_node s) oid of
        None \<Rightarrow> s
      | Some prev_ctx \<Rightarrow> df_link_ctx_node prev_ctx ctx mem DATA_FLOW_EDGE_ORDER s)"

definition df_update_op_node :: "u64 \<Rightarrow> i32 \<Rightarrow> data_flow \<Rightarrow> data_flow" where
  "df_update_op_node oid ctx s =
     (if oid > REDSHOW_MEMORY_HOST then s\<lparr>df_op_node := map_set (<) (df_op_node s) oid ctx\<rparr> else s)"

definition df_update_edge_metrics ::
  "i32 \<Rightarrow> i32 \<Rightarrow> i32 \<Rightarrow> u64 \<Rightarrow> u64 \<Rightarrow> u64 \<Rightarrow> edge_type \<Rightarrow> data_flow \<Rightarrow> data_flow" where
  "df_update_edge_metrics src dst mem redundancy overwrite count ty s =
     (let e = EdgeIndex src dst mem ty
      in if has_edge edge_index_lt (df_graph s) e
         then s\<lparr>df_graph := edge_modify edge_index_lt e
                (\<lambda>d. d\<lparr>ed_redundancy := ed_redundancy d + redundancy,
                       ed_overwrite := ed_overwrite d + overwrite,
                       ed_count := ed_count d + count\<rparr>) (df_graph s)\<rparr>
         else s)"

definition df_update_op_metrics ::
  "u64 \<Rightarrow> i32 \<Rightarrow> i32 \<Rightarrow> u64 \<Rightarrow> u64 \<Rightarrow> u64 \<Rightarrow> edge_type \<Rightarrow> data_flow \<Rightarrow> data_flow" where
  "df_update_op_metrics oid ctx mem redundancy overwrite count ty s =
     (case map_at (<) (df_op_node s) oid of
        None \<Rightarrow> s
      | Some prev_ctx \<Rightarrow> df_update_edge_metrics prev_ctx ctx mem redundancy overwrite count ty s)"

definition df_emplace_hash :: "i32 \<Rightarrow> string \<Rightarrow> data_flow \<Rightarrow> data_flow" where
  "df_emplace_hash ctx hash s =
     s\<lparr>df_node_hash := map_upd (<) [] (df_node_hash s) ctx (\<lambda>hs. set_insert string_lt hs hash)\<rparr>"

text \<open>The hash of an area joins the set of the context when hashing is configured.\<close>

definition df_hash_node :: "i32 \<Rightarrow> u64 \<Rightarrow> u64 \<Rightarrow> host \<Rightarrow> data_flow \<Rightarrow> data_flow outcome" where
  "df_hash_node ctx start len h s =
     (if df_configs s REDSHOW_ANALYSIS_DATA_FLOW_HASH
      then fbind (compute_memory_hash h start len) (\<lambda>hash. Inr (df_emplace_hash ctx hash s))
      else Inr s)"

subsection \<open>Kernels\<close>

text \<open>\<^verbatim>\<open>acc += x\<close> on an \<^verbatim>\<open>int\<close> with a 64-bit operand, and the conversion back to 64 bits.\<close>

definition int_accum :: "u32 \<Rightarrow> u64 \<Rightarrow> u32" where
  "int_accum acc x = ucast ((scast acc :: u64) + x)"

definition range_len :: "memory_range \<Rightarrow> u64" where
  "range_len r = mr_end r - mr_start r"

definition df_sum_ranges :: "memory_range oset \<Rightarrow> u32" where
  "df_sum_ranges rs = foldl (\<lambda>acc r. int_accum acc (range_len r)) 0 rs"

definition df_kernel_read :: "kernel \<Rightarrow> u64 \<times> memory_range oset \<Rightarrow> data_flow \<Rightarrow> data_flow outcome" where
  "df_kernel_read op entry s =
     (case entry of (mid, rs) \<Rightarrow>
        fbind (or_fault OutOfRange (map_at (<) (df_memories s) mid)) (\<lambda>memory.
          if op_id memory > REDSHOW_MEMORY_HOST
          then fbind (or_fault OutOfRange (map_at (<) (df_op_node s) (op_id memory))) (\<lambda>node_id.
                 let len = (if df_configs s REDSHOW_ANALYSIS_READ_TRACE_IGNORE then ucast (mem_len memory)
                            else df_sum_ranges rs) :: u32
                 in Inr (df_update_op_metrics (op_id memory) (ctx_id op) (ctx_id memory) 0 (scast len)
                      (mem_len memory) DATA_FLOW_EDGE_READ
                      (df_link_ctx_node node_id (ctx_id op) (ctx_id memory) DATA_FLOW_EDGE_READ s)))
          else Inr s))"

text \<open>
  How much of the object is copied: fragments of a large object with few written bytes one by one,
  and everything between the first and the last byte otherwise.
\<close>

definition df_fragmented :: "u32 \<Rightarrow> memory \<Rightarrow> nat \<Rightarrow> bool" where
  "df_fragmented overwrite memory range_size =
     (double_div (of_int (sint overwrite)) (double_of (uint (mem_len memory))) < round_bits 53 (1 / 10) \<and>
      mem_len memory > 128 * 1024 * 1024 \<and> range_size < 10000)"

definition df_fetch :: "dtoh_func option \<Rightarrow> memory \<Rightarrow> memory_range list \<Rightarrow> host \<Rightarrow> host outcome" where
  "df_fetch fn memory rs h =
     (let host_cache = mem_value_cache memory; device = mr_start (mem_range memory)
      in if rs = [] then Inl OutOfRange
         else let device_start_min = mr_start (hd rs);
                  device_end_max = mr_end (last rs);
                  device_range_len = device_end_max - device_start_min
              in if df_fragmented (df_sum_ranges rs) memory (length rs)
                 then Inr (fold (\<lambda>r. dtoh fn (host_cache + mr_start r - device) (mr_start r) (range_len r)) rs h)
                 else Inr (dtoh fn (host_cache + device_start_min - device) device device_range_len h))"

definition df_redundancy ::
  "memory \<Rightarrow> memory_range path \<Rightarrow> host \<Rightarrow> (u32 \<times> host) outcome" where
  "df_redundancy memory p h =
     (let host = mem_value memory; host_cache = mem_value_cache memory; device = mr_start (mem_range memory)
      in ffold (\<lambda>i (redundancy, h).
           fbind (path_get p i) (\<lambda>r.
             case compute_memcpy_redundancy True (host + mr_start r - device) (host_cache + mr_start r - device)
                    (range_len r) h
             of (same, h') \<Rightarrow> Inr (int_accum redundancy same, h')))
         [0..<p_index p] (0, h))"

definition df_kernel_write ::
  "dtoh_func option \<Rightarrow> kernel \<Rightarrow> u64 \<times> memory_range oset \<Rightarrow> data_flow \<times> host \<Rightarrow> (data_flow \<times> host) outcome" where
  "df_kernel_write fn op entry sh =
     (case entry of (mid, rs) \<Rightarrow> case sh of (s, h) \<Rightarrow>
        fbind (or_fault OutOfRange (map_at (<) (df_memories s) mid)) (\<lambda>memory.
          if op_id memory > REDSHOW_MEMORY_HOST
          then fbind (ffold (\<lambda>r. path_push_back (MemoryRange 0 0) (MemoryRange (mr_start r) (mr_end r)))
                       rs (path_reset (df_ranges s))) (\<lambda>ranges.
               fbind (df_fetch fn memory rs h) (\<lambda>h1.
               fbind (df_redundancy memory ranges h1) (\<lambda>(redundancy, h2).
               fbind (df_hash_node (ctx_id op) (mem_value_cache memory) (mem_len memory) h2
                       (df_update_op_node (op_id memory) (ctx_id op)
                         (df_update_op_metrics (op_id memory) (ctx_id op) (ctx_id memory) (scast redundancy)
                            (scast (df_sum_ranges rs)) (mem_len memory) DATA_FLOW_EDGE_ORDER
                           (df_link_op_node (op_id memory) (ctx_id op) (ctx_id memory)
                              (s\<lparr>df_ranges := ranges\<rparr>))))) (\<lambda>s'.
               Inr (s', h2)))))
          else Inr (s, h)))"

text \<open>The entry that \<^verbatim>\<open>_trace\<close> points to.\<close>

definition df_current :: "data_flow \<Rightarrow> df_trace option" where
  "df_current s =
     (case df_trace_at s of
        None \<Rightarrow> None
      | Some (thr, k) \<Rightarrow> map_at (<) (map_touch (<) [] (df_kernel_trace s) thr) k)"

definition df_put_current :: "df_trace \<Rightarrow> data_flow \<Rightarrow> data_flow" where
  "df_put_current t s =
     (case df_trace_at s of
        None \<Rightarrow> s
      | Some (thr, k) \<Rightarrow>
          s\<lparr>df_kernel_trace := map_upd (<) [] (df_kernel_trace s) thr (\<lambda>m. map_set (<) m k t)\<rparr>)"

definition df_kernel_op_callback ::
  "dtoh_func option \<Rightarrow> kernel \<Rightarrow> data_flow \<times> host \<Rightarrow> (data_flow \<times> host) outcome" where
  "df_kernel_op_callback fn op sh =
     (case sh of (s, h) \<Rightarrow>
        case df_current s of
          None \<Rightarrow> Inr (s, h)
        | Some t \<Rightarrow>
            fbind (ffold (df_kernel_read op) (t_read t) s) (\<lambda>s1.
            fbind (ffold (df_kernel_write fn op) (t_write t) (s1, h)) (\<lambda>(s2, h2).
              Inr ((df_put_current (t\<lparr>t_read := [], t_write := []\<rparr>) s2)\<lparr>df_trace_at := None\<rparr>, h2))))"

subsection \<open>The other operations\<close>

definition df_memory_op_callback ::
  "dtoh_func option \<Rightarrow> memory \<Rightarrow> data_flow \<times> host \<Rightarrow> (data_flow \<times> host) outcome" where
  "df_memory_op_callback fn op sh =
     (case sh of (s, h) \<Rightarrow>
        let s1 = df_update_op_node (op_id op) (ctx_id op) s;
            s2 = s1\<lparr>df_memories := map_emplace (<) (df_memories s1) (op_id op) op\<rparr>
        in Inr (s2, dtoh fn (mem_value op) (mr_start (mem_range op)) (mem_len op) h))"

definition df_memset_op_callback :: "memset \<Rightarrow> data_flow \<times> host \<Rightarrow> (data_flow \<times> host) outcome" where
  "df_memset_op_callback op sh =
     (case sh of (s, h) \<Rightarrow>
        let redundancy = compute_memset_redundancy (ms_shadow_start op) (ucast (ms_value op)) (ms_len op) h;
            overwrite = ms_len op
        in fbind (or_fault OutOfRange (map_at (<) (df_memories s) (ms_memory_op_id op))) (\<lambda>memory.
             let s1 = df_link_op_node (ms_memory_op_id op) (ctx_id op) (ctx_id memory) s;
                 s2 = df_update_op_metrics (ms_memory_op_id op) (ctx_id op) (ctx_id memory) redundancy overwrite
                        (mem_len memory) DATA_FLOW_EDGE_ORDER s1;
                 s3 = df_update_op_node (ms_memory_op_id op) (ctx_id op) s2;
                 h1 = host_fill (ms_shadow_start op) (ucast (ms_value op)) (unat (ms_len op)) h
             in fbind (df_hash_node (ctx_id op) (mem_value memory) (mem_len memory) h1 s3) (\<lambda>s4.
                  Inr (s4, h1))))"

definition df_is_host_side :: "u64 \<Rightarrow> bool" where
  "df_is_host_side oid = (oid = REDSHOW_MEMORY_HOST \<or> oid = REDSHOW_MEMORY_UVM)"

text \<open>The destination of a copy: a sink edge on the host side, an ordered write otherwise.\<close>

definition df_memcpy_dst :: "memcpy \<Rightarrow> memory \<Rightarrow> memory \<Rightarrow> u64 \<Rightarrow> u64 \<Rightarrow> data_flow \<Rightarrow> data_flow outcome" where
  "df_memcpy_dst op src_memory dst_memory redundancy dst_len s =
     (if df_is_host_side (dst_memory_op_id op)
      then fbind (or_fault OutOfRange (map_at (<) (df_op_node s) (dst_memory_op_id op))) (\<lambda>dst_ctx.
             Inr (df_update_edge_metrics (ctx_id op) dst_ctx (ctx_id src_memory) redundancy (mc_len op) dst_len
                    DATA_FLOW_EDGE_SINK
                   (df_link_ctx_node (ctx_id op) dst_ctx (ctx_id src_memory) DATA_FLOW_EDGE_SINK s)))
      else Inr (df_update_op_node (dst_memory_op_id op) (ctx_id op)
                 (df_update_op_metrics (dst_memory_op_id op) (ctx_id op) (ctx_id dst_memory) redundancy (mc_len op) dst_len
                    DATA_FLOW_EDGE_ORDER
                   (df_link_op_node (dst_memory_op_id op) (ctx_id op) (ctx_id dst_memory) s))))"

definition df_memcpy_op_callback :: "memcpy \<Rightarrow> data_flow \<times> host \<Rightarrow> (data_flow \<times> host) outcome" where
  "df_memcpy_op_callback op sh =
     (case sh of (s, h) \<Rightarrow>
        let overwrite = mc_len op
        in fbind (or_fault OutOfRange (map_at (<) (df_memories s) (src_memory_op_id op))) (\<lambda>src_memory.
           fbind (or_fault OutOfRange (map_at (<) (df_memories s) (dst_memory_op_id op))) (\<lambda>dst_memory.
           let src_len = (if mem_len src_memory = 0 then mc_len op else mem_len src_memory);
               dst_len = (if mem_len dst_memory = 0 then mc_len op else mem_len dst_memory);
               redundancy = fst (compute_memcpy_redundancy False (dst_shadow_start op) (src_shadow_start op) (mc_len op) h)
           in fbind (df_memcpy_dst op src_memory dst_memory redundancy dst_len s) (\<lambda>s1.
              fbind (or_fault OutOfRange (map_at (<) (df_op_node s1) (src_memory_op_id op))) (\<lambda>src_ctx.
              fbind (or_fault OutOfRange (map_at (<) (df_op_node s1) (dst_memory_op_id op))) (\<lambda>_.
              let s2 = df_update_op_metrics (src_memory_op_id op) (ctx_id op) (ctx_id src_memory) 0 overwrite src_len
                         DATA_FLOW_EDGE_READ
                         (df_link_ctx_node src_ctx (ctx_id op) (ctx_id src_memory) DATA_FLOW_EDGE_READ s1);
                  h1 = memory_copy (dst_shadow_start op) (src_shadow_start op) (mc_len op) h;
                  host = (if df_is_host_side (dst_memory_op_id op) then dst_shadow_start op else mem_value dst_memory)
              in fbind (df_hash_node (ctx_id op) host dst_len h1 s2) (\<lambda>s3.
                   Inr (s3, h1))))))))"

text \<open>The node of a calling context is created on its first operation, and counts its operations.\<close>

definition df_enter_ctx :: "i32 \<Rightarrow> operation_type \<Rightarrow> data_flow \<Rightarrow> data_flow" where
  "df_enter_ctx ctx ty s =
     (let s1 = (if has_node (<) (df_graph s) ctx then s else s\<lparr>df_graph := df_add_node ctx ty (df_graph s)\<rparr>)
      in s1\<lparr>df_node_count := map_upd (<) 0 (df_node_count s1) ctx (\<lambda>n. n + 1)\<rparr>)"

definition df_op_callback ::
  "dtoh_func option \<Rightarrow> operation \<Rightarrow> data_flow \<times> host \<Rightarrow> (data_flow \<times> host) outcome" where
  "df_op_callback fn op sh =
     (case sh of (s, h) \<Rightarrow>
        let s1 = df_enter_ctx (operation_ctx op) (operation_kind op) s
        in case op of
             KernelOp k \<Rightarrow> df_kernel_op_callback fn k (s1, h)
           | MemoryOp m \<Rightarrow> df_memory_op_callback fn m (s1, h)
           | MemcpyOp c \<Rightarrow> df_memcpy_op_callback c (s1, h)
           | MemsetOp m \<Rightarrow> df_memset_op_callback m (s1, h)
           | MemfreeOp _ \<Rightarrow> Inr (s1, h))"

subsection \<open>Recording accesses\<close>

definition df_analysis_begin ::
  "u32 \<Rightarrow> i32 \<Rightarrow> u32 \<Rightarrow> u32 \<Rightarrow> gpu_patch_type \<Rightarrow> data_flow \<Rightarrow> data_flow outcome" where
  "df_analysis_begin cpu_thread kernel_id cubin_id mod_id ty s =
     (if ty \<noteq> GPU_PATCH_TYPE_ADDRESS_PATCH \<and> ty \<noteq> GPU_PATCH_TYPE_ADDRESS_ANALYSIS then Inl AssertFail
      else let traces = map_touch (<) [] (df_kernel_trace s) cpu_thread;
               trace = \<lparr>t_ctx_id = kernel_id, t_cubin_id = cubin_id, t_mod_id = mod_id, t_read = [], t_write = []\<rparr>;
               traces' = (if map_has (<) traces kernel_id then traces else map_set (<) traces kernel_id trace)
           in Inr (s\<lparr>df_kernel_trace := map_set (<) (df_kernel_trace s) cpu_thread traces',
                     df_trace_at := Some (cpu_thread, kernel_id)\<rparr>))"

definition df_unit_access :: "memory \<Rightarrow> u32 \<Rightarrow> data_flow \<Rightarrow> data_flow outcome" where
  "df_unit_access memory flags s =
     (if op_id memory \<le> REDSHOW_MEMORY_HOST then Inr s
      else let r = mem_range memory; oid = op_id memory
           in fbind (if has_flag flags GPU_PATCH_READ
                     then fbind (or_fault NullDeref (df_current s)) (\<lambda>t.
                       Inr (df_put_current
                         (t\<lparr>t_read := map_upd (<) [] (t_read t) oid
                              (\<lambda>rs. if \<not> df_configs s REDSHOW_ANALYSIS_READ_TRACE_IGNORE then merge_memory_range rs r
                                    else if rs = [] then set_insert range_lt rs r else rs)\<rparr>) s))
                     else Inr s) (\<lambda>s1.
              if has_flag flags GPU_PATCH_WRITE
              then fbind (or_fault NullDeref (df_current s1)) (\<lambda>t.
                     Inr (df_put_current
                       (t\<lparr>t_write := map_upd (<) [] (t_write t) oid (\<lambda>rs. merge_memory_range rs r)\<rparr>) s1))
              else Inr s1))"

subsection \<open>Duplicates\<close>

type_synonym duplicates = "(i32, (i32, bool) omap) omap"

definition dup_hash_nodes :: "(i32, string oset) omap \<Rightarrow> (string, (i32, bool) omap) omap" where
  "dup_hash_nodes node_hash =
     fold (\<lambda>(node_id, hashes) hn.
       if length hashes > 1
       then fold (\<lambda>hash hn. map_set2 string_lt (<) hn hash node_id False) hashes hn
       else fold (\<lambda>hash hn. map_set2 string_lt (<) hn hash node_id True) hashes hn) node_hash []"

definition analyze_duplicate :: "(i32, string oset) omap \<Rightarrow> duplicates" where
  "analyze_duplicate node_hash =
     (let hash_nodes = dup_hash_nodes node_hash
      in fold (\<lambda>(node_id, hashes) dup.
           fold (\<lambda>hash dup.
             fold (\<lambda>(dup_node_id, flag) dup.
               if dup_node_id \<noteq> node_id
               then let both = (flag \<and> length hashes = 1)
                    in map_set2 (<) (<) (map_set2 (<) (<) dup node_id dup_node_id both) dup_node_id node_id both
               else dup) (map_touch string_lt [] hash_nodes hash) dup) hashes dup) node_hash [])"

subsection \<open>The graph that is written out\<close>

record gv_node =
  gv_node_id :: i32
  gv_type :: string
  gv_duplicate :: string
  gv_count :: u64

record gv_edge =
  ge_type :: string
  ge_memory_node_id :: i32
  ge_redundancy :: rat
  ge_overwrite :: rat
  ge_count :: u64

text \<open>The vertices in the order of their descriptors, and the edges between descriptors.\<close>

record gv_graph =
  gv_vertices :: "gv_node list"
  gv_edges :: "(nat \<times> nat \<times> gv_edge) list"

definition df_node_label :: "df_node \<Rightarrow> string" where
  "df_node_label n =
     (if n_ctx n = SHARED_MEMORY_CTX_ID then ''SHARED''
      else if n_ctx n = CONSTANT_MEMORY_CTX_ID then ''CONSTANT''
      else if n_ctx n = UVM_MEMORY_CTX_ID then ''UVM''
      else if n_ctx n = HOST_MEMORY_CTX_ID then ''HOST''
      else if n_ctx n = LOCAL_MEMORY_CTX_ID then ''LOCAL''
      else get_operation_type (n_type n))"

definition df_dup_label :: "duplicates \<Rightarrow> i32 \<Rightarrow> string" where
  "df_dup_label dup ctx =
     concat (map (\<lambda>(b, whole). int_to_string b @ '','' @ (if whole then ''TOTAL'' else ''PARTIAL'') @ '';'')
       (map_touch (<) [] dup ctx))"

definition df_dump_vertex ::
  "data_flow \<Rightarrow> duplicates \<Rightarrow> i32 \<times> df_node \<Rightarrow> (i32, nat) omap \<times> gv_node list \<Rightarrow> (i32, nat) omap \<times> gv_node list" where
  "df_dump_vertex s dup entry acc =
     (case entry of (_, n) \<Rightarrow> case acc of (vertice, vs) \<Rightarrow>
        if map_has (<) vertice (n_ctx n) then (vertice, vs)
        else (map_set (<) vertice (n_ctx n) (length vs),
              vs @ [\<lparr>gv_node_id = n_ctx n, gv_type = df_node_label n, gv_duplicate = df_dup_label dup (n_ctx n),
                     gv_count = map_touch (<) 0 (df_node_count s) (n_ctx n)\<rparr>]))"

definition df_dump_edge ::
  "data_flow \<Rightarrow> (i32, nat) omap \<Rightarrow> nat \<Rightarrow> edge_index \<Rightarrow> (nat \<times> nat \<times> gv_edge) list \<Rightarrow>
   (nat \<times> nat \<times> gv_edge) list outcome" where
  "df_dump_edge s vertice v e es =
     fbind (node_at (<) (df_graph s) (e_from e)) (\<lambda>incoming_node.
     fbind (edge_at edge_index_lt (df_graph s) e) (\<lambda>d.
     let edge_count = (if ed_count d = 0 then 1 else ed_count d);
         redundancy_avg = (if ed_overwrite d = 0 then 0
           else double_div (double_of (uint (ed_redundancy d))) (double_of (uint (ed_overwrite d))));
         overwrite_avg = double_div (double_of (uint (ed_overwrite d))) (double_of (uint edge_count));
         iv = map_touch (<) 0 vertice (n_ctx incoming_node)
     in Inr (es @ [(iv, v, \<lparr>ge_type = get_data_flow_edge_type (e_type e), ge_memory_node_id = e_mem_ctx e,
                     ge_redundancy = redundancy_avg, ge_overwrite = overwrite_avg, ge_count = edge_count\<rparr>)])))"

definition df_dump :: "duplicates \<Rightarrow> data_flow \<Rightarrow> gv_graph outcome" where
  "df_dump dup s =
     (case fold (df_dump_vertex s dup) (g_nodes (df_graph s)) ([], []) of (vertice, vs) \<Rightarrow>
        fbind (ffold (\<lambda>(_, n) es.
                 let v = map_touch (<) 0 vertice (n_ctx n)
                 in if incoming_edge_size (<) (df_graph s) (n_ctx n) > 0
                    then fbind (incoming_edges (<) (df_graph s) (n_ctx n)) (\<lambda>inc.
                           ffold (df_dump_edge s vertice v) inc es)
                    else Inr es) (g_nodes (df_graph s)) [])
          (\<lambda>es. Inr \<lparr>gv_vertices = vs, gv_edges = es\<rparr>))"

definition df_flush :: "data_flow \<Rightarrow> gv_graph outcome" where
  "df_flush s = df_dump (analyze_duplicate (df_node_hash s)) s"

subsection \<open>Invariant\<close>

lemma edge_type_no_inj: "edge_type_no a = edge_type_no b \<longleftrightarrow> a = b"
  by (cases a; cases b) auto

interpretation edge_order: strict_total edge_index_lt
proof
  show "\<not> edge_index_lt x x" for x by (simp add: edge_index_lt_def)
  show "edge_index_lt x y \<Longrightarrow> edge_index_lt y z \<Longrightarrow> edge_index_lt x z" for x y z
    by (auto simp: edge_index_lt_def split: if_splits)
  show "edge_index_lt x y \<Longrightarrow> edge_index_lt x z \<or> edge_index_lt z y" for x y z
    by (auto simp: edge_index_lt_def split: if_splits)
  show "\<not> edge_index_lt x y \<Longrightarrow> \<not> edge_index_lt y x \<Longrightarrow> x = y" for x y
    by (auto simp: edge_index_lt_def edge_type_no_inj split: if_splits intro!: edge_index.equality)
qed

interpretation flow_graph: graph_keys "(<) :: i32 \<Rightarrow> i32 \<Rightarrow> bool" edge_index_lt e_from e_to ..

definition df_side_ok :: "(u64, memory_range oset) omap \<Rightarrow> bool" where
  "df_side_ok m \<longleftrightarrow> map_ok (<) m \<and> (\<forall>rs \<in> snd ` set m. ranges_ok rs \<and> rs \<noteq> [])"

definition df_trace_ok :: "df_trace \<Rightarrow> bool" where
  "df_trace_ok t \<longleftrightarrow> df_side_ok (t_read t) \<and> df_side_ok (t_write t)"

definition df_graph_ok :: "data_flow \<Rightarrow> bool" where
  "df_graph_ok s \<longleftrightarrow>
     graph_ok (<) edge_index_lt e_from e_to (df_graph s) \<and>
     (\<forall>i n. map_at (<) (g_nodes (df_graph s)) i = Some n \<longrightarrow> n_ctx n = i) \<and>
     (\<forall>e. has_edge edge_index_lt (df_graph s) e \<longrightarrow>
        has_node (<) (df_graph s) (e_from e) \<and> has_node (<) (df_graph s) (e_to e)) \<and>
     map_ok (<) (df_op_node s) \<and>
     (\<forall>k c. map_at (<) (df_op_node s) k = Some c \<longrightarrow> has_node (<) (df_graph s) c)"

definition df_memories_ok :: "data_flow \<Rightarrow> bool" where
  "df_memories_ok s \<longleftrightarrow>
     map_ok (<) (df_memories s) \<and>
     (\<forall>k m. map_at (<) (df_memories s) k = Some m \<longrightarrow>
        op_id m = k \<and> map_at (<) (df_op_node s) k \<noteq> None)"

definition df_traces_ok :: "data_flow \<Rightarrow> bool" where
  "df_traces_ok s \<longleftrightarrow>
     map_ok (<) (df_kernel_trace s) \<and>
     (\<forall>thr. map_ok (<) (map_touch (<) [] (df_kernel_trace s) thr)) \<and>
     (\<forall>thr k t. map_at (<) (map_touch (<) [] (df_kernel_trace s) thr) k = Some t \<longrightarrow> df_trace_ok t)"

definition df_ok :: "data_flow \<Rightarrow> bool" where
  "df_ok s \<longleftrightarrow> df_graph_ok s \<and> df_memories_ok s \<and> df_traces_ok s \<and> path_ok (df_ranges s)"

abbreviation df_has_node :: "data_flow \<Rightarrow> i32 \<Rightarrow> bool" where
  "df_has_node s ctx \<equiv> has_node (<) (df_graph s) ctx"

subsection \<open>The graph operations keep it\<close>

lemma has_node_at: "has_node lti g i \<longleftrightarrow> map_at lti (g_nodes g) i \<noteq> None"
  by (simp add: has_node_def map_at_def)

lemma has_node_simps [simp]:
  "has_node lti (add_edge lti' lte f t e d g) i = has_node lti g i"
  "has_node lti (edge_modify lte e h g) i = has_node lti g i"
  by (auto simp: has_node_def add_edge_def edge_modify_def split: option.splits)

lemma g_nodes_simps [simp]:
  "g_nodes (add_edge lti' lte f t e d g) = g_nodes g"
  "g_nodes (edge_modify lte e h g) = g_nodes g"
  by (auto simp: add_edge_def edge_modify_def split: option.splits)

lemma has_edge_add:
  "graph_ok (<) edge_index_lt e_from e_to g \<Longrightarrow>
   has_edge edge_index_lt (add_edge (<) edge_index_lt e_from e_to e d g) e' \<longleftrightarrow> e' = e \<or> has_edge edge_index_lt g e'"
  by (auto simp: has_edge_def add_edge_def graph_ok_def map_has_at edge_order.map_at_emplace)

lemma has_edge_modify:
  "graph_ok (<) edge_index_lt e_from e_to g \<Longrightarrow>
   has_edge edge_index_lt (edge_modify edge_index_lt e f g) e' \<longleftrightarrow> has_edge edge_index_lt g e'"
  by (auto simp: has_edge_def edge_modify_def graph_ok_def map_has_at edge_order.map_at_set split: option.splits)

lemma has_node_add:
  "graph_ok (<) edge_index_lt e_from e_to g \<Longrightarrow>
   has_node (<) (df_add_node ctx ty g) i \<longleftrightarrow> i = ctx \<or> has_node (<) g i"
  by (auto simp: has_node_at df_add_node_def add_node_def graph_ok_def int_order.map_at_emplace)

text \<open>What the graph operations leave alone.\<close>

lemma df_frame [simp]:
  "df_op_node (df_link_ctx_node src dst mem ty s) = df_op_node s"
  "df_op_node (df_update_edge_metrics src dst mem r w c ty s) = df_op_node s"
  "df_memories (df_link_ctx_node src dst mem ty s) = df_memories s"
  "df_memories (df_update_edge_metrics src dst mem r w c ty s) = df_memories s"
  "df_ranges (df_link_ctx_node src dst mem ty s) = df_ranges s"
  "df_ranges (df_update_edge_metrics src dst mem r w c ty s) = df_ranges s"
  "df_kernel_trace (df_link_ctx_node src dst mem ty s) = df_kernel_trace s"
  "df_kernel_trace (df_update_edge_metrics src dst mem r w c ty s) = df_kernel_trace s"
  "df_configs (df_link_ctx_node src dst mem ty s) = df_configs s"
  "df_configs (df_update_edge_metrics src dst mem r w c ty s) = df_configs s"
  "df_trace_at (df_link_ctx_node src dst mem ty s) = df_trace_at s"
  "df_trace_at (df_update_edge_metrics src dst mem r w c ty s) = df_trace_at s"
  by (simp_all add: df_link_ctx_node_def df_update_edge_metrics_def Let_def)

lemma df_has_node_frame [simp]:
  "df_has_node (df_link_ctx_node src dst mem ty s) i = df_has_node s i"
  "df_has_node (df_update_edge_metrics src dst mem r w c ty s) i = df_has_node s i"
  by (simp_all add: df_link_ctx_node_def df_update_edge_metrics_def Let_def)

lemma df_graph_ok_link:
  assumes "df_graph_ok s" "df_has_node s src" "df_has_node s dst"
  shows "df_graph_ok (df_link_ctx_node src dst mem ty s)"
proof -
  have g: "graph_ok (<) edge_index_lt e_from e_to (df_graph s)" using assms by (simp add: df_graph_ok_def)
  show ?thesis
    using assms flow_graph.graph_ok_add_edge [OF g]
    by (auto simp: df_graph_ok_def df_link_ctx_node_def has_edge_add [OF g] EdgeIndex_def)
qed

lemma df_graph_ok_metrics:
  assumes "df_graph_ok s"
  shows "df_graph_ok (df_update_edge_metrics src dst mem r w c ty s)"
proof -
  have g: "graph_ok (<) edge_index_lt e_from e_to (df_graph s)" using assms by (simp add: df_graph_ok_def)
  show ?thesis
    using assms flow_graph.graph_ok_edge_modify [OF g]
    by (auto simp: df_graph_ok_def df_update_edge_metrics_def has_edge_modify [OF g] Let_def)
qed

lemma df_ok_link: "df_ok s \<Longrightarrow> df_has_node s src \<Longrightarrow> df_has_node s dst \<Longrightarrow> df_ok (df_link_ctx_node src dst mem ty s)"
  by (simp add: df_ok_def df_graph_ok_link df_memories_ok_def df_traces_ok_def)

lemma df_ok_metrics: "df_ok s \<Longrightarrow> df_ok (df_update_edge_metrics src dst mem r w c ty s)"
  by (simp add: df_ok_def df_graph_ok_metrics df_memories_ok_def df_traces_ok_def)

lemma df_op_node_has_node: "df_ok s \<Longrightarrow> map_at (<) (df_op_node s) k = Some c \<Longrightarrow> df_has_node s c"
  by (simp add: df_ok_def df_graph_ok_def)

lemma df_ok_link_op: "df_ok s \<Longrightarrow> df_has_node s ctx \<Longrightarrow> df_ok (df_link_op_node k ctx mem s)"
  by (auto simp: df_link_op_node_def df_op_node_has_node intro: df_ok_link split: option.splits)

lemma df_ok_op_metrics: "df_ok s \<Longrightarrow> df_ok (df_update_op_metrics k ctx mem r w c ty s)"
  by (auto simp: df_update_op_metrics_def intro: df_ok_metrics split: option.splits)

lemma df_op_frame [simp]:
  "df_op_node (df_link_op_node k ctx mem s) = df_op_node s"
  "df_op_node (df_update_op_metrics k ctx mem r w c ty s) = df_op_node s"
  "df_memories (df_link_op_node k ctx mem s) = df_memories s"
  "df_memories (df_update_op_metrics k ctx mem r w c ty s) = df_memories s"
  "df_memories (df_update_op_node k ctx s) = df_memories s"
  "df_configs (df_link_op_node k ctx mem s) = df_configs s"
  "df_configs (df_update_op_metrics k ctx mem r w c ty s) = df_configs s"
  "df_configs (df_update_op_node k ctx s) = df_configs s"
  "df_kernel_trace (df_link_op_node k ctx mem s) = df_kernel_trace s"
  "df_kernel_trace (df_update_op_metrics k ctx mem r w c ty s) = df_kernel_trace s"
  "df_kernel_trace (df_update_op_node k ctx s) = df_kernel_trace s"
  "df_trace_at (df_link_op_node k ctx mem s) = df_trace_at s"
  "df_trace_at (df_update_op_metrics k ctx mem r w c ty s) = df_trace_at s"
  "df_trace_at (df_update_op_node k ctx s) = df_trace_at s"
  "df_ranges (df_link_op_node k ctx mem s) = df_ranges s"
  "df_ranges (df_update_op_metrics k ctx mem r w c ty s) = df_ranges s"
  "df_ranges (df_update_op_node k ctx s) = df_ranges s"
  "df_has_node (df_link_op_node k ctx mem s) i = df_has_node s i"
  "df_has_node (df_update_op_metrics k ctx mem r w c ty s) i = df_has_node s i"
  "df_has_node (df_update_op_node k ctx s) i = df_has_node s i"
  by (simp_all add: df_link_op_node_def df_update_op_metrics_def df_update_op_node_def split: option.splits)

lemma df_ok_op_node:
  assumes "df_ok s" "df_has_node s ctx"
  shows "df_ok (df_update_op_node k ctx s)"
proof -
  have m: "map_ok (<) (df_op_node s)" using assms by (simp add: df_ok_def df_graph_ok_def)
  show ?thesis
    using assms u64_order.map_ok_set [OF m]
    by (auto simp: df_ok_def df_graph_ok_def df_memories_ok_def df_traces_ok_def df_update_op_node_def
        u64_order.map_at_set [OF m])
qed

subsection \<open>Hashing\<close>

definition df_hashable :: "data_flow \<Rightarrow> bool" where
  "df_hashable s \<longleftrightarrow>
     (df_configs s REDSHOW_ANALYSIS_DATA_FLOW_HASH \<longrightarrow>
        (\<forall>m \<in> snd ` set (df_memories s). mem_len m < 2 ^ 31))"


lemma df_ok_node_hash [simp]: "df_ok (s\<lparr>df_node_hash := x\<rparr>) = df_ok s"
  by (simp add: df_ok_def df_graph_ok_def df_memories_ok_def df_traces_ok_def)

lemma df_hash_node_total:
  assumes "df_configs s REDSHOW_ANALYSIS_DATA_FLOW_HASH \<Longrightarrow> len < 2 ^ 31"
  shows "\<exists>x. df_hash_node ctx st len h s = Inr (s\<lparr>df_node_hash := x\<rparr>)"
proof (cases "df_configs s REDSHOW_ANALYSIS_DATA_FLOW_HASH")
  case True
  from compute_memory_hash_total [OF assms [OF True]]
  obtain hash where "compute_memory_hash h st len = Inr hash" by blast
  with True show ?thesis by (auto simp: df_hash_node_def df_emplace_hash_def)
next
  case False
  have "s = s\<lparr>df_node_hash := df_node_hash s\<rparr>" by simp
  with False show ?thesis unfolding df_hash_node_def by (metis (full_types))
qed

lemma df_hashable_at:
  assumes "df_ok s" "df_hashable s" "map_at (<) (df_memories s) k = Some m"
  shows "df_configs s REDSHOW_ANALYSIS_DATA_FLOW_HASH \<Longrightarrow> mem_len m < 2 ^ 31"
  using assms u64_order.map_at_iff_mem [of "df_memories s" k m]
  by (force simp: df_hashable_def df_ok_def df_memories_ok_def)

subsection \<open>The callbacks\<close>

text \<open>What a callback needs from the tool: the memory objects it names have been registered.\<close>

definition df_known :: "data_flow \<Rightarrow> operation \<Rightarrow> bool" where
  "df_known s op =
     (case op of
        KernelOp k \<Rightarrow>
          (case df_current s of
             None \<Rightarrow> True
           | Some t \<Rightarrow> \<forall>mid \<in> fst ` set (t_read t) \<union> fst ` set (t_write t). map_has (<) (df_memories s) mid)
      | MemoryOp m \<Rightarrow> op_id m > REDSHOW_MEMORY_HOST
      | MemcpyOp c \<Rightarrow>
          map_has (<) (df_memories s) (src_memory_op_id c) \<and> map_has (<) (df_memories s) (dst_memory_op_id c) \<and>
          (df_configs s REDSHOW_ANALYSIS_DATA_FLOW_HASH \<longrightarrow> mc_len c < 2 ^ 31)
      | MemsetOp m \<Rightarrow> map_has (<) (df_memories s) (ms_memory_op_id m)
      | MemfreeOp _ \<Rightarrow> True)"

definition df_kept :: "data_flow \<Rightarrow> i32 \<Rightarrow> data_flow \<Rightarrow> bool" where
  "df_kept s ctx s' \<longleftrightarrow>
     df_ok s' \<and> df_has_node s' ctx \<and> df_memories s' = df_memories s \<and> df_configs s' = df_configs s \<and>
     df_kernel_trace s' = df_kernel_trace s \<and> df_trace_at s' = df_trace_at s"

lemma df_memory_node:
  "df_ok s \<Longrightarrow> map_at (<) (df_memories s) k = Some m \<Longrightarrow> op_id m = k \<and> (\<exists>c. map_at (<) (df_op_node s) k = Some c)"
  by (auto simp: df_ok_def df_memories_ok_def)

lemma df_kernel_read_kept:
  assumes "df_kept s0 (ctx_id op) s" "map_has (<) (df_memories s0) (fst e)"
  shows "\<exists>s'. df_kernel_read op e s = Inr s' \<and> df_kept s0 (ctx_id op) s'"
proof -
  obtain mid rs where e: "e = (mid, rs)" by (cases e)
  from assms e obtain m where m: "map_at (<) (df_memories s) mid = Some m"
    by (auto simp: df_kept_def map_has_at)
  have "df_ok s" using assms(1) by (simp add: df_kept_def)
  from df_memory_node [OF this m] obtain c where c: "op_id m = mid" "map_at (<) (df_op_node s) mid = Some c"
    by blast
  then have "df_has_node s c" using assms(1) df_op_node_has_node by (auto simp: df_kept_def)
  with assms m c e show ?thesis
    by (auto simp: df_kernel_read_def df_kept_def Let_def intro!: df_ok_op_metrics df_ok_link)
qed

lemma path_push_all:
  "path_ok p \<Longrightarrow>
   \<exists>p'. ffold (\<lambda>r. path_push_back d (f r)) rs p = Inr p' \<and> path_ok p' \<and>
        path_contents p' = path_contents p @ map f rs"
proof (induction rs arbitrary: p)
  case (Cons r rs)
  from path_push_back_ok [OF Cons.prems, of d "f r"] obtain q where
    "path_push_back d (f r) p = Inr q" "path_ok q" "path_contents q = path_contents p @ [f r]" by blast
  with Cons.IH [of q] show ?case by auto
qed simp

lemma df_redundancy_total:
  assumes "path_ok p"
  shows "\<exists>x. df_redundancy m p h = Inr x"
proof -
  have "i < length (p_entries p)" if "i \<in> set [0..<p_index p]" for i
    using that assms by (auto simp: path_ok_def)
  then show ?thesis
    unfolding df_redundancy_def Let_def
    using ffold_total [where P = "\<lambda>_. True"]
    by (smt (verit, ccfv_threshold) case_prod_beta' fbind_Inr path_get_def)
qed

lemma df_kernel_write_kept:
  assumes s: "df_kept s0 (ctx_id op) s" and k: "map_has (<) (df_memories s0) (fst e)" and rs: "snd e \<noteq> []"
    and hash: "df_hashable s0"
  shows "\<exists>s' h'. df_kernel_write fn op e (s, h) = Inr (s', h') \<and> df_kept s0 (ctx_id op) s'"
proof -
  obtain mid rs where e: "e = (mid, rs)" by (cases e)
  from s k e obtain m where m: "map_at (<) (df_memories s) mid = Some m"
    by (auto simp: df_kept_def map_has_at)
  from s have ok: "df_ok s" "df_has_node s (ctx_id op)" by (simp_all add: df_kept_def)
  have p: "path_ok (path_reset (df_ranges s))" using ok path_ok_reset by (auto simp: df_ok_def)
  from path_push_all [OF p, where f = "\<lambda>r. MemoryRange (mr_start r) (mr_end r)"]
  obtain ranges where ranges: "path_ok ranges"
    "ffold (\<lambda>r. path_push_back (MemoryRange 0 0) (MemoryRange (mr_start r) (mr_end r))) rs
       (path_reset (df_ranges s)) = Inr ranges" by blast
  obtain h1 where h1: "df_fetch fn m rs h = Inr h1"
    using rs e by (cases "df_fragmented (df_sum_ranges rs) m (length rs)") (auto simp: df_fetch_def Let_def)
  obtain red h2 where h2: "df_redundancy m ranges h1 = Inr (red, h2)"
    using df_redundancy_total [OF ranges(1)] by (metis surj_pair)
  let ?s = "df_update_op_node (op_id m) (ctx_id op)
      (df_update_op_metrics (op_id m) (ctx_id op) (ctx_id m) (scast red) (scast (df_sum_ranges rs)) (mem_len m)
         DATA_FLOW_EDGE_ORDER (df_link_op_node (op_id m) (ctx_id op) (ctx_id m) (s\<lparr>df_ranges := ranges\<rparr>)))"
  have s1: "df_ok (s\<lparr>df_ranges := ranges\<rparr>)"
    using ok ranges(1) by (simp add: df_ok_def df_graph_ok_def df_memories_ok_def df_traces_ok_def)
  then have s2: "df_ok ?s"
    using ok by (intro df_ok_op_node df_ok_op_metrics df_ok_link_op) simp_all
  have "df_configs ?s REDSHOW_ANALYSIS_DATA_FLOW_HASH \<Longrightarrow> mem_len m < 2 ^ 31"
    using df_hashable_at [OF ok(1) _ m] hash s by (simp add: df_hashable_def df_kept_def)
  from df_hash_node_total [OF this] obtain x where
    x: "df_hash_node (ctx_id op) (mem_value_cache m) (mem_len m) h2 ?s = Inr (?s\<lparr>df_node_hash := x\<rparr>)" by blast
  show ?thesis
  proof (cases "op_id m > REDSHOW_MEMORY_HOST")
    case True
    then show ?thesis
      using e m ranges h1 h2 x s2 s by (auto simp: df_kernel_write_def df_kept_def)
  next
    case False
    then show ?thesis using e m s by (auto simp: df_kernel_write_def)
  qed
qed

lemma df_kernel_reads_kept:
  assumes "df_kept s0 (ctx_id op) s" "\<forall>e \<in> set es. map_has (<) (df_memories s0) (fst e)"
  shows "\<exists>s'. ffold (df_kernel_read op) es s = Inr s' \<and> df_kept s0 (ctx_id op) s'"
  using assms df_kernel_read_kept by (intro ffold_total) auto

lemma df_kernel_writes_kept:
  assumes "df_kept s0 (ctx_id op) s" "\<forall>e \<in> set es. map_has (<) (df_memories s0) (fst e) \<and> snd e \<noteq> []"
    and "df_hashable s0"
  shows "\<exists>s' h'. ffold (df_kernel_write fn op) es (s, h) = Inr (s', h') \<and> df_kept s0 (ctx_id op) s'"
  using ffold_total [of es "\<lambda>(s, h). df_kept s0 (ctx_id op) s" "df_kernel_write fn op" "(s, h)"]
    assms df_kernel_write_kept by fastforce

lemma df_traces_ok_put:
  assumes "df_traces_ok s" "df_trace_ok t"
  shows "df_traces_ok (df_put_current t s)"
proof (cases "df_trace_at s")
  case (Some key)
  obtain thr k where "key = (thr, k)" by (cases key)
  let ?f = "\<lambda>m. map_set (<) m k t"
  have m: "map_ok (<) (df_kernel_trace s)" and mm: "\<And>th. map_ok (<) (map_touch (<) [] (df_kernel_trace s) th)"
    using assms(1) by (auto simp: df_traces_ok_def)
  have touch: "map_touch (<) [] (map_upd (<) [] (df_kernel_trace s) thr ?f) th =
      (if th = thr then ?f (map_touch (<) [] (df_kernel_trace s) thr) else map_touch (<) [] (df_kernel_trace s) th)" for th
    by (simp add: map_touch_def u32_order.map_at_upd [OF m])
  show ?thesis
    using assms Some \<open>key = (thr, k)\<close> u32_order.map_ok_upd [OF m] int_order.map_ok_set [OF mm]
    by (auto simp: df_traces_ok_def df_put_current_def touch int_order.map_at_set [OF mm])
qed (use assms in \<open>simp add: df_put_current_def\<close>)

lemma df_current_ok: "df_traces_ok s \<Longrightarrow> df_current s = Some t \<Longrightarrow> df_trace_ok t"
  by (auto simp: df_traces_ok_def df_current_def split: option.splits)

lemma df_put_current_frame [simp]:
  "df_graph (df_put_current t s) = df_graph s" "df_op_node (df_put_current t s) = df_op_node s"
  "df_memories (df_put_current t s) = df_memories s" "df_ranges (df_put_current t s) = df_ranges s"
  "df_configs (df_put_current t s) = df_configs s" "df_trace_at (df_put_current t s) = df_trace_at s"
  by (simp_all add: df_put_current_def split: option.splits)

lemma df_ok_put: "df_ok s \<Longrightarrow> df_trace_ok t \<Longrightarrow> df_ok (df_put_current t s)"
  by (simp add: df_ok_def df_traces_ok_put) (simp add: df_graph_ok_def df_memories_ok_def)

lemma df_ok_trace_at [simp]: "df_ok (s\<lparr>df_trace_at := x\<rparr>) = df_ok s"
  by (simp add: df_ok_def df_graph_ok_def df_memories_ok_def df_traces_ok_def)

lemma df_kernel_op_ok:
  assumes "df_ok s" "df_has_node s (ctx_id op)" "df_known s (KernelOp op)" "df_hashable s"
  shows "\<exists>s' h'. df_kernel_op_callback fn op (s, h) = Inr (s', h') \<and> df_ok s'"
proof (cases "df_current s")
  case None
  with assms show ?thesis by (simp add: df_kernel_op_callback_def)
next
  case (Some t)
  have t: "df_trace_ok t" using assms(1) df_current_ok [OF _ Some] by (simp add: df_ok_def)
  have r: "\<forall>e \<in> set (t_read t). map_has (<) (df_memories s) (fst e)"
    and w: "\<forall>e \<in> set (t_write t). map_has (<) (df_memories s) (fst e) \<and> snd e \<noteq> []"
    using assms(3) Some t by (auto simp: df_known_def df_trace_ok_def df_side_ok_def)
  have "df_kept s (ctx_id op) s" using assms by (simp add: df_kept_def)
  from df_kernel_reads_kept [OF this r] obtain s1 where
    s1: "ffold (df_kernel_read op) (t_read t) s = Inr s1" "df_kept s (ctx_id op) s1" by blast
  from df_kernel_writes_kept [OF s1(2) w assms(4)] obtain s2 h2 where
    s2: "ffold (df_kernel_write fn op) (t_write t) (s1, h) = Inr (s2, h2)" "df_kept s (ctx_id op) s2" by blast
  have "df_trace_ok (t\<lparr>t_read := [], t_write := []\<rparr>)" by (simp add: df_trace_ok_def df_side_ok_def)
  then have "df_ok (df_put_current (t\<lparr>t_read := [], t_write := []\<rparr>) s2)"
    using s2(2) df_ok_put by (simp add: df_kept_def)
  with Some s1(1) s2(1) show ?thesis by (simp add: df_kernel_op_callback_def)
qed

lemma df_memory_op_ok:
  assumes "df_ok s" "df_has_node s (ctx_id op)" "op_id op > REDSHOW_MEMORY_HOST"
  shows "\<exists>s' h'. df_memory_op_callback fn op (s, h) = Inr (s', h') \<and> df_ok s'"
proof -
  let ?s = "df_update_op_node (op_id op) (ctx_id op) s"
  have ok: "df_ok ?s" using assms by (intro df_ok_op_node)
  have m: "map_ok (<) (df_memories s)" and n: "map_ok (<) (df_op_node s)"
    using assms(1) by (simp_all add: df_ok_def df_memories_ok_def df_graph_ok_def)
  have "map_at (<) (df_op_node ?s) (op_id op) = Some (ctx_id op)"
    using assms(3) by (simp add: df_update_op_node_def u64_order.map_at_set [OF n])
  then have "df_memories_ok (?s\<lparr>df_memories := map_emplace (<) (df_memories ?s) (op_id op) op\<rparr>)"
    using ok u64_order.map_ok_emplace [OF m]
    by (auto simp: df_ok_def df_memories_ok_def u64_order.map_at_emplace [OF m] split: if_splits)
  then have "df_ok (?s\<lparr>df_memories := map_emplace (<) (df_memories ?s) (op_id op) op\<rparr>)"
    using ok by (simp add: df_ok_def df_graph_ok_def df_traces_ok_def)
  then show ?thesis by (simp add: df_memory_op_callback_def Let_def)
qed

lemma df_memset_op_ok:
  assumes "df_ok s" "df_has_node s (ctx_id op)" "df_known s (MemsetOp op)" "df_hashable s"
  shows "\<exists>s' h'. df_memset_op_callback op (s, h) = Inr (s', h') \<and> df_ok s'"
proof -
  from assms(3) obtain m where m: "map_at (<) (df_memories s) (ms_memory_op_id op) = Some m"
    by (auto simp: df_known_def map_has_at)
  let ?red = "compute_memset_redundancy (ms_shadow_start op) (ucast (ms_value op)) (ms_len op) h"
  let ?s = "df_update_op_node (ms_memory_op_id op) (ctx_id op)
      (df_update_op_metrics (ms_memory_op_id op) (ctx_id op) (ctx_id m) ?red (ms_len op) (mem_len m)
         DATA_FLOW_EDGE_ORDER (df_link_op_node (ms_memory_op_id op) (ctx_id op) (ctx_id m) s))"
  have ok: "df_ok ?s" using assms by (intro df_ok_op_node df_ok_op_metrics df_ok_link_op) simp_all
  have "df_configs ?s REDSHOW_ANALYSIS_DATA_FLOW_HASH \<Longrightarrow> mem_len m < 2 ^ 31"
    using df_hashable_at [OF assms(1,4) m] by simp
  from df_hash_node_total [OF this] obtain x where
    "df_hash_node (ctx_id op) (mem_value m) (mem_len m)
       (host_fill (ms_shadow_start op) (ucast (ms_value op)) (unat (ms_len op)) h) ?s = Inr (?s\<lparr>df_node_hash := x\<rparr>)"
    by blast
  with m ok show ?thesis by (simp add: df_memset_op_callback_def Let_def)
qed

lemma df_memcpy_dst_ok:
  assumes ok: "df_ok s" and ctx: "df_has_node s (ctx_id op)" and cd: "map_at (<) (df_op_node s) (dst_memory_op_id op) = Some cd"
  shows "\<exists>s'. df_memcpy_dst op ms md red len s = Inr s' \<and> df_ok s' \<and> df_has_node s' (ctx_id op) \<and>
     df_configs s' = df_configs s \<and> (\<forall>k. map_at (<) (df_op_node s) k \<noteq> None \<longrightarrow> map_at (<) (df_op_node s') k \<noteq> None)"
proof -
  have n: "map_ok (<) (df_op_node s)" using ok by (simp add: df_ok_def df_graph_ok_def)
  have keep: "map_at (<) (df_op_node s) k \<noteq> None \<Longrightarrow>
      map_at (<) (df_op_node (df_update_op_node j c (df_update_op_metrics a b d r w l ty (df_link_op_node e f g s)))) k \<noteq> None"
    for j c k a b d r w l ty e f g
    by (simp add: df_update_op_node_def u64_order.map_at_set [OF n])
  show ?thesis
    using ok ctx cd df_op_node_has_node [OF ok cd] keep
    by (cases "df_is_host_side (dst_memory_op_id op)")
       (simp_all add: df_memcpy_dst_def df_ok_metrics df_ok_link df_ok_op_node df_ok_op_metrics df_ok_link_op)
qed

lemma df_memcpy_op_ok:
  assumes ok: "df_ok s" and ctx: "df_has_node s (ctx_id op)" and known: "df_known s (MemcpyOp op)" and hash: "df_hashable s"
  shows "\<exists>s' h'. df_memcpy_op_callback op (s, h) = Inr (s', h') \<and> df_ok s'"
proof -
  from known obtain ms md where ms: "map_at (<) (df_memories s) (src_memory_op_id op) = Some ms"
    and md: "map_at (<) (df_memories s) (dst_memory_op_id op) = Some md"
    and len: "df_configs s REDSHOW_ANALYSIS_DATA_FLOW_HASH \<Longrightarrow> mc_len op < 2 ^ 31"
    by (auto simp: df_known_def map_has_at)
  from df_memory_node [OF ok ms] df_memory_node [OF ok md] obtain cs cd where
    cs: "map_at (<) (df_op_node s) (src_memory_op_id op) = Some cs" and
    cd: "map_at (<) (df_op_node s) (dst_memory_op_id op) = Some cd" by blast
  let ?dst_len = "if mem_len md = 0 then mc_len op else mem_len md"
  let ?red = "fst (compute_memcpy_redundancy False (dst_shadow_start op) (src_shadow_start op) (mc_len op) h)"
  from df_memcpy_dst_ok [OF ok ctx cd, of ms md ?red ?dst_len] obtain s1 where
    s1: "df_memcpy_dst op ms md ?red ?dst_len s = Inr s1" "df_ok s1" "df_has_node s1 (ctx_id op)"
      "df_configs s1 = df_configs s"
    and keep: "\<And>k. map_at (<) (df_op_node s) k \<noteq> None \<Longrightarrow> map_at (<) (df_op_node s1) k \<noteq> None" by blast
  from keep cs cd obtain cs' cd' where cs': "map_at (<) (df_op_node s1) (src_memory_op_id op) = Some cs'"
    and cd': "map_at (<) (df_op_node s1) (dst_memory_op_id op) = Some cd'" by blast
  let ?s2 = "df_update_op_metrics (src_memory_op_id op) (ctx_id op) (ctx_id ms) 0 (mc_len op)
      (if mem_len ms = 0 then mc_len op else mem_len ms) DATA_FLOW_EDGE_READ
      (df_link_ctx_node cs' (ctx_id op) (ctx_id ms) DATA_FLOW_EDGE_READ s1)"
  have s2: "df_ok ?s2"
    using s1 df_op_node_has_node [OF s1(2) cs'] by (auto intro!: df_ok_op_metrics df_ok_link)
  have "df_configs ?s2 REDSHOW_ANALYSIS_DATA_FLOW_HASH \<Longrightarrow> ?dst_len < 2 ^ 31"
    using df_hashable_at [OF ok hash md] len s1(4) by simp
  from df_hash_node_total [OF this] obtain x where
    "df_hash_node (ctx_id op) (if df_is_host_side (dst_memory_op_id op) then dst_shadow_start op else mem_value md)
       ?dst_len (memory_copy (dst_shadow_start op) (src_shadow_start op) (mc_len op) h) ?s2 = Inr (?s2\<lparr>df_node_hash := x\<rparr>)"
    by blast
  with ms md s1(1) cs' cd' s2 show ?thesis by (simp add: df_memcpy_op_callback_def Let_def)
qed

lemma df_ok_add_node:
  assumes "df_ok s"
  shows "df_ok (s\<lparr>df_graph := df_add_node ctx ty (df_graph s)\<rparr>)"
proof -
  have g: "graph_ok (<) edge_index_lt e_from e_to (df_graph s)"
    and n: "\<forall>i n. map_at (<) (g_nodes (df_graph s)) i = Some n \<longrightarrow> n_ctx n = i"
    and m: "map_ok (<) (g_nodes (df_graph s))"
    using assms by (simp_all add: df_ok_def df_graph_ok_def graph_ok_def)
  have "\<forall>i n. map_at (<) (g_nodes (df_add_node ctx ty (df_graph s))) i = Some n \<longrightarrow> n_ctx n = i"
    using n by (auto simp: df_add_node_def add_node_def int_order.map_at_emplace [OF m])
  moreover have "has_edge edge_index_lt (df_add_node ctx ty (df_graph s)) e = has_edge edge_index_lt (df_graph s) e" for e
    by (simp add: df_add_node_def add_node_def has_edge_def)
  ultimately show ?thesis
    using assms flow_graph.graph_ok_add_node [OF g]
    by (auto simp: df_ok_def df_graph_ok_def df_memories_ok_def df_traces_ok_def has_node_add [OF g])
      (simp add: df_add_node_def)
qed

lemma df_enter_frame [simp]:
  "df_memories (df_enter_ctx ctx ty s) = df_memories s"
  "df_configs (df_enter_ctx ctx ty s) = df_configs s"
  "df_kernel_trace (df_enter_ctx ctx ty s) = df_kernel_trace s"
  "df_trace_at (df_enter_ctx ctx ty s) = df_trace_at s"
  by (simp_all add: df_enter_ctx_def Let_def)

lemma df_enter_ok:
  assumes "df_ok s"
  shows "df_ok (df_enter_ctx ctx ty s)" "df_has_node (df_enter_ctx ctx ty s) ctx"
proof -
  have g: "graph_ok (<) edge_index_lt e_from e_to (df_graph s)" using assms by (simp add: df_ok_def df_graph_ok_def)
  have cnt: "df_ok (s\<lparr>df_node_count := x\<rparr>) = df_ok s" for s x
    by (simp add: df_ok_def df_graph_ok_def df_memories_ok_def df_traces_ok_def)
  show "df_ok (df_enter_ctx ctx ty s)"
    using assms df_ok_add_node [OF assms] by (simp add: df_enter_ctx_def Let_def cnt)
  show "df_has_node (df_enter_ctx ctx ty s) ctx"
    by (simp add: df_enter_ctx_def Let_def has_node_add [OF g])
qed

lemma df_current_enter [simp]: "df_current (df_enter_ctx ctx ty s) = df_current s"
  by (simp add: df_current_def split: option.split)

lemma df_known_enter: "df_known (df_enter_ctx ctx ty s) op = df_known s op"
  by (cases op) (simp_all add: df_known_def split: option.split)

lemma df_op_callback_keeps:
  assumes "df_ok s" "df_known s op" "df_hashable s"
  shows "\<exists>s' h'. df_op_callback fn op (s, h) = Inr (s', h') \<and> df_ok s'"
proof -
  let ?s = "df_enter_ctx (operation_ctx op) (operation_kind op) s"
  have hash: "df_hashable ?s" using assms(3) by (simp add: df_hashable_def)
  note ok = df_enter_ok [OF assms(1), of "operation_ctx op" "operation_kind op"]
  show ?thesis
    using df_kernel_op_ok [OF ok(1) _ _ hash] df_memory_op_ok [OF ok(1)] df_memset_op_ok [OF ok(1) _ _ hash]
      df_memcpy_op_ok [OF ok(1) _ _ hash] ok assms(2)
    by (cases op) (simp_all add: df_op_callback_def operation_ctx_def df_known_enter, simp add: df_known_def)
qed

text \<open>
  C9. Every operation callback of the data-flow analysis ends without a fault and keeps the invariant of the
  analysis, when the memory objects it names have been registered and, with hashing on, the objects
  are smaller than 2 GiB: the graph lists exactly its edges, every edge and every object points to existing nodes.
\<close>

theorem df_op_callback_ok:
  assumes "df_ok s" "df_known s op" "df_hashable s"
  shows "\<exists>s' h'. df_op_callback fn op (s, h) = Inr (s', h') \<and> df_ok s'"
  using assms by (rule df_op_callback_keeps)

lemma df_ok_DataFlow: "df_ok DataFlow"
proof -
  define g where "g = df_graph DataFlow"
  have gok: "graph_ok (<) edge_index_lt e_from e_to g"
    unfolding g_def DataFlow_def df_init_def df_add_node_def
    by (simp add: flow_graph.graph_ok_add_node flow_graph.graph_ok_empty)
  have nodes: "g_nodes g = map (\<lambda>i. (i, \<lparr>n_ctx = i, n_type = OPERATION_TYPE_MEMORY\<rparr>))
      [2 ^ 30, 2 ^ 30 + 1, 2 ^ 30 + 2, 2 ^ 30 + 3, 2 ^ 30 + 4]"
    by (simp add: g_def DataFlow_def df_init_def df_add_node_def add_node_def empty_graph_def map_emplace_def map_has_def
        memory_ctx_defs)
  have edges: "g_edges g = []"
    by (simp add: g_def DataFlow_def df_init_def df_add_node_def add_node_def empty_graph_def)
  have ops: "df_op_node DataFlow = [(1, 2 ^ 30), (2, 2 ^ 30 + 4), (4, 2 ^ 30 + 1), (5, 2 ^ 30 + 2), (6, 2 ^ 30 + 3)]"
    by (simp add: DataFlow_def df_init_def memory_type_defs memory_ctx_defs)
  have mems: "df_memories DataFlow = [(1, Memory_special 1 (2 ^ 30)), (2, Memory_special 2 (2 ^ 30 + 4)),
      (4, Memory_special 4 (2 ^ 30 + 1)), (5, Memory_special 5 (2 ^ 30 + 2)), (6, Memory_special 6 (2 ^ 30 + 3))]"
    by (simp add: DataFlow_def df_init_def memory_type_defs memory_ctx_defs)
  have "df_graph_ok DataFlow"
    using gok unfolding df_graph_ok_def g_def [symmetric]
    by (auto simp: nodes edges ops has_edge_def map_has_def has_node_at map_ok_def split: if_splits)
  moreover have mok: "map_ok (<) (df_memories DataFlow)" by (simp add: mems map_ok_def)
  have "df_memories_ok DataFlow"
    unfolding df_memories_ok_def u64_order.map_at_iff_mem [OF mok] using mok
    by (auto simp: mems ops Memory_special_def)
  moreover have "df_traces_ok DataFlow" "path_ok (df_ranges DataFlow)"
    by (simp_all add: df_traces_ok_def DataFlow_def df_init_def map_touch_def path_ok_new)
  ultimately show ?thesis by (simp add: df_ok_def)
qed

theorem df_op_callback_ok_witness:
  "\<exists>s' h'. df_op_callback None (MemcpyOp (Memcpy 9 3 REDSHOW_MEMORY_HOST 0 0 1000 REDSHOW_MEMORY_UVM 0 0 2000 16))
     (DataFlow, \<lambda>_. 0) = Inr (s', h') \<and> df_ok s'"
  by (rule df_op_callback_ok [OF df_ok_DataFlow])
     (simp_all add: df_known_def df_hashable_def DataFlow_def df_init_def Memcpy_def memory_type_defs map_has_at)

subsection \<open>Accesses\<close>

lemma df_current_put:
  assumes "df_traces_ok s" "df_trace_at s \<noteq> None"
  shows "df_current (df_put_current t s) = Some t"
proof -
  obtain thr k where at: "df_trace_at s = Some (thr, k)" using assms(2) by auto
  have m: "map_ok (<) (df_kernel_trace s)" and mm: "map_ok (<) (map_touch (<) [] (df_kernel_trace s) thr)"
    using assms(1) by (auto simp: df_traces_ok_def)
  then have "map_touch (<) [] (map_upd (<) [] (df_kernel_trace s) thr (\<lambda>m. map_set (<) m k t)) thr =
      map_set (<) (map_touch (<) [] (df_kernel_trace s) thr) k t"
    by (simp add: map_touch_def u32_order.map_at_upd)
  then show ?thesis
    using at by (simp add: df_current_def df_put_current_def int_order.map_at_set [OF mm])
qed

lemma df_current_at: "df_current s = Some t \<Longrightarrow> df_trace_at s \<noteq> None"
  by (cases "df_trace_at s") (auto simp: df_current_def)

lemma map_upd_values:
  assumes "map_ok (<) (m :: (u64, 'v) omap)" "\<forall>v \<in> snd ` set m. P v" "P (f (map_touch (<) d m k))"
  shows "\<forall>v \<in> snd ` set (map_upd (<) d m k f). P v"
  using assms(2,3) map_set_mem [of _ "(<)" m k "f (map_touch (<) d m k)"]
  by (fastforce simp: map_upd_def)

lemma df_touch_ok:
  assumes "df_side_ok m"
  shows "ranges_ok (map_touch (<) [] m k)"
proof (cases "map_at (<) m k")
  case (Some rs)
  with map_at_Some_mem [OF this] assms show ?thesis by (force simp: map_touch_def df_side_ok_def)
qed (simp add: map_touch_def range_simps)

lemma touch_upd_u64:
  "map_ok (<) (m :: (u64, 'v) omap) \<Longrightarrow>
   map_touch (<) d (map_upd (<) d m k f) j = (if j = k then f (map_touch (<) d m k) else map_touch (<) d m j)"
  by (simp add: map_touch_def u64_order.map_at_upd)

text \<open>The part of \<^verbatim>\<open>unit_access\<close> that merges a range into one side of the trace.\<close>

lemma df_merge_side:
  assumes m: "df_side_ok m" and r: "range_wf r"
  shows "df_side_ok (map_upd (<) [] m k (\<lambda>rs. merge_memory_range rs r))"
    "cover (map_touch (<) [] (map_upd (<) [] m k (\<lambda>rs. merge_memory_range rs r)) j) =
       cover (map_touch (<) [] m j) \<union> (if j = k then range_bytes r else {})"
proof -
  note sound = merge_memory_range_sound [OF df_touch_ok [OF m] r]
  have mok: "map_ok (<) m" and b: "\<forall>rs \<in> snd ` set m. ranges_ok rs \<and> rs \<noteq> []"
    using m by (simp_all add: df_side_ok_def)
  have "\<forall>rs \<in> snd ` set (map_upd (<) [] m k (\<lambda>rs. merge_memory_range rs r)). ranges_ok rs \<and> rs \<noteq> []"
    by (rule map_upd_values [OF mok b]) (simp add: sound merge_memory_range_not_Nil)
  then show "df_side_ok (map_upd (<) [] m k (\<lambda>rs. merge_memory_range rs r))"
    using u64_order.map_ok_upd [OF mok] by (simp add: df_side_ok_def)
  show "cover (map_touch (<) [] (map_upd (<) [] m k (\<lambda>rs. merge_memory_range rs r)) j) =
       cover (map_touch (<) [] m j) \<union> (if j = k then range_bytes r else {})"
    by (simp add: touch_upd_u64 [OF mok] sound)
qed

text \<open>The read side, when reads of objects with a range are ignored.\<close>

lemma df_read_side:
  fixes ignored :: bool
  assumes m: "df_side_ok m" and r: "range_wf r"
  defines "f \<equiv> \<lambda>rs. if \<not> ignored then merge_memory_range rs r else if rs = [] then set_insert range_lt rs r else rs"
  shows "df_side_ok (map_upd (<) [] m k f)"
    "cover (map_touch (<) [] (map_upd (<) [] m k f) j) =
       cover (map_touch (<) [] m j) \<union> (if j = k \<and> (ignored \<longrightarrow> map_touch (<) [] m j = []) then range_bytes r else {})"
proof -
  have mok: "map_ok (<) m" and b: "\<forall>rs \<in> snd ` set m. ranges_ok rs \<and> rs \<noteq> []"
    using m by (simp_all add: df_side_ok_def)
  have step: "ranges_ok (f rs) \<and> f rs \<noteq> [] \<and> cover (f rs) = cover rs \<union> (if ignored \<longrightarrow> rs = [] then range_bytes r else {})"
    if "ranges_ok rs" for rs
    using that r merge_memory_range_sound [OF that r] merge_memory_range_not_Nil [of rs r]
    by (auto simp: f_def range_simps ranges_ok_def cover_def)
  have "\<forall>rs \<in> snd ` set (map_upd (<) [] m k f). ranges_ok rs \<and> rs \<noteq> []"
    by (rule map_upd_values [OF mok b]) (use step [OF df_touch_ok [OF m]] in blast)
  then show "df_side_ok (map_upd (<) [] m k f)"
    using u64_order.map_ok_upd [OF mok] by (simp add: df_side_ok_def)
  show "cover (map_touch (<) [] (map_upd (<) [] m k f) j) =
       cover (map_touch (<) [] m j) \<union> (if j = k \<and> (ignored \<longrightarrow> map_touch (<) [] m j = []) then range_bytes r else {})"
    using step [OF df_touch_ok [OF m]] by (simp add: touch_upd_u64 [OF mok])
qed

text \<open>
  C14. An access recorded while a kernel is analysed adds exactly the accessed bytes to the bytes of the object, on
  the read side when it reads and on the write side when it writes, and changes nothing for other objects. Accesses of
  special memories (operation ids up to that of the host) are not recorded. When reads are to be ignored
  (\<^verbatim>\<open>REDSHOW_ANALYSIS_READ_TRACE_IGNORE\<close>), a read only counts as long as nothing has been recorded on the
  read side of its object. The accessed range must not wrap around the end of the address space.
\<close>

theorem df_unit_access_records:
  assumes "df_ok s" "df_current s = Some t" "range_wf (mem_range m)"
  shows "\<exists>s' t'. df_unit_access m flags s = Inr s' \<and> df_ok s' \<and> df_current s' = Some t' \<and>
     (\<forall>k. cover (map_touch (<) [] (t_read t') k) = cover (map_touch (<) [] (t_read t) k) \<union>
            (if k = op_id m \<and> op_id m > REDSHOW_MEMORY_HOST \<and> has_flag flags GPU_PATCH_READ
                \<and> (df_configs s REDSHOW_ANALYSIS_READ_TRACE_IGNORE \<longrightarrow> map_touch (<) [] (t_read t) k = [])
             then range_bytes (mem_range m) else {})) \<and>
     (\<forall>k. cover (map_touch (<) [] (t_write t') k) = cover (map_touch (<) [] (t_write t) k) \<union>
            (if k = op_id m \<and> op_id m > REDSHOW_MEMORY_HOST \<and> has_flag flags GPU_PATCH_WRITE
             then range_bytes (mem_range m) else {}))"
proof (cases "op_id m > REDSHOW_MEMORY_HOST")
  case False
  then have "df_unit_access m flags s = Inr s" by (simp add: df_unit_access_def not_less)
  with False assms(1,2) show ?thesis by auto
next
  case True
  let ?r = "mem_range m" and ?k = "op_id m" and ?c = "df_configs s REDSHOW_ANALYSIS_READ_TRACE_IGNORE"
  let ?f = "\<lambda>rs. if \<not> ?c then merge_memory_range rs ?r else if rs = [] then set_insert range_lt rs ?r else rs"
  have tok: "df_trace_ok t" using assms(1) df_current_ok [OF _ assms(2)] by (simp add: df_ok_def)
  then have R: "df_side_ok (t_read t)" and W: "df_side_ok (t_write t)" by (auto simp: df_trace_ok_def)
  note rd = df_read_side [OF R assms(3), where ignored = ?c] and wr = df_merge_side [OF W assms(3)]
  define t1 where "t1 = (if has_flag flags GPU_PATCH_READ then t\<lparr>t_read := map_upd (<) [] (t_read t) ?k ?f\<rparr> else t)"
  define s1 where "s1 = (if has_flag flags GPU_PATCH_READ then df_put_current t1 s else s)"
  define t2 where "t2 = (if has_flag flags GPU_PATCH_WRITE
    then t1\<lparr>t_write := map_upd (<) [] (t_write t1) ?k (\<lambda>rs. merge_memory_range rs ?r)\<rparr> else t1)"
  define s2 where "s2 = (if has_flag flags GPU_PATCH_WRITE then df_put_current t2 s1 else s1)"
  have at: "df_trace_at s \<noteq> None" using assms(2) by (rule df_current_at)
  have t1: "df_trace_ok t1" using R W rd(1) by (auto simp: t1_def df_trace_ok_def)
  have s1: "df_ok s1" "df_current s1 = Some t1" "df_trace_at s1 \<noteq> None"
    using assms(1,2) at t1 df_ok_put [OF assms(1) t1] df_current_put [of s t1]
    by (auto simp: s1_def t1_def df_ok_def)
  have t2: "df_trace_ok t2" using t1 W wr(1) by (auto simp: t2_def t1_def df_trace_ok_def)
  have s2: "df_ok s2" "df_current s2 = Some t2"
    using s1 t2 df_ok_put [OF s1(1) t2] df_current_put [of s1 t2] by (auto simp: s2_def t2_def df_ok_def)
  have "df_unit_access m flags s =
      (if has_flag flags GPU_PATCH_WRITE
       then fbind (or_fault NullDeref (df_current s1)) (\<lambda>t. Inr (df_put_current
              (t\<lparr>t_write := map_upd (<) [] (t_write t) ?k (\<lambda>rs. merge_memory_range rs ?r)\<rparr>) s1))
       else Inr s1)"
    using assms(2) not_le [THEN iffD2, OF True] by (simp add: df_unit_access_def Let_def s1_def t1_def)
  then have "df_unit_access m flags s = Inr s2" by (simp add: s1(2) s2_def t2_def)
  moreover have "cover (map_touch (<) [] (t_read t2) k) = cover (map_touch (<) [] (t_read t) k) \<union>
      (if k = ?k \<and> op_id m > REDSHOW_MEMORY_HOST \<and> has_flag flags GPU_PATCH_READ \<and> (?c \<longrightarrow> map_touch (<) [] (t_read t) k = [])
       then range_bytes ?r else {})" for k
  proof (cases "has_flag flags GPU_PATCH_READ")
    case flag: True
    have "t_read t2 = map_upd (<) [] (t_read t) ?k ?f" using flag by (simp add: t2_def t1_def)
    then have "cover (map_touch (<) [] (t_read t2) k) = cover (map_touch (<) [] (t_read t) k) \<union>
        (if k = ?k \<and> (?c \<longrightarrow> map_touch (<) [] (t_read t) k = []) then range_bytes ?r else {})"
      using rd(2) by simp
    with True flag show ?thesis by simp
  qed (simp add: t2_def t1_def)
  moreover have "cover (map_touch (<) [] (t_write t2) k) = cover (map_touch (<) [] (t_write t) k) \<union>
      (if k = ?k \<and> op_id m > REDSHOW_MEMORY_HOST \<and> has_flag flags GPU_PATCH_WRITE then range_bytes ?r else {})" for k
    using True by (simp add: t2_def t1_def wr(2))
  ultimately show ?thesis using s2 by blast
qed

theorem df_unit_access_records_witness:
  "\<exists>s s'. df_analysis_begin 0 7 1 2 GPU_PATCH_TYPE_ADDRESS_PATCH DataFlow = Inr s \<and>
     df_unit_access (Memory_access 9 3 100 8) GPU_PATCH_WRITE s = Inr s' \<and> df_ok s' \<and>
     (\<exists>t'. df_current s' = Some t' \<and> cover (map_touch (<) [] (t_write t') 9) = range_bytes (MemoryRange 100 108)
        \<and> cover (map_touch (<) [] (t_read t') 9) = {})"
proof -
  let ?t = "\<lparr>t_ctx_id = 7, t_cubin_id = 1, t_mod_id = 2, t_read = [], t_write = []\<rparr>"
  let ?s = "DataFlow\<lparr>df_kernel_trace := [(0, [(7, ?t)])], df_trace_at := Some (0, 7)\<rparr>"
  have b: "df_analysis_begin 0 7 1 2 GPU_PATCH_TYPE_ADDRESS_PATCH DataFlow = Inr ?s"
    by (simp add: df_analysis_begin_def DataFlow_def df_init_def map_touch_def map_has_def)
  have "df_ok ?s"
    using df_ok_DataFlow
    by (simp add: df_ok_def df_graph_ok_def df_memories_ok_def)
       (simp add: df_traces_ok_def map_ok_def map_touch_def df_trace_ok_def df_side_ok_def split: if_splits)
  moreover have "df_current ?s = Some ?t" by (simp add: df_current_def map_touch_def)
  ultimately obtain s' t' where "df_unit_access (Memory_access 9 3 100 8) GPU_PATCH_WRITE ?s = Inr s'" "df_ok s'"
    "df_current s' = Some t'" "cover (map_touch (<) [] (t_write t') 9) = range_bytes (MemoryRange 100 108)"
    "cover (map_touch (<) [] (t_read t') 9) = {}"
    using df_unit_access_records [of ?s ?t "Memory_access 9 3 100 8" GPU_PATCH_WRITE]
    by (auto simp: Memory_access_def memory_type_defs range_wf_def map_touch_def has_flag_def
        GPU_PATCH_READ_def GPU_PATCH_WRITE_def cover_def)
  with b show ?thesis by blast
qed

subsection \<open>Duplicates are exact\<close>

lemma fold_concat_map: "fold (\<lambda>x. fold f (g x)) xs = fold f (concat (map g xs))"
  by (induction xs) auto

lemma mem_concat_map2:
  "p \<in> set (concat (map (\<lambda>(n, hs). concat (map (f n) hs)) xs)) \<longleftrightarrow>
   (\<exists>n hs h. (n, hs) \<in> set xs \<and> h \<in> set hs \<and> p \<in> set (f n h))"
  by force

abbreviation hashes_of :: "(i32, string oset) omap \<Rightarrow> i32 \<Rightarrow> string oset" where
  "hashes_of nh n \<equiv> map_touch (<) [] nh n"

lemma hashes_of_mem: "map_ok (<) nh \<Longrightarrow> (n, hs) \<in> set nh \<Longrightarrow> hashes_of nh n = hs"
  using int_order.map_at_mem [of nh n hs] by (simp add: map_touch_def)

lemma hashes_of_dom:
  "map_ok (<) nh \<Longrightarrow> h \<in> set (hashes_of nh n) \<longleftrightarrow> (\<exists>hs. (n, hs) \<in> set nh \<and> h \<in> set hs)"
  by (cases "map_at (<) nh n") (auto simp: map_touch_def int_order.map_at_iff_mem [symmetric])

lemma dup_hash_nodes_at:
  assumes "map_ok (<) nh"
  shows "map_at2 string_lt (<) (dup_hash_nodes nh) h n =
     (if h \<in> set (hashes_of nh n) then Some (length (hashes_of nh n) \<le> 1) else None)"
    "map_ok2 string_lt (<) (dup_hash_nodes nh)"
proof -
  let ?T = "\<lambda>h n. length (hashes_of nh n) \<le> 1"
  let ?ps = "concat (map (\<lambda>(n, hs). map (\<lambda>h. (h, n)) hs) nh)"
  have step: "(\<lambda>(n, hs) hn. if length hs > 1 then fold (\<lambda>h hn. map_set2 string_lt (<) hn h n False) hs hn
        else fold (\<lambda>h hn. map_set2 string_lt (<) hn h n True) hs hn) e
      = (\<lambda>e. fold (\<lambda>(h, n) m. map_set2 string_lt (<) m h n (?T h n)) ((\<lambda>(n, hs). map (\<lambda>h. (h, n)) hs) e)) e"
    if "e \<in> set nh" for e
    using that hashes_of_mem [OF assms] by (auto simp: fold_map comp_def fun_eq_iff split: prod.splits)
  have "dup_hash_nodes nh = fold (\<lambda>(h, n) m. map_set2 string_lt (<) m h n (?T h n)) ?ps []"
    unfolding dup_hash_nodes_def fold_concat_map [symmetric]
    by (rule fold_cong [OF refl refl]) (use step in auto)
  moreover have "(h, n) \<in> set ?ps \<longleftrightarrow> h \<in> set (hashes_of nh n)" for h n
    by (auto simp: hashes_of_dom [OF assms])
  ultimately show "map_at2 string_lt (<) (dup_hash_nodes nh) h n =
     (if h \<in> set (hashes_of nh n) then Some (length (hashes_of nh n) \<le> 1) else None)"
    "map_ok2 string_lt (<) (dup_hash_nodes nh)"
    using hash_ctx.fold_map_set2 [OF hash_ctx.map_ok2_Nil, of ?T ?ps]
    by (simp_all add: map_at2_def map_touch_def)
qed


lemma dup_inner:
  assumes nh: "map_ok (<) nh" and a: "(a, hs) \<in> set nh" and h: "h \<in> set hs"
    and T: "T = (\<lambda>x y. length (hashes_of nh x) = 1 \<and> length (hashes_of nh y) = 1)"
  shows "fold (\<lambda>(b, flag) dup. if b \<noteq> a
             then let both = (flag \<and> length hs = 1)
                  in map_set2 (<) (<) (map_set2 (<) (<) dup a b both) b a both
             else dup) (map_touch string_lt [] (dup_hash_nodes nh) h)
       = fold (\<lambda>(x, y) m. map_set2 (<) (<) m x y (T x y))
           (concat (map (\<lambda>(b, flag). if b \<noteq> a then [(a, b), (b, a)] else [])
              (map_touch string_lt [] (dup_hash_nodes nh) h)))"
proof -
  have "flag = (length (hashes_of nh b) = 1)"
    if "(b, flag) \<in> set (map_touch string_lt [] (dup_hash_nodes nh) h)" for b flag
  proof -
    have "map_at2 string_lt (<) (dup_hash_nodes nh) h b = Some flag"
      using that dup_hash_nodes_at(2) [OF nh] by (auto simp: map_at2_def map_ok2_def int_order.map_at_iff_mem)
    then show ?thesis
      using dup_hash_nodes_at(1) [OF nh, of h b]
      by (cases "hashes_of nh b") (auto split: if_splits)
  qed
  then show ?thesis
    unfolding fold_concat_map [symmetric]
    using hashes_of_mem [OF nh a]
    by (intro ext fold_cong [OF refl refl]) (auto simp: T Let_def fun_eq_iff conj_commute)
qed

lemma analyze_duplicate_at:
  assumes nh: "map_ok (<) nh"
  shows "map_at2 (<) (<) (analyze_duplicate nh) a b =
     (if a \<noteq> b \<and> (\<exists>h. h \<in> set (hashes_of nh a) \<and> h \<in> set (hashes_of nh b))
      then Some (length (hashes_of nh a) = 1 \<and> length (hashes_of nh b) = 1) else None)"
proof -
  define T where "T = (\<lambda>x y. length (hashes_of nh x) = 1 \<and> length (hashes_of nh y) = 1)"
  let ?in = "\<lambda>a h. concat (map (\<lambda>(b, flag). if b \<noteq> a then [(a, b), (b, a)] else [])
              (map_touch string_lt [] (dup_hash_nodes nh) h))"
  let ?ps = "concat (map (\<lambda>(a, hs). concat (map (?in a) hs)) nh)"
  have "analyze_duplicate nh = fold (\<lambda>(x, y) m. map_set2 (<) (<) m x y (T x y)) ?ps []"
    unfolding analyze_duplicate_def Let_def fold_concat_map [symmetric, of _ "\<lambda>(a, hs). concat (map (?in a) hs)"]
  proof (rule fold_cong [OF refl refl])
    fix e assume e: "e \<in> set nh"
    obtain a hs where [simp]: "e = (a, hs)" by (cases e)
    show "(\<lambda>(a, hs). fold (\<lambda>h. fold (\<lambda>(b, flag) dup. if b \<noteq> a
             then map_set2 (<) (<) (map_set2 (<) (<) dup a b (flag \<and> length hs = 1)) b a (flag \<and> length hs = 1)
             else dup) (map_touch string_lt [] (dup_hash_nodes nh) h)) hs) e
       = fold (\<lambda>(x, y) m. map_set2 (<) (<) m x y (T x y)) ((\<lambda>(a, hs). concat (map (?in a) hs)) e)"
      unfolding \<open>e = (a, hs)\<close> prod.case fold_concat_map [symmetric, of _ "?in a"]
      by (rule ext, rule fold_cong [OF refl refl], rule dup_inner [OF nh _ _ T_def, unfolded Let_def])
         (use e in auto)
  qed
  moreover have "(a, b) \<in> set ?ps \<longleftrightarrow> a \<noteq> b \<and> (\<exists>h. h \<in> set (hashes_of nh a) \<and> h \<in> set (hashes_of nh b))" for a b
  proof -
    have k: "(\<exists>flag. (b, flag) \<in> set (map_touch string_lt [] (dup_hash_nodes nh) h)) \<longleftrightarrow> h \<in> set (hashes_of nh b)" for b h
      using dup_hash_nodes_at(1) [OF nh, of h b] dup_hash_nodes_at(2) [OF nh]
      by (auto simp: map_at2_def map_ok2_def int_order.map_at_iff_mem [symmetric] split: if_splits)
    have m: "(x, y) \<in> set (?in n h) \<longleftrightarrow>
        (\<exists>b. (\<exists>flag. (b, flag) \<in> set (map_touch string_lt [] (dup_hash_nodes nh) h)) \<and> b \<noteq> n \<and>
          (x = n \<and> y = b \<or> x = b \<and> y = n))" for x y n h
      by (auto split: if_splits)
    have inn: "(x, y) \<in> set (?in n h) \<longleftrightarrow>
        x \<noteq> y \<and> (x = n \<and> h \<in> set (hashes_of nh y) \<or> y = n \<and> h \<in> set (hashes_of nh x))" for x y n h
      unfolding m k by blast
    have "(a, b) \<in> set ?ps \<longleftrightarrow> (\<exists>n hs h. (n, hs) \<in> set nh \<and> h \<in> set hs \<and> (a, b) \<in> set (?in n h))"
      by (rule mem_concat_map2)
    then show ?thesis unfolding inn using hashes_of_dom [OF nh] by blast
  qed
  ultimately show ?thesis
    using ctx_ctx.fold_map_set2(2) [OF ctx_ctx.map_ok2_Nil, of T ?ps a b]
    by (simp add: T_def map_at2_def map_touch_def)
qed

text \<open>
  C23. Two contexts are reported as duplicates exactly when they are different and share a hash, in both directions,
  and as total duplicates exactly when each of them has a single hash.
\<close>

theorem analyze_duplicate_correct:
  assumes "map_ok (<) nh"
  shows "map_at2 (<) (<) (analyze_duplicate nh) a b =
     (if a \<noteq> b \<and> set (hashes_of nh a) \<inter> set (hashes_of nh b) \<noteq> {}
      then Some (length (hashes_of nh a) = 1 \<and> length (hashes_of nh b) = 1) else None)"
  using analyze_duplicate_at [OF assms] by auto

theorem analyze_duplicate_correct_witness:
  "map_at2 (<) (<) (analyze_duplicate [(1, [''a'']), (2, [''a'', ''b'']), (3, [''a''])]) 1 3 = Some True"
  using analyze_duplicate_correct [of "[(1, [''a'']), (2, [''a'', ''b'']), (3, [''a''])]" 1 3]
  by (simp add: map_ok_def map_touch_def)

subsection \<open>What a kernel's writes are compared with\<close>

text \<open>The documented behaviour of the registered function: a copy of device bytes.\<close>

definition device_copy :: "(u64 \<Rightarrow> u8) \<Rightarrow> dtoh_func" where
  "device_copy dev dst device len h = (\<lambda>a. if a - dst < len then dev (device + (a - dst)) else h a)"

lemma offset_less: "mr_start r \<le> a \<Longrightarrow> a < mr_end r \<Longrightarrow> a - mr_start r < mr_end r - mr_start r"
  by (simp add: word_less_nat_alt word_le_nat_alt unat_diff_u64 order_trans less_imp_le diff_less_mono)

lemma fetch_fragments:
  fixes cache device :: u64
  shows "a \<in> cover rs \<Longrightarrow>
   fold (\<lambda>r. dtoh (Some (device_copy dev)) (cache + mr_start r - device) (mr_start r) (range_len r)) rs h
     (cache + (a - device)) = dev a"
proof (induction rs arbitrary: h)
  case (Cons r rs)
  let ?step = "\<lambda>r. dtoh (Some (device_copy dev)) (cache + mr_start r - device) (mr_start r) (range_len r)"
  have keep: "fold ?step rs h (cache + (a - device)) = dev a" if "h (cache + (a - device)) = dev a" for h
    using that by (induction rs arbitrary: h) (auto simp: dtoh_def device_copy_def algebra_simps)
  show ?case
  proof (cases "a \<in> range_bytes r")
    case True
    then have "?step r h (cache + (a - device)) = dev a"
      using offset_less [of r a] by (simp add: dtoh_def device_copy_def range_len_def algebra_simps)
    with keep show ?thesis by simp
  next
    case False
    with Cons.prems have "a \<in> cover rs" by auto
    with Cons.IH show ?thesis by simp
  qed
qed simp

text \<open>
  C24. When a kernel's writes to a large object are fetched fragment by fragment, the cache holds for every
  written byte the byte the device has at that address.
\<close>

theorem df_fetch_fragments:
  assumes "rs \<noteq> []" "df_fragmented (df_sum_ranges rs) m (length rs)" "a \<in> cover rs"
  shows "\<exists>h'. df_fetch (Some (device_copy dev)) m rs h = Inr h' \<and>
     h' (mem_value_cache m + (a - mr_start (mem_range m))) = dev a"
  using assms fetch_fragments [of a rs dev "mem_value_cache m" "mr_start (mem_range m)" h]
  by (simp add: df_fetch_def Let_def)

theorem df_fetch_fragments_witness:
  "\<exists>h'. df_fetch (Some (device_copy (\<lambda>a. ucast a))) (Memory_object 0 9 1 (MemoryRange 0x1000 0x20000000) 1 2)
      [MemoryRange 0x1010 0x1020] (\<lambda>_. 0) = Inr h' \<and> h' (2 + 0x15) = 0x15"
proof -
  let ?m = "Memory_object 0 9 1 (MemoryRange 0x1000 0x20000000) 1 2"
  have "df_fragmented (df_sum_ranges [MemoryRange 0x1010 0x1020]) ?m (length [MemoryRange 0x1010 0x1020])"
  proof -
    have "round_bits 53 (16 / 536866816) \<le> round_bits 53 (1 / 16)" by (rule round_bits_mono) simp_all
    also have "\<dots> < round_bits 53 (1 / 10)" by code_simp
    finally have "double_div 16 (double_of 536866816) < round_bits 53 (1 / 10)"
      by (simp add: double_div_def double_of_exact)
    then show ?thesis
      by (simp add: df_fragmented_def df_sum_ranges_def int_accum_def range_len_def Memory_object_def)
  qed
  from df_fetch_fragments [OF _ this, of "0x1015" "\<lambda>a. ucast a" "\<lambda>_. 0"] show ?thesis
    by (auto simp: Memory_object_def)
qed

text \<open>
  Otherwise one copy fetches as many bytes as lie between the first and the last written byte, but from the
  start of the object: the cache byte that belongs to a written address holds the byte that the device has
  as far into the object as the address is past the first written byte.
\<close>

lemma df_fetch_min_max_shifted:
  assumes "rs \<noteq> []" "\<not> df_fragmented (df_sum_ranges rs) m (length rs)"
    and "mr_start (hd rs) \<le> a" "a < mr_end (last rs)"
  shows "\<exists>h'. df_fetch (Some (device_copy dev)) m rs h = Inr h' \<and>
     h' (mem_value_cache m + (a - mr_start (mem_range m))) =
       dev (mr_start (mem_range m) + (a - mr_start (hd rs)))"
  using assms offset_less [of "MemoryRange (mr_start (hd rs)) (mr_end (last rs))" a]
  by (simp add: df_fetch_def Let_def dtoh_def device_copy_def algebra_simps)

subsection \<open>The dump is complete\<close>

definition gv_vertex :: "data_flow \<Rightarrow> duplicates \<Rightarrow> i32 \<times> df_node \<Rightarrow> gv_node" where
  "gv_vertex s dup entry =
     \<lparr>gv_node_id = n_ctx (snd entry), gv_type = df_node_label (snd entry),
      gv_duplicate = df_dup_label dup (n_ctx (snd entry)),
      gv_count = map_touch (<) 0 (df_node_count s) (n_ctx (snd entry))\<rparr>"

lemma map_ok_distinct: "map_ok (<) (m :: (int, 'v) omap) \<Longrightarrow> distinct (map fst m)"
  unfolding map_ok_def using strict_sorted_imp_sorted strict_sorted_iff sorted_wrt_map by metis

lemma df_dump_vertex_fold:
  assumes "\<forall>(i, n) \<in> set ns. n_ctx n = i" "distinct (map fst ns)"
  shows "\<exists>vm. fold (df_dump_vertex s dup) ns ([], []) = (vm, map (gv_vertex s dup) ns) \<and> map_ok (<) vm \<and>
     (\<forall>i k. map_at (<) vm i = Some k \<longleftrightarrow> k < length ns \<and> fst (ns ! k) = i)"
  using assms
proof (induction ns rule: rev_induct)
  case (snoc e ns)
  then obtain vm where vm: "fold (df_dump_vertex s dup) ns ([], []) = (vm, map (gv_vertex s dup) ns)" "map_ok (<) vm"
    "\<forall>i k. map_at (<) vm i = Some k \<longleftrightarrow> k < length ns \<and> fst (ns ! k) = i" by auto
  have e: "n_ctx (snd e) = fst e" using snoc.prems(1) by (cases e) auto
  have fresh: "fst (ns ! k) \<noteq> fst e" if "k < length ns" for k
    using that snoc.prems(2) by (metis distinct_append distinct_map map_append nth_map nth_mem length_map disjoint_iff list.set_intros(1) list.simps(9))
  then have new: "map_at (<) vm (fst e) = None" using vm(3) by (metis not_None_eq)
  have "fold (df_dump_vertex s dup) (ns @ [e]) ([], []) =
      (map_set (<) vm (fst e) (length ns), map (gv_vertex s dup) (ns @ [e]))"
    using vm(1) new e by (cases e) (simp add: df_dump_vertex_def gv_vertex_def map_has_at)
  moreover have "map_at (<) (map_set (<) vm (fst e) (length ns)) i = Some k \<longleftrightarrow>
      k < length (ns @ [e]) \<and> fst ((ns @ [e]) ! k) = i" for i k
    using vm(3) fresh by (auto simp: int_order.map_at_set [OF vm(2)] nth_append less_Suc_eq split: if_splits)
  ultimately show ?case using int_order.map_ok_set [OF vm(2)] by blast
qed simp

text \<open>An output edge belongs to an edge of the graph.\<close>

definition gv_edge_of :: "data_flow \<Rightarrow> gv_node list \<Rightarrow> nat \<times> nat \<times> gv_edge \<Rightarrow> edge_index \<Rightarrow> bool" where
  "gv_edge_of s vs x e \<longleftrightarrow>
     (case x of (iv, v, p) \<Rightarrow>
        iv < length vs \<and> v < length vs \<and>
        gv_node_id (vs ! iv) = e_from e \<and> gv_node_id (vs ! v) = e_to e \<and>
        ge_type p = get_data_flow_edge_type (e_type e) \<and> ge_memory_node_id p = e_mem_ctx e \<and>
        (\<exists>d. edge_at edge_index_lt (df_graph s) e = Inr d \<and> ge_count p = (if ed_count d = 0 then 1 else ed_count d) \<and>
           ge_overwrite p = double_div (double_of (uint (ed_overwrite d))) (double_of (uint (ge_count p))) \<and>
           (ed_redundancy d \<le> ed_overwrite d \<longrightarrow> 0 \<le> ge_redundancy p \<and> ge_redundancy p \<le> 1)))"

lemma double_of_mono: "0 \<le> a \<Longrightarrow> a \<le> b \<Longrightarrow> 0 \<le> double_of a \<and> double_of a \<le> double_of b"
  using round_bits_mono [of 0 "of_int a" 53] round_bits_mono [of "of_int a" "of_int b" 53]
  by (simp add: double_of_def)

lemma df_dump_edge_ok:
  assumes ok: "df_ok s" and e: "has_edge edge_index_lt (df_graph s) e"
    and vs: "\<And>i. has_node (<) (df_graph s) i \<Longrightarrow>
      \<exists>k. map_at (<) vm i = Some k \<and> k < length vs \<and> gv_node_id (vs ! k) = i"
    and v: "map_at (<) vm (e_to e) = Some v"
  shows "\<exists>x. df_dump_edge s vm v e es = Inr (es @ [x]) \<and> gv_edge_of s vs x e"
proof -
  have ends: "has_node (<) (df_graph s) (e_from e)" "has_node (<) (df_graph s) (e_to e)"
    using ok e by (simp_all add: df_ok_def df_graph_ok_def)
  then obtain n where n: "node_at (<) (df_graph s) (e_from e) = Inr n" by (auto simp: node_at_def has_node_at)
  then have nc: "n_ctx n = e_from e" using ok by (simp add: df_ok_def df_graph_ok_def node_at_def)
  from e obtain d where d: "edge_at edge_index_lt (df_graph s) e = Inr d"
    by (auto simp: edge_at_def has_edge_def map_has_at)
  from vs [OF ends(1)] obtain iv where iv: "map_at (<) vm (e_from e) = Some iv" "iv < length vs" "gv_node_id (vs ! iv) = e_from e"
    by blast
  from vs [OF ends(2)] v have v': "v < length vs" "gv_node_id (vs ! v) = e_to e" by auto
  have ratio: "0 \<le> double_div (double_of (uint a)) (double_of (uint b)) \<and> double_div (double_of (uint a)) (double_of (uint b)) \<le> 1"
    if "a \<le> b" for a b :: u64
    using double_div_unit double_of_mono [of "uint a" "uint b"] that by (simp add: word_le_def)
  show ?thesis
    using n nc d iv v' ratio [of "ed_redundancy d" "ed_overwrite d"]
    by (auto simp: df_dump_edge_def Let_def gv_edge_of_def map_touch_def)
qed

lemma df_dump_edges_ok:
  assumes ok: "df_ok s" and vs: "\<And>i. has_node (<) (df_graph s) i \<Longrightarrow>
      \<exists>k. map_at (<) vm i = Some k \<and> k < length vs \<and> gv_node_id (vs ! k) = i"
    and "\<forall>e \<in> set inc. has_edge edge_index_lt (df_graph s) e \<and> map_at (<) vm (e_to e) = Some v"
  shows "\<exists>xs. ffold (df_dump_edge s vm v) inc es = Inr (es @ xs) \<and> list_all2 (gv_edge_of s vs) xs inc"
  using assms(3)
proof (induction inc arbitrary: es)
  case (Cons e inc)
  from df_dump_edge_ok [OF ok _ vs, of e v es] Cons.prems obtain x where
    x: "df_dump_edge s vm v e es = Inr (es @ [x])" "gv_edge_of s vs x e" by auto
  from Cons.IH [of "es @ [x]"] Cons.prems obtain xs where
    "ffold (df_dump_edge s vm v) inc (es @ [x]) = Inr ((es @ [x]) @ xs)" "list_all2 (gv_edge_of s vs) xs inc" by auto
  with x show ?case by (intro exI [of _ "x # xs"]) simp
qed simp

abbreviation df_incoming :: "data_flow \<Rightarrow> i32 \<Rightarrow> edge_index list" where
  "df_incoming s i \<equiv> map_touch (<) [] (g_incoming (df_graph s)) i"

lemma df_incoming_mem:
  assumes "df_ok s"
  shows "e \<in> set (df_incoming s i) \<longleftrightarrow> has_edge edge_index_lt (df_graph s) e \<and> e_to e = i"
  using assms by (auto simp: df_ok_def df_graph_ok_def graph_ok_def neighbours_ok_def has_edge_def)

lemma df_dump_node_step:
  "(if incoming_edge_size (<) g i > 0 then fbind (incoming_edges (<) g i) (\<lambda>inc. ffold f inc es) else Inr es)
   = ffold f (map_touch (<) [] (g_incoming g) i) es"
  by (auto simp: incoming_edge_size_def incoming_edges_def map_touch_def split: option.splits)

lemma df_dump_nodes_ok:
  assumes ok: "df_ok s" and vs: "\<And>i. has_node (<) (df_graph s) i \<Longrightarrow>
      \<exists>k. map_at (<) vm i = Some k \<and> k < length vs \<and> gv_node_id (vs ! k) = i"
    and "\<forall>(i, n) \<in> set ns. n_ctx n = i \<and> has_node (<) (df_graph s) i"
  shows "\<exists>xs. ffold (\<lambda>(_, n) es. let v = map_touch (<) 0 vm (n_ctx n)
                 in if incoming_edge_size (<) (df_graph s) (n_ctx n) > 0
                    then fbind (incoming_edges (<) (df_graph s) (n_ctx n)) (\<lambda>inc. ffold (df_dump_edge s vm v) inc es)
                    else Inr es) ns es = Inr (es @ xs) \<and>
       list_all2 (gv_edge_of s vs) xs (concat (map (\<lambda>(i, n). df_incoming s i) ns))"
  using assms(3)
proof (induction ns arbitrary: es)
  case (Cons e ns)
  obtain i n where e: "e = (i, n)" by (cases e)
  with Cons.prems vs obtain v where v: "map_at (<) vm i = Some v" "n_ctx n = i" by force
  have "\<forall>e \<in> set (df_incoming s i). has_edge edge_index_lt (df_graph s) e \<and> map_at (<) vm (e_to e) = Some v"
    using v(1) by (auto simp: df_incoming_mem [OF ok])
  from df_dump_edges_ok [OF ok vs this, of es] obtain xs where
    xs: "ffold (df_dump_edge s vm v) (df_incoming s i) es = Inr (es @ xs)"
      "list_all2 (gv_edge_of s vs) xs (df_incoming s i)" by auto
  from Cons.IH [of "es @ xs"] Cons.prems obtain ys where
    ys: "ffold (\<lambda>(_, n) es. let v = map_touch (<) 0 vm (n_ctx n)
           in if incoming_edge_size (<) (df_graph s) (n_ctx n) > 0
              then fbind (incoming_edges (<) (df_graph s) (n_ctx n)) (\<lambda>inc. ffold (df_dump_edge s vm v) inc es)
              else Inr es) ns (es @ xs) = Inr ((es @ xs) @ ys)"
      "list_all2 (gv_edge_of s vs) ys (concat (map (\<lambda>(i, n). df_incoming s i) ns))" by auto
  have "map_touch (<) 0 vm i = v" using v by (simp add: map_touch_def)
  with xs ys v e show ?case
    unfolding Let_def df_dump_node_step
    by (intro exI [of _ "xs @ ys"]) (simp add: list_all2_appendI)
qed simp

lemma distinct_incoming:
  "distinct (map fst ns) \<Longrightarrow> \<forall>i. distinct (f i) \<Longrightarrow> \<forall>i e. e \<in> set (f i) \<longrightarrow> e_to e = i \<Longrightarrow>
   distinct (concat (map (\<lambda>(i, n). f i) ns))"
proof (induction ns)
  case (Cons e ns)
  obtain i n where e: "e = (i, n)" by (cases e)
  have "set (f i) \<inter> set (f j) = {}" if "(j, m) \<in> set ns" for j m
  proof -
    have "j \<noteq> i" using that Cons.prems(1) e by (metis distinct.simps(2) fst_conv image_eqI list.simps(9) set_map)
    then show ?thesis using Cons.prems(3) by (metis disjoint_iff)
  qed
  with Cons e show ?case by fastforce
qed simp

lemma df_incoming_all:
  assumes "df_ok s"
  shows "distinct (concat (map (\<lambda>(i, n). df_incoming s i) (g_nodes (df_graph s))))"
    "set (concat (map (\<lambda>(i, n). df_incoming s i) (g_nodes (df_graph s)))) = {e. has_edge edge_index_lt (df_graph s) e}"
proof -
  let ?all = "concat (map (\<lambda>(i, n). df_incoming s i) (g_nodes (df_graph s)))"
  have g: "graph_ok (<) edge_index_lt e_from e_to (df_graph s)" using assms by (simp add: df_ok_def df_graph_ok_def)
  have sorted: "set_ok edge_index_lt (df_incoming s i)" for i
    using g by (auto simp: graph_ok_def neighbours_ok_def)
  have distinct: "set_ok edge_index_lt xs \<Longrightarrow> distinct xs" for xs
    by (induction xs) (auto dest: edge_order.lt_irrefl [THEN notE])
  show "distinct ?all"
    using g sorted distinct map_ok_distinct df_incoming_mem [OF assms]
    by (intro distinct_incoming) (auto simp: graph_ok_def)
  show "set ?all = {e. has_edge edge_index_lt (df_graph s) e}"
  proof -
    have nd: "\<exists>n. (e_to e, n) \<in> set (g_nodes (df_graph s))" if "has_edge edge_index_lt (df_graph s) e" for e
    proof -
      have "has_node (<) (df_graph s) (e_to e)" using that assms by (simp add: df_ok_def df_graph_ok_def)
      then obtain n where "map_at (<) (g_nodes (df_graph s)) (e_to e) = Some n" by (auto simp: has_node_at)
      moreover have "map_ok (<) (g_nodes (df_graph s))" using g by (simp add: graph_ok_def)
      ultimately show ?thesis using int_order.map_at_iff_mem [of "g_nodes (df_graph s)"] by blast
    qed
    have "e \<in> set ?all \<longleftrightarrow> (\<exists>i n. (i, n) \<in> set (g_nodes (df_graph s)) \<and> e \<in> set (df_incoming s i))" for e
      by force
    then have "e \<in> set ?all \<longleftrightarrow> has_edge edge_index_lt (df_graph s) e" for e
      unfolding df_incoming_mem [OF assms] using nd by metis
    then show ?thesis by blast
  qed
qed

text \<open>
  C25. Writing the graph out never fails on a state that satisfies the invariant: there is one vertex per node, in
  node order, and the output edges are in one-to-one correspondence with the edges of the graph: none is lost and none is written
  twice. Each runs between the vertices of the two contexts of its edge, with the type, the memory context and the count of the edge
  (a count of zero is written as one) and the bytes written per count, and its redundancy ratio is between zero and one when the edge counts no more redundant bytes than
  written ones.
\<close>

theorem df_flush_complete:
  assumes "df_ok s"
  shows "\<exists>g es. df_flush s = Inr g \<and>
     map gv_node_id (gv_vertices g) = map fst (g_nodes (df_graph s)) \<and>
     distinct es \<and> set es = {e. has_edge edge_index_lt (df_graph s) e} \<and>
     list_all2 (gv_edge_of s (gv_vertices g)) (gv_edges g) es"
proof -
  let ?ns = "g_nodes (df_graph s)" and ?dup = "analyze_duplicate (df_node_hash s)"
  have m: "map_ok (<) ?ns" and at: "\<And>i n. map_at (<) ?ns i = Some n \<Longrightarrow> n_ctx n = i"
    using assms by (auto simp: df_ok_def df_graph_ok_def graph_ok_def)
  have mem: "(i, n) \<in> set ?ns \<Longrightarrow> n_ctx n = i \<and> has_node (<) (df_graph s) i" for i n
    using at int_order.map_at_iff_mem [OF m] by (fastforce simp: has_node_at)
  let ?vs = "map (gv_vertex s ?dup) ?ns"
  from df_dump_vertex_fold [OF _ map_ok_distinct [OF m], of s ?dup] mem obtain vm where
    vm: "fold (df_dump_vertex s ?dup) ?ns ([], []) = (vm, ?vs)"
      "\<forall>i k. map_at (<) vm i = Some k \<longleftrightarrow> k < length ?ns \<and> fst (?ns ! k) = i" by blast
  have ids: "map gv_node_id ?vs = map fst ?ns" using mem by (auto simp: gv_vertex_def)
  have vs: "\<exists>k. map_at (<) vm i = Some k \<and> k < length ?vs \<and> gv_node_id (?vs ! k) = i"
    if "has_node (<) (df_graph s) i" for i
  proof -
    from that obtain n where "(i, n) \<in> set ?ns" using int_order.map_at_iff_mem [OF m] by (auto simp: has_node_at)
    then obtain k where "k < length ?ns" "?ns ! k = (i, n)" by (metis in_set_conv_nth)
    with vm(2) ids show ?thesis by (metis fst_conv length_map nth_map)
  qed
  from df_dump_nodes_ok [OF assms vs, of ?ns "[]"] mem obtain xs where
    xs: "ffold (\<lambda>(_, n) es. let v = map_touch (<) 0 vm (n_ctx n)
           in if incoming_edge_size (<) (df_graph s) (n_ctx n) > 0
              then fbind (incoming_edges (<) (df_graph s) (n_ctx n)) (\<lambda>inc. ffold (df_dump_edge s vm v) inc es)
              else Inr es) ?ns [] = Inr xs"
      "list_all2 (gv_edge_of s ?vs) xs (concat (map (\<lambda>(i, n). df_incoming s i) ?ns))" by auto
  have "df_flush s = Inr \<lparr>gv_vertices = ?vs, gv_edges = xs\<rparr>"
    using vm(1) xs(1) by (simp add: df_flush_def df_dump_def)
  then show ?thesis
    using xs(2) ids df_incoming_all [OF assms]
    by (intro exI [of _ "\<lparr>gv_vertices = ?vs, gv_edges = xs\<rparr>"] exI [of _ "concat (map (\<lambda>(i, n). df_incoming s i) ?ns)"]) simp
qed

text \<open>A flow from local to shared memory, two copies of 8 bytes of which 4 were there already.\<close>

definition linked_flow :: data_flow where
  "linked_flow =
     df_update_edge_metrics LOCAL_MEMORY_CTX_ID SHARED_MEMORY_CTX_ID LOCAL_MEMORY_CTX_ID 4 16 2 DATA_FLOW_EDGE_ORDER
       (df_link_ctx_node LOCAL_MEMORY_CTX_ID SHARED_MEMORY_CTX_ID LOCAL_MEMORY_CTX_ID DATA_FLOW_EDGE_ORDER DataFlow)"

theorem df_flush_complete_witness:
  "\<exists>g iv v p. df_flush linked_flow = Inr g \<and> (iv, v, p) \<in> set (gv_edges g)
     \<and> gv_node_id (gv_vertices g ! iv) = LOCAL_MEMORY_CTX_ID \<and> gv_node_id (gv_vertices g ! v) = SHARED_MEMORY_CTX_ID
     \<and> length (gv_edges g) = 1"
proof -
  let ?e = "EdgeIndex LOCAL_MEMORY_CTX_ID SHARED_MEMORY_CTX_ID LOCAL_MEMORY_CTX_ID DATA_FLOW_EDGE_ORDER"
  have n: "df_has_node DataFlow LOCAL_MEMORY_CTX_ID" "df_has_node DataFlow SHARED_MEMORY_CTX_ID" by code_simp+
  have ok: "df_ok linked_flow" unfolding linked_flow_def by (intro df_ok_metrics df_ok_link df_ok_DataFlow n)
  have "map fst (g_edges (df_graph linked_flow)) = [?e]" by code_simp
  then have edge: "{e. has_edge edge_index_lt (df_graph linked_flow) e} = {?e}"
    by (auto simp: has_edge_def map_has_def edge_order.lt_irrefl dest: edge_order.lt_total split: if_splits)
  from df_flush_complete [OF ok] obtain g es where g: "df_flush linked_flow = Inr g"
    "distinct es" "set es = {?e}" "list_all2 (gv_edge_of linked_flow (gv_vertices g)) (gv_edges g) es"
    unfolding edge by blast
  then have "es = [?e]" by (cases es; cases "tl es") auto
  with g(4) obtain x where x: "gv_edges g = [x]" "gv_edge_of linked_flow (gv_vertices g) x ?e" by (auto simp: list_all2_Cons2)
  with g(1) show ?thesis by (auto simp: gv_edge_of_def EdgeIndex_def split: prod.splits)
qed


subsection \<open>Metrics\<close>

text \<open>What an edge has counted so far.\<close>

definition df_edge_data :: "data_flow \<Rightarrow> edge_index \<Rightarrow> df_edge" where
  "df_edge_data s e = (case edge_at edge_index_lt (df_graph s) e of Inl _ \<Rightarrow> Edge (e_type e) | Inr d \<Rightarrow> d)"

lemma df_link_metrics:
  assumes "df_ok s" "map_at (<) (df_op_node s) k = Some prev"
    and e_def: "e = EdgeIndex prev ctx mem DATA_FLOW_EDGE_ORDER"
  shows "edge_at edge_index_lt (df_graph (df_update_op_metrics k ctx mem r w c DATA_FLOW_EDGE_ORDER
            (df_link_op_node k ctx mem s))) e' =
     (if e' = e then Inr ((df_edge_data s e)\<lparr>ed_redundancy := ed_redundancy (df_edge_data s e) + r,
            ed_overwrite := ed_overwrite (df_edge_data s e) + w, ed_count := ed_count (df_edge_data s e) + c\<rparr>)
      else edge_at edge_index_lt (df_graph s) e')"
proof -
  have g: "graph_ok (<) edge_index_lt e_from e_to (df_graph s)" using assms(1) by (simp add: df_ok_def df_graph_ok_def)
  let ?g = "add_edge (<) edge_index_lt e_from e_to e (Edge DATA_FLOW_EDGE_ORDER) (df_graph s)"
  have g': "graph_ok (<) edge_index_lt e_from e_to ?g" by (rule flow_graph.graph_ok_add_edge [OF g])
  have "has_edge edge_index_lt ?g e" by (simp add: has_edge_add [OF g])
  moreover have "edge_at edge_index_lt ?g e = Inr (df_edge_data s e)"
  proof (cases "map_at edge_index_lt (g_edges (df_graph s)) e")
    case None
    then show ?thesis
      unfolding flow_graph.edge_at_add_edge [OF g] by (simp add: df_edge_data_def edge_at_def has_edge_def map_has_at)
        (simp add: e_def EdgeIndex_def)
  next
    case (Some d)
    then show ?thesis
      unfolding flow_graph.edge_at_add_edge [OF g] by (simp add: df_edge_data_def edge_at_def has_edge_def map_has_at)
  qed
  moreover have "edge_at edge_index_lt ?g e' = edge_at edge_index_lt (df_graph s) e'" if "e' \<noteq> e"
    using that by (simp add: flow_graph.edge_at_add_edge [OF g])
  ultimately show ?thesis
    using assms(2)
    by (simp add: df_update_op_metrics_def df_link_op_node_def df_link_ctx_node_def df_update_edge_metrics_def Let_def
        e_def [symmetric] flow_graph.edge_at_modify [OF g'])
qed

text \<open>
  A memset on a registered object adds, to the edge from the context that wrote the object last to the memset's
  context, the bytes that already had the value, the bytes written and the size of the object, and no other edge
  changes; the object then belongs to the memset's context and its shadow holds the value.
\<close>

lemma df_memset_metrics:
  assumes "df_ok s" "df_has_node s (ctx_id op)" "map_at (<) (df_memories s) (ms_memory_op_id op) = Some m"
    and "map_at (<) (df_op_node s) (ms_memory_op_id op) = Some prev" "ms_memory_op_id op > REDSHOW_MEMORY_HOST"
    and "\<not> df_configs s REDSHOW_ANALYSIS_DATA_FLOW_HASH"
    and "e = EdgeIndex prev (ctx_id op) (ctx_id m) DATA_FLOW_EDGE_ORDER"
  shows "\<exists>s'. df_memset_op_callback op (s, h) =
       Inr (s', host_fill (ms_shadow_start op) (ucast (ms_value op)) (unat (ms_len op)) h) \<and>
     map_at (<) (df_op_node s') (ms_memory_op_id op) = Some (ctx_id op) \<and>
     (\<forall>e'. edge_at edge_index_lt (df_graph s') e' =
       (if e' = e
        then Inr ((df_edge_data s e)\<lparr>
          ed_redundancy := ed_redundancy (df_edge_data s e) +
            compute_memset_redundancy (ms_shadow_start op) (ucast (ms_value op)) (ms_len op) h,
          ed_overwrite := ed_overwrite (df_edge_data s e) + ms_len op,
          ed_count := ed_count (df_edge_data s e) + mem_len m\<rparr>)
        else edge_at edge_index_lt (df_graph s) e'))"
proof -
  have n: "map_ok (<) (df_op_node s)" using assms(1) by (simp add: df_ok_def df_graph_ok_def)
  show ?thesis
    using assms(3,5,6) df_link_metrics [OF assms(1,4) assms(7)]
    by (simp add: df_memset_op_callback_def Let_def df_hash_node_def df_update_op_node_def u64_order.map_at_set [OF n])
qed

end
