(* ===== verification/Redshow.thy ===== *)
theory Redshow
  imports Trace Temporal Spatial Data_Flow
begin

section \<open>The interface of the library\<close>

text \<open>
  The functions of \<^verbatim>\<open>redshow.cpp\<close> that the profiler calls: enabling analyses, registering memory objects,
  copies, fills and kernels, analysing traces, flushing. They share the global state of the file, here one
  record, and pass every event on to the enabled analyses, in the order of the analysis types. An analysis is an
  object with virtual methods: its state and a table of functions on it and on the world (the memory of the host
  that holds the shadow copies, and the reports that were written). The handlers hold for any table; the
  theory \<open>Analyses\<close> collects them into one state machine and the theory \<open>Program\<close> gives the tables of the analyses.
\<close>

subsection \<open>Analysis types and the dispatch of calls\<close>

datatype redshow_analysis_type =
    REDSHOW_ANALYSIS_UNKNOWN
  | REDSHOW_ANALYSIS_SPATIAL_REDUNDANCY
  | REDSHOW_ANALYSIS_TEMPORAL_REDUNDANCY
  | REDSHOW_ANALYSIS_VALUE_PATTERN
  | REDSHOW_ANALYSIS_DATA_FLOW
  | REDSHOW_ANALYSIS_MEMORY_PROFILE
  | REDSHOW_ANALYSIS_MEMORY_HEATMAP
  | REDSHOW_ANALYSIS_MEMORY_LIVENESS
  | REDSHOW_ANALYSIS_DATA_DEPENDENCY
  | REDSHOW_ANALYSIS_TORCH_MONITOR
  | REDSHOW_ANALYSIS_TORCH_VIEW

definition analysis_rank :: "redshow_analysis_type \<Rightarrow> nat" where
  "analysis_rank t =
     (case t of
        REDSHOW_ANALYSIS_UNKNOWN \<Rightarrow> 0
      | REDSHOW_ANALYSIS_SPATIAL_REDUNDANCY \<Rightarrow> 1
      | REDSHOW_ANALYSIS_TEMPORAL_REDUNDANCY \<Rightarrow> 2
      | REDSHOW_ANALYSIS_VALUE_PATTERN \<Rightarrow> 3
      | REDSHOW_ANALYSIS_DATA_FLOW \<Rightarrow> 4
      | REDSHOW_ANALYSIS_MEMORY_PROFILE \<Rightarrow> 5
      | REDSHOW_ANALYSIS_MEMORY_HEATMAP \<Rightarrow> 6
      | REDSHOW_ANALYSIS_MEMORY_LIVENESS \<Rightarrow> 7
      | REDSHOW_ANALYSIS_DATA_DEPENDENCY \<Rightarrow> 8
      | REDSHOW_ANALYSIS_TORCH_MONITOR \<Rightarrow> 9
      | REDSHOW_ANALYSIS_TORCH_VIEW \<Rightarrow> 10)"

lemma analysis_rank_inj: "analysis_rank a = analysis_rank b \<longleftrightarrow> a = b"
  by (cases a; cases b) (simp_all add: analysis_rank_def)

definition analysis_lt :: "redshow_analysis_type \<Rightarrow> redshow_analysis_type \<Rightarrow> bool" where
  "analysis_lt a b = (analysis_rank a < analysis_rank b)"

interpretation analysis_order: strict_total analysis_lt
  by unfold_locales (auto simp: analysis_lt_def analysis_rank_inj [symmetric])

text \<open>
  What a flush reads besides the analysis: the map of cubins, whether the profiler registered a callback for record
  data, and the two limits that \<^verbatim>\<open>redshow_pc_views_get\<close> and \<^verbatim>\<open>redshow_mem_views_get\<close> return.
\<close>

record flush_env =
  fe_cubins :: cubin_map
  fe_callback :: bool
  fe_pc_views :: u32
  fe_mem_views :: u32

text \<open>The virtual methods of \<^verbatim>\<open>Analysis\<close>.\<close>

record ('s, 'w) analysis_ops =
  ao_op_callback :: "operation \<Rightarrow> bool \<Rightarrow> 's \<times> 'w \<Rightarrow> ('s \<times> 'w) outcome"
  ao_call :: "analysis_call \<Rightarrow> 's \<times> 'w \<Rightarrow> ('s \<times> 'w) outcome"
  ao_config :: "analysis_config \<Rightarrow> bool \<Rightarrow> 's \<Rightarrow> 's"
  ao_dtoh_register :: "dtoh_func option \<Rightarrow> 's \<Rightarrow> 's"
  ao_flush_thread :: "flush_env \<Rightarrow> u32 \<Rightarrow> string \<Rightarrow> 's \<times> 'w \<Rightarrow> ('s \<times> 'w) outcome"
  ao_flush :: "flush_env \<Rightarrow> string \<Rightarrow> 's \<times> 'w \<Rightarrow> ('s \<times> 'w) outcome"

type_synonym 's enabled = "(redshow_analysis_type, 's) omap"

text \<open>\<^verbatim>\<open>for (auto aiter : analysis_enabled) aiter.second->f(...)\<close>\<close>

fun each_analysis ::
  "(redshow_analysis_type \<Rightarrow> 's \<times> 'w \<Rightarrow> ('s \<times> 'w) outcome) \<Rightarrow> 's enabled \<times> 'w \<Rightarrow> ('s enabled \<times> 'w) outcome" where
  "each_analysis f ([], w) = Inr ([], w)"
| "each_analysis f ((t, s) # m, w) =
     fbind (f t (s, w)) (\<lambda>(s', w'). fbind (each_analysis f (m, w')) (\<lambda>(m', w''). Inr ((t, s') # m', w'')))"

definition dispatch_call ::
  "(redshow_analysis_type \<Rightarrow> ('s, 'w) analysis_ops) \<Rightarrow> ('s enabled \<times> 'w) dispatch" where
  "dispatch_call ops c = each_analysis (\<lambda>t. ao_call (ops t) c)"

definition dispatch_op ::
  "(redshow_analysis_type \<Rightarrow> ('s, 'w) analysis_ops) \<Rightarrow> operation \<Rightarrow> bool \<Rightarrow> 's enabled \<times> 'w \<Rightarrow> ('s enabled \<times> 'w) outcome" where
  "dispatch_op ops op sub = each_analysis (\<lambda>t. ao_op_callback (ops t) op sub)"

subsection \<open>Global state\<close>

record ('s, 'w) redshow =
  rs_cubins :: cubin_map
  rs_cubin_cache :: cubin_cache_map
  rs_memory :: snapshots
  rs_sub_memory :: snapshots
  rs_enabled :: "'s enabled"
  rs_output_dir :: "(redshow_analysis_type, string) omap"
  rs_log_callback :: bool
  rs_record_callback :: bool
  rs_op_id_func :: bool
  rs_mini_host_op_id :: u64
  rs_pc_views :: u32
  rs_mem_views :: u32
  rs_config :: value_config
  rs_world :: 'w

definition PC_VIEWS_LIMIT :: u32 where "PC_VIEWS_LIMIT = 10"
definition MEM_VIEWS_LIMIT :: u32 where "MEM_VIEWS_LIMIT = 10"

definition init_redshow :: "'w \<Rightarrow> ('s, 'w) redshow" where
  "init_redshow w =
     \<lparr>rs_cubins = [], rs_cubin_cache = [], rs_memory = [], rs_sub_memory = [], rs_enabled = [], rs_output_dir = [],
      rs_log_callback = False, rs_record_callback = False, rs_op_id_func = False, rs_mini_host_op_id = 0, rs_pc_views = PC_VIEWS_LIMIT,
      rs_mem_views = MEM_VIEWS_LIMIT, rs_config = init_value_config, rs_world = w\<rparr>"

text \<open>The analyses and the world after a dispatch.\<close>

definition put_analyses :: "('s, 'w) redshow \<Rightarrow> 's enabled \<times> 'w \<Rightarrow> ('s, 'w) redshow" where
  "put_analyses st mw = st\<lparr>rs_enabled := fst mw, rs_world := snd mw\<rparr>"

subsection \<open>Configuration\<close>

text \<open>A null pointer for the directory is \<^const>\<open>None\<close>.\<close>

definition redshow_output_dir_config ::
  "redshow_analysis_type \<Rightarrow> string option \<Rightarrow> ('s, 'w) redshow \<Rightarrow> redshow_result \<times> ('s, 'w) redshow" where
  "redshow_output_dir_config t dir st =
     (REDSHOW_SUCCESS,
      case dir of None \<Rightarrow> st | Some d \<Rightarrow> st\<lparr>rs_output_dir := map_set analysis_lt (rs_output_dir st) t d\<rparr>)"

definition redshow_analysis_enable ::
  "(redshow_analysis_type \<Rightarrow> 's) \<Rightarrow> redshow_analysis_type \<Rightarrow> ('s, 'w) redshow \<Rightarrow> redshow_result \<times> ('s, 'w) redshow" where
  "redshow_analysis_enable new t st =
     (if t = REDSHOW_ANALYSIS_UNKNOWN then (REDSHOW_ERROR_NO_SUCH_ANALYSIS, st)
      else (REDSHOW_SUCCESS, st\<lparr>rs_enabled := map_emplace analysis_lt (rs_enabled st) t (new t)\<rparr>))"

definition redshow_analysis_enabled :: "redshow_analysis_type \<Rightarrow> ('s, 'w) redshow \<Rightarrow> redshow_result" where
  "redshow_analysis_enabled t st =
     (if map_has analysis_lt (rs_enabled st) t then REDSHOW_SUCCESS else REDSHOW_ERROR_NOT_EXIST_ENTRY)"

definition redshow_analysis_disable ::
  "redshow_analysis_type \<Rightarrow> ('s, 'w) redshow \<Rightarrow> redshow_result \<times> ('s, 'w) redshow" where
  "redshow_analysis_disable t st =
     (REDSHOW_SUCCESS, st\<lparr>rs_enabled := map_erase analysis_lt (rs_enabled st) t\<rparr>)"

definition redshow_analysis_config ::
  "(redshow_analysis_type \<Rightarrow> ('s, 'w) analysis_ops) \<Rightarrow> redshow_analysis_type \<Rightarrow> analysis_config \<Rightarrow> bool \<Rightarrow>
   ('s, 'w) redshow \<Rightarrow> redshow_result \<times> ('s, 'w) redshow" where
  "redshow_analysis_config ops t config enable st =
     (REDSHOW_SUCCESS,
      case map_at analysis_lt (rs_enabled st) t of
        None \<Rightarrow> st
      | Some s \<Rightarrow> st\<lparr>rs_enabled := map_set analysis_lt (rs_enabled st) t (ao_config (ops t) config enable s)\<rparr>)"

definition redshow_tool_dtoh_register ::
  "(redshow_analysis_type \<Rightarrow> ('s, 'w) analysis_ops) \<Rightarrow> dtoh_func option \<Rightarrow> ('s, 'w) redshow \<Rightarrow>
   redshow_result \<times> ('s, 'w) redshow" where
  "redshow_tool_dtoh_register ops func st =
     (REDSHOW_SUCCESS, st\<lparr>rs_enabled := map (\<lambda>(t, s). (t, ao_dtoh_register (ops t) func s)) (rs_enabled st)\<rparr>)"

definition redshow_get_op_id_register :: "bool \<Rightarrow> ('s, 'w) redshow \<Rightarrow> redshow_result \<times> ('s, 'w) redshow" where
  "redshow_get_op_id_register func st = (REDSHOW_SUCCESS, st\<lparr>rs_op_id_func := func\<rparr>)"

definition redshow_log_data_callback_register :: "bool \<Rightarrow> ('s, 'w) redshow \<Rightarrow> redshow_result \<times> ('s, 'w) redshow" where
  "redshow_log_data_callback_register func st = (REDSHOW_SUCCESS, st\<lparr>rs_log_callback := func\<rparr>)"

definition redshow_record_data_callback_register ::
  "bool \<Rightarrow> u32 \<Rightarrow> u32 \<Rightarrow> ('s, 'w) redshow \<Rightarrow> redshow_result \<times> ('s, 'w) redshow" where
  "redshow_record_data_callback_register func pc_views mem_views st =
     (REDSHOW_SUCCESS, st\<lparr>rs_record_callback := func, rs_pc_views := pc_views, rs_mem_views := mem_views\<rparr>)"

definition redshow_pc_views_get :: "('s, 'w) redshow \<Rightarrow> redshow_result \<times> u32" where
  "redshow_pc_views_get st = (REDSHOW_SUCCESS, rs_pc_views st)"

definition redshow_mem_views_get :: "('s, 'w) redshow \<Rightarrow> redshow_result \<times> u32" where
  "redshow_mem_views_get st = (REDSHOW_SUCCESS, rs_mem_views st)"

subsection \<open>Memory objects\<close>

text \<open>Run the analyses on an operation when the snapshots accepted it.\<close>

definition accept_op ::
  "(redshow_analysis_type \<Rightarrow> ('s, 'w) analysis_ops) \<Rightarrow> redshow_result \<Rightarrow> operation \<Rightarrow> bool \<Rightarrow> ('s, 'w) redshow \<Rightarrow>
   (redshow_result \<times> ('s, 'w) redshow) outcome" where
  "accept_op ops result op sub st =
     (if result = REDSHOW_SUCCESS then
        fbind (dispatch_op ops op sub (rs_enabled st, rs_world st)) (\<lambda>mw. Inr (result, put_analyses st mw))
      else Inr (result, st))"

text \<open>The addresses of the two shadow buffers that the constructor of \<^verbatim>\<open>Memory\<close> allocates are arguments.\<close>

definition redshow_memory_register ::
  "(redshow_analysis_type \<Rightarrow> ('s, 'w) analysis_ops) \<Rightarrow> u64 \<times> u64 \<Rightarrow> u32 \<Rightarrow> i32 \<Rightarrow> u64 \<Rightarrow> u64 \<Rightarrow> u64 \<Rightarrow> ('s, 'w) redshow \<Rightarrow>
   (redshow_result \<times> ('s, 'w) redshow) outcome" where
  "redshow_memory_register ops shadow stream_id memory_id host_op_id start mend st =
     (let r = MemoryRange start mend;
          m = Memory_object stream_id host_op_id memory_id r (fst shadow) (snd shadow);
          res = snapshot_register host_op_id r m (rs_memory st)
      in accept_op ops (fst res) (MemoryOp m) False (st\<lparr>rs_memory := snd res\<rparr>))"

definition redshow_memory_unregister ::
  "(redshow_analysis_type \<Rightarrow> ('s, 'w) analysis_ops) \<Rightarrow> u32 \<Rightarrow> i32 \<Rightarrow> u64 \<Rightarrow> u64 \<Rightarrow> u64 \<Rightarrow> ('s, 'w) redshow \<Rightarrow>
   (redshow_result \<times> ('s, 'w) redshow) outcome" where
  "redshow_memory_unregister ops stream_id memory_id host_op_id start mend st =
     (let r = MemoryRange start mend; res = snapshot_unregister host_op_id r (rs_memory st)
      in accept_op ops (fst res) (MemfreeOp (Memfree stream_id host_op_id memory_id r)) False (st\<lparr>rs_memory := snd res\<rparr>))"

definition redshow_submemory_register ::
  "(redshow_analysis_type \<Rightarrow> ('s, 'w) analysis_ops) \<Rightarrow> u64 \<times> u64 \<Rightarrow> i32 \<Rightarrow> u64 \<Rightarrow> u64 \<Rightarrow> u64 \<Rightarrow> ('s, 'w) redshow \<Rightarrow>
   (redshow_result \<times> ('s, 'w) redshow) outcome" where
  "redshow_submemory_register ops shadow memory_id host_op_id start mend st =
     (let r = MemoryRange start mend;
          m = Memory_object 0 host_op_id memory_id r (fst shadow) (snd shadow);
          res = snapshot_register host_op_id r m (rs_sub_memory st)
      in accept_op ops (fst res) (MemoryOp m) True (st\<lparr>rs_sub_memory := snd res\<rparr>))"

definition redshow_submemory_unregister ::
  "(redshow_analysis_type \<Rightarrow> ('s, 'w) analysis_ops) \<Rightarrow> i32 \<Rightarrow> u64 \<Rightarrow> u64 \<Rightarrow> u64 \<Rightarrow> ('s, 'w) redshow \<Rightarrow>
   (redshow_result \<times> ('s, 'w) redshow) outcome" where
  "redshow_submemory_unregister ops memory_id host_op_id start mend st =
     (let r = MemoryRange start mend; res = snapshot_unregister host_op_id r (rs_sub_memory st)
      in accept_op ops (fst res) (MemfreeOp (Memfree 0 host_op_id memory_id r)) True (st\<lparr>rs_sub_memory := snd res\<rparr>))"

definition redshow_submemory_ranges_get ::
  "u64 \<Rightarrow> u64 \<Rightarrow> ('s, 'w) redshow \<Rightarrow> redshow_result \<times> (u64 \<times> u64) list \<times> u32" where
  "redshow_submemory_ranges_get host_op_id limit st = redshow_memory_ranges_get host_op_id limit (rs_sub_memory st)"

text \<open>
  The memory callback of the framework monitor: allocations and releases on the GPU, at entry, become sub-memory
  objects under a fresh operation id, which the registered function of the profiler returns.
\<close>

record torch_mem_data =
  tm_enter :: bool
  tm_domain_memory :: bool
  tm_device_gpu :: bool
  tm_alloc :: bool
  tm_ptr :: u64
  tm_size :: u64

definition torch_memory_callback ::
  "(redshow_analysis_type \<Rightarrow> ('s, 'w) analysis_ops) \<Rightarrow> u64 \<times> u64 \<Rightarrow> u64 \<Rightarrow> torch_mem_data \<Rightarrow> ('s, 'w) redshow \<Rightarrow>
   ('s, 'w) redshow outcome" where
  "torch_memory_callback ops shadow fresh_op_id d st =
     (if tm_enter d \<and> tm_domain_memory d \<and> tm_device_gpu d then
        fbind (if \<not> rs_op_id_func st then Inl NullDeref
               else if tm_alloc d
               then redshow_submemory_register ops shadow 0 fresh_op_id (tm_ptr d) (tm_ptr d + tm_size d) st
               else redshow_submemory_unregister ops 0 fresh_op_id (tm_ptr d) (tm_ptr d + tm_size d) st)
          (\<lambda>(_, st'). Inr st')
      else Inr st)"

subsection \<open>Copies, fills, kernels\<close>

text \<open>One side of a copy: the id of the memory object and the shadow address; zero when no object is found.\<close>

definition copy_side :: "u64 \<Rightarrow> bool \<Rightarrow> u64 \<Rightarrow> snapshots \<Rightarrow> u64 \<times> u64" where
  "copy_side host_op_id is_host start snap =
     (if is_host then (REDSHOW_MEMORY_HOST, start)
      else case snd (redshow_memory_query host_op_id start snap) of
          None \<Rightarrow> (0, 0)
        | Some q \<Rightarrow> (q_memory_op_id q, q_shadow_start q))"

definition redshow_memcpy_register ::
  "(redshow_analysis_type \<Rightarrow> ('s, 'w) analysis_ops) \<Rightarrow> i32 \<Rightarrow> u64 \<Rightarrow> bool \<Rightarrow> u32 \<Rightarrow> u64 \<Rightarrow> bool \<Rightarrow> u32 \<Rightarrow> u64 \<Rightarrow> u64 \<Rightarrow>
   ('s, 'w) redshow \<Rightarrow> (redshow_result \<times> ('s, 'w) redshow) outcome" where
  "redshow_memcpy_register ops memcpy_id host_op_id src_host src_stream src dst_host dst_stream dst len st =
     (let s = copy_side host_op_id src_host src (rs_memory st); d = copy_side host_op_id dst_host dst (rs_memory st)
      in if snd d \<noteq> 0 \<and> snd s \<noteq> 0 then
           accept_op ops REDSHOW_SUCCESS
             (MemcpyOp (Memcpy host_op_id memcpy_id (fst s) src_stream src (snd s) (fst d) dst_stream dst (snd d) len)) False st
         else Inr (REDSHOW_SUCCESS, st))"

definition redshow_memset_register ::
  "(redshow_analysis_type \<Rightarrow> ('s, 'w) analysis_ops) \<Rightarrow> u32 \<Rightarrow> i32 \<Rightarrow> u64 \<Rightarrow> u64 \<Rightarrow> u32 \<Rightarrow> u64 \<Rightarrow> ('s, 'w) redshow \<Rightarrow>
   (redshow_result \<times> ('s, 'w) redshow) outcome" where
  "redshow_memset_register ops stream_id memset_id host_op_id start v len st =
     (let d = copy_side host_op_id False start (rs_memory st)
      in if snd d \<noteq> 0 then
           accept_op ops REDSHOW_SUCCESS
             (MemsetOp (Memset host_op_id memset_id (fst d) stream_id start (snd d) (ucast v) len)) False st
         else Inr (REDSHOW_SUCCESS, st))"

definition redshow_kernel_begin :: "('s, 'w) redshow \<Rightarrow> redshow_result \<times> ('s, 'w) redshow" where
  "redshow_kernel_begin st = (REDSHOW_SUCCESS, st)"

definition redshow_kernel_end ::
  "(redshow_analysis_type \<Rightarrow> ('s, 'w) analysis_ops) \<Rightarrow> u32 \<Rightarrow> u32 \<Rightarrow> i32 \<Rightarrow> u64 \<Rightarrow> ('s, 'w) redshow \<Rightarrow>
   (redshow_result \<times> ('s, 'w) redshow) outcome" where
  "redshow_kernel_end ops cpu_thread stream_id kernel_id host_op_id st =
     accept_op ops REDSHOW_SUCCESS (KernelOp (Kernel_launch host_op_id kernel_id cpu_thread stream_id)) False st"

subsection \<open>Traces\<close>

definition redshow_analyze ::
  "'t cubin_files \<Rightarrow> (redshow_analysis_type \<Rightarrow> ('s, 'w) analysis_ops) \<Rightarrow> u32 \<Rightarrow> u32 \<Rightarrow> u32 \<Rightarrow> i32 \<Rightarrow> u64 \<Rightarrow> u32 \<Rightarrow>
   gpu_patch_buffer \<Rightarrow> ('s, 'w) redshow \<Rightarrow> (redshow_result \<times> ('s, 'w) redshow) outcome" where
  "redshow_analyze cf ops cpu_thread cubin_id mod_id kernel_id host_op_id stream_id b st =
     fbind (trace_analyze cf (dispatch_call ops) (rs_config st) cpu_thread cubin_id mod_id kernel_id host_op_id stream_id b
              (rs_cubin_cache st) (rs_memory st) (rs_cubins st, (rs_enabled st, rs_world st)))
       (\<lambda>(result, cm, mw).
         let st1 = put_analyses (st\<lparr>rs_cubins := cm\<rparr>) mw
         in if result \<noteq> REDSHOW_SUCCESS then Inr (result, st1)
            else if rs_log_callback st then
              Inr (REDSHOW_SUCCESS,
                   st1\<lparr>rs_mini_host_op_id :=
                     if rs_mini_host_op_id st = 0 then host_op_id else min (rs_mini_host_op_id st) host_op_id\<rparr>)
            else Inr (REDSHOW_ERROR_NOT_REGISTER_CALLBACK, st1))"

definition redshow_analysis_begin :: "('s, 'w) redshow \<Rightarrow> redshow_result \<times> ('s, 'w) redshow" where
  "redshow_analysis_begin st = (REDSHOW_SUCCESS, st\<lparr>rs_mini_host_op_id := 0\<rparr>)"

definition redshow_analysis_end :: "('s, 'w) redshow \<Rightarrow> redshow_result \<times> ('s, 'w) redshow" where
  "redshow_analysis_end st =
     (if rs_mini_host_op_id st \<noteq> 0 \<and> \<not> map_has analysis_lt (rs_enabled st) REDSHOW_ANALYSIS_DATA_FLOW
      then (REDSHOW_SUCCESS, st\<lparr>rs_memory := prune_snapshots (rs_mini_host_op_id st) (rs_memory st)\<rparr>)
      else (REDSHOW_ERROR_NOT_REGISTER_CALLBACK, st))"

text \<open>\<^verbatim>\<open>output_dir[aiter.first]\<close> creates an empty entry for an analysis without a directory.\<close>

definition touch_dirs :: "'s enabled \<Rightarrow> (redshow_analysis_type, string) omap \<Rightarrow> (redshow_analysis_type, string) omap" where
  "touch_dirs m dirs = fold (\<lambda>e d. map_upd analysis_lt [] d (fst e) (\<lambda>x. x)) m dirs"

definition flush_environment :: "('s, 'w) redshow \<Rightarrow> flush_env" where
  "flush_environment st =
     \<lparr>fe_cubins = rs_cubins st, fe_callback = rs_record_callback st, fe_pc_views = rs_pc_views st,
      fe_mem_views = rs_mem_views st\<rparr>"

definition redshow_flush_thread ::
  "(redshow_analysis_type \<Rightarrow> ('s, 'w) analysis_ops) \<Rightarrow> u32 \<Rightarrow> ('s, 'w) redshow \<Rightarrow> (redshow_result \<times> ('s, 'w) redshow) outcome" where
  "redshow_flush_thread ops cpu_thread st =
     fbind (each_analysis
              (\<lambda>t. ao_flush_thread (ops t) (flush_environment st) cpu_thread (map_touch analysis_lt [] (rs_output_dir st) t))
              (rs_enabled st, rs_world st))
       (\<lambda>mw. Inr (REDSHOW_SUCCESS, (put_analyses st mw)\<lparr>rs_output_dir := touch_dirs (rs_enabled st) (rs_output_dir st)\<rparr>))"

definition redshow_flush ::
  "(redshow_analysis_type \<Rightarrow> ('s, 'w) analysis_ops) \<Rightarrow> ('s, 'w) redshow \<Rightarrow> (redshow_result \<times> ('s, 'w) redshow) outcome" where
  "redshow_flush ops st =
     fbind (each_analysis
              (\<lambda>t. ao_flush (ops t) (flush_environment st) (map_touch analysis_lt [] (rs_output_dir st) t))
              (rs_enabled st, rs_world st))
       (\<lambda>mw. Inr (REDSHOW_SUCCESS, (put_analyses st mw)\<lparr>rs_output_dir := touch_dirs (rs_enabled st) (rs_output_dir st)\<rparr>))"

end
