(* ===== verification/Analyses.thy ===== *)
theory Analyses
  imports Redshow
begin

section \<open>Runs of the library\<close>

text \<open>
  The calls that a profiler can make, as one datatype, and the state machine that they drive. The first half is about
  any family of analyses: the interface a family offers is a locale, and the states that calls can reach are well
  formed. The second half is the family of the program, with the three analyses that the development models and a
  table for the others as a parameter.
\<close>

subsection \<open>Calls of the interface\<close>

datatype request =
    OutputDir redshow_analysis_type "string option"
  | DataType u32
  | ApproxLevel u32
  | Enable redshow_analysis_type
  | Disable redshow_analysis_type
  | Config redshow_analysis_type analysis_config bool
  | CubinRegister u32 u32 u32 "u64 list" string
  | CubinCacheRegister u32 u32 u32 "u64 list" string
  | CubinUnregister u32 u32
  | MemoryRegister "u64 \<times> u64" u32 i32 u64 u64 u64
  | MemoryUnregister u32 i32 u64 u64 u64
  | SubmemoryRegister "u64 \<times> u64" i32 u64 u64 u64
  | SubmemoryUnregister i32 u64 u64 u64
  | TorchMemory "u64 \<times> u64" u64 torch_mem_data
  | MemcpyRegister i32 u64 bool u32 u64 bool u32 u64 u64
  | MemsetRegister u32 i32 u64 u64 u32 u64
  | LogCallback bool
  | RecordCallback bool u32 u32
  | DtohRegister "dtoh_func option"
  | OpIdRegister bool
  | KernelBegin
  | KernelEnd u32 u32 i32 u64
  | Analyze u32 u32 u32 i32 u64 u32 gpu_patch_buffer
  | PassBegin
  | PassEnd
  | FlushThread u32
  | Flush

definition on_config ::
  "(value_config \<Rightarrow> redshow_result \<times> value_config) \<Rightarrow> ('s, 'w) redshow \<Rightarrow> redshow_result \<times> ('s, 'w) redshow" where
  "on_config f st = (case f (rs_config st) of (r, c) \<Rightarrow> (r, st\<lparr>rs_config := c\<rparr>))"

definition redshow_handle ::
  "'t cubin_files \<Rightarrow> (redshow_analysis_type \<Rightarrow> 's) \<Rightarrow> (redshow_analysis_type \<Rightarrow> ('s, 'w) analysis_ops) \<Rightarrow> request \<Rightarrow>
   ('s, 'w) redshow \<Rightarrow> (redshow_result \<times> ('s, 'w) redshow) outcome" where
  "redshow_handle cf new ops q st =
     (case q of
        OutputDir t d \<Rightarrow> Inr (redshow_output_dir_config t d st)
      | DataType d \<Rightarrow> Inr (on_config (redshow_data_type_config d) st)
      | ApproxLevel l \<Rightarrow> Inr (on_config (redshow_approx_level_config l) st)
      | Enable t \<Rightarrow> Inr (redshow_analysis_enable new t st)
      | Disable t \<Rightarrow> Inr (redshow_analysis_disable t st)
      | Config t c e \<Rightarrow> Inr (redshow_analysis_config ops t c e st)
      | CubinRegister c m n pcs p \<Rightarrow>
          fbind (redshow_cubin_register cf (rs_config st) c m n pcs p (rs_cubins st)) (\<lambda>(r, cm).
            Inr (r, st\<lparr>rs_cubins := cm\<rparr>))
      | CubinCacheRegister c m n pcs p \<Rightarrow>
          fbind (redshow_cubin_cache_register c m n pcs p (rs_cubin_cache st)) (\<lambda>(r, ccm).
            Inr (r, st\<lparr>rs_cubin_cache := ccm\<rparr>))
      | CubinUnregister c m \<Rightarrow>
          (case redshow_cubin_unregister c m (rs_cubins st) of (r, cm) \<Rightarrow> Inr (r, st\<lparr>rs_cubins := cm\<rparr>))
      | MemoryRegister sh s i h a e \<Rightarrow> redshow_memory_register ops sh s i h a e st
      | MemoryUnregister s i h a e \<Rightarrow> redshow_memory_unregister ops s i h a e st
      | SubmemoryRegister sh i h a e \<Rightarrow> redshow_submemory_register ops sh i h a e st
      | SubmemoryUnregister i h a e \<Rightarrow> redshow_submemory_unregister ops i h a e st
      | TorchMemory sh h d \<Rightarrow> fbind (torch_memory_callback ops sh h d st) (\<lambda>st'. Inr (REDSHOW_SUCCESS, st'))
      | MemcpyRegister i h sh ss sa dh ds da n \<Rightarrow> redshow_memcpy_register ops i h sh ss sa dh ds da n st
      | MemsetRegister s i h a v n \<Rightarrow> redshow_memset_register ops s i h a v n st
      | LogCallback f \<Rightarrow> Inr (redshow_log_data_callback_register f st)
      | RecordCallback f p m \<Rightarrow> Inr (redshow_record_data_callback_register f p m st)
      | DtohRegister f \<Rightarrow> Inr (redshow_tool_dtoh_register ops f st)
      | OpIdRegister f \<Rightarrow> Inr (redshow_get_op_id_register f st)
      | KernelBegin \<Rightarrow> Inr (redshow_kernel_begin st)
      | KernelEnd t s k h \<Rightarrow> redshow_kernel_end ops t s k h st
      | Analyze t c m k h s b \<Rightarrow> redshow_analyze cf ops t c m k h s b st
      | PassBegin \<Rightarrow> Inr (redshow_analysis_begin st)
      | PassEnd \<Rightarrow> Inr (redshow_analysis_end st)
      | FlushThread t \<Rightarrow> redshow_flush_thread ops t st
      | Flush \<Rightarrow> redshow_flush ops st)"

text \<open>The states that calls can reach from the start of the process.\<close>

inductive reachable ::
  "'t cubin_files \<Rightarrow> (redshow_analysis_type \<Rightarrow> 's) \<Rightarrow> (redshow_analysis_type \<Rightarrow> ('s, 'w) analysis_ops) \<Rightarrow> 'w \<Rightarrow>
   ('s, 'w) redshow \<Rightarrow> bool"
  for cf new ops w where
  start: "reachable cf new ops w (init_redshow w)"
| step: "reachable cf new ops w st \<Longrightarrow> redshow_handle cf new ops q st = Inr (r, st') \<Longrightarrow> reachable cf new ops w st'"

subsection \<open>A family of analyses\<close>

definition enabled_ok :: "(redshow_analysis_type \<Rightarrow> 's \<Rightarrow> bool) \<Rightarrow> 's enabled \<Rightarrow> bool" where
  "enabled_ok good m =
     (map_ok analysis_lt m \<and> (\<forall>e \<in> set m. fst e \<noteq> REDSHOW_ANALYSIS_UNKNOWN \<and> good (fst e) (snd e)))"

definition redshow_ok :: "(redshow_analysis_type \<Rightarrow> 's \<Rightarrow> bool) \<Rightarrow> ('s, 'w) redshow \<Rightarrow> bool" where
  "redshow_ok good st =
     (enabled_ok good (rs_enabled st) \<and> cubins_ok (rs_cubins st) \<and> cubins_kinds (rs_cubins st) \<and> snapshots_ok (rs_memory st)
      \<and> snapshots_ok (rs_sub_memory st) \<and> map_ok analysis_lt (rs_output_dir st))"

lemma cubin_unregister_ok:
  assumes "cubins_ok cm"
  shows "cubins_ok (snd (redshow_cubin_unregister c m cm))"
proof (cases "map_at (<) cm c")
  case None
  with assms show ?thesis by (simp add: redshow_cubin_unregister_def)
next
  case (Some x)
  with cubins_ok_at [OF assms] have "cubin_ok c x" by simp
  then have "map_erase (<) (cub_symbols x) m \<noteq> [] \<Longrightarrow> cubin_ok c (x\<lparr>cub_symbols := map_erase (<) (cub_symbols x) m\<rparr>)"
    using set_map_erase [of "(<)" "cub_symbols x" m] by (auto simp: cubin_ok_def u32_order.map_ok_erase)
  with Some assms show ?thesis
    by (auto simp: redshow_cubin_unregister_def Let_def intro: cubins_ok_erase cubins_ok_set)
qed

lemma prune_snapshots_ok: "snapshots_ok snap \<Longrightarrow> snapshots_ok (prune_snapshots k snap)"
  using prune_snapshots_filter [of snap k] by (auto simp: snapshots_ok_def map_ok_def sorted_wrt_filter)

text \<open>
  What the interface relies on: the state of every analysis satisfies a condition of its type when it is made, and the
  methods keep the condition when they return.
\<close>

locale analysis_family =
  fixes ops :: "redshow_analysis_type \<Rightarrow> ('s, 'w) analysis_ops"
    and new :: "redshow_analysis_type \<Rightarrow> 's"
    and good :: "redshow_analysis_type \<Rightarrow> 's \<Rightarrow> bool"
  assumes good_new: "t \<noteq> REDSHOW_ANALYSIS_UNKNOWN \<Longrightarrow> good t (new t)"
    and good_op: "good t s \<Longrightarrow> ao_op_callback (ops t) op sub (s, w) = Inr (s', w') \<Longrightarrow> good t s'"
    and good_call: "good t s \<Longrightarrow> ao_call (ops t) c (s, w) = Inr (s', w') \<Longrightarrow> good t s'"
    and good_config: "good t s \<Longrightarrow> good t (ao_config (ops t) cfg on s)"
    and good_dtoh: "good t s \<Longrightarrow> good t (ao_dtoh_register (ops t) fn s)"
    and good_flush_thread: "good t s \<Longrightarrow> ao_flush_thread (ops t) env th dir (s, w) = Inr (s', w') \<Longrightarrow> good t s'"
    and good_flush: "good t s \<Longrightarrow> ao_flush (ops t) env dir (s, w) = Inr (s', w') \<Longrightarrow> good t s'"
begin

lemma each_analysis_good:
  assumes "\<And>t s w s' w'. good t s \<Longrightarrow> f t (s, w) = Inr (s', w') \<Longrightarrow> good t s'"
    and "\<forall>e \<in> set m. fst e \<noteq> REDSHOW_ANALYSIS_UNKNOWN \<and> good (fst e) (snd e)" "each_analysis f (m, w) = Inr (m', w')"
  shows "map fst m' = map fst m \<and> (\<forall>e \<in> set m'. fst e \<noteq> REDSHOW_ANALYSIS_UNKNOWN \<and> good (fst e) (snd e))"
  using assms(2,3)
proof (induction m arbitrary: w m')
  case (Cons e m)
  obtain t s where e: "e = (t, s)" by (cases e)
  with Cons.prems(2) obtain s' w1 m1 where r: "f t (s, w) = Inr (s', w1)" "each_analysis f (m, w1) = Inr (m1, w')" "m' = (t, s') # m1"
    by (auto simp: fbind_eq_Inr)
  with Cons.IH [OF _ r(2)] Cons.prems(1) assms(1) [OF _ r(1)] e show ?case by auto
qed simp

lemma map_ok_keys: "map fst m' = map fst m \<Longrightarrow> map_ok analysis_lt m \<Longrightarrow> map_ok analysis_lt m'"
  by (simp add: map_ok_def flip: sorted_wrt_map)

lemma each_analysis_ok:
  assumes "\<And>t s w s' w'. good t s \<Longrightarrow> f t (s, w) = Inr (s', w') \<Longrightarrow> good t s'"
    and "enabled_ok good m" "each_analysis f (m, w) = Inr (m', w')"
  shows "enabled_ok good m'"
proof -
  have m: "map_ok analysis_lt m" "\<forall>e \<in> set m. fst e \<noteq> REDSHOW_ANALYSIS_UNKNOWN \<and> good (fst e) (snd e)"
    using assms(2) by (auto simp: enabled_ok_def)
  have "map fst m' = map fst m \<and> (\<forall>e \<in> set m'. fst e \<noteq> REDSHOW_ANALYSIS_UNKNOWN \<and> good (fst e) (snd e))"
    using assms(1) m(2) assms(3) by (rule each_analysis_good)
  then show ?thesis using map_ok_keys [of m' m] m(1) by (simp add: enabled_ok_def)
qed

lemma dispatch_op_ok: "enabled_ok good m \<Longrightarrow> dispatch_op ops op sub (m, w) = Inr (m', w') \<Longrightarrow> enabled_ok good m'"
  unfolding dispatch_op_def using good_op by (rule each_analysis_ok)

lemma dispatch_call_keeps: "keeps (\<lambda>mw. enabled_ok good (fst mw)) (dispatch_call ops)"
proof -
  have "enabled_ok good m \<Longrightarrow> dispatch_call ops c (m, w) = Inr (m', w') \<Longrightarrow> enabled_ok good m'" for c m w m' w'
    unfolding dispatch_call_def using good_call by (rule each_analysis_ok)
  then show ?thesis by (auto simp: keeps_def)
qed

lemma accept_op_ok:
  assumes "redshow_ok good st" "accept_op ops r op sub st = Inr (r', st')"
  shows "redshow_ok good st'"
  using assms dispatch_op_ok by (auto simp: accept_op_def redshow_ok_def put_analyses_def fbind_eq_Inr split: if_splits)

lemma memory_register_ok:
  assumes "redshow_ok good st"
  shows "redshow_memory_register ops sh s i h a e st = Inr (r, st') \<Longrightarrow> redshow_ok good st'"
    "redshow_submemory_register ops sh i h a e st = Inr (r, st') \<Longrightarrow> redshow_ok good st'"
    "redshow_memory_unregister ops s i h a e st = Inr (r, st') \<Longrightarrow> redshow_ok good st'"
    "redshow_submemory_unregister ops i h a e st = Inr (r, st') \<Longrightarrow> redshow_ok good st'"
proof -
  let ?m = "\<lambda>s. Memory_object s h i (MemoryRange a e) (fst sh) (snd sh)"
  have r: "mem_range (?m s) = MemoryRange a e" for s by (simp add: Memory_object_def)
  have reg: "snapshots_ok snap \<Longrightarrow> snapshots_ok (snd (snapshot_register h (MemoryRange a e) (?m s) snap))" for snap s
    using snapshots_ok_register [of snap h "?m s"] by (simp add: r)
  have upd: "redshow_ok good (st\<lparr>rs_memory := x\<rparr>) \<longleftrightarrow> snapshots_ok x" "redshow_ok good (st\<lparr>rs_sub_memory := x\<rparr>) \<longleftrightarrow> snapshots_ok x" for x
    using assms by (auto simp: redshow_ok_def)
  have ok: "snapshots_ok (rs_memory st)" "snapshots_ok (rs_sub_memory st)" using assms by (auto simp: redshow_ok_def)
  show "redshow_memory_register ops sh s i h a e st = Inr (r, st') \<Longrightarrow> redshow_ok good st'"
    unfolding redshow_memory_register_def Let_def by (erule accept_op_ok [rotated]) (simp add: upd reg ok)
  show "redshow_submemory_register ops sh i h a e st = Inr (r, st') \<Longrightarrow> redshow_ok good st'"
    unfolding redshow_submemory_register_def Let_def by (erule accept_op_ok [rotated]) (simp add: upd reg ok)
  show "redshow_memory_unregister ops s i h a e st = Inr (r, st') \<Longrightarrow> redshow_ok good st'"
    unfolding redshow_memory_unregister_def Let_def
    by (erule accept_op_ok [rotated]) (simp add: upd snapshots_ok_unregister ok)
  show "redshow_submemory_unregister ops i h a e st = Inr (r, st') \<Longrightarrow> redshow_ok good st'"
    unfolding redshow_submemory_unregister_def Let_def
    by (erule accept_op_ok [rotated]) (simp add: upd snapshots_ok_unregister ok)
qed

lemma torch_memory_ok:
  assumes "redshow_ok good st" "torch_memory_callback ops sh h d st = Inr st'"
  shows "redshow_ok good st'"
  using assms memory_register_ok(2) [OF assms(1), of sh] memory_register_ok(4) [OF assms(1)]
  by (auto simp: torch_memory_callback_def fbind_eq_Inr split: if_splits)

lemma copy_ok:
  assumes "redshow_ok good st"
  shows "redshow_memcpy_register ops i h sh ss sa dh ds da n st = Inr (r, st') \<Longrightarrow> redshow_ok good st'"
    "redshow_memset_register ops s i h a v n st = Inr (r, st') \<Longrightarrow> redshow_ok good st'"
    "redshow_kernel_end ops t s i h st = Inr (r, st') \<Longrightarrow> redshow_ok good st'"
  using assms accept_op_ok [OF assms]
  by (auto simp: redshow_memcpy_register_def redshow_memset_register_def redshow_kernel_end_def Let_def split: if_splits)

lemma analyze_ok:
  assumes "redshow_ok good st" "redshow_analyze cf ops t c m k h s b st = Inr (r, st')"
  shows "redshow_ok good st'"
proof -
  obtain res cm mw where tr: "trace_analyze cf (dispatch_call ops) (rs_config st) t c m k h s b (rs_cubin_cache st)
      (rs_memory st) (rs_cubins st, (rs_enabled st, rs_world st)) = Inr (res, cm, mw)"
    using assms(2) by (auto simp: redshow_analyze_def fbind_eq_Inr)
  have "enabled_ok good (fst mw)" "cubins_ok cm" "cubins_kinds cm"
    using trace_analyze_keeps [OF dispatch_call_keeps _ _ tr] assms(1) by (auto simp: redshow_ok_def)
  with assms tr show ?thesis
    by (auto simp: redshow_analyze_def put_analyses_def redshow_ok_def Let_def split: if_splits)
qed

lemma touch_dirs_ok: "map_ok analysis_lt d \<Longrightarrow> map_ok analysis_lt (touch_dirs m d)"
  unfolding touch_dirs_def by (induction m arbitrary: d) (simp_all add: analysis_order.map_ok_upd)

lemma flush_ok:
  assumes "redshow_ok good st"
  shows "redshow_flush_thread ops t st = Inr (r, st') \<Longrightarrow> redshow_ok good st'"
    "redshow_flush ops st = Inr (r, st') \<Longrightarrow> redshow_ok good st'"
proof -
  have en: "enabled_ok good (rs_enabled st)" using assms by (simp add: redshow_ok_def)
  have ft: "enabled_ok good m'" if "each_analysis (\<lambda>t. ao_flush_thread (ops t) env th (dir t)) (rs_enabled st, w) = Inr (m', w')"
    for env th dir w m' w'
    using good_flush_thread en that by (rule each_analysis_ok)
  have fl: "enabled_ok good m'" if "each_analysis (\<lambda>t. ao_flush (ops t) env (dir t)) (rs_enabled st, w) = Inr (m', w')"
    for env dir w m' w'
    using good_flush en that by (rule each_analysis_ok)
  show "redshow_flush_thread ops t st = Inr (r, st') \<Longrightarrow> redshow_ok good st'"
    using assms ft touch_dirs_ok by (auto simp: redshow_flush_thread_def put_analyses_def redshow_ok_def fbind_eq_Inr)
  show "redshow_flush ops st = Inr (r, st') \<Longrightarrow> redshow_ok good st'"
    using assms fl touch_dirs_ok by (auto simp: redshow_flush_def put_analyses_def redshow_ok_def fbind_eq_Inr)
qed

lemma enable_ok:
  assumes "redshow_ok good st"
  shows "redshow_ok good (snd (redshow_analysis_enable new t st))"
    "redshow_ok good (snd (redshow_analysis_disable t st))"
    "redshow_ok good (snd (redshow_analysis_config ops t c e st))"
    "redshow_ok good (snd (redshow_tool_dtoh_register ops fn st))"
proof -
  let ?P = "\<lambda>e. fst e \<noteq> REDSHOW_ANALYSIS_UNKNOWN \<and> good (fst e) (snd e)"
  have m: "map_ok analysis_lt (rs_enabled st)" "\<forall>e \<in> set (rs_enabled st). ?P e"
    using assms by (auto simp: redshow_ok_def enabled_ok_def)
  have upd: "redshow_ok good (st\<lparr>rs_enabled := x\<rparr>) \<longleftrightarrow> enabled_ok good x" for x
    using assms by (auto simp: redshow_ok_def)
  have set_ok: "enabled_ok good (map_set analysis_lt (rs_enabled st) t s)" if "?P (t, s)" for s
    using analysis_order.map_ok_set [OF m(1)] analysis_order.map_set_all [OF m(2) that] by (simp add: enabled_ok_def)
  show "redshow_ok good (snd (redshow_analysis_enable new t st))"
    using assms set_ok good_new
    by (auto simp: redshow_analysis_enable_def map_emplace_def upd) (simp add: redshow_ok_def)
  show "redshow_ok good (snd (redshow_analysis_disable t st))"
    using m set_map_erase [of analysis_lt "rs_enabled st" t]
    by (auto simp: redshow_analysis_disable_def upd enabled_ok_def analysis_order.map_ok_erase)
  show "redshow_ok good (snd (redshow_analysis_config ops t c e st))"
  proof (cases "map_at analysis_lt (rs_enabled st) t")
    case None
    with assms show ?thesis by (simp add: redshow_analysis_config_def)
  next
    case (Some s)
    then have "?P (t, s)" using m(2) analysis_order.map_at_iff_mem [OF m(1)] by fastforce
    with Some set_ok good_config show ?thesis by (simp add: redshow_analysis_config_def upd)
  qed
  show "redshow_ok good (snd (redshow_tool_dtoh_register ops fn st))"
    using m good_dtoh
    by (auto simp: redshow_tool_dtoh_register_def upd enabled_ok_def map_ok_def sorted_wrt_map split_beta)
qed

lemma handle_ok:
  assumes "redshow_ok good st" "redshow_handle cf new ops q st = Inr (r, st')"
  shows "redshow_ok good st'"
proof -
  have c: "cubins_ok (rs_cubins st)" using assms(1) by (simp add: redshow_ok_def)
  show ?thesis
  proof (cases q)
    case (OutputDir t d)
    with assms show ?thesis
      by (auto simp: redshow_handle_def redshow_output_dir_config_def redshow_ok_def analysis_order.map_ok_set split: option.splits)
  next
    case (Enable t)
    with assms(2) enable_ok(1) [OF assms(1), of t] show ?thesis by (auto simp: redshow_handle_def)
  next
    case (Disable t)
    with assms(2) enable_ok(2) [OF assms(1), of t] show ?thesis by (auto simp: redshow_handle_def)
  next
    case (Config t c e)
    with assms(2) enable_ok(3) [OF assms(1), of t c e] show ?thesis by (auto simp: redshow_handle_def)
  next
    case (CubinRegister i m n pcs p)
    then obtain cm where "redshow_cubin_register cf (rs_config st) i m n pcs p (rs_cubins st) = Inr (r, cm)" "st' = st\<lparr>rs_cubins := cm\<rparr>"
      using assms(2) by (auto simp: redshow_handle_def fbind_eq_Inr)
    moreover from this c cubin_insert_ok(1) [OF c] register_cases have "cubins_ok cm" by (metis snd_conv)
    moreover have "cubins_kinds cm" using calculation(1) assms(1) register_kinds by (auto simp: redshow_ok_def)
    ultimately have ok: "st' = st\<lparr>rs_cubins := cm\<rparr>" "cubins_ok cm" "cubins_kinds cm" by simp_all
    with assms(1) show ?thesis by (simp add: redshow_ok_def)
  next
    case (CubinUnregister i m)
    with assms cubin_unregister_ok [OF c, of i m] unregister_kinds [of "rs_cubins st" i m] show ?thesis by (auto simp: redshow_handle_def redshow_ok_def split: prod.splits)
  next
    case (DtohRegister f)
    with assms(2) enable_ok(4) [OF assms(1), of f] show ?thesis by (auto simp: redshow_handle_def)
  next
    case PassEnd
    with assms prune_snapshots_ok show ?thesis by (auto simp: redshow_handle_def redshow_analysis_end_def redshow_ok_def split: if_splits)
  next
    case (MemoryRegister sh s i h a e)
    with assms memory_register_ok(1) [OF assms(1), of sh] show ?thesis by (simp add: redshow_handle_def)
  next
    case (MemoryUnregister s i h a e)
    with assms memory_register_ok(3) [OF assms(1)] show ?thesis by (simp add: redshow_handle_def)
  next
    case (SubmemoryRegister sh i h a e)
    with assms memory_register_ok(2) [OF assms(1), of sh] show ?thesis by (simp add: redshow_handle_def)
  next
    case (SubmemoryUnregister i h a e)
    with assms memory_register_ok(4) [OF assms(1)] show ?thesis by (simp add: redshow_handle_def)
  next
    case (TorchMemory sh h d)
    with assms torch_memory_ok [OF assms(1), of sh] show ?thesis by (auto simp: redshow_handle_def fbind_eq_Inr)
  next
    case (Analyze t c m k h s b)
    with assms analyze_ok [OF assms(1)] show ?thesis by (simp add: redshow_handle_def)
  next
    case (FlushThread t)
    with assms flush_ok(1) [OF assms(1)] show ?thesis by (simp add: redshow_handle_def)
  next
    case Flush
    with assms flush_ok(2) [OF assms(1)] show ?thesis by (simp add: redshow_handle_def)
  next
    case (MemcpyRegister i h sh ss sa dh ds da n)
    with assms copy_ok(1) [OF assms(1)] show ?thesis by (simp add: redshow_handle_def)
  next
    case (MemsetRegister s i h a v n)
    with assms copy_ok(2) [OF assms(1)] show ?thesis by (simp add: redshow_handle_def)
  next
    case (KernelEnd t s k h)
    with assms copy_ok(3) [OF assms(1)] show ?thesis by (simp add: redshow_handle_def)
  qed (use assms in \<open>auto simp: redshow_handle_def on_config_def redshow_ok_def fbind_eq_Inr redshow_kernel_begin_def
        redshow_log_data_callback_register_def redshow_record_data_callback_register_def redshow_get_op_id_register_def
        redshow_analysis_begin_def split: prod.splits\<close>)
qed

lemma reachable_ok: "reachable cf new ops w st \<Longrightarrow> redshow_ok good st"
proof (induction rule: reachable.induct)
  case start
  show ?case by (simp add: init_redshow_def redshow_ok_def enabled_ok_def snapshots_ok_def cubins_ok_Nil cubins_kinds_Nil)
next
  case (step st q r st')
  then show ?case using handle_ok by blast
qed

end

end
