(* ===== verification/Memory_Profile.thy ===== *)
theory Memory_Profile
  imports Redundancy Host_Memory
begin

section \<open>The memory profile\<close>

text \<open>
  \<^verbatim>\<open>src/analysis/memory_profile.cpp\<close>: which bytes of a memory object no kernel has ever accessed, and how fragmented they
  are. Every kernel gets its own copy of the unused ranges of the objects it accesses, starting from the copy of
  the kernel that accessed the object last. The theory models the state, all callbacks and the report, and shows that the
  unused ranges are what is left of the object when the accesses of all kernels so far are taken away.
\<close>

subsection \<open>State\<close>

record mp_trace =
  mt_ctx_id :: i32
  mt_cubin_id :: u32
  mt_mod_id :: u32
  mt_op_id :: u64
  mt_cpu_thread :: u32
  mt_access :: "(u64, memory_range oset) omap"

record chunk_fragmentation =
  cf_largest_chunk :: u64
  cf_fragmentation :: ieee
  cf_access_rate :: ieee

record memory_profile =
  mp_kernel_trace :: "(u32, (u64, mp_trace) omap) omap"
  mp_trace_at :: "(u32 \<times> u64) option"
  mp_op_node :: "(u64, i32) omap"
  mp_memories :: "(u64, memory) omap"
  mp_current_memories :: "(u64, memory) omap"
  mp_addresses :: "(u64, u64) omap"
  mp_sub_memories :: "(u64, memory) omap"
  mp_liveness :: "(u64, u64) omap"
  mp_first_alloc_op_id :: u64
  mp_last_free_op_id :: u64
  mp_blank_chunks :: "(u64, (u64, memory_range oset) omap) omap"
  mp_accessed :: "(u64, u64) omap"
  mp_largest_chunk :: "(u64, u64) omap"
  mp_fragmentation :: "(u32, (u64, (u64, chunk_fragmentation) omap) omap) omap"

definition MemoryProfile :: memory_profile where
  "MemoryProfile =
     \<lparr>mp_kernel_trace = [], mp_trace_at = None, mp_op_node = [], mp_memories = [], mp_current_memories = [],
      mp_addresses = [], mp_sub_memories = [], mp_liveness = [], mp_first_alloc_op_id = 9223372039002259456,
      mp_last_free_op_id = 0, mp_blank_chunks = [], mp_accessed = [], mp_largest_chunk = [], mp_fragmentation = []\<rparr>"

subsection \<open>Allocations and frees\<close>

definition mp_update_op_node :: "u64 \<Rightarrow> i32 \<Rightarrow> memory_profile \<Rightarrow> memory_profile" where
  "mp_update_op_node oid ctx s =
     (if oid > REDSHOW_MEMORY_HOST then s\<lparr>mp_op_node := map_set (<) (mp_op_node s) oid ctx\<rparr> else s)"

definition mp_memory_op_callback :: "memory \<Rightarrow> bool \<Rightarrow> memory_profile \<Rightarrow> memory_profile" where
  "mp_memory_op_callback op is_submemory s =
     (let s1 = mp_update_op_node (op_id op) (ctx_id op) s;
          s2 = (if op_id op < mp_first_alloc_op_id s1 then s1\<lparr>mp_first_alloc_op_id := op_id op\<rparr> else s1)
      in if \<not> is_submemory then
           s2\<lparr>mp_memories := map_emplace (<) (mp_memories s2) (op_id op) op,
              mp_current_memories := map_emplace (<) (mp_current_memories s2) (op_id op) op,
              mp_addresses := map_emplace (<) (mp_addresses s2) (mr_start (mem_range op)) (op_id op),
              mp_largest_chunk := map_emplace (<) (mp_largest_chunk s2) (op_id op) (mem_len op)\<rparr>
         else s2\<lparr>mp_sub_memories := map_emplace (<) (mp_sub_memories s2) (op_id op) op\<rparr>)"

definition mp_memfree_op_callback :: "memfree \<Rightarrow> bool \<Rightarrow> memory_profile \<Rightarrow> memory_profile outcome" where
  "mp_memfree_op_callback op is_submemory s =
     (let s1 = mp_update_op_node (op_id op) (ctx_id op) s;
          s2 = (if op_id op > mp_last_free_op_id s1 then s1\<lparr>mp_last_free_op_id := op_id op\<rparr> else s1);
          address = mr_start (mf_range op)
      in if \<not> is_submemory then
           fbind (or_fault OutOfRange (map_at (<) (mp_addresses s2) address)) (\<lambda>malloc_op_id.
             Inr (s2\<lparr>mp_current_memories := map_erase (<) (mp_current_memories s2) malloc_op_id,
                     mp_addresses := map_erase (<) (mp_addresses s2) address\<rparr>))
         else Inr s2)"

subsection \<open>Accesses\<close>

text \<open>The set operations on accessed ranges are those of the data flow, statement by statement.\<close>

definition mp_merge_memory_range :: "memory_range oset \<Rightarrow> memory_range \<Rightarrow> memory_range oset" where
  "mp_merge_memory_range = merge_memory_range"

text \<open>
  The trace of a kernel is made by \<^verbatim>\<open>make_shared\<close>, which clears the memory before the constructors run: its
  \<^verbatim>\<open>cpu_thread\<close>, which nothing sets, is zero.
\<close>

definition mp_analysis_begin ::
  "u32 \<Rightarrow> i32 \<Rightarrow> u64 \<Rightarrow> u32 \<Rightarrow> u32 \<Rightarrow> gpu_patch_type \<Rightarrow> memory_profile \<Rightarrow> memory_profile outcome" where
  "mp_analysis_begin cpu_thread kernel_id host_op_id cubin_id mod_id type s =
     (if type \<noteq> GPU_PATCH_TYPE_ADDRESS_PATCH \<and> type \<noteq> GPU_PATCH_TYPE_ADDRESS_ANALYSIS then Inl AssertFail
      else
        let ks = (if map_at2 (<) (<) (mp_kernel_trace s) cpu_thread host_op_id = None
                  then map_set2 (<) (<) (mp_kernel_trace s) cpu_thread host_op_id
                         \<lparr>mt_ctx_id = kernel_id, mt_cubin_id = cubin_id, mt_mod_id = mod_id, mt_op_id = host_op_id,
                          mt_cpu_thread = 0, mt_access = []\<rparr>
                  else mp_kernel_trace s)
        in Inr (s\<lparr>mp_kernel_trace := ks, mp_trace_at := Some (cpu_thread, host_op_id)\<rparr>))"

definition mp_current :: "memory_profile \<Rightarrow> mp_trace option" where
  "mp_current s = (case mp_trace_at s of None \<Rightarrow> None | Some (t, k) \<Rightarrow> map_at2 (<) (<) (mp_kernel_trace s) t k)"

definition mp_put_current :: "mp_trace \<Rightarrow> memory_profile \<Rightarrow> memory_profile" where
  "mp_put_current tr s =
     (case mp_trace_at s of
        None \<Rightarrow> s
      | Some (t, k) \<Rightarrow> s\<lparr>mp_kernel_trace := map_set2 (<) (<) (mp_kernel_trace s) t k tr\<rparr>)"

definition mp_unit_access :: "memory \<Rightarrow> memory_profile \<Rightarrow> memory_profile outcome" where
  "mp_unit_access memory s =
     (if op_id memory \<le> REDSHOW_MEMORY_HOST then Inr s
      else fbind (or_fault NullDeref (mp_current s)) (\<lambda>tr.
             Inr (mp_put_current
               (tr\<lparr>mt_access := map_upd (<) [] (mt_access tr) (op_id memory)
                     (\<lambda>rs. if rs = [] then set_insert range_lt rs (mem_range memory)
                           else mp_merge_memory_range rs (mem_range memory))\<rparr>) s)))"

subsection \<open>The end of a kernel\<close>

definition mp_update_blank_chunks ::
  "u64 \<Rightarrow> u64 \<Rightarrow> memory_range \<Rightarrow> memory_profile \<Rightarrow> memory_profile outcome" where
  "mp_update_blank_chunks kernel_op_id memory_op_id r s =
     fbind (or_fault OutOfRange (map_at (<) (mp_blank_chunks s) kernel_op_id)) (\<lambda>memory_map.
     fbind (or_fault OutOfRange (map_at (<) memory_map memory_op_id)) (\<lambda>unused.
       Inr (s\<lparr>mp_blank_chunks := map_set (<) (mp_blank_chunks s) kernel_op_id
                (map_set (<) memory_map memory_op_id (blank_remove unused r))\<rparr>)))"

text \<open>The unused ranges an object starts the kernel with.\<close>

definition mp_start_object :: "mp_trace \<Rightarrow> u64 \<Rightarrow> memory \<Rightarrow> memory_profile \<Rightarrow> memory_profile outcome" where
  "mp_start_object tr mid memory s =
     (case map_at (<) (mp_accessed s) mid of
        Some kid \<Rightarrow>
          fbind (or_fault OutOfRange (map_at (<) (mp_blank_chunks s) kid)) (\<lambda>m.
          fbind (or_fault OutOfRange (map_at (<) m mid)) (\<lambda>unused.
            Inr (s\<lparr>mp_blank_chunks := map_upd (<) [] (mp_blank_chunks s) (mt_op_id tr) (\<lambda>m. map_emplace (<) m mid unused),
                   mp_accessed := map_set (<) (mp_accessed s) mid (mt_op_id tr)\<rparr>)))
      | None \<Rightarrow>
          Inr (s\<lparr>mp_accessed := map_emplace (<) (mp_accessed s) mid (mt_op_id tr),
                 mp_blank_chunks := map_upd (<) [] (mp_blank_chunks s) (mt_op_id tr)
                   (\<lambda>m. map_emplace (<) m mid (set_insert range_lt [] (mem_range memory)))\<rparr>))"

definition mp_kernel_object :: "kernel \<Rightarrow> mp_trace \<Rightarrow> u64 \<times> memory_range oset \<Rightarrow> memory_profile \<Rightarrow> memory_profile outcome" where
  "mp_kernel_object op tr entry s =
     (case entry of (mid, rs) \<Rightarrow>
        fbind (or_fault OutOfRange (map_at (<) (mp_memories s) mid)) (\<lambda>memory.
        fbind (mp_start_object tr mid memory s) (\<lambda>s1.
        fbind (or_fault OutOfRange (map_at (<) (mp_op_node s1) (op_id memory))) (\<lambda>_.
          ffold (\<lambda>r. mp_update_blank_chunks (op_id op) mid r) rs s1))))"

text \<open>Quotients and differences in \<^verbatim>\<open>float\<close>.\<close>

definition float_ratio :: "u64 \<Rightarrow> u64 \<Rightarrow> ieee" where
  "float_ratio a b =
     (if b = 0 then if a = 0 then Nan True else Infinity False
      else Finite False (float_div (round_bits 24 (of_int (uint a))) (round_bits 24 (of_int (uint b)))))"

definition float_one_minus :: "ieee \<Rightarrow> ieee" where
  "float_one_minus x =
     (case x of
        Finite s q \<Rightarrow> let d = 1 - (if s then - q else q) in Finite (d < 0) (round_bits 24 (abs d))
      | Infinity s \<Rightarrow> Infinity (\<not> s)
      | Nan s \<Rightarrow> Nan s)"

text \<open>The largest and the sum of the unused ranges of an object.\<close>

definition blank_largest :: "memory_range oset \<Rightarrow> u64" where
  "blank_largest rs = foldl (\<lambda>len r. if len < mr_end r - mr_start r then mr_end r - mr_start r else len) 0 rs"

definition blank_sum :: "memory_range oset \<Rightarrow> u64" where
  "blank_sum rs = foldl (\<lambda>sum r. sum + (mr_end r - mr_start r)) 0 rs"

definition mp_fragment_object ::
  "u32 \<Rightarrow> u64 \<Rightarrow> u64 \<times> memory_range oset \<Rightarrow> memory_profile \<Rightarrow> memory_profile outcome" where
  "mp_fragment_object cpu_thread kernel_op_id entry s =
     (case entry of (mid, rs) \<Rightarrow>
        fbind (or_fault OutOfRange (map_at (<) (mp_largest_chunk s) mid)) (\<lambda>before.
        fbind (or_fault NullDeref (map_at (<) (mp_memories s) mid)) (\<lambda>memory.
          let sum = blank_sum rs;
              len = (if blank_largest rs > before then before else blank_largest rs);
              empty_set = (rs = [] \<or> len = 0);
              access_rate = float_ratio (mem_len memory - sum) (mem_len memory);
              frag = (if empty_set then Finite False 0 else float_one_minus (float_ratio len sum))
          in Inr (s\<lparr>mp_largest_chunk := map_set (<) (mp_largest_chunk s) mid len,
                    mp_fragmentation := map_upd (<) [] (mp_fragmentation s) cpu_thread
                      (\<lambda>ks. map_set2 (<) (<) ks kernel_op_id mid
                         \<lparr>cf_largest_chunk = len, cf_fragmentation = frag, cf_access_rate = access_rate\<rparr>)\<rparr>))))"

definition mp_update_fragmentation :: "u32 \<Rightarrow> u64 \<Rightarrow> memory_profile \<Rightarrow> memory_profile outcome" where
  "mp_update_fragmentation cpu_thread kernel_op_id s =
     fbind (or_fault OutOfRange (map_at (<) (mp_blank_chunks s) kernel_op_id)) (\<lambda>unused_map.
       ffold (mp_fragment_object cpu_thread kernel_op_id) unused_map s)"

definition mp_kernel_op_callback :: "kernel \<Rightarrow> memory_profile \<Rightarrow> memory_profile outcome" where
  "mp_kernel_op_callback op s =
     (let s0 = mp_update_op_node (op_id op) (ctx_id op) s
      in case mp_current s0 of
           None \<Rightarrow> Inr s0
         | Some tr \<Rightarrow>
             let s1 = s0\<lparr>mp_blank_chunks := map_emplace (<) (mp_blank_chunks s0) (mt_op_id tr) []\<rparr>
             in fbind (ffold (mp_kernel_object op tr) (mt_access tr) s1) (\<lambda>s2.
                fbind (mp_update_fragmentation (mt_cpu_thread tr) (op_id op) s2) (\<lambda>s3.
                  Inr ((mp_put_current (tr\<lparr>mt_access := []\<rparr>) s3)\<lparr>mp_trace_at := None\<rparr>))))"

definition mp_op_callback :: "operation \<Rightarrow> bool \<Rightarrow> memory_profile \<Rightarrow> memory_profile outcome" where
  "mp_op_callback op is_submemory s =
     (case op of
        KernelOp k \<Rightarrow> mp_kernel_op_callback k s
      | MemoryOp m \<Rightarrow> Inr (mp_memory_op_callback m is_submemory s)
      | MemfreeOp m \<Rightarrow> mp_memfree_op_callback m is_submemory s
      | _ \<Rightarrow> Inr s)"

subsection \<open>The report\<close>

definition mp_report_object :: "memory_profile \<Rightarrow> u64 \<times> chunk_fragmentation \<Rightarrow> string outcome" where
  "mp_report_object s entry =
     (case entry of (mid, c) \<Rightarrow>
        fbind (or_fault OutOfRange (map_at (<) (mp_memories s) mid)) (\<lambda>memory.
        fbind (or_fault OutOfRange (map_at (<) (mp_op_node s) mid)) (\<lambda>ctx.
        fbind (case map_at (<) (mp_liveness s) mid of
                 None \<Rightarrow> Inr (''    |- freed at execution finished '' @ u64_to_string (mp_last_free_op_id s) @ newline)
               | Some f \<Rightarrow>
                   fbind (or_fault OutOfRange (map_at (<) (mp_op_node s) f)) (\<lambda>fctx.
                     Inr (''    |- freed at '' @ u64_to_string f @ '' free_id '' @ int_to_string fctx @ newline))) (\<lambda>freed.
          Inr (''    memory_op_id '' @ u64_to_string mid @ newline
             @ ''    memory_id '' @ int_to_string ctx @ newline
             @ ''    |- size '' @ u64_to_string (mr_end (mem_range memory) - mr_start (mem_range memory)) @ '' B'' @ newline
             @ ''    |- allocated at '' @ u64_to_string mid @ newline @ freed
             @ ''    |- fragmentation '' @ ieee_to_string (cf_fragmentation c) @ newline
             @ ''    |- access_rate '' @ ieee_to_string (cf_access_rate c) @ newline
             @ ''    |- largest chunk '' @ u64_to_string (cf_largest_chunk c) @ '' B'' @ newline @ newline)))))"

text \<open>\<^verbatim>\<open>_op_node[kiter.first]\<close> creates the entry of a kernel that has none.\<close>

definition mp_report_kernel ::
  "u64 \<times> (u64, chunk_fragmentation) omap \<Rightarrow> string \<times> memory_profile \<Rightarrow> (string \<times> memory_profile) outcome" where
  "mp_report_kernel entry os =
     (case entry of (kid, objects) \<Rightarrow> case os of (out, s) \<Rightarrow>
        let ctx = map_touch (<) 0 (mp_op_node s) kid;
            s1 = s\<lparr>mp_op_node := map_upd (<) 0 (mp_op_node s) kid (\<lambda>c. c)\<rparr>
        in fbind (ffold (\<lambda>e o1. fbind (mp_report_object s1 e) (\<lambda>t. Inr (o1 @ t))) objects
                    (out @ ''  Kernel_op_id '' @ u64_to_string kid @ '' kernel_id '' @ int_to_string ctx @ newline)) (\<lambda>o2.
             Inr (o2 @ newline, s1)))"

definition mp_flush :: "string \<Rightarrow> memory_profile \<Rightarrow> ((string \<times> string) \<times> memory_profile) outcome" where
  "mp_flush output_dir s =
     fbind (ffold (\<lambda>(thr, kernels) (out, s1).
              fbind (ffold mp_report_kernel kernels (out @ ''Thread_id '' @ u32_to_string thr @ newline, s1)) (\<lambda>(o2, s2).
                Inr (o2 @ newline, s2))) (mp_fragmentation s) ([], s)) (\<lambda>(out, s').
       Inr ((output_dir @ ''memory_profile.csv'', out), s'))"

subsection \<open>Unused bytes\<close>

interpretation op_object: nested_keys "(<) :: u64 \<Rightarrow> u64 \<Rightarrow> bool" "(<) :: u64 \<Rightarrow> u64 \<Rightarrow> bool" ..

interpretation thread_op: nested_keys "(<) :: u32 \<Rightarrow> u32 \<Rightarrow> bool" "(<) :: u64 \<Rightarrow> u64 \<Rightarrow> bool" ..

abbreviation blank_at :: "(u64, (u64, memory_range oset) omap) omap \<Rightarrow> u64 \<Rightarrow> u64 \<Rightarrow> memory_range oset option" where
  "blank_at \<equiv> map_at2 (<) (<)"

text \<open>The bytes of an object that no kernel has accessed.\<close>

definition mp_unused :: "memory_profile \<Rightarrow> u64 \<Rightarrow> u64 set" where
  "mp_unused s mid =
     (case map_at (<) (mp_accessed s) mid of
        Some kid \<Rightarrow> (case blank_at (mp_blank_chunks s) kid mid of None \<Rightarrow> {} | Some rs \<Rightarrow> cover rs)
      | None \<Rightarrow> (case map_at (<) (mp_memories s) mid of None \<Rightarrow> {} | Some m \<Rightarrow> range_bytes (mem_range m)))"

definition unused_ok :: "memory_range oset \<Rightarrow> bool" where
  "unused_ok rs = (ranges_ok rs \<and> ranges_disjoint rs)"

definition mp_access_ok :: "(u64, memory_range oset) omap \<Rightarrow> bool" where
  "mp_access_ok m = (map_ok (<) m \<and> (\<forall>e \<in> set m. ranges_ok (snd e)))"

definition mp_objects_ok :: "memory_profile \<Rightarrow> bool" where
  "mp_objects_ok s =
     (map_ok (<) (mp_memories s) \<and> map_ok (<) (mp_op_node s) \<and> map_ok (<) (mp_largest_chunk s)
      \<and> (\<forall>mid m. map_at (<) (mp_memories s) mid = Some m \<longrightarrow>
            op_id m = mid \<and> range_wf (mem_range m) \<and> map_at (<) (mp_largest_chunk s) mid \<noteq> None
            \<and> (mid > REDSHOW_MEMORY_HOST \<longrightarrow> map_at (<) (mp_op_node s) mid \<noteq> None)))"

definition mp_blanks_ok :: "memory_profile \<Rightarrow> bool" where
  "mp_blanks_ok s =
     (map_ok2 (<) (<) (mp_blank_chunks s) \<and> map_ok (<) (mp_accessed s)
      \<and> (\<forall>k mid rs. blank_at (mp_blank_chunks s) k mid = Some rs \<longrightarrow> unused_ok rs \<and> map_at (<) (mp_memories s) mid \<noteq> None)
      \<and> (\<forall>mid k. map_at (<) (mp_accessed s) mid = Some k \<longrightarrow> blank_at (mp_blank_chunks s) k mid \<noteq> None))"

definition mp_traces_ok :: "memory_profile \<Rightarrow> bool" where
  "mp_traces_ok s =
     (map_ok2 (<) (<) (mp_kernel_trace s)
      \<and> (\<forall>t k tr. map_at2 (<) (<) (mp_kernel_trace s) t k = Some tr \<longrightarrow> mp_access_ok (mt_access tr)))"

definition mp_ok :: "memory_profile \<Rightarrow> bool" where
  "mp_ok s = (mp_objects_ok s \<and> mp_blanks_ok s \<and> mp_traces_ok s)"

lemma mp_ok_start: "mp_ok MemoryProfile"
  by (simp add: mp_ok_def mp_objects_ok_def mp_blanks_ok_def mp_traces_ok_def MemoryProfile_def op_object.map_ok2_Nil
      thread_op.map_ok2_Nil map_at2_def map_touch_def)

text \<open>Taking ranges away one by one.\<close>

lemma blank_fold:
  assumes "unused_ok u" "\<forall>r \<in> set rs. range_wf r"
  shows "unused_ok (fold (\<lambda>r u. blank_remove u r) rs u) \<and> cover (fold (\<lambda>r u. blank_remove u r) rs u) = cover u - cover rs"
  using assms
proof (induction rs arbitrary: u)
  case (Cons r rs)
  have "unused_ok (blank_remove u r)" "cover (blank_remove u r) = cover u - range_bytes r"
    using blank_remove_sound [of u r] Cons.prems by (auto simp: unused_ok_def)
  with Cons.IH [of "blank_remove u r"] Cons.prems show ?case by auto
qed simp

text \<open>Writing the unused ranges of one object in one kernel.\<close>

definition blank_written ::
  "(u64, (u64, memory_range oset) omap) omap \<Rightarrow> u64 \<Rightarrow> u64 \<Rightarrow> memory_range oset \<Rightarrow> (u64, (u64, memory_range oset) omap) omap \<Rightarrow> bool" where
  "blank_written B k mid u B' =
     (map_ok2 (<) (<) B' \<and> map_at (<) B' k \<noteq> None
      \<and> (\<forall>x y. blank_at B' x y = (if x = k \<and> y = mid then Some u else blank_at B x y)))"

lemma blank_written_set2:
  "map_ok2 (<) (<) B \<Longrightarrow> blank_written B k mid u (map_set2 (<) (<) B k mid u)"
  by (simp add: blank_written_def op_object.map_ok2_set2 op_object.map_at2_set2)
     (simp add: map_set2_def map_upd_def map_ok2_def u64_order.map_at_set)

lemma blank_written_again: "blank_written B k mid u B' \<Longrightarrow> blank_written B' k mid v B'' \<Longrightarrow> blank_written B k mid v B''"
  by (auto simp: blank_written_def)

lemma update_blanks_fold:
  assumes "blank_written B k mid u (mp_blank_chunks s)"
  shows "\<exists>B'. ffold (\<lambda>r. mp_update_blank_chunks k mid r) rs s = Inr (s\<lparr>mp_blank_chunks := B'\<rparr>)
    \<and> blank_written B k mid (fold (\<lambda>r u. blank_remove u r) rs u) B'"
  using assms
proof (induction rs arbitrary: s u)
  case Nil
  then show ?case by (intro exI [of _ "mp_blank_chunks s"]) simp
next
  case (Cons r rs)
  let ?B = "mp_blank_chunks s"
  have b: "map_ok2 (<) (<) ?B" "blank_at ?B k mid = Some u" using Cons.prems by (auto simp: blank_written_def)
  obtain m where m: "map_at (<) ?B k = Some m" using Cons.prems by (auto simp: blank_written_def)
  with b(2) have mid: "map_at (<) m mid = Some u" by (simp add: map_at2_def map_touch_def)
  let ?s = "s\<lparr>mp_blank_chunks := map_set2 (<) (<) ?B k mid (blank_remove u r)\<rparr>"
  have step: "mp_update_blank_chunks k mid r s = Inr ?s"
    using m mid by (simp add: mp_update_blank_chunks_def map_set2_def map_upd_def map_touch_def)
  have "blank_written B k mid (blank_remove u r) (mp_blank_chunks ?s)"
    using blank_written_again [OF Cons.prems blank_written_set2 [OF b(1)]] by simp
  from Cons.IH [OF this] show ?case by (simp add: step)
qed

lemma blank_emplace:
  assumes "map_ok2 (<) (<) B" "blank_at B k mid = None"
  shows "map_upd (<) [] B k (\<lambda>m. map_emplace (<) m mid u) = map_set2 (<) (<) B k mid u"
  using assms by (simp add: map_set2_def map_emplace_def map_has_at map_at2_def map_upd_def)

lemma mp_start_object_ok:
  assumes "mp_blanks_ok s" "blank_at (mp_blank_chunks s) (mt_op_id tr) mid = None"
    and "map_at (<) (mp_memories s) mid = Some m" "range_wf (mem_range m)"
  shows "\<exists>u B A. mp_start_object tr mid m s = Inr (s\<lparr>mp_blank_chunks := B, mp_accessed := A\<rparr>)
    \<and> blank_written (mp_blank_chunks s) (mt_op_id tr) mid u B \<and> unused_ok u \<and> cover u = mp_unused s mid
    \<and> map_ok (<) A \<and> (\<forall>j. map_at (<) A j = (if j = mid then Some (mt_op_id tr) else map_at (<) (mp_accessed s) j))"
proof -
  let ?B = "mp_blank_chunks s" and ?A = "mp_accessed s" and ?k = "mt_op_id tr"
  have B: "map_ok2 (<) (<) ?B" and A: "map_ok (<) ?A" using assms(1) by (auto simp: mp_blanks_ok_def)
  show ?thesis
  proof (cases "map_at (<) ?A mid")
    case None
    let ?u = "set_insert range_lt [] (mem_range m)"
    have "mp_start_object tr mid m s = Inr (s\<lparr>mp_blank_chunks := map_set2 (<) (<) ?B ?k mid ?u, mp_accessed := map_set (<) ?A mid ?k\<rparr>)"
      using None blank_emplace [OF B assms(2), of ?u]
      by (simp add: mp_start_object_def map_emplace_def [of "(<)" ?A] map_has_at del: set_insert.simps)
    moreover have "unused_ok ?u" "cover ?u = mp_unused s mid"
      using assms(3,4) None by (simp_all add: unused_ok_def mp_unused_def range_simps)
    ultimately show ?thesis
      using blank_written_set2 [OF B] u64_order.map_ok_set [OF A] u64_order.map_at_set [OF A] by blast
  next
    case (Some kid)
    then obtain u where u: "blank_at ?B kid mid = Some u" using assms(1) unfolding mp_blanks_ok_def by blast
    then obtain mm where mm: "map_at (<) ?B kid = Some mm" "map_at (<) mm mid = Some u"
      by (auto simp: map_at2_def map_touch_def split: option.splits)
    have "mp_start_object tr mid m s = Inr (s\<lparr>mp_blank_chunks := map_set2 (<) (<) ?B ?k mid u, mp_accessed := map_set (<) ?A mid ?k\<rparr>)"
      using Some mm by (simp add: mp_start_object_def blank_emplace [OF B assms(2)])
    moreover have "unused_ok u" "cover u = mp_unused s mid"
      using assms(1) u Some by (auto simp: mp_blanks_ok_def mp_unused_def)
    ultimately show ?thesis
      using blank_written_set2 [OF B] u64_order.map_ok_set [OF A] u64_order.map_at_set [OF A] by blast
  qed
qed

text \<open>What the kernel does to one object it accessed.\<close>

lemma mp_kernel_object_ok:
  assumes "mp_objects_ok s" "mp_blanks_ok s" "op_id op = mt_op_id tr"
    and "blank_at (mp_blank_chunks s) (mt_op_id tr) mid = None"
    and "map_at (<) (mp_memories s) mid \<noteq> None" "mid > REDSHOW_MEMORY_HOST" "ranges_ok rs"
  shows "\<exists>u B A. mp_kernel_object op tr (mid, rs) s = Inr (s\<lparr>mp_blank_chunks := B, mp_accessed := A\<rparr>)
    \<and> blank_written (mp_blank_chunks s) (mt_op_id tr) mid u B \<and> unused_ok u \<and> cover u = mp_unused s mid - cover rs
    \<and> map_ok (<) A \<and> (\<forall>j. map_at (<) A j = (if j = mid then Some (mt_op_id tr) else map_at (<) (mp_accessed s) j))"
proof -
  obtain m where m: "map_at (<) (mp_memories s) mid = Some m" using assms(5) by auto
  then have mw: "range_wf (mem_range m)" "op_id m = mid" "map_at (<) (mp_op_node s) mid \<noteq> None"
    using assms(1,6) by (auto simp: mp_objects_ok_def)
  from mp_start_object_ok [OF assms(2,4) m mw(1)] obtain u B A where
    st: "mp_start_object tr mid m s = Inr (s\<lparr>mp_blank_chunks := B, mp_accessed := A\<rparr>)"
      "blank_written (mp_blank_chunks s) (mt_op_id tr) mid u B" "unused_ok u" "cover u = mp_unused s mid"
      "map_ok (<) A" "\<forall>j. map_at (<) A j = (if j = mid then Some (mt_op_id tr) else map_at (<) (mp_accessed s) j)"
    by blast
  let ?s = "s\<lparr>mp_blank_chunks := B, mp_accessed := A\<rparr>" and ?v = "fold (\<lambda>r u. blank_remove u r) rs u"
  obtain B' where B': "ffold (\<lambda>r. mp_update_blank_chunks (mt_op_id tr) mid r) rs ?s = Inr (?s\<lparr>mp_blank_chunks := B'\<rparr>)"
      "blank_written (mp_blank_chunks s) (mt_op_id tr) mid ?v B'"
    using update_blanks_fold [of "mp_blank_chunks s" "mt_op_id tr" mid u ?s rs] st(2) by auto
  have "unused_ok ?v \<and> cover ?v = cover u - cover rs"
    using blank_fold [OF st(3)] assms(7) by (auto simp: ranges_ok_def)
  moreover obtain c where "map_at (<) (mp_op_node s) mid = Some c" using mw(3) by auto
  then have "mp_kernel_object op tr (mid, rs) s = Inr (s\<lparr>mp_blank_chunks := B', mp_accessed := A\<rparr>)"
    using m st(1) mw(2) B'(1) assms(3) by (simp add: mp_kernel_object_def)
  ultimately show ?thesis using B'(2) st(4,5,6) by metis
qed

lemma mp_object_step:
  assumes "mp_blanks_ok s" "blank_written (mp_blank_chunks s) k mid u B" "unused_ok u"
    and "map_ok (<) A" "\<forall>j. map_at (<) A j = (if j = mid then Some k else map_at (<) (mp_accessed s) j)"
    and "map_at (<) (mp_memories s) mid \<noteq> None"
  shows "mp_blanks_ok (s\<lparr>mp_blank_chunks := B, mp_accessed := A\<rparr>)"
    "mp_unused (s\<lparr>mp_blank_chunks := B, mp_accessed := A\<rparr>) j = (if j = mid then cover u else mp_unused s j)"
  using assms by (auto simp: mp_blanks_ok_def blank_written_def mp_unused_def split: option.splits)

text \<open>All the objects that a kernel accessed.\<close>

lemma mp_kernel_objects_ok:
  assumes "op_id op = mt_op_id tr" "mp_objects_ok s" "mp_blanks_ok s" "mp_access_ok acc"
    and "\<forall>mid \<in> fst ` set acc. map_at (<) (mp_memories s) mid \<noteq> None \<and> mid > REDSHOW_MEMORY_HOST
      \<and> blank_at (mp_blank_chunks s) (mt_op_id tr) mid = None"
    and "map_at (<) (mp_blank_chunks s) (mt_op_id tr) \<noteq> None"
  shows "\<exists>B A. ffold (mp_kernel_object op tr) acc s = Inr (s\<lparr>mp_blank_chunks := B, mp_accessed := A\<rparr>)
    \<and> mp_blanks_ok (s\<lparr>mp_blank_chunks := B, mp_accessed := A\<rparr>) \<and> map_at (<) B (mt_op_id tr) \<noteq> None
    \<and> (\<forall>mid. mp_unused (s\<lparr>mp_blank_chunks := B, mp_accessed := A\<rparr>) mid = mp_unused s mid - cover (map_touch (<) [] acc mid))
    \<and> (\<forall>mid \<in> fst ` set acc. map_at (<) A mid = Some (mt_op_id tr))
    \<and> (\<forall>mid. mid \<notin> fst ` set acc \<longrightarrow> map_at (<) A mid = map_at (<) (mp_accessed s) mid)"
  using assms(2-)
proof (induction acc arbitrary: s)
  case Nil
  then show ?case
    by (intro exI [of _ "mp_blank_chunks s"] exI [of _ "mp_accessed s"]) (simp add: map_touch_def)
next
  case (Cons e acc)
  obtain mid rs where e: "e = (mid, rs)" by (cases e)
  have acc: "mp_access_ok acc" "ranges_ok rs" "map_ok (<) ((mid, rs) # acc)" using Cons.prems(3) e by (auto simp: mp_access_ok_def dest: map_ok_tl)
  have fresh: "mid \<notin> fst ` set acc" using acc(3) by (auto simp: map_ok_Cons)
  have touch: "map_touch (<) [] (e # acc) j = (if j = mid then rs else map_touch (<) [] acc j)" for j
    using u64_order.map_at_head [OF acc(3), of j] by (simp add: e map_touch_def)
  have none: "map_touch (<) [] acc mid = []"
    using u64_order.map_at_iff_mem [of acc mid] acc(3) fresh by (cases "map_at (<) acc mid") (force simp: map_touch_def map_ok_Cons)+
  have mem: "map_at (<) (mp_memories s) mid \<noteq> None" "mid > REDSHOW_MEMORY_HOST" "blank_at (mp_blank_chunks s) (mt_op_id tr) mid = None"
    using Cons.prems(4) e by auto
  from mp_kernel_object_ok [OF Cons.prems(1,2) assms(1) mem(3,1,2) acc(2)] obtain u B A where
    st: "mp_kernel_object op tr (mid, rs) s = Inr (s\<lparr>mp_blank_chunks := B, mp_accessed := A\<rparr>)"
      "blank_written (mp_blank_chunks s) (mt_op_id tr) mid u B" "unused_ok u" "cover u = mp_unused s mid - cover rs"
      "map_ok (<) A" "\<forall>j. map_at (<) A j = (if j = mid then Some (mt_op_id tr) else map_at (<) (mp_accessed s) j)"
    by blast
  let ?s = "s\<lparr>mp_blank_chunks := B, mp_accessed := A\<rparr>"
  note step = mp_object_step [OF Cons.prems(2) st(2,3,5,6) mem(1)]
  have o: "mp_objects_ok ?s" using Cons.prems(1) by (simp add: mp_objects_ok_def)
  have pre: "\<forall>j \<in> fst ` set acc. map_at (<) (mp_memories ?s) j \<noteq> None \<and> j > REDSHOW_MEMORY_HOST
      \<and> blank_at (mp_blank_chunks ?s) (mt_op_id tr) j = None"
    using Cons.prems(4) fresh st(2) e by (auto simp: blank_written_def)
  have "map_at (<) (mp_blank_chunks ?s) (mt_op_id tr) \<noteq> None" using st(2) by (simp add: blank_written_def)
  from Cons.IH [OF o step(1) acc(1) pre this] obtain B' A' where
    ih: "ffold (mp_kernel_object op tr) acc ?s = Inr (?s\<lparr>mp_blank_chunks := B', mp_accessed := A'\<rparr>)"
      "mp_blanks_ok (?s\<lparr>mp_blank_chunks := B', mp_accessed := A'\<rparr>)" "map_at (<) B' (mt_op_id tr) \<noteq> None"
      "\<forall>j. mp_unused (?s\<lparr>mp_blank_chunks := B', mp_accessed := A'\<rparr>) j = mp_unused ?s j - cover (map_touch (<) [] acc j)"
      "\<forall>j \<in> fst ` set acc. map_at (<) A' j = Some (mt_op_id tr)"
      "\<forall>j. j \<notin> fst ` set acc \<longrightarrow> map_at (<) A' j = map_at (<) (mp_accessed ?s) j"
    by blast
  have same: "?s\<lparr>mp_blank_chunks := B', mp_accessed := A'\<rparr> = s\<lparr>mp_blank_chunks := B', mp_accessed := A'\<rparr>" by simp
  note ih' = ih [unfolded same]
  have "ffold (mp_kernel_object op tr) (e # acc) s = Inr (s\<lparr>mp_blank_chunks := B', mp_accessed := A'\<rparr>)"
    using st(1) ih'(1) e by simp
  moreover have "mp_unused (s\<lparr>mp_blank_chunks := B', mp_accessed := A'\<rparr>) j = mp_unused s j - cover (map_touch (<) [] (e # acc) j)" for j
    using ih'(4) step(2) [of j] st(4) none by (auto simp: touch)
  moreover have "\<forall>j \<in> fst ` set (e # acc). map_at (<) A' j = Some (mt_op_id tr)"
    using ih'(5,6) st(6) fresh e by auto
  moreover have "\<forall>j. j \<notin> fst ` set (e # acc) \<longrightarrow> map_at (<) A' j = map_at (<) (mp_accessed s) j"
    using ih'(6) st(6) e by auto
  ultimately show ?case using ih'(2,3) by blast
qed

subsection \<open>Sums of ranges\<close>

lemma card_range_bytes: "range_wf r \<Longrightarrow> card (range_bytes r) = unat (mr_end r - mr_start r)"
proof -
  assume wf: "range_wf r"
  have "bij_betw unat (range_bytes r) {unat (mr_start r)..<unat (mr_end r)}"
    unfolding bij_betw_def
  proof
    show "inj_on unat (range_bytes r)" by (simp add: inj_on_def word_unat_eq_iff)
    show "unat ` range_bytes r = {unat (mr_start r)..<unat (mr_end r)}"
    proof (intro equalityI subsetI)
      fix n assume n: "n \<in> {unat (mr_start r)..<unat (mr_end r)}"
      moreover have "unat (mr_end r) < 2 ^ 64" using unsigned_less [of "mr_end r"] by simp
      ultimately have "unat (of_nat n :: u64) = n" by (simp add: unsigned_of_nat take_bit_nat_eq_self)
      with n show "n \<in> unat ` range_bytes r"
        by (intro image_eqI [of _ _ "of_nat n"]) (auto simp: range_bytes_def word_le_nat_alt word_less_nat_alt)
    qed (auto simp: range_bytes_def word_le_nat_alt word_less_nat_alt)
  qed
  then have "card (range_bytes r) = unat (mr_end r) - unat (mr_start r)" by (auto dest: bij_betw_same_card)
  also have "\<dots> = unat (mr_end r - mr_start r)" using wf by (simp add: range_wf_def unat_sub)
  finally show ?thesis .
qed

lemma card_cover:
  "unused_ok rs \<Longrightarrow> of_nat (card (cover rs)) = (\<Sum>r \<leftarrow> rs. mr_end r - mr_start r)"
proof (induction rs)
  case (Cons r rs)
  have ok: "unused_ok rs" "range_wf r" and dis: "\<forall>y \<in> set rs. mr_end r \<le> mr_start y"
    using Cons.prems by (auto simp: unused_ok_def ranges_ok_def ranges_disjoint_simps)
  have "range_bytes r \<inter> cover rs = {}" using dis by (fastforce simp: range_bytes_def cover_def)
  then have "card (cover (r # rs)) = unat (mr_end r - mr_start r) + card (cover rs)"
    using card_range_bytes [OF ok(2)] by (simp add: card_Un_disjoint)
  with Cons.IH [OF ok(1)] show ?case by simp
qed simp

lemma blank_sum_card: "unused_ok rs \<Longrightarrow> blank_sum rs = of_nat (card (cover rs))"
proof -
  have "foldl (\<lambda>sum r. sum + (mr_end r - mr_start r)) a rs = a + (\<Sum>r \<leftarrow> rs. mr_end r - mr_start r)" for a
    by (induction rs arbitrary: a) simp_all
  then show "unused_ok rs \<Longrightarrow> blank_sum rs = of_nat (card (cover rs))" by (simp add: blank_sum_def card_cover)
qed

subsection \<open>The table of fragmentations\<close>

definition mp_rates_ok :: "memory_profile \<Rightarrow> bool" where
  "mp_rates_ok s = (map_ok (<) (mp_fragmentation s) \<and> (\<forall>t. map_ok2 (<) (<) (map_touch (<) [] (mp_fragmentation s) t)))"

definition mp_rate_at :: "memory_profile \<Rightarrow> u32 \<Rightarrow> u64 \<Rightarrow> u64 \<Rightarrow> chunk_fragmentation option" where
  "mp_rate_at s t k mid = map_at2 (<) (<) (map_touch (<) [] (mp_fragmentation s) t) k mid"

lemma mp_rate_set:
  assumes "mp_rates_ok s" "mp_fragmentation s' = map_upd (<) [] (mp_fragmentation s) t (\<lambda>ks. map_set2 (<) (<) ks k mid c)"
  shows "mp_rates_ok s'" "mp_rate_at s' t2 k2 j = (if t2 = t \<and> k2 = k \<and> j = mid then Some c else mp_rate_at s t2 k2 j)"
proof -
  have touch: "map_touch (<) [] (mp_fragmentation s') a =
      (if a = t then map_set2 (<) (<) (map_touch (<) [] (mp_fragmentation s) t) k mid c else map_touch (<) [] (mp_fragmentation s) a)" for a
    using assms by (simp add: mp_rates_ok_def u32_order.map_at_upd map_touch_def [of _ _ "map_upd _ _ _ _ _"] map_touch_def [of _ _ _ a])
  show "mp_rates_ok s'"
    using assms(1) unfolding mp_rates_ok_def touch
    by (auto simp: assms(2) map_upd_def u32_order.map_ok_set op_object.map_ok2_set2)
  show "mp_rate_at s' t2 k2 j = (if t2 = t \<and> k2 = k \<and> j = mid then Some c else mp_rate_at s t2 k2 j)"
    using assms(1) op_object.map_at2_set2 [of "map_touch (<) [] (mp_fragmentation s) t" k mid c]
    by (auto simp: mp_rate_at_def touch mp_rates_ok_def)
qed

lemma mp_fragments_ok:
  assumes "mp_objects_ok s" "mp_rates_ok s" "map_ok (<) es" "\<forall>e \<in> set es. map_at (<) (mp_memories s) (fst e) \<noteq> None"
  shows "\<exists>L F. ffold (mp_fragment_object t k) es s = Inr (s\<lparr>mp_largest_chunk := L, mp_fragmentation := F\<rparr>)
    \<and> mp_objects_ok (s\<lparr>mp_largest_chunk := L, mp_fragmentation := F\<rparr>) \<and> mp_rates_ok (s\<lparr>mp_largest_chunk := L, mp_fragmentation := F\<rparr>)
    \<and> (\<forall>mid rs. (mid, rs) \<in> set es \<longrightarrow> (\<exists>c m. mp_rate_at (s\<lparr>mp_largest_chunk := L, mp_fragmentation := F\<rparr>) t k mid = Some c
          \<and> map_at (<) (mp_memories s) mid = Some m \<and> cf_access_rate c = float_ratio (mem_len m - blank_sum rs) (mem_len m)))
    \<and> (\<forall>mid. mid \<notin> fst ` set es \<longrightarrow> mp_rate_at (s\<lparr>mp_largest_chunk := L, mp_fragmentation := F\<rparr>) t k mid = mp_rate_at s t k mid)"
  using assms
proof (induction es arbitrary: s)
  case Nil
  then show ?case by (intro exI [of _ "mp_largest_chunk s"] exI [of _ "mp_fragmentation s"]) simp
next
  case (Cons e es)
  obtain mid rs where e: "e = (mid, rs)" by (cases e)
  obtain m where m: "map_at (<) (mp_memories s) mid = Some m" using Cons.prems(4) e by auto
  then obtain b where b: "map_at (<) (mp_largest_chunk s) mid = Some b" using Cons.prems(1) unfolding mp_objects_ok_def by blast
  obtain c l where c: "cf_access_rate c = float_ratio (mem_len m - blank_sum rs) (mem_len m)"
    and st: "mp_fragment_object t k e s = Inr (s\<lparr>mp_largest_chunk := map_set (<) (mp_largest_chunk s) mid l,
      mp_fragmentation := map_upd (<) [] (mp_fragmentation s) t (\<lambda>ks. map_set2 (<) (<) ks k mid c)\<rparr>)"
    using m b by (simp add: mp_fragment_object_def e Let_def del: not_None_eq) (metis chunk_fragmentation.select_convs(3))
  let ?s = "s\<lparr>mp_largest_chunk := map_set (<) (mp_largest_chunk s) mid l,
      mp_fragmentation := map_upd (<) [] (mp_fragmentation s) t (\<lambda>ks. map_set2 (<) (<) ks k mid c)\<rparr>"
  have o: "mp_objects_ok ?s"
    using Cons.prems(1) by (auto simp: mp_objects_ok_def u64_order.map_ok_set u64_order.map_at_set)
  note rate = mp_rate_set [OF Cons.prems(2), of ?s t k mid c, simplified]
  have es: "map_ok (<) es" "mid \<notin> fst ` set es" using Cons.prems(3) e by (auto simp: map_ok_Cons)
  obtain L F where ih: "ffold (mp_fragment_object t k) es ?s = Inr (?s\<lparr>mp_largest_chunk := L, mp_fragmentation := F\<rparr>)"
     "mp_objects_ok (?s\<lparr>mp_largest_chunk := L, mp_fragmentation := F\<rparr>)" "mp_rates_ok (?s\<lparr>mp_largest_chunk := L, mp_fragmentation := F\<rparr>)"
     "\<forall>j rs. (j, rs) \<in> set es \<longrightarrow> (\<exists>c m. mp_rate_at (?s\<lparr>mp_largest_chunk := L, mp_fragmentation := F\<rparr>) t k j = Some c
          \<and> map_at (<) (mp_memories s) j = Some m \<and> cf_access_rate c = float_ratio (mem_len m - blank_sum rs) (mem_len m))"
     "\<forall>j. j \<notin> fst ` set es \<longrightarrow> mp_rate_at (?s\<lparr>mp_largest_chunk := L, mp_fragmentation := F\<rparr>) t k j = mp_rate_at ?s t k j"
    using Cons.IH [OF o rate(1) es(1)] Cons.prems(4) by auto
  have same: "?s\<lparr>mp_largest_chunk := L, mp_fragmentation := F\<rparr> = s\<lparr>mp_largest_chunk := L, mp_fragmentation := F\<rparr>" by simp
  note ih' = ih [unfolded same]
  have now: "mp_rate_at (s\<lparr>mp_largest_chunk := L, mp_fragmentation := F\<rparr>) t k mid = Some c"
    using ih'(5) es(2) rate(2) by auto
  have "ffold (mp_fragment_object t k) (e # es) s = Inr (s\<lparr>mp_largest_chunk := L, mp_fragmentation := F\<rparr>)"
    using st ih'(1) by simp
  moreover have "\<forall>j rs'. (j, rs') \<in> set (e # es) \<longrightarrow> (\<exists>c m. mp_rate_at (s\<lparr>mp_largest_chunk := L, mp_fragmentation := F\<rparr>) t k j = Some c
          \<and> map_at (<) (mp_memories s) j = Some m \<and> cf_access_rate c = float_ratio (mem_len m - blank_sum rs') (mem_len m))"
    using ih'(4) now c m e by auto
  moreover have "\<forall>j. j \<notin> fst ` set (e # es) \<longrightarrow> mp_rate_at (s\<lparr>mp_largest_chunk := L, mp_fragmentation := F\<rparr>) t k j = mp_rate_at s t k j"
    using ih'(5) rate(2) e by auto
  ultimately show ?case using ih'(2,3) by blast
qed

subsection \<open>Every callback keeps the invariant\<close>

definition mp_well_formed :: "memory_profile \<Rightarrow> bool" where
  "mp_well_formed s = (mp_ok s \<and> mp_rates_ok s)"

text \<open>
  What a kernel needs to be recorded: its trace is the current one, its operation has not been seen before, and it accessed known
  objects only.
\<close>

definition mp_kernel_ready :: "kernel \<Rightarrow> mp_trace \<Rightarrow> memory_profile \<Rightarrow> bool" where
  "mp_kernel_ready op tr s =
     (mp_current s = Some tr \<and> mt_op_id tr = op_id op \<and> map_at (<) (mp_blank_chunks s) (op_id op) = None
      \<and> (\<forall>e \<in> set (mt_access tr). map_at (<) (mp_memories s) (fst e) \<noteq> None \<and> fst e > REDSHOW_MEMORY_HOST))"

lemma mp_unused_cong:
  "mp_accessed s = mp_accessed s' \<Longrightarrow> blank_at (mp_blank_chunks s) = blank_at (mp_blank_chunks s') \<Longrightarrow>
   mp_memories s = mp_memories s' \<Longrightarrow> mp_unused s = mp_unused s'"
  by (simp add: mp_unused_def fun_eq_iff cong: option.case_cong)

lemma mp_put_current_parts [simp]:
  "mp_blank_chunks (mp_put_current tr s) = mp_blank_chunks s" "mp_accessed (mp_put_current tr s) = mp_accessed s"
  "mp_memories (mp_put_current tr s) = mp_memories s" "mp_fragmentation (mp_put_current tr s) = mp_fragmentation s"
  "mp_largest_chunk (mp_put_current tr s) = mp_largest_chunk s" "mp_op_node (mp_put_current tr s) = mp_op_node s"
  by (simp_all add: mp_put_current_def split: option.splits prod.splits)

lemma mp_op_node_ok:
  assumes "mp_well_formed s"
  shows "mp_well_formed (mp_update_op_node k c s)" "mp_unused (mp_update_op_node k c s) = mp_unused s"
    "mp_current (mp_update_op_node k c s) = mp_current s" "mp_blank_chunks (mp_update_op_node k c s) = mp_blank_chunks s"
    "mp_memories (mp_update_op_node k c s) = mp_memories s"
  using assms
  by (auto simp: mp_update_op_node_def mp_well_formed_def mp_ok_def mp_objects_ok_def mp_blanks_ok_def mp_traces_ok_def mp_rates_ok_def
      mp_unused_def fun_eq_iff mp_current_def u64_order.map_ok_set u64_order.map_at_set cong: option.case_cong prod.case_cong)

lemma mp_blank_fresh:
  assumes "mp_blanks_ok s" "map_at (<) (mp_blank_chunks s) k = None"
  defines "s' \<equiv> s\<lparr>mp_blank_chunks := map_emplace (<) (mp_blank_chunks s) k []\<rparr>"
  shows "mp_blanks_ok s'" "mp_unused s' = mp_unused s" "map_at (<) (mp_blank_chunks s') k = Some []"
    "blank_at (mp_blank_chunks s') = blank_at (mp_blank_chunks s)"
proof -
  have ok: "map_ok (<) (mp_blank_chunks s)" using assms(1) by (auto simp: mp_blanks_ok_def map_ok2_def)
  have at: "map_at (<) (mp_blank_chunks s') x = (if x = k then Some [] else map_at (<) (mp_blank_chunks s) x)" for x
    using assms(2) ok by (simp add: s'_def map_emplace_def map_has_at u64_order.map_at_set)
  then show "map_at (<) (mp_blank_chunks s') k = Some []" by simp
  have touch: "map_touch (<) [] (mp_blank_chunks s') x = map_touch (<) [] (mp_blank_chunks s) x" for x
    using at assms(2) by (simp add: map_touch_def)
  then show bl: "blank_at (mp_blank_chunks s') = blank_at (mp_blank_chunks s)" by (simp add: map_at2_def fun_eq_iff)
  have "map_ok2 (<) (<) (mp_blank_chunks s')"
    using assms(1,2) touch ok u64_order.map_ok_set
    by (auto simp: mp_blanks_ok_def map_ok2_def) (auto simp: s'_def map_emplace_def)
  with assms(1) bl show "mp_blanks_ok s'" by (simp add: mp_blanks_ok_def) (auto simp: s'_def)
  show "mp_unused s' = mp_unused s" using bl by (intro mp_unused_cong) (simp_all add: s'_def)
qed

text \<open>The access rates that the end of a kernel records.\<close>

lemma mp_update_fragmentation_ok:
  assumes "mp_objects_ok s" "mp_blanks_ok s" "mp_rates_ok s" "map_at (<) (mp_blank_chunks s) k \<noteq> None"
  shows "\<exists>L F. mp_update_fragmentation t k s = Inr (s\<lparr>mp_largest_chunk := L, mp_fragmentation := F\<rparr>)
    \<and> mp_objects_ok (s\<lparr>mp_largest_chunk := L, mp_fragmentation := F\<rparr>) \<and> mp_rates_ok (s\<lparr>mp_largest_chunk := L, mp_fragmentation := F\<rparr>)
    \<and> (\<forall>mid. map_at (<) (mp_accessed s) mid = Some k \<longrightarrow>
          (\<exists>c m. mp_rate_at (s\<lparr>mp_largest_chunk := L, mp_fragmentation := F\<rparr>) t k mid = Some c \<and> map_at (<) (mp_memories s) mid = Some m
             \<and> cf_access_rate c = float_ratio (mem_len m - of_nat (card (mp_unused s mid))) (mem_len m)))"
proof -
  let ?B = "mp_blank_chunks s"
  obtain mm where mm: "map_at (<) ?B k = Some mm" using assms(4) by auto
  have mmok: "map_ok (<) mm" using assms(2) mm by (auto simp: mp_blanks_ok_def map_ok2_def map_touch_def split: option.splits)
  have mem: "(j, rs) \<in> set mm \<longleftrightarrow> blank_at ?B k j = Some rs" for j rs
    using u64_order.map_at_iff_mem [OF mmok, of j rs] mm by (simp add: map_at2_def map_touch_def)
  have un: "unused_ok rs \<and> map_at (<) (mp_memories s) j \<noteq> None" if "(j, rs) \<in> set mm" for j rs
    using assms(2) that mem unfolding mp_blanks_ok_def by simp
  from mp_fragments_ok [OF assms(1,3) mmok, of t k] un obtain L F where
    fr: "ffold (mp_fragment_object t k) mm s = Inr (s\<lparr>mp_largest_chunk := L, mp_fragmentation := F\<rparr>)"
     "mp_objects_ok (s\<lparr>mp_largest_chunk := L, mp_fragmentation := F\<rparr>)" "mp_rates_ok (s\<lparr>mp_largest_chunk := L, mp_fragmentation := F\<rparr>)"
     "\<forall>mid rs. (mid, rs) \<in> set mm \<longrightarrow> (\<exists>c m. mp_rate_at (s\<lparr>mp_largest_chunk := L, mp_fragmentation := F\<rparr>) t k mid = Some c
          \<and> map_at (<) (mp_memories s) mid = Some m \<and> cf_access_rate c = float_ratio (mem_len m - blank_sum rs) (mem_len m))"
    by fastforce
  have "\<exists>c m. mp_rate_at (s\<lparr>mp_largest_chunk := L, mp_fragmentation := F\<rparr>) t k mid = Some c \<and> map_at (<) (mp_memories s) mid = Some m
      \<and> cf_access_rate c = float_ratio (mem_len m - of_nat (card (mp_unused s mid))) (mem_len m)"
    if A: "map_at (<) (mp_accessed s) mid = Some k" for mid
  proof -
    obtain rs where rs: "blank_at ?B k mid = Some rs" using assms(2) A unfolding mp_blanks_ok_def by blast
    then have "blank_sum rs = of_nat (card (mp_unused s mid))"
      using un [of mid rs] mem A by (simp add: blank_sum_card) (simp add: mp_unused_def)
    with fr(4) rs mem show ?thesis by metis
  qed
  with fr mm show ?thesis by (auto simp: mp_update_fragmentation_def)
qed

text \<open>The whole callback of a kernel.\<close>

lemma mp_kernel_op_ok:
  assumes "mp_well_formed s" "mp_kernel_ready op tr s"
  shows "\<exists>s'. mp_kernel_op_callback op s = Inr s' \<and> mp_well_formed s' \<and> mp_current s' = None
    \<and> (\<forall>mid. mp_unused s' mid = mp_unused s mid - cover (map_touch (<) [] (mt_access tr) mid))
    \<and> (\<forall>e \<in> set (mt_access tr). \<exists>c m. mp_rate_at s' (mt_cpu_thread tr) (op_id op) (fst e) = Some c
          \<and> map_at (<) (mp_memories s) (fst e) = Some m
          \<and> cf_access_rate c = float_ratio (mem_len m - of_nat (card (mp_unused s' (fst e)))) (mem_len m))"
proof -
  let ?k = "op_id op" and ?acc = "mt_access tr"
  let ?s0 = "mp_update_op_node ?k (ctx_id op) s"
  let ?s1 = "?s0\<lparr>mp_blank_chunks := map_emplace (<) (mp_blank_chunks ?s0) ?k []\<rparr>"
  note node = mp_op_node_ok [OF assms(1), of ?k "ctx_id op"]
  have ready: "mp_current s = Some tr" "mt_op_id tr = ?k" "map_at (<) (mp_blank_chunks ?s0) ?k = None"
    "\<forall>e \<in> set ?acc. map_at (<) (mp_memories s) (fst e) \<noteq> None \<and> fst e > REDSHOW_MEMORY_HOST"
    using assms(2) node by (auto simp: mp_kernel_ready_def)
  have ok: "mp_objects_ok ?s0" "mp_blanks_ok ?s0" "mp_traces_ok ?s0" "mp_rates_ok ?s0"
    using node(1) by (auto simp: mp_well_formed_def mp_ok_def)
  note fresh = mp_blank_fresh [OF ok(2) ready(3)]
  have acc: "mp_access_ok ?acc" using ok(3) ready(1) node(3)
    by (auto simp: mp_traces_ok_def mp_current_def split: option.splits)
  have "blank_at (mp_blank_chunks ?s0) ?k mid = None" for mid using ready(3) by (simp add: map_at2_def map_touch_def)
  then have pre: "\<forall>mid \<in> fst ` set ?acc. map_at (<) (mp_memories ?s1) mid \<noteq> None \<and> mid > REDSHOW_MEMORY_HOST
      \<and> blank_at (mp_blank_chunks ?s1) (mt_op_id tr) mid = None"
    using ready(2,4) node(5) fresh(4) by auto
  have o1: "mp_objects_ok ?s1" using ok(1) by (simp add: mp_objects_ok_def)
  have b1: "map_at (<) (mp_blank_chunks ?s1) (mt_op_id tr) \<noteq> None" using fresh(3) ready(2) by simp
  obtain B A where st: "ffold (mp_kernel_object op tr) ?acc ?s1 = Inr (?s1\<lparr>mp_blank_chunks := B, mp_accessed := A\<rparr>)"
      "mp_blanks_ok (?s1\<lparr>mp_blank_chunks := B, mp_accessed := A\<rparr>)" "map_at (<) B ?k \<noteq> None"
      "\<forall>mid. mp_unused (?s1\<lparr>mp_blank_chunks := B, mp_accessed := A\<rparr>) mid = mp_unused ?s1 mid - cover (map_touch (<) [] ?acc mid)"
      "\<forall>mid \<in> fst ` set ?acc. map_at (<) A mid = Some ?k"
    using mp_kernel_objects_ok [OF ready(2) [symmetric] o1 fresh(1) acc pre b1] ready(2) by auto
  let ?s2 = "?s1\<lparr>mp_blank_chunks := B, mp_accessed := A\<rparr>"
  have o2: "mp_objects_ok ?s2" "mp_rates_ok ?s2" using ok(1,4) by (simp_all add: mp_objects_ok_def mp_rates_ok_def)
  have b2: "map_at (<) (mp_blank_chunks ?s2) ?k \<noteq> None" using st(3) by simp
  obtain L F where
    fr: "mp_update_fragmentation (mt_cpu_thread tr) ?k ?s2 = Inr (?s2\<lparr>mp_largest_chunk := L, mp_fragmentation := F\<rparr>)"
     "mp_objects_ok (?s2\<lparr>mp_largest_chunk := L, mp_fragmentation := F\<rparr>)" "mp_rates_ok (?s2\<lparr>mp_largest_chunk := L, mp_fragmentation := F\<rparr>)"
     "\<forall>mid. map_at (<) A mid = Some ?k \<longrightarrow>
          (\<exists>c m. mp_rate_at (?s2\<lparr>mp_largest_chunk := L, mp_fragmentation := F\<rparr>) (mt_cpu_thread tr) ?k mid = Some c
             \<and> map_at (<) (mp_memories s) mid = Some m
             \<and> cf_access_rate c = float_ratio (mem_len m - of_nat (card (mp_unused ?s2 mid))) (mem_len m))"
    using mp_update_fragmentation_ok [OF o2(1) st(2) o2(2) b2, of "mt_cpu_thread tr"] node(5) by auto
  let ?s3 = "?s2\<lparr>mp_largest_chunk := L, mp_fragmentation := F\<rparr>"
  let ?s' = "(mp_put_current (tr\<lparr>mt_access := []\<rparr>) ?s3)\<lparr>mp_trace_at := None\<rparr>"
  have run: "mp_kernel_op_callback op s = Inr ?s'"
    using node(3) ready(1,2) st(1) fr(1) by (simp add: mp_kernel_op_callback_def Let_def)
  have unused: "mp_unused ?s' = mp_unused ?s2" using node(5) by (intro mp_unused_cong) simp_all
  have tr: "mp_traces_ok ?s'"
    using ok(3) by (auto simp: mp_traces_ok_def mp_put_current_def thread_op.map_ok2_set2 thread_op.map_at2_set2 mp_access_ok_def
        split: option.splits prod.splits)
  have wf: "mp_well_formed ?s'"
    using fr(2,3) st(2) tr node(5)
    by (simp add: mp_well_formed_def mp_ok_def mp_objects_ok_def mp_blanks_ok_def mp_rates_ok_def)
  have "mp_rate_at ?s' = mp_rate_at ?s3" by (simp add: mp_rate_at_def fun_eq_iff)
  with st(5) fr(4) have rates: "\<forall>e \<in> set ?acc. \<exists>c m. mp_rate_at ?s' (mt_cpu_thread tr) ?k (fst e) = Some c \<and> map_at (<) (mp_memories s) (fst e) = Some m
      \<and> cf_access_rate c = float_ratio (mem_len m - of_nat (card (mp_unused ?s' (fst e)))) (mem_len m)"
    unfolding unused by simp
  have "mp_current ?s' = None" by (simp add: mp_current_def)
  moreover have "mp_unused ?s' mid = mp_unused s mid - cover (map_touch (<) [] ?acc mid)" for mid
    unfolding unused using st(4) fresh(2) node(2) by simp
  ultimately show ?thesis using run wf rates by blast
qed

lemmas mp_parts_defs = mp_well_formed_def mp_ok_def mp_objects_ok_def mp_blanks_ok_def mp_traces_ok_def mp_rates_ok_def

lemma mp_well_formed_start: "mp_well_formed MemoryProfile"
  using mp_ok_start by (simp add: mp_well_formed_def mp_rates_ok_def MemoryProfile_def map_touch_def op_object.map_ok2_Nil)

lemma mp_memory_op_ok:
  assumes "mp_well_formed s" "range_wf (mem_range op)"
  shows "mp_well_formed (mp_memory_op_callback op sub s)"
proof -
  let ?s1 = "mp_update_op_node (op_id op) (ctx_id op) s"
  have node: "map_at (<) (mp_op_node ?s1) (op_id op) \<noteq> None" if "op_id op > REDSHOW_MEMORY_HOST"
    using assms(1) that by (auto simp: mp_parts_defs mp_update_op_node_def u64_order.map_at_set)
  have w: "mp_well_formed ?s1" using mp_op_node_ok [OF assms(1)] by blast
  then show ?thesis
    using node assms(2)
    by (simp add: mp_memory_op_callback_def Let_def mp_parts_defs u64_order.map_ok_emplace u64_order.map_at_emplace) blast
qed

lemma mp_memfree_op_ok:
  assumes "mp_well_formed s" "mp_memfree_op_callback op sub s = Inr s'"
  shows "mp_well_formed s'"
proof -
  have "mp_well_formed (mp_update_op_node (op_id op) (ctx_id op) s)" using mp_op_node_ok [OF assms(1)] by blast
  with assms(2) show ?thesis
    by (auto simp: mp_memfree_op_callback_def Let_def mp_parts_defs fbind_eq_Inr split: if_splits)
qed

lemma mp_analysis_begin_ok:
  assumes "mp_well_formed s" "mp_analysis_begin thr k h c m ty s = Inr s'"
  shows "mp_well_formed s' \<and> mp_unused s' = mp_unused s \<and> mp_memories s' = mp_memories s \<and> mp_blank_chunks s' = mp_blank_chunks s
    \<and> (\<exists>tr. mp_current s' = Some tr \<and> (map_at2 (<) (<) (mp_kernel_trace s) thr h = None \<longrightarrow> mt_op_id tr = h \<and> mt_access tr = []))"
proof -
  obtain ks where ks: "s' = s\<lparr>mp_kernel_trace := ks, mp_trace_at := Some (thr, h)\<rparr>"
    "ks = (if map_at2 (<) (<) (mp_kernel_trace s) thr h = None
       then map_set2 (<) (<) (mp_kernel_trace s) thr h \<lparr>mt_ctx_id = k, mt_cubin_id = c, mt_mod_id = m, mt_op_id = h, mt_cpu_thread = 0, mt_access = []\<rparr>
       else mp_kernel_trace s)"
    using assms(2) by (auto simp: mp_analysis_begin_def Let_def split: if_splits)
  have "mp_traces_ok s'" using assms(1)
    by (auto simp: ks mp_parts_defs thread_op.map_ok2_set2 thread_op.map_at2_set2 mp_access_ok_def)
  then have "mp_well_formed s'" using assms(1) by (simp add: ks(1) mp_parts_defs)
  moreover have "mp_unused s' = mp_unused s" by (rule mp_unused_cong) (simp_all add: ks(1))
  ultimately show ?thesis using assms(1)
    by (auto simp: ks mp_current_def mp_parts_defs thread_op.map_at2_set2)
qed

text \<open>The ranges that a kernel has accessed in an object.\<close>

lemma mp_unit_access_ok:
  assumes "mp_well_formed s" "mp_current s = Some tr" "op_id m > REDSHOW_MEMORY_HOST \<Longrightarrow> range_wf (mem_range m)"
  shows "\<exists>a s'. mp_unit_access m s = Inr s' \<and> mp_current s' = Some (tr\<lparr>mt_access := a\<rparr>) \<and> mp_well_formed s'
    \<and> (\<forall>mid. cover (map_touch (<) [] a mid)
          = cover (map_touch (<) [] (mt_access tr) mid) \<union> (if op_id m = mid \<and> mid > REDSHOW_MEMORY_HOST then range_bytes (mem_range m) else {}))
    \<and> fst ` set a \<subseteq> fst ` set (mt_access tr) \<union> {mid. mid = op_id m \<and> mid > REDSHOW_MEMORY_HOST}
    \<and> mp_unused s' = mp_unused s \<and> mp_memories s' = mp_memories s \<and> mp_blank_chunks s' = mp_blank_chunks s"
proof (cases "op_id m > REDSHOW_MEMORY_HOST")
  case False
  then show ?thesis using assms(1,2)
    by (intro exI [of _ "mt_access tr"] exI [of _ s]) (auto simp: mp_unit_access_def not_less)
next
  case True
  let ?r = "mem_range m" and ?k = "op_id m" and ?acc = "mt_access tr"
  let ?f = "\<lambda>rs. if rs = [] then set_insert range_lt rs ?r else mp_merge_memory_range rs ?r"
  let ?a = "map_upd (<) [] ?acc ?k ?f"
  obtain t k where at: "mp_trace_at s = Some (t, k)" "map_at2 (<) (<) (mp_kernel_trace s) t k = Some tr"
    using assms(2) by (auto simp: mp_current_def split: option.splits)
  then have acc: "mp_access_ok ?acc" using assms(1) unfolding mp_parts_defs by blast
  have touched: "ranges_ok (map_touch (<) [] ?acc ?k)"
    using acc u64_order.map_at_iff_mem [of ?acc ?k]
    by (cases "map_at (<) ?acc ?k") (force simp: mp_access_ok_def map_touch_def range_simps)+
  have f: "ranges_ok (?f rs) \<and> cover (?f rs) = cover rs \<union> range_bytes ?r" if "ranges_ok rs" for rs
    using merge_memory_range_sound [OF that assms(3) [OF True]] assms(3) [OF True] by (auto simp: mp_merge_memory_range_def range_simps)
  let ?s = "mp_put_current (tr\<lparr>mt_access := ?a\<rparr>) s"
  have run: "mp_unit_access m s = Inr ?s" using True assms(2) by (simp add: mp_unit_access_def not_le del: set_insert.simps)
  have aok: "mp_access_ok ?a" unfolding mp_access_ok_def map_upd_def
    using acc f [OF touched] by (auto simp: mp_access_ok_def u64_order.map_ok_set dest!: map_set_mem simp del: set_insert.simps)
  have tok: "map_ok2 (<) (<) (mp_kernel_trace s)" using assms(1) by (simp add: mp_parts_defs)
  have wf: "mp_well_formed ?s"
    using assms(1) aok by (auto simp: mp_parts_defs mp_put_current_def at(1) thread_op.map_ok2_set2 thread_op.map_at2_set2)
  have cur: "mp_current ?s = Some (tr\<lparr>mt_access := ?a\<rparr>)"
    by (simp add: mp_put_current_def mp_current_def at(1) thread_op.map_at2_set2 [OF tok])
  have cov: "cover (map_touch (<) [] ?a mid) = cover (map_touch (<) [] ?acc mid) \<union> (if ?k = mid \<and> mid > REDSHOW_MEMORY_HOST then range_bytes ?r else {})" for mid
  proof -
    have "map_touch (<) [] ?a mid = (if mid = ?k then ?f (map_touch (<) [] ?acc ?k) else map_touch (<) [] ?acc mid)"
      using acc by (intro op_object.map_touch_upd) (simp add: mp_access_ok_def)
    with f [OF touched] True show ?thesis by (simp del: set_insert.simps)
  qed
  have keys: "fst ` set ?a \<subseteq> fst ` set ?acc \<union> {mid. mid = ?k \<and> mid > REDSHOW_MEMORY_HOST}"
    unfolding map_upd_def by (rule subset_trans [OF map_set_key_set]) (use True in auto)
  have un: "mp_unused ?s = mp_unused s" by (rule mp_unused_cong) simp_all
  show ?thesis using run cur wf cov keys un by (intro exI [of _ ?a] exI [of _ ?s] conjI allI) simp_all
qed

text \<open>The bytes of an object that a sequence of accesses touches.\<close>

definition accessed_bytes :: "memory list \<Rightarrow> u64 \<Rightarrow> u64 set" where
  "accessed_bytes ms mid = (\<Union>m \<in> {m \<in> set ms. op_id m = mid \<and> mid > REDSHOW_MEMORY_HOST}. range_bytes (mem_range m))"

lemma accessed_bytes_simps [simp]:
  "accessed_bytes [] mid = {}"
  "accessed_bytes (m # ms) mid = (if op_id m = mid \<and> mid > REDSHOW_MEMORY_HOST then range_bytes (mem_range m) else {}) \<union> accessed_bytes ms mid"
  by (auto simp: accessed_bytes_def)

lemma mp_unit_accesses_ok:
  assumes "mp_well_formed s" "mp_current s = Some tr" "\<forall>m \<in> set ms. op_id m > REDSHOW_MEMORY_HOST \<longrightarrow> range_wf (mem_range m)"
  shows "\<exists>a s'. ffold mp_unit_access ms s = Inr s' \<and> mp_current s' = Some (tr\<lparr>mt_access := a\<rparr>) \<and> mp_well_formed s'
    \<and> (\<forall>mid. cover (map_touch (<) [] a mid) = cover (map_touch (<) [] (mt_access tr) mid) \<union> accessed_bytes ms mid)
    \<and> fst ` set a \<subseteq> fst ` set (mt_access tr) \<union> {k \<in> op_id ` set ms. k > REDSHOW_MEMORY_HOST}
    \<and> mp_unused s' = mp_unused s \<and> mp_memories s' = mp_memories s \<and> mp_blank_chunks s' = mp_blank_chunks s"
  using assms
proof (induction ms arbitrary: s tr)
  case Nil
  then show ?case by (intro exI [of _ "mt_access tr"] exI [of _ s]) simp
next
  case (Cons m ms)
  have "op_id m > REDSHOW_MEMORY_HOST \<Longrightarrow> range_wf (mem_range m)" using Cons.prems(3) by simp
  from mp_unit_access_ok [OF Cons.prems(1,2) this] obtain a s1 where
    s1: "mp_unit_access m s = Inr s1" "mp_current s1 = Some (tr\<lparr>mt_access := a\<rparr>)" "mp_well_formed s1"
      "\<forall>mid. cover (map_touch (<) [] a mid)
          = cover (map_touch (<) [] (mt_access tr) mid) \<union> (if op_id m = mid \<and> mid > REDSHOW_MEMORY_HOST then range_bytes (mem_range m) else {})"
      "fst ` set a \<subseteq> fst ` set (mt_access tr) \<union> {mid. mid = op_id m \<and> mid > REDSHOW_MEMORY_HOST}"
      "mp_unused s1 = mp_unused s" "mp_memories s1 = mp_memories s" "mp_blank_chunks s1 = mp_blank_chunks s"
    by blast
  from Cons.IH [OF s1(3,2)] Cons.prems(3) obtain b s' where
    s': "ffold mp_unit_access ms s1 = Inr s'" "mp_current s' = Some (tr\<lparr>mt_access := a, mt_access := b\<rparr>)" "mp_well_formed s'"
      "\<forall>mid. cover (map_touch (<) [] b mid) = cover (map_touch (<) [] a mid) \<union> accessed_bytes ms mid"
      "fst ` set b \<subseteq> fst ` set a \<union> {k \<in> op_id ` set ms. k > REDSHOW_MEMORY_HOST}"
      "mp_unused s' = mp_unused s1" "mp_memories s' = mp_memories s1" "mp_blank_chunks s' = mp_blank_chunks s1"
    by auto
  show ?case
  proof (intro exI [of _ b] exI [of _ s'] conjI allI)
    show "ffold mp_unit_access (m # ms) s = Inr s'" using s1(1) s'(1) by simp
    show "cover (map_touch (<) [] b mid) = cover (map_touch (<) [] (mt_access tr) mid) \<union> accessed_bytes (m # ms) mid" for mid
      using s1(4) s'(4) by auto
    show "fst ` set b \<subseteq> fst ` set (mt_access tr) \<union> {k \<in> op_id ` set (m # ms). k > REDSHOW_MEMORY_HOST}"
      using s1(5) s'(5) unfolding list.set image_insert by blast
  qed (use s1 s' in simp_all)
qed

text \<open>
  C7. The memory profile refines the set of bytes that no kernel has touched. Begin a kernel that has not been seen, feed it any
  accesses whose objects are known, and end it: every step returns, the state stays well formed, no trace is current,
  and of every object exactly the bytes that the kernel accessed stop being unused. Accesses to the pseudo objects (constant,
  shared, local memory and the host) change nothing.
\<close>

theorem memory_profile_kernel:
  assumes "mp_well_formed s" "ty = GPU_PATCH_TYPE_ADDRESS_PATCH \<or> ty = GPU_PATCH_TYPE_ADDRESS_ANALYSIS"
    and "map_at2 (<) (<) (mp_kernel_trace s) thr (op_id op) = None" "map_at (<) (mp_blank_chunks s) (op_id op) = None"
    and "\<forall>m \<in> set ms. op_id m > REDSHOW_MEMORY_HOST \<longrightarrow> range_wf (mem_range m) \<and> map_at (<) (mp_memories s) (op_id m) \<noteq> None"
  shows "\<exists>s'. fbind (mp_analysis_begin thr k (op_id op) c md ty s) (\<lambda>s1.
           fbind (ffold mp_unit_access ms s1) (mp_kernel_op_callback op)) = Inr s'
    \<and> mp_well_formed s' \<and> mp_current s' = None \<and> (\<forall>mid. mp_unused s' mid = mp_unused s mid - accessed_bytes ms mid)"
proof -
  obtain s1 where b: "mp_analysis_begin thr k (op_id op) c md ty s = Inr s1"
    using assms(2) by (auto simp: mp_analysis_begin_def Let_def)
  from mp_analysis_begin_ok [OF assms(1) b] assms(3) obtain tr where
    s1: "mp_well_formed s1" "mp_current s1 = Some tr" "mt_op_id tr = op_id op" "mt_access tr = []"
      "mp_unused s1 = mp_unused s" "mp_memories s1 = mp_memories s" "mp_blank_chunks s1 = mp_blank_chunks s" by blast
  from mp_unit_accesses_ok [OF s1(1,2), of ms] assms(5) obtain a s2 where
    s2: "ffold mp_unit_access ms s1 = Inr s2" "mp_current s2 = Some (tr\<lparr>mt_access := a\<rparr>)" "mp_well_formed s2"
      "\<forall>mid. cover (map_touch (<) [] a mid) = accessed_bytes ms mid" "fst ` set a \<subseteq> {k \<in> op_id ` set ms. k > REDSHOW_MEMORY_HOST}"
      "mp_unused s2 = mp_unused s" "mp_memories s2 = mp_memories s" "mp_blank_chunks s2 = mp_blank_chunks s"
    using s1 by (auto simp: map_touch_def)
  have "mp_kernel_ready op (tr\<lparr>mt_access := a\<rparr>) s2"
    using s2(2,5,7,8) s1(3) assms(4,5) by (auto simp: mp_kernel_ready_def image_subset_iff subset_iff)
  from mp_kernel_op_ok [OF s2(3) this] obtain s' where
    "mp_kernel_op_callback op s2 = Inr s'" "mp_well_formed s'" "mp_current s' = None"
    "\<forall>mid. mp_unused s' mid = mp_unused s2 mid - cover (map_touch (<) [] a mid)" by auto
  with b s2(1,4,6) show ?thesis by auto
qed

text \<open>One object of 256 bytes, and a kernel that reads four of them.\<close>

definition example_object :: memory where
  "example_object = \<lparr>op_id = 7, ctx_id = 1, op_type = OPERATION_TYPE_MEMORY, mem_stream_id = 0, mem_range = MemoryRange 0x100 0x200,
     mem_len = 0x100, mem_value = 0, mem_value_cache = 0\<rparr>"

definition example_kernel :: kernel where
  "example_kernel = \<lparr>op_id = 9, ctx_id = 2, op_type = OPERATION_TYPE_KERNEL, k_cpu_thread = 0, k_stream_id = 0, k_cubin_id = 0,
     k_mod_id = 0, k_func_index = 0, k_func_addr = 0\<rparr>"

definition example_profile :: memory_profile where
  "example_profile = mp_memory_op_callback example_object False MemoryProfile"

lemma example_profile_parts:
  "mp_kernel_trace example_profile = []" "mp_trace_at example_profile = None" "mp_blank_chunks example_profile = []"
  "mp_accessed example_profile = []" "mp_memories example_profile = [(7, example_object)]"
  by (simp_all add: example_profile_def mp_memory_op_callback_def mp_update_op_node_def MemoryProfile_def example_object_def Let_def
      map_emplace_def map_has_def REDSHOW_MEMORY_HOST_def)

lemma example_profile_ok: "mp_well_formed example_profile"
  unfolding example_profile_def
  by (rule mp_memory_op_ok) (simp_all add: mp_well_formed_start example_object_def range_wf_def)

theorem memory_profile_kernel_witness:
  "\<exists>s'. fbind (mp_analysis_begin 0 2 9 0 0 GPU_PATCH_TYPE_ADDRESS_PATCH example_profile) (\<lambda>s1.
      fbind (ffold mp_unit_access [example_object\<lparr>mem_range := MemoryRange 0x120 0x124\<rparr>] s1) (mp_kernel_op_callback example_kernel)) = Inr s'
    \<and> mp_unused s' 7 = {a. 0x100 \<le> a \<and> a < 0x200} - {a. 0x120 \<le> a \<and> a < 0x124}"
  using memory_profile_kernel [OF example_profile_ok, where op = example_kernel and ty = GPU_PATCH_TYPE_ADDRESS_PATCH and thr = 0
      and ms = "[example_object\<lparr>mem_range := MemoryRange 0x120 0x124\<rparr>]" and k = 2 and c = 0 and md = 0]
  by (auto simp: example_profile_parts map_at2_def map_touch_def example_object_def example_kernel_def range_wf_def mp_unused_def range_bytes_def
      REDSHOW_MEMORY_HOST_def)

text \<open>
  C16. The access rate that the end of a kernel reports for an object it accessed is the number of bytes of the object that
  some kernel has touched so far, divided by its size, as 64-bit numbers turned into floats.
\<close>

theorem memory_profile_access_rate:
  assumes "mp_well_formed s" "mp_kernel_ready op tr s" "e \<in> set (mt_access tr)"
  shows "\<exists>s' c m. mp_kernel_op_callback op s = Inr s' \<and> mp_rate_at s' (mt_cpu_thread tr) (op_id op) (fst e) = Some c
    \<and> map_at (<) (mp_memories s) (fst e) = Some m
    \<and> cf_access_rate c = float_ratio (mem_len m - of_nat (card (mp_unused s' (fst e)))) (mem_len m)"
  using mp_kernel_op_ok [OF assms(1,2)] assms(3) by metis

text \<open>The state in which the example kernel ends.\<close>

definition example_trace :: mp_trace where
  "example_trace = \<lparr>mt_ctx_id = 2, mt_cubin_id = 0, mt_mod_id = 0, mt_op_id = 9, mt_cpu_thread = 0, mt_access = [(7, [MemoryRange 0x120 0x124])]\<rparr>"

definition example_running :: memory_profile where
  "example_running = example_profile\<lparr>mp_kernel_trace := [(0, [(9, example_trace)])], mp_trace_at := Some (0, 9)\<rparr>"

lemma example_running_ok: "mp_well_formed example_running"
proof -
  have "mp_traces_ok example_running"
    by (auto simp: mp_traces_ok_def example_running_def example_trace_def map_ok2_def map_touch_def map_at2_def mp_access_ok_def map_ok_def
        range_simps range_wf_def split: if_splits)
  with example_profile_ok show ?thesis by (simp add: mp_parts_defs example_running_def)
qed

theorem memory_profile_access_rate_witness:
  "\<exists>s' c. mp_kernel_op_callback example_kernel example_running = Inr s' \<and> mp_rate_at s' 0 9 7 = Some c
    \<and> cf_access_rate c = float_ratio (0x100 - of_nat (card (mp_unused s' 7))) 0x100"
  using memory_profile_access_rate [OF example_running_ok, where op = example_kernel and tr = example_trace and e = "(7, [MemoryRange 0x120 0x124])"]
  by (auto simp: mp_kernel_ready_def example_running_def example_profile_parts mp_current_def map_at2_def map_touch_def example_trace_def
      example_kernel_def example_object_def REDSHOW_MEMORY_HOST_def)

end
