(* ===== verification/Program.thy ===== *)
theory Program
  imports Analyses Memory_Profile
begin

section \<open>The analyses of the program\<close>

text \<open>
  The table of methods of the temporal redundancy, spatial redundancy, data flow and memory profile analyses, as the classes derived
  from \<^verbatim>\<open>Analysis\<close> override them; the table of the other analyses is a parameter. The theory shows
  that the program is a family of analyses in the sense of the theory \<open>Analyses\<close>, what the analysis of a trace of complete
  records comes to, and that it leaves the temporal redundancy with the counters of the history of the buffer.
\<close>

subsection \<open>The table of methods\<close>

text \<open>What the analyses write: host memory, calls of the record callback, report files and dot graphs.\<close>

record world =
  w_host :: host
  w_calls :: "record_call list"
  w_files :: "(string \<times> string) list"
  w_graphs :: "(string \<times> gv_graph) list"

datatype 'x analysis_state =
    TemporalState temporal
  | SpatialState spatial
  | DataFlowState data_flow "dtoh_func option"
  | MemoryProfileState memory_profile
  | OtherState 'x

fun temporal_call :: "temporal dispatch" where
  "temporal_call (AnalysisBegin thr k h s c m ty) st = temporal_analysis_begin thr k c m ty st"
| "temporal_call (UnitAccess a) st =
     temporal_unit_access (ua_thread a) (ua_kind a) (ua_pc a) (ua_value a) (ua_addr a) (ua_index a) (ua_flags a) st"
| "temporal_call (BlockExit t) st = temporal_block_exit t st"
| "temporal_call (AnalysisEnd thr k) st = Inr (temporal_analysis_end st)"

fun spatial_call :: "spatial dispatch" where
  "spatial_call (AnalysisBegin thr k h s c m ty) st = spatial_analysis_begin thr k c m ty st"
| "spatial_call (UnitAccess a) st =
     spatial_unit_access (ua_kind a) (ua_memory a) (ua_pc a) (ua_value a) (ua_flags a) st"
| "spatial_call (BlockExit t) st = Inr st"
| "spatial_call (AnalysisEnd thr k) st = Inr (spatial_analysis_end st)"

fun data_flow_call :: "data_flow dispatch" where
  "data_flow_call (AnalysisBegin thr k h s c m ty) st = df_analysis_begin thr k c m ty st"
| "data_flow_call (UnitAccess a) st = df_unit_access (ua_memory a) (ua_flags a) st"
| "data_flow_call (BlockExit t) st = Inr st"
| "data_flow_call (AnalysisEnd thr k) st = Inr st"

fun memory_profile_call :: "memory_profile dispatch" where
  "memory_profile_call (AnalysisBegin thr k h s c m ty) st = mp_analysis_begin thr k h c m ty st"
| "memory_profile_call (UnitAccess a) st = mp_unit_access (ua_memory a) st"
| "memory_profile_call (BlockExit t) st = Inr st"
| "memory_profile_call (AnalysisEnd thr k) st = Inr st"

text \<open>
  The methods on the states of the four classes. Redundancy and memory profile never read their configuration, so it is not part of their state; a state of another class is an error of the caller, which the type of the map excludes.
\<close>

definition redundancy_ops ::
  "('s dispatch) \<Rightarrow> (flush_env \<Rightarrow> u32 \<Rightarrow> string \<Rightarrow> 's \<Rightarrow> (record_call list \<times> (string \<times> string) list \<times> 's) outcome) \<Rightarrow>
   ('s \<Rightarrow> 'x analysis_state) \<Rightarrow> ('x analysis_state \<Rightarrow> 's option) \<Rightarrow> ('x analysis_state, world) analysis_ops" where
  "redundancy_ops call flush wrap unwrap =
     \<lparr>ao_op_callback = (\<lambda>op sub sw. Inr sw),
      ao_call = (\<lambda>c (s, w). fbind (or_fault AssertFail (unwrap s)) (\<lambda>x. fbind (call c x) (\<lambda>x'. Inr (wrap x', w)))),
      ao_config = (\<lambda>c e s. s),
      ao_dtoh_register = (\<lambda>fn s. s),
      ao_flush_thread = (\<lambda>env thr dir (s, w).
        fbind (or_fault AssertFail (unwrap s)) (\<lambda>x.
        fbind (flush env thr dir x) (\<lambda>(calls, files, x').
          Inr (wrap x', w\<lparr>w_calls := w_calls w @ calls, w_files := w_files w @ files\<rparr>)))),
      ao_flush = (\<lambda>env dir sw. Inr sw)\<rparr>"

fun as_temporal :: "'x analysis_state \<Rightarrow> temporal option" where
  "as_temporal (TemporalState s) = Some s"
| "as_temporal s = None"

fun as_spatial :: "'x analysis_state \<Rightarrow> spatial option" where
  "as_spatial (SpatialState s) = Some s"
| "as_spatial s = None"

fun as_data_flow :: "'x analysis_state \<Rightarrow> (data_flow \<times> dtoh_func option) option" where
  "as_data_flow (DataFlowState s fn) = Some (s, fn)"
| "as_data_flow s = None"

fun as_memory_profile :: "'x analysis_state \<Rightarrow> memory_profile option" where
  "as_memory_profile (MemoryProfileState s) = Some s"
| "as_memory_profile s = None"

fun as_other :: "'x analysis_state \<Rightarrow> 'x option" where
  "as_other (OtherState x) = Some x"
| "as_other s = None"

definition temporal_ops :: "('x analysis_state, world) analysis_ops" where
  "temporal_ops =
     redundancy_ops temporal_call
       (\<lambda>env. temporal_flush_thread (fe_callback env) (fe_pc_views env) (fe_mem_views env) (fe_cubins env))
       TemporalState as_temporal"

definition spatial_ops :: "('x analysis_state, world) analysis_ops" where
  "spatial_ops =
     redundancy_ops spatial_call
       (\<lambda>env. spatial_flush_thread (fe_callback env) (fe_pc_views env) (fe_mem_views env) (fe_cubins env))
       SpatialState as_spatial"

definition data_flow_ops :: "('x analysis_state, world) analysis_ops" where
  "data_flow_ops =
     \<lparr>ao_op_callback = (\<lambda>op sub (s, w).
        fbind (or_fault AssertFail (as_data_flow s)) (\<lambda>(x, fn).
        fbind (df_op_callback fn op (x, w_host w)) (\<lambda>(x', h). Inr (DataFlowState x' fn, w\<lparr>w_host := h\<rparr>)))),
      ao_call = (\<lambda>c (s, w).
        fbind (or_fault AssertFail (as_data_flow s)) (\<lambda>(x, fn).
        fbind (data_flow_call c x) (\<lambda>x'. Inr (DataFlowState x' fn, w)))),
      ao_config = (\<lambda>c e s. case as_data_flow s of None \<Rightarrow> s
        | Some (x, fn) \<Rightarrow> DataFlowState (x\<lparr>df_configs := (df_configs x)(c := e)\<rparr>) fn),
      ao_dtoh_register = (\<lambda>fn s. case as_data_flow s of None \<Rightarrow> s | Some (x, _) \<Rightarrow> DataFlowState x fn),
      ao_flush_thread = (\<lambda>env thr dir sw. Inr sw),
      ao_flush = (\<lambda>env dir (s, w).
        fbind (or_fault AssertFail (as_data_flow s)) (\<lambda>(x, fn).
        fbind (df_flush x) (\<lambda>g. Inr (s, w\<lparr>w_graphs := w_graphs w @ [(dir @ ''data_flow.dot'', g)]\<rparr>))))\<rparr>"

definition memory_profile_ops :: "('x analysis_state, world) analysis_ops" where
  "memory_profile_ops =
     \<lparr>ao_op_callback = (\<lambda>op sub (s, w).
        fbind (or_fault AssertFail (as_memory_profile s)) (\<lambda>x.
        fbind (mp_op_callback op sub x) (\<lambda>x'. Inr (MemoryProfileState x', w)))),
      ao_call = (\<lambda>c (s, w).
        fbind (or_fault AssertFail (as_memory_profile s)) (\<lambda>x.
        fbind (memory_profile_call c x) (\<lambda>x'. Inr (MemoryProfileState x', w)))),
      ao_config = (\<lambda>c e s. s),
      ao_dtoh_register = (\<lambda>fn s. s),
      ao_flush_thread = (\<lambda>env thr dir sw. Inr sw),
      ao_flush = (\<lambda>env dir (s, w).
        fbind (or_fault AssertFail (as_memory_profile s)) (\<lambda>x.
        fbind (mp_flush dir x) (\<lambda>(file, x'). Inr (MemoryProfileState x', w\<lparr>w_files := w_files w @ [file]\<rparr>))))\<rparr>"

definition on_other ::
  "('x \<times> world \<Rightarrow> ('x \<times> world) outcome) \<Rightarrow> 'x analysis_state \<times> world \<Rightarrow> ('x analysis_state \<times> world) outcome" where
  "on_other f sw =
     fbind (or_fault AssertFail (as_other (fst sw))) (\<lambda>x. fbind (f (x, snd sw)) (\<lambda>(x', w). Inr (OtherState x', w)))"

definition other_ops :: "('x, world) analysis_ops \<Rightarrow> ('x analysis_state, world) analysis_ops" where
  "other_ops o' =
     \<lparr>ao_op_callback = (\<lambda>op sub. on_other (ao_op_callback o' op sub)),
      ao_call = (\<lambda>c. on_other (ao_call o' c)),
      ao_config = (\<lambda>c e s. case as_other s of None \<Rightarrow> s | Some x \<Rightarrow> OtherState (ao_config o' c e x)),
      ao_dtoh_register = (\<lambda>fn s. case as_other s of None \<Rightarrow> s | Some x \<Rightarrow> OtherState (ao_dtoh_register o' fn x)),
      ao_flush_thread = (\<lambda>env thr dir. on_other (ao_flush_thread o' env thr dir)),
      ao_flush = (\<lambda>env dir. on_other (ao_flush o' env dir))\<rparr>"

definition program_ops ::
  "(redshow_analysis_type \<Rightarrow> ('x, world) analysis_ops) \<Rightarrow> redshow_analysis_type \<Rightarrow> ('x analysis_state, world) analysis_ops" where
  "program_ops others t =
     (if t = REDSHOW_ANALYSIS_TEMPORAL_REDUNDANCY then temporal_ops
      else if t = REDSHOW_ANALYSIS_SPATIAL_REDUNDANCY then spatial_ops
      else if t = REDSHOW_ANALYSIS_DATA_FLOW then data_flow_ops
      else if t = REDSHOW_ANALYSIS_MEMORY_PROFILE then memory_profile_ops
      else other_ops (others t))"

definition program_new :: "(redshow_analysis_type \<Rightarrow> 'x) \<Rightarrow> redshow_analysis_type \<Rightarrow> 'x analysis_state" where
  "program_new others t =
     (if t = REDSHOW_ANALYSIS_TEMPORAL_REDUNDANCY then TemporalState init_temporal
      else if t = REDSHOW_ANALYSIS_SPATIAL_REDUNDANCY then SpatialState init_spatial
      else if t = REDSHOW_ANALYSIS_DATA_FLOW then DataFlowState DataFlow None
      else if t = REDSHOW_ANALYSIS_MEMORY_PROFILE then MemoryProfileState MemoryProfile
      else OtherState (others t))"

subsection \<open>Tables of kernels\<close>

text \<open>Every kernel trace is found under its thread and kernel, the current one too.\<close>

definition table_ok :: "(u32, (i32, 'k) omap) omap \<Rightarrow> (u32 \<times> i32) option \<Rightarrow> bool" where
  "table_ok ks cur =
     (map_ok2 (<) (<) ks \<and> (case cur of None \<Rightarrow> True | Some (t, k) \<Rightarrow> map_at2 (<) (<) ks t k \<noteq> None))"

lemma table_ok_set2: "table_ok ks cur \<Longrightarrow> table_ok (map_set2 (<) (<) ks t k x) cur"
  by (auto simp: table_ok_def thread_kernel.map_ok2_set2 thread_kernel.map_at2_set2 split: option.splits)

lemma table_ok_begin:
  assumes "table_ok ks cur"
  shows "table_ok (map_set2 (<) (<) ks t k x) (Some (t, k))"
    "map_at2 (<) (<) ks t k = Some y \<Longrightarrow> table_ok ks (Some (t, k))"
  using assms by (auto simp: table_ok_def thread_kernel.map_ok2_set2 thread_kernel.map_at2_set2)

lemma table_ok_end: "table_ok ks cur \<Longrightarrow> table_ok ks None"
  by (simp add: table_ok_def)

text \<open>A flush replaces the kernels of one thread and forgets none.\<close>

definition kernels_kept :: "(i32, 'k) omap \<Rightarrow> (i32, 'k) omap \<Rightarrow> bool" where
  "kernels_kept m m' = (map_ok (<) m' \<and> (\<forall>k. map_at (<) m k \<noteq> None \<longrightarrow> map_at (<) m' k \<noteq> None))"

lemma kernels_kept_set: "kernels_kept m m' \<Longrightarrow> kernels_kept m (map_set (<) m' k x)"
  by (auto simp: kernels_kept_def int_order.map_ok_set int_order.map_at_set)

lemma table_ok_flush:
  assumes "table_ok ks cur" "map_at (<) ks thr = Some m" "kernels_kept m m'"
  shows "table_ok (map_set (<) ks thr m') cur"
proof -
  have mo: "map_ok (<) ks" "\<And>a. map_ok (<) (map_touch (<) [] ks a)" using assms(1) by (auto simp: table_ok_def map_ok2_def)
  have touch: "map_touch (<) [] (map_set (<) ks thr m') a = (if a = thr then m' else map_touch (<) [] ks a)" for a
    by (simp add: map_touch_def u32_order.map_at_set [OF mo(1)])
  have "map_touch (<) [] ks thr = m" using assms(2) by (simp add: map_touch_def)
  with assms mo touch show ?thesis
    by (auto simp: table_ok_def map_ok2_def map_at2_def kernels_kept_def u32_order.map_ok_set split: option.splits)
qed

definition temporal_wf :: "temporal \<Rightarrow> bool" where
  "temporal_wf s = table_ok (tp_kernels s) (tp_current s)"

definition spatial_wf :: "spatial \<Rightarrow> bool" where
  "spatial_wf s = table_ok (sp_kernels s) (sp_current s)"

lemma kernels_kept_refl: "map_ok (<) m \<Longrightarrow> kernels_kept m m"
  by (simp add: kernels_kept_def)

lemma table_ok_inner: "table_ok ks cur \<Longrightarrow> map_at (<) ks thr = Some m \<Longrightarrow> map_ok (<) m"
  by (auto simp: table_ok_def map_ok2_def map_touch_def split: option.splits)

lemma temporal_flush_wf:
  assumes "temporal_wf s" "temporal_flush_thread cb pl ml cubins thr dir s = Inr (calls, files, s')"
  shows "temporal_wf s'"
proof -
  obtain m fs m' where m: "map_at (<) (tp_kernels s) thr = Some m"
    "ffold (flush_kernel cb pl ml cubins thr) m (init_flush pl, m) = Inr (fs, m')"
    "s' = s\<lparr>tp_kernels := map_set (<) (tp_kernels s) thr m'\<rparr>"
    using assms(2) by (auto simp: temporal_flush_thread_def fbind_eq_Inr Let_def)
  have "kernels_kept m (snd b)" if "kernels_kept m (snd a)" "flush_kernel cb pl ml cubins thr kt a = Inr b" for kt a b
    using that kernels_kept_set by (fastforce simp: flush_kernel_def Let_def fbind_eq_Inr)
  then have "kernels_kept m (snd (fs, m'))"
    using table_ok_inner [of "tp_kernels s"] assms(1) m(1)
    by (intro ffold_keeps [where P = "\<lambda>a. kernels_kept m (snd a)", OF _ _ m(2)]) (auto simp: temporal_wf_def kernels_kept_refl)
  with table_ok_flush assms(1) m show ?thesis by (simp add: temporal_wf_def)
qed

lemma spatial_flush_wf:
  assumes "spatial_wf s" "spatial_flush_thread cb pl ml cubins thr dir s = Inr (calls, files, s')"
  shows "spatial_wf s'"
proof -
  obtain m fs m' where m: "map_at (<) (sp_kernels s) thr = Some m"
    "ffold (spatial_flush_kernel cb pl ml cubins thr) m (init_flush pl, m) = Inr (fs, m')"
    "s' = s\<lparr>sp_kernels := map_set (<) (sp_kernels s) thr m'\<rparr>"
    using assms(2) by (auto simp: spatial_flush_thread_def fbind_eq_Inr Let_def)
  have "kernels_kept m (snd b)" if "kernels_kept m (snd a)" "spatial_flush_kernel cb pl ml cubins thr kt a = Inr b" for kt a b
    using that kernels_kept_set by (fastforce simp: spatial_flush_kernel_def Let_def fbind_eq_Inr)
  then have "kernels_kept m (snd (fs, m'))"
    using table_ok_inner [of "sp_kernels s"] assms(1) m(1)
    by (intro ffold_keeps [where P = "\<lambda>a. kernels_kept m (snd a)", OF _ _ m(2)]) (auto simp: spatial_wf_def kernels_kept_refl)
  with table_ok_flush assms(1) m show ?thesis by (simp add: spatial_wf_def)
qed

subsection \<open>Fine-grained analyses\<close>

text \<open>
  The contract of the fine-grained methods: an analysis accepts some types of traces, refuses the others by an assertion,
  and between begin and end every access and block exit returns.
\<close>

locale fine_analysis =
  fixes call :: "'s dispatch" and accepts :: "gpu_patch_type \<Rightarrow> bool" and wf active :: "'s \<Rightarrow> bool"
  assumes wf_call: "wf s \<Longrightarrow> call c s = Inr s' \<Longrightarrow> wf s'"
    and begin_accepted: "wf s \<Longrightarrow> accepts ty \<Longrightarrow> \<exists>s'. call (AnalysisBegin thr k h sid cid mid ty) s = Inr s' \<and> active s'"
    and begin_refused: "\<not> accepts ty \<Longrightarrow> call (AnalysisBegin thr k h sid cid mid ty) s = Inl AssertFail"
    and record_returns: "wf s \<Longrightarrow> active s \<Longrightarrow> record_call_of rc \<Longrightarrow> \<exists>s'. call rc s = Inr s' \<and> active s'"
    and end_returns: "\<exists>s'. call (AnalysisEnd thr k) s = Inr s'"
begin

lemma calls_keep_active: "calls_keep (\<lambda>s. wf s \<and> active s) call"
  using record_returns wf_call unfolding calls_keep_def by blast

text \<open>A whole trace: the callbacks between begin and end, in any number and order.\<close>

lemma trace_returns:
  assumes "wf s" "accepts ty" "\<forall>rc \<in> set cs. record_call_of rc"
  shows "\<exists>s'. ffold call (AnalysisBegin thr k h sid cid mid ty # cs @ [AnalysisEnd thr k]) s = Inr s' \<and> wf s'"
proof -
  obtain s1 where s1: "call (AnalysisBegin thr k h sid cid mid ty) s = Inr s1" "wf s1 \<and> active s1"
    using begin_accepted assms(1,2) wf_call by blast
  have "\<exists>t. ffold call cs s1 = Inr t \<and> (wf t \<and> active t)"
    using calls_keep_active assms(3) s1(2) unfolding calls_keep_def by (intro ffold_total) blast+
  then obtain s2 where s2: "ffold call cs s1 = Inr s2" "wf s2" by blast
  obtain s3 where "call (AnalysisEnd thr k) s2 = Inr s3" using end_returns by blast
  with s1 s2 wf_call show ?thesis by (auto simp: ffold_append)
qed

end

interpretation temporal_fine: fine_analysis temporal_call "\<lambda>ty. ty = GPU_PATCH_TYPE_DEFAULT" temporal_wf
  "\<lambda>s. tp_current s \<noteq> None"
proof
  fix s s' :: temporal and c rc ty thr k h sid m cc
  have modify: "\<exists>s'. temporal_modify f s = Inr s' \<and> tp_current s' \<noteq> None"
    if "temporal_wf s" "tp_current s \<noteq> None" for f s
    using that by (auto simp: temporal_modify_def temporal_wf_def table_ok_def)
  have modify_wf: "temporal_wf s'" if "temporal_wf s" "temporal_modify f s = Inr s'" for f s'
    using that table_ok_set2 by (auto simp: temporal_modify_def temporal_wf_def fbind_eq_Inr split: option.splits)
  show "temporal_wf s \<Longrightarrow> temporal_call c s = Inr s' \<Longrightarrow> temporal_wf s'"
    using modify_wf table_ok_begin table_ok_end
    by (cases c) (auto simp: temporal_analysis_begin_def temporal_unit_access_def temporal_block_exit_def
        temporal_analysis_end_def temporal_wf_def Let_def simp del: if_split split: if_splits)
  show "temporal_wf s \<Longrightarrow> ty = GPU_PATCH_TYPE_DEFAULT \<Longrightarrow>
      \<exists>s'. temporal_call (AnalysisBegin thr k h sid cc m ty) s = Inr s' \<and> tp_current s' \<noteq> None"
    by (auto simp: temporal_analysis_begin_def Let_def)
  show "ty \<noteq> GPU_PATCH_TYPE_DEFAULT \<Longrightarrow> temporal_call (AnalysisBegin thr k h sid cc m ty) s = Inl AssertFail"
    by (simp add: temporal_analysis_begin_def)
  show "temporal_wf s \<Longrightarrow> tp_current s \<noteq> None \<Longrightarrow> record_call_of rc \<Longrightarrow>
      \<exists>s'. temporal_call rc s = Inr s' \<and> tp_current s' \<noteq> None"
    using modify [of s]
    by (cases rc) (simp_all add: record_call_of_def temporal_unit_access_def temporal_block_exit_def del: not_None_eq split_paired_Ex)
  show "\<exists>s'. temporal_call (AnalysisEnd thr k) s = Inr s'" by simp
qed

interpretation spatial_fine: fine_analysis spatial_call "\<lambda>ty. ty = GPU_PATCH_TYPE_DEFAULT" spatial_wf
  "\<lambda>s. sp_current s \<noteq> None"
proof
  fix s s' :: spatial and c rc ty thr k h sid m cc
  show "spatial_wf s \<Longrightarrow> spatial_call c s = Inr s' \<Longrightarrow> spatial_wf s'"
    using table_ok_set2 table_ok_begin table_ok_end
    by (cases c) (auto simp: spatial_analysis_begin_def spatial_unit_access_def spatial_analysis_end_def spatial_wf_def
        Let_def fbind_eq_Inr simp del: if_split split: if_splits option.splits)
  show "spatial_wf s \<Longrightarrow> ty = GPU_PATCH_TYPE_DEFAULT \<Longrightarrow>
      \<exists>s'. spatial_call (AnalysisBegin thr k h sid cc m ty) s = Inr s' \<and> sp_current s' \<noteq> None"
    by (auto simp: spatial_analysis_begin_def Let_def)
  show "ty \<noteq> GPU_PATCH_TYPE_DEFAULT \<Longrightarrow> spatial_call (AnalysisBegin thr k h sid cc m ty) s = Inl AssertFail"
    by (simp add: spatial_analysis_begin_def)
  show "spatial_wf s \<Longrightarrow> sp_current s \<noteq> None \<Longrightarrow> record_call_of rc \<Longrightarrow>
      \<exists>s'. spatial_call rc s = Inr s' \<and> sp_current s' \<noteq> None"
    by (cases rc) (auto simp: record_call_of_def spatial_unit_access_def spatial_wf_def table_ok_def)
  show "\<exists>s'. spatial_call (AnalysisEnd thr k) s = Inr s'" by simp
qed

definition data_flow_wf :: "data_flow \<Rightarrow> bool" where
  "data_flow_wf s = map_ok2 (<) (<) (df_kernel_trace s)"

lemma df_put_again:
  assumes "data_flow_wf s" "df_current s \<noteq> None"
  shows "data_flow_wf (df_put_current t s)" "df_current (df_put_current t s) \<noteq> None"
proof -
  obtain thr k where at: "df_trace_at s = Some (thr, k)" using assms(2) by (auto simp: df_current_def split: option.splits)
  then have put: "df_put_current t s = s\<lparr>df_kernel_trace := map_set2 (<) (<) (df_kernel_trace s) thr k t\<rparr>"
    by (simp add: df_put_current_def map_set2_def)
  with assms(1) show "data_flow_wf (df_put_current t s)" by (simp add: data_flow_wf_def thread_kernel.map_ok2_set2)
  show "df_current (df_put_current t s) \<noteq> None"
    using thread_kernel.map_at2_set2 [of "df_kernel_trace s" thr k t] assms(1) at
    by (simp add: put df_current_def data_flow_wf_def map_at2_def)
qed

lemma df_side_returns:
  assumes "data_flow_wf s" "df_current s \<noteq> None"
  shows "\<exists>s'. (if b then fbind (or_fault NullDeref (df_current s)) (\<lambda>t. Inr (df_put_current (f t) s)) else Inr s) = Inr s'
    \<and> data_flow_wf s' \<and> df_current s' \<noteq> None"
  using assms df_put_again [OF assms] by (cases "df_current s") auto

lemma df_unit_access_returns:
  assumes "data_flow_wf s" "df_current s \<noteq> None"
  shows "\<exists>s'. df_unit_access m flags s = Inr s' \<and> data_flow_wf s' \<and> df_current s' \<noteq> None"
proof (cases "op_id m \<le> REDSHOW_MEMORY_HOST")
  case True
  with assms show ?thesis by (simp add: df_unit_access_def)
next
  case False
  obtain s1 where s1: "(if has_flag flags GPU_PATCH_READ then fbind (or_fault NullDeref (df_current s)) (\<lambda>t.
      Inr (df_put_current (t\<lparr>t_read := map_upd (<) [] (t_read t) (op_id m)
        (\<lambda>rs. if \<not> df_configs s REDSHOW_ANALYSIS_READ_TRACE_IGNORE then merge_memory_range rs (mem_range m)
              else if rs = [] then set_insert range_lt rs (mem_range m) else rs)\<rparr>) s)) else Inr s) = Inr s1"
    "data_flow_wf s1" "df_current s1 \<noteq> None"
    using df_side_returns [OF assms, of "has_flag flags GPU_PATCH_READ"] by meson
  with df_side_returns [OF s1(2,3), of "has_flag flags GPU_PATCH_WRITE"] show ?thesis
    unfolding df_unit_access_def Let_def using False by simp
qed

interpretation data_flow_fine: fine_analysis data_flow_call
  "\<lambda>ty. ty = GPU_PATCH_TYPE_ADDRESS_PATCH \<or> ty = GPU_PATCH_TYPE_ADDRESS_ANALYSIS" data_flow_wf "\<lambda>s. df_current s \<noteq> None"
proof
  fix s s' :: data_flow and c rc ty thr k h sid m cc
  have beg: "\<exists>s'. df_analysis_begin thr k cc m ty s = Inr s' \<and> data_flow_wf s' \<and> df_current s' \<noteq> None"
    if "data_flow_wf s" "ty = GPU_PATCH_TYPE_ADDRESS_PATCH \<or> ty = GPU_PATCH_TYPE_ADDRESS_ANALYSIS" for thr k cc m ty
  proof -
    have mo: "map_ok (<) (df_kernel_trace s)" "\<And>a. map_ok (<) (map_touch (<) [] (df_kernel_trace s) a)"
      using that(1) by (auto simp: data_flow_wf_def map_ok2_def)
    have touch: "map_touch (<) [] (map_set (<) (df_kernel_trace s) thr x) a = (if a = thr then x else map_touch (<) [] (df_kernel_trace s) a)" for x a
      by (simp add: map_touch_def u32_order.map_at_set [OF mo(1)])
    show ?thesis
      using that(2) mo by (auto simp: df_analysis_begin_def Let_def df_current_def data_flow_wf_def map_ok2_def touch map_has_at
          u32_order.map_ok_set int_order.map_ok_set int_order.map_at_set)
  qed
  show "data_flow_wf s \<Longrightarrow> ty = GPU_PATCH_TYPE_ADDRESS_PATCH \<or> ty = GPU_PATCH_TYPE_ADDRESS_ANALYSIS \<Longrightarrow>
      \<exists>s'. data_flow_call (AnalysisBegin thr k h sid cc m ty) s = Inr s' \<and> df_current s' \<noteq> None"
    using beg [of ty thr k cc m] by (simp del: not_None_eq) blast
  show "\<not> (ty = GPU_PATCH_TYPE_ADDRESS_PATCH \<or> ty = GPU_PATCH_TYPE_ADDRESS_ANALYSIS) \<Longrightarrow>
      data_flow_call (AnalysisBegin thr k h sid cc m ty) s = Inl AssertFail"
    by (simp add: df_analysis_begin_def)
  show "data_flow_wf s \<Longrightarrow> df_current s \<noteq> None \<Longrightarrow> record_call_of rc \<Longrightarrow>
      \<exists>s'. data_flow_call rc s = Inr s' \<and> df_current s' \<noteq> None"
    using df_unit_access_returns [of s] by (cases rc) (force simp: record_call_of_def)+
  show "\<exists>s'. data_flow_call (AnalysisEnd thr k) s = Inr s'" by simp
  show "data_flow_wf s \<Longrightarrow> data_flow_call c s = Inr s' \<Longrightarrow> data_flow_wf s'"
  proof (cases c)
    case (AnalysisBegin thr k h sid cc m ty)
    assume "data_flow_wf s" "data_flow_call c s = Inr s'"
    with AnalysisBegin beg [of ty thr k cc m] show ?thesis
      by (cases "ty = GPU_PATCH_TYPE_ADDRESS_PATCH \<or> ty = GPU_PATCH_TYPE_ADDRESS_ANALYSIS") (auto simp: df_analysis_begin_def)
  next
    case (UnitAccess a)
    assume w: "data_flow_wf s" and "data_flow_call c s = Inr s'"
    with UnitAccess df_unit_access_returns [OF w] show ?thesis
      by (cases "df_current s") (fastforce simp: df_unit_access_def Let_def split: if_splits)+
  qed auto
qed

definition memory_profile_wf :: "memory_profile \<Rightarrow> bool" where
  "memory_profile_wf s = map_ok2 (<) (<) (mp_kernel_trace s)"

lemma mp_put_again:
  assumes "memory_profile_wf s" "mp_current s \<noteq> None"
  shows "memory_profile_wf (mp_put_current t s)" "mp_current (mp_put_current t s) \<noteq> None"
  using assms
  by (auto simp: memory_profile_wf_def mp_put_current_def mp_current_def thread_op.map_ok2_set2 thread_op.map_at2_set2 split: option.splits)

lemma mp_begin_returns:
  assumes "memory_profile_wf s" "ty = GPU_PATCH_TYPE_ADDRESS_PATCH \<or> ty = GPU_PATCH_TYPE_ADDRESS_ANALYSIS"
  shows "\<exists>s'. mp_analysis_begin thr k h c m ty s = Inr s' \<and> memory_profile_wf s' \<and> mp_current s' \<noteq> None"
  using assms
  by (auto simp: memory_profile_wf_def mp_analysis_begin_def Let_def mp_current_def thread_op.map_ok2_set2 thread_op.map_at2_set2)

interpretation memory_profile_fine: fine_analysis memory_profile_call
  "\<lambda>ty. ty = GPU_PATCH_TYPE_ADDRESS_PATCH \<or> ty = GPU_PATCH_TYPE_ADDRESS_ANALYSIS" memory_profile_wf "\<lambda>s. mp_current s \<noteq> None"
proof
  fix s s' :: memory_profile and c rc ty thr k h sid m cc
  show "memory_profile_wf s \<Longrightarrow> ty = GPU_PATCH_TYPE_ADDRESS_PATCH \<or> ty = GPU_PATCH_TYPE_ADDRESS_ANALYSIS \<Longrightarrow>
      \<exists>s'. memory_profile_call (AnalysisBegin thr k h sid cc m ty) s = Inr s' \<and> mp_current s' \<noteq> None"
    using mp_begin_returns [of s ty thr k h cc m] by (simp del: not_None_eq) blast
  show "\<not> (ty = GPU_PATCH_TYPE_ADDRESS_PATCH \<or> ty = GPU_PATCH_TYPE_ADDRESS_ANALYSIS) \<Longrightarrow>
      memory_profile_call (AnalysisBegin thr k h sid cc m ty) s = Inl AssertFail"
    by (simp add: mp_analysis_begin_def)
  show "memory_profile_wf s \<Longrightarrow> mp_current s \<noteq> None \<Longrightarrow> record_call_of rc \<Longrightarrow>
      \<exists>s'. memory_profile_call rc s = Inr s' \<and> mp_current s' \<noteq> None"
    using mp_put_again(2) [of s] by (cases rc) (auto simp: record_call_of_def mp_unit_access_def)
  show "\<exists>s'. memory_profile_call (AnalysisEnd thr k) s = Inr s'" by simp
  show "memory_profile_wf s \<Longrightarrow> memory_profile_call c s = Inr s' \<Longrightarrow> memory_profile_wf s'"
    by (cases c) (auto simp: mp_unit_access_def mp_put_current_def memory_profile_wf_def mp_analysis_begin_def Let_def
        thread_op.map_ok2_set2 fbind_eq_Inr split: if_splits option.splits)
qed

lemma mp_update_op_node_traces [simp]: "mp_kernel_trace (mp_update_op_node oid ctx s) = mp_kernel_trace s"
  by (simp add: mp_update_op_node_def)

lemma mp_object_traces: "mp_kernel_object op tr e s = Inr s' \<Longrightarrow> mp_kernel_trace s' = mp_kernel_trace s"
proof -
  assume "mp_kernel_object op tr e s = Inr s'"
  then obtain mid rs m s1 where s1: "mp_start_object tr mid m s = Inr s1" "ffold (\<lambda>r. mp_update_blank_chunks (op_id op) mid r) rs s1 = Inr s'"
    by (auto simp: mp_kernel_object_def fbind_eq_Inr split: prod.splits)
  have "mp_kernel_trace s1 = mp_kernel_trace s"
    using s1(1) by (auto simp: mp_start_object_def fbind_eq_Inr split: option.splits)
  then show ?thesis
    by (intro ffold_keeps [where P = "\<lambda>x. mp_kernel_trace x = mp_kernel_trace s", OF _ _ s1(2)])
       (auto simp: mp_update_blank_chunks_def fbind_eq_Inr)
qed

lemma mp_fragmentation_traces: "mp_update_fragmentation t k s = Inr s' \<Longrightarrow> mp_kernel_trace s' = mp_kernel_trace s"
proof -
  assume "mp_update_fragmentation t k s = Inr s'"
  then obtain um where r: "ffold (mp_fragment_object t k) um s = Inr s'" by (auto simp: mp_update_fragmentation_def fbind_eq_Inr)
  show ?thesis
    by (rule ffold_keeps [where P = "\<lambda>x. mp_kernel_trace x = mp_kernel_trace s", OF _ _ r])
       (auto simp: mp_fragment_object_def fbind_eq_Inr Let_def split: prod.splits)
qed

lemma mp_op_wf:
  assumes "memory_profile_wf s" "mp_op_callback op sub s = Inr s'"
  shows "memory_profile_wf s'"
proof (cases op)
  case (KernelOp k)
  let ?s0 = "mp_update_op_node (op_id k) (ctx_id k) s"
  show ?thesis
  proof (cases "mp_current ?s0")
    case (Some tr)
    with assms(2) KernelOp obtain s2 s3 where
      r: "ffold (mp_kernel_object k tr) (mt_access tr) (?s0\<lparr>mp_blank_chunks := map_emplace (<) (mp_blank_chunks ?s0) (mt_op_id tr) []\<rparr>) = Inr s2"
        "mp_update_fragmentation (mt_cpu_thread tr) (op_id k) s2 = Inr s3"
        "s' = (mp_put_current (tr\<lparr>mt_access := []\<rparr>) s3)\<lparr>mp_trace_at := None\<rparr>"
      by (auto simp: mp_op_callback_def mp_kernel_op_callback_def Let_def fbind_eq_Inr)
    have "mp_kernel_trace s2 = mp_kernel_trace s"
      by (rule ffold_keeps [where P = "\<lambda>x. mp_kernel_trace x = mp_kernel_trace s", OF _ _ r(1)]) (auto dest: mp_object_traces)
    with mp_fragmentation_traces [OF r(2)] assms(1) show ?thesis
      by (auto simp: r(3) memory_profile_wf_def mp_put_current_def thread_op.map_ok2_set2 split: option.splits)
  qed (use assms KernelOp in \<open>auto simp: mp_op_callback_def mp_kernel_op_callback_def memory_profile_wf_def\<close>)
qed (use assms in \<open>auto simp: mp_op_callback_def mp_memory_op_callback_def mp_memfree_op_callback_def Let_def memory_profile_wf_def
       fbind_eq_Inr split: if_splits\<close>)

lemma mp_flush_wf:
  assumes "memory_profile_wf s" "mp_flush dir s = Inr (file, s')"
  shows "memory_profile_wf s'"
proof -
  have kernel: "mp_kernel_trace (snd b) = mp_kernel_trace (snd a)" if "mp_report_kernel e a = Inr b" for e a b
    using that by (auto simp: mp_report_kernel_def fbind_eq_Inr Let_def split: prod.splits)
  have kernels: "mp_kernel_trace s2 = mp_kernel_trace s1" if "ffold mp_report_kernel ks (o1, s1) = Inr (o2, s2)" for ks o1 s1 o2 s2
    using ffold_keeps [where P = "\<lambda>x. mp_kernel_trace (snd x) = mp_kernel_trace s1", OF _ _ that] kernel by auto
  obtain out where r: "ffold (\<lambda>(thr, kernels) (out, s1).
      fbind (ffold mp_report_kernel kernels (out @ ''Thread_id '' @ u32_to_string thr @ newline, s1)) (\<lambda>(o2, s2).
        Inr (o2 @ newline, s2))) (mp_fragmentation s) ([], s) = Inr (out, s')"
    using assms(2) by (auto simp: mp_flush_def fbind_eq_Inr)
  have "mp_kernel_trace (snd (out, s')) = mp_kernel_trace s"
    by (rule ffold_keeps [where P = "\<lambda>x. mp_kernel_trace (snd x) = mp_kernel_trace s", OF _ _ r])
       (clarsimp simp: fbind_eq_Inr, (drule kernels, simp)?)+
  with assms(1) show ?thesis by (simp add: memory_profile_wf_def)
qed

lemma memory_profile_wf_start: "memory_profile_wf MemoryProfile"
  by (simp add: memory_profile_wf_def MemoryProfile_def thread_op.map_ok2_Nil)

subsection \<open>The program is a family of analyses\<close>

text \<open>
  The object behind a key of \<^verbatim>\<open>analysis_enabled\<close> is of the class that \<^verbatim>\<open>redshow_analysis_enable\<close>
  creates for it, and its tables are consistent.
\<close>

definition modelled_types :: "redshow_analysis_type set" where
  "modelled_types = {REDSHOW_ANALYSIS_TEMPORAL_REDUNDANCY, REDSHOW_ANALYSIS_SPATIAL_REDUNDANCY, REDSHOW_ANALYSIS_DATA_FLOW,
     REDSHOW_ANALYSIS_MEMORY_PROFILE}"

definition typed_state :: "redshow_analysis_type \<Rightarrow> 'x analysis_state \<Rightarrow> bool" where
  "typed_state t s =
     (case s of
        TemporalState x \<Rightarrow> t = REDSHOW_ANALYSIS_TEMPORAL_REDUNDANCY \<and> temporal_wf x
      | SpatialState x \<Rightarrow> t = REDSHOW_ANALYSIS_SPATIAL_REDUNDANCY \<and> spatial_wf x
      | DataFlowState x fn \<Rightarrow> t = REDSHOW_ANALYSIS_DATA_FLOW \<and> data_flow_wf x
      | MemoryProfileState x \<Rightarrow> t = REDSHOW_ANALYSIS_MEMORY_PROFILE \<and> memory_profile_wf x
      | OtherState x \<Rightarrow> t \<notin> modelled_types)"

lemma df_link_traces [simp]:
  "df_kernel_trace (df_link_ctx_node a b c ty s) = df_kernel_trace s"
  "df_kernel_trace (df_link_op_node oid ctx mem s) = df_kernel_trace s"
  "df_kernel_trace (df_update_op_node oid ctx s) = df_kernel_trace s"
  "df_kernel_trace (df_update_edge_metrics a b c r w n ty s) = df_kernel_trace s"
  "df_kernel_trace (df_update_op_metrics oid ctx mem r w n ty s) = df_kernel_trace s"
  "df_kernel_trace (df_emplace_hash ctx hash s) = df_kernel_trace s"
  "df_kernel_trace (df_enter_ctx ctx oty s) = df_kernel_trace s"
  by (auto simp: df_link_ctx_node_def df_link_op_node_def df_update_op_node_def df_update_edge_metrics_def
      df_update_op_metrics_def df_emplace_hash_def df_enter_ctx_def Let_def split: option.splits)

lemma df_hash_traces: "df_hash_node ctx start len h s = Inr s' \<Longrightarrow> df_kernel_trace s' = df_kernel_trace s"
  by (auto simp: df_hash_node_def fbind_eq_Inr split: if_splits)

lemma df_read_traces: "df_kernel_read op e s = Inr s' \<Longrightarrow> df_kernel_trace s' = df_kernel_trace s"
  by (auto simp: df_kernel_read_def fbind_eq_Inr Let_def split: prod.splits if_splits)

lemma df_write_traces: "df_kernel_write fn op e (s, h) = Inr (s', h') \<Longrightarrow> df_kernel_trace s' = df_kernel_trace s"
  by (auto simp: df_kernel_write_def fbind_eq_Inr Let_def dest!: df_hash_traces split: prod.splits if_splits)

lemma df_put_wf: "data_flow_wf s \<Longrightarrow> data_flow_wf (df_put_current t s)"
  using thread_kernel.map_ok2_set2
  by (auto simp: data_flow_wf_def df_put_current_def map_set2_def split: option.splits)

lemma df_kernel_op_wf:
  assumes "data_flow_wf s" "df_kernel_op_callback fn op (s, h) = Inr (s', h')"
  shows "data_flow_wf s'"
proof (cases "df_current s")
  case None
  with assms show ?thesis by (simp add: df_kernel_op_callback_def)
next
  case (Some t)
  then obtain s1 s2 h2 where r: "ffold (df_kernel_read op) (t_read t) s = Inr s1"
      "ffold (df_kernel_write fn op) (t_write t) (s1, h) = Inr (s2, h2)"
      "s' = (df_put_current (t\<lparr>t_read := [], t_write := []\<rparr>) s2)\<lparr>df_trace_at := None\<rparr>"
    using assms(2) by (auto simp: df_kernel_op_callback_def fbind_eq_Inr)
  have "df_kernel_trace s1 = df_kernel_trace s"
    by (rule ffold_keeps [where P = "\<lambda>x. df_kernel_trace x = df_kernel_trace s", OF _ _ r(1)]) (auto dest: df_read_traces)
  moreover have "df_kernel_trace (fst (s2, h2)) = df_kernel_trace s1"
    by (rule ffold_keeps [where P = "\<lambda>x. df_kernel_trace (fst x) = df_kernel_trace s1", OF _ _ r(2)]) (auto dest: df_write_traces)
  ultimately have "data_flow_wf s2" using assms(1) by (simp add: data_flow_wf_def)
  from df_put_wf [OF this] show ?thesis by (simp add: r(3) data_flow_wf_def)
qed

lemma df_op_wf:
  assumes "data_flow_wf s" "df_op_callback fn op (s, h) = Inr (s', h')"
  shows "data_flow_wf s'"
proof -
  let ?s = "df_enter_ctx (operation_ctx op) (operation_kind op) s"
  have wf: "data_flow_wf ?s" using assms(1) by (simp add: data_flow_wf_def)
  have same: "df_kernel_trace s' = df_kernel_trace s \<Longrightarrow> ?thesis" using assms(1) by (simp add: data_flow_wf_def)
  show ?thesis
  proof (cases op)
    case (KernelOp k)
    with assms(2) df_kernel_op_wf [OF wf] show ?thesis by (simp add: df_op_callback_def)
  next
    case (MemcpyOp c)
    with assms(2) have "df_kernel_trace s' = df_kernel_trace s"
      by (auto simp: df_op_callback_def df_memcpy_op_callback_def df_memcpy_dst_def Let_def fbind_eq_Inr
          dest!: df_hash_traces split: if_splits)
    then show ?thesis by (rule same)
  next
    case (MemsetOp m)
    with assms(2) have "df_kernel_trace s' = df_kernel_trace s"
      by (auto simp: df_op_callback_def df_memset_op_callback_def Let_def fbind_eq_Inr dest!: df_hash_traces)
    then show ?thesis by (rule same)
  next
    case (MemoryOp m)
    with assms(2) same show ?thesis by (auto simp: df_op_callback_def df_memory_op_callback_def Let_def)
  next
    case (MemfreeOp m)
    with assms(2) same show ?thesis by (auto simp: df_op_callback_def)
  qed
qed

lemma data_flow_wf_start: "data_flow_wf DataFlow"
  by (simp add: data_flow_wf_def DataFlow_def df_init_def thread_kernel.map_ok2_Nil)

text \<open>The laws of the family, one class at a time.\<close>

lemma as_state_Some:
  "as_temporal s = Some x \<longleftrightarrow> s = TemporalState x"
  "as_spatial s = Some y \<longleftrightarrow> s = SpatialState y"
  "as_data_flow s = Some z \<longleftrightarrow> s = DataFlowState (fst z) (snd z)"
  "as_memory_profile s = Some u \<longleftrightarrow> s = MemoryProfileState u"
  "as_other s = Some v \<longleftrightarrow> s = OtherState v"
  by (cases s; auto)+

lemmas ops_defs = program_ops_def temporal_ops_def spatial_ops_def redundancy_ops_def data_flow_ops_def memory_profile_ops_def
  other_ops_def on_other_def

lemmas typed_defs = typed_state_def modelled_types_def

interpretation program: analysis_family "program_ops others" "program_new new_others" typed_state
proof
  fix t and s s' :: "'a analysis_state" and w w' :: world and op sub c cfg on fn env th dir
  show "t \<noteq> REDSHOW_ANALYSIS_UNKNOWN \<Longrightarrow> typed_state t (program_new new_others t)"
    by (auto simp: program_new_def typed_defs temporal_wf_def spatial_wf_def init_temporal_def init_spatial_def table_ok_def
        thread_kernel.map_ok2_Nil data_flow_wf_start memory_profile_wf_start)
  show "typed_state t s \<Longrightarrow> ao_op_callback (program_ops others t) op sub (s, w) = Inr (s', w') \<Longrightarrow> typed_state t s'"
    by (cases s) (auto simp: ops_defs typed_defs fbind_eq_Inr as_state_Some dest: df_op_wf mp_op_wf split: if_splits)
  show "typed_state t s \<Longrightarrow> ao_call (program_ops others t) c (s, w) = Inr (s', w') \<Longrightarrow> typed_state t s'"
    by (cases s) (auto simp: ops_defs typed_defs fbind_eq_Inr as_state_Some
        dest: temporal_fine.wf_call spatial_fine.wf_call data_flow_fine.wf_call memory_profile_fine.wf_call split: if_splits)
  show "typed_state t s \<Longrightarrow> typed_state t (ao_config (program_ops others t) cfg on s)"
    by (cases s) (auto simp: ops_defs typed_defs data_flow_wf_def)
  show "typed_state t s \<Longrightarrow> typed_state t (ao_dtoh_register (program_ops others t) fn s)"
    by (cases s) (auto simp: ops_defs typed_defs data_flow_wf_def)
  show "typed_state t s \<Longrightarrow> ao_flush_thread (program_ops others t) env th dir (s, w) = Inr (s', w') \<Longrightarrow> typed_state t s'"
    by (cases s) (auto simp: ops_defs typed_defs fbind_eq_Inr as_state_Some dest: temporal_flush_wf spatial_flush_wf split: if_splits)
  show "typed_state t s \<Longrightarrow> ao_flush (program_ops others t) env dir (s, w) = Inr (s', w') \<Longrightarrow> typed_state t s'"
    by (cases s) (auto simp: ops_defs typed_defs fbind_eq_Inr as_state_Some dest: mp_flush_wf split: if_splits)
qed

subsection \<open>States that the program can reach\<close>

text \<open>
  C4. Whatever calls the profiler makes, in whatever order, every state that the library reaches is well formed: the keys
  of the enabled analyses ascend and each holds an object of its own class with consistent kernel tables, the snapshots
  of memory and sub-memory objects are ordered and keyed by the ranges of their objects, and every registered module has
  its symbols in order and an instruction graph whose access kinds are those the parser gives.
\<close>

theorem reachable_well_formed:
  assumes "reachable cf (program_new new_others) (program_ops others) w st"
  shows "redshow_ok typed_state st"
  using assms by (rule program.reachable_ok)

definition quiet_world :: world where
  "quiet_world = \<lparr>w_host = (\<lambda>_. 0), w_calls = [], w_files = [], w_graphs = []\<rparr>"

text \<open>A table for other analyses that do nothing.\<close>

definition idle_ops :: "redshow_analysis_type \<Rightarrow> (unit, world) analysis_ops" where
  "idle_ops t =
     \<lparr>ao_op_callback = (\<lambda>op sub sw. Inr sw), ao_call = (\<lambda>c sw. Inr sw), ao_config = (\<lambda>c e s. s),
      ao_dtoh_register = (\<lambda>fn s. s), ao_flush_thread = (\<lambda>env thr dir sw. Inr sw), ao_flush = (\<lambda>env dir sw. Inr sw)\<rparr>"

definition sample_state :: "(unit analysis_state, world) redshow" where
  "sample_state =
     (init_redshow quiet_world)\<lparr>rs_enabled := [(REDSHOW_ANALYSIS_TEMPORAL_REDUNDANCY, TemporalState init_temporal)]\<rparr>"

lemma sample_state_reachable: "reachable cf (program_new (\<lambda>_. ())) (program_ops idle_ops) quiet_world sample_state"
proof -
  have "redshow_handle cf (program_new (\<lambda>_. ())) (program_ops idle_ops) (Enable REDSHOW_ANALYSIS_TEMPORAL_REDUNDANCY)
      (init_redshow quiet_world) = Inr (REDSHOW_SUCCESS, sample_state)"
    by (simp add: redshow_handle_def redshow_analysis_enable_def sample_state_def init_redshow_def map_emplace_def
        map_has_def program_new_def)
  then show ?thesis by (rule reachable.step [OF reachable.start])
qed

theorem reachable_well_formed_witness:
  "reachable no_files (program_new (\<lambda>_. ())) (program_ops idle_ops) quiet_world sample_state \<and> redshow_ok typed_state sample_state"
  using sample_state_reachable [of no_files] reachable_well_formed [OF sample_state_reachable [of no_files]] ..

subsection \<open>One analysis among several\<close>

lemma each_analysis_pure:
  assumes "\<And>t s s' w'. t \<in> fst ` set m \<Longrightarrow> f t (s, w) = Inr (s', w') \<Longrightarrow> w' = w"
  shows "each_analysis f (m, w) = Inr (m', w') \<longleftrightarrow>
    w' = w \<and> list_all2 (\<lambda>x y. fst y = fst x \<and> f (fst x) (snd x, w) = Inr (snd y, w)) m m'"
  using assms
proof (induction m arbitrary: m')
  case (Cons e m)
  obtain t s where e: "e = (t, s)" by (cases e)
  have IH: "each_analysis f (m, w) = Inr (n, w') \<longleftrightarrow>
      w' = w \<and> list_all2 (\<lambda>x y. fst y = fst x \<and> f (fst x) (snd x, w) = Inr (snd y, w)) m n" for n
    by (rule Cons.IH) (rule Cons.prems, auto)
  show ?case
  proof (cases "f t (s, w)")
    case (Inl x)
    then show ?thesis by (auto simp: e list_all2_Cons1)
  next
    case (Inr r)
    obtain s' where r: "r = (s', w)" using Cons.prems [of t s] Inr by (cases r) (auto simp: e)
    show ?thesis using IH Inr by (force simp: e r fbind_eq_Inr list_all2_Cons1)
  qed
qed auto

text \<open>The fine-grained methods of the modelled analyses leave the world alone.\<close>

lemma program_call_world:
  "t \<in> modelled_types \<Longrightarrow> ao_call (program_ops others t) c (s, w) = Inr (s', w') \<Longrightarrow> w' = w"
  by (auto simp: modelled_types_def ops_defs fbind_eq_Inr)

text \<open>
  A sequence of fine-grained calls that is dispatched to the enabled analyses is processed by each of them on its own.
\<close>

lemma dispatch_call_independent:
  assumes "fst ` set m \<subseteq> modelled_types"
  shows "ffold (dispatch_call (program_ops others)) cs (m, w) = Inr (m', w') \<longleftrightarrow>
    w' = w \<and> list_all2 (\<lambda>x y. fst y = fst x \<and> ffold (ao_call (program_ops others (fst x))) cs (snd x, w) = Inr (snd y, w)) m m'"
  using assms
proof (induction cs arbitrary: m)
  case Nil
  have "list_all2 (\<lambda>x y. fst y = fst x \<and> snd x = snd y) m m' \<longleftrightarrow> m' = m"
    by (auto simp: list_all2_conv_all_nth prod_eq_iff intro: nth_equalityI)
  then show ?case by auto
next
  case (Cons c cs)
  let ?R = "\<lambda>x y. fst y = fst x \<and> ao_call (program_ops others (fst x)) c (snd x, w) = Inr (snd y, w)"
  let ?S = "\<lambda>x y. fst y = fst x \<and> ffold (ao_call (program_ops others (fst x))) cs (snd x, w) = Inr (snd y, w)"
  have step: "dispatch_call (program_ops others) c (m, w) = Inr (m1, w1) \<longleftrightarrow> w1 = w \<and> list_all2 ?R m m1" for m1 w1
    unfolding dispatch_call_def using Cons.prems program_call_world by (intro each_analysis_pure) blast
  have keys: "fst ` set m1 \<subseteq> modelled_types" if "list_all2 ?R m m1" for m1
  proof -
    have "map fst m1 = map fst m" using that by (induction rule: list_all2_induct) auto
    then have "fst ` set m1 = fst ` set m" by (metis list.set_map)
    with Cons.prems show ?thesis by simp
  qed
  have "ffold (dispatch_call (program_ops others)) (c # cs) (m, w) = Inr (m', w') \<longleftrightarrow>
      (\<exists>m1. list_all2 ?R m m1 \<and> ffold (dispatch_call (program_ops others)) cs (m1, w) = Inr (m', w'))"
    by (auto simp: fbind_eq_Inr step)
  also have "\<dots> \<longleftrightarrow> w' = w \<and> (\<exists>m1. list_all2 ?R m m1 \<and> list_all2 ?S m1 m')"
    using Cons.IH keys by blast
  also have "(\<exists>m1. list_all2 ?R m m1 \<and> list_all2 ?S m1 m') \<longleftrightarrow> list_all2 (?R OO ?S) m m'"
    by (auto simp: list.rel_compp)
  also have "\<dots> \<longleftrightarrow> list_all2 (\<lambda>x y. fst y = fst x \<and>
      ffold (ao_call (program_ops others (fst x))) (c # cs) (snd x, w) = Inr (snd y, w)) m m'"
  proof (rule list.rel_cong [OF refl refl])
    fix x y assume "x \<in> set m"
    then have "ao_call (program_ops others (fst x)) c (snd x, w) = Inr (s1, w1) \<Longrightarrow> w1 = w" for s1 w1
      using Cons.prems program_call_world [of "fst x"] by blast
    then have "(fst y = fst x \<and> ffold (ao_call (program_ops others (fst x))) (c # cs) (snd x, w) = Inr (snd y, w)) \<longleftrightarrow>
        (\<exists>s1. fst y = fst x \<and> ao_call (program_ops others (fst x)) c (snd x, w) = Inr (s1, w) \<and>
           ffold (ao_call (program_ops others (fst x))) cs (s1, w) = Inr (snd y, w))"
      by (auto simp: fbind_eq_Inr)
    then show "(?R OO ?S) x y = (fst y = fst x \<and> ffold (ao_call (program_ops others (fst x))) (c # cs) (snd x, w) = Inr (snd y, w))"
      by (auto simp: relcompp_apply)
  qed
  finally show ?case .
qed

lemma ffold_wrapped:
  "ffold (ao_call temporal_ops) cs (TemporalState x, w) = fbind (ffold temporal_call cs x) (\<lambda>y. Inr (TemporalState y, w))"
  "ffold (ao_call spatial_ops) cs (SpatialState y, w) = fbind (ffold spatial_call cs y) (\<lambda>z. Inr (SpatialState z, w))"
  by (induction cs arbitrary: x y) (auto simp: temporal_ops_def spatial_ops_def redundancy_ops_def fbind_def split: sum.splits)

text \<open>
  Temporal and spatial redundancy need complete records, the data flow needs addresses: with one of the former and
  the latter enabled, every trace is refused, and nothing in \<^verbatim>\<open>redshow_analysis_enable\<close> prevents it.
\<close>

lemma each_analysis_fault:
  assumes "(t, s) \<in> set m" "\<And>w. \<exists>e. f t (s, w) = Inl e"
  shows "\<exists>e. each_analysis f (m, w) = Inl e"
  using assms(1)
proof (induction m arbitrary: w)
  case (Cons x m)
  obtain u v where x: "x = (u, v)" by (cases x)
  show ?case
  proof (cases "f u (v, w)")
    case (Inr r)
    obtain s' w' where r: "r = (s', w')" by (cases r)
    from Cons.prems assms(2) [of w] x Inr have "(t, s) \<in> set m" by auto
    from Cons.IH [OF this, of w'] show ?thesis using x Inr r by auto
  qed (simp add: x)
qed simp

lemma exclusive_analyses:
  assumes "(REDSHOW_ANALYSIS_DATA_FLOW, DataFlowState d fn) \<in> set m"
    and "(REDSHOW_ANALYSIS_TEMPORAL_REDUNDANCY, TemporalState s) \<in> set m"
  shows "\<exists>e. dispatch_call (program_ops others) (AnalysisBegin thr k h sid c i ty) (m, w) = Inl e"
proof (cases "ty = GPU_PATCH_TYPE_DEFAULT")
  case True
  then show ?thesis unfolding dispatch_call_def
    by (intro each_analysis_fault [OF assms(1)]) (simp add: ops_defs data_flow_fine.begin_refused del: data_flow_call.simps)
next
  case False
  then show ?thesis unfolding dispatch_call_def
    by (intro each_analysis_fault [OF assms(2)]) (simp add: ops_defs temporal_fine.begin_refused del: temporal_call.simps)
qed

subsection \<open>A trace gets through the redundancy analyses\<close>

lemma each_analysis_total:
  assumes "\<And>e w. e \<in> set m \<Longrightarrow> \<exists>s' w'. f (fst e) (snd e, w) = Inr (s', w') \<and> Q (fst e) s'"
  shows "\<exists>m' w'. each_analysis f (m, w) = Inr (m', w') \<and> map fst m' = map fst m \<and> (\<forall>e \<in> set m'. Q (fst e) (snd e))"
  using assms
proof (induction m arbitrary: w)
  case (Cons x m)
  obtain t s where x: "x = (t, s)" by (cases x)
  obtain s' w1 where s': "f t (s, w) = Inr (s', w1)" "Q t s'" using Cons.prems [of x w] x by auto
  have "\<exists>m' w'. each_analysis f (m, w1) = Inr (m', w') \<and> map fst m' = map fst m \<and> (\<forall>e \<in> set m'. Q (fst e) (snd e))"
    by (rule Cons.IH) (rule Cons.prems, simp)
  then obtain m1 w2 where "each_analysis f (m, w1) = Inr (m1, w2)" "map fst m1 = map fst m" "\<forall>e \<in> set m1. Q (fst e) (snd e)"
    by blast
  with s' x show ?case by auto
qed simp

text \<open>A redundancy analysis, idle or between begin and end.\<close>

definition redundancy_state :: "bool \<Rightarrow> redshow_analysis_type \<Rightarrow> 'x analysis_state \<Rightarrow> bool" where
  "redundancy_state running t s =
     (t \<in> {REDSHOW_ANALYSIS_TEMPORAL_REDUNDANCY, REDSHOW_ANALYSIS_SPATIAL_REDUNDANCY} \<and> typed_state t s \<and>
      (running \<longrightarrow> (case s of TemporalState x \<Rightarrow> tp_current x \<noteq> None | SpatialState x \<Rightarrow> sp_current x \<noteq> None | _ \<Rightarrow> False)))"

definition all_redundancy :: "bool \<Rightarrow> 'x analysis_state enabled \<times> world \<Rightarrow> bool" where
  "all_redundancy running mw = (\<forall>e \<in> set (fst mw). redundancy_state running (fst e) (snd e))"

lemma redundancy_cases:
  assumes "redundancy_state running t s"
  obtains x where "t = REDSHOW_ANALYSIS_TEMPORAL_REDUNDANCY" "s = TemporalState x" "temporal_wf x" "running \<Longrightarrow> tp_current x \<noteq> None"
    | x where "t = REDSHOW_ANALYSIS_SPATIAL_REDUNDANCY" "s = SpatialState x" "spatial_wf x" "running \<Longrightarrow> sp_current x \<noteq> None"
  using assms by (cases s) (auto simp: redundancy_state_def typed_defs)

text \<open>One call on one analysis.\<close>

lemma redundancy_call:
  assumes "redundancy_state running t s"
    and "\<And>x. temporal_wf x \<Longrightarrow> (running \<Longrightarrow> tp_current x \<noteq> None) \<Longrightarrow>
      \<exists>y. temporal_call c x = Inr y \<and> temporal_wf y \<and> (running' \<longrightarrow> tp_current y \<noteq> None)"
    and "\<And>x. spatial_wf x \<Longrightarrow> (running \<Longrightarrow> sp_current x \<noteq> None) \<Longrightarrow>
      \<exists>y. spatial_call c x = Inr y \<and> spatial_wf y \<and> (running' \<longrightarrow> sp_current y \<noteq> None)"
  shows "\<exists>s' w'. ao_call (program_ops others t) c (s, w) = Inr (s', w') \<and> redundancy_state running' t s'"
  using assms(1)
proof (cases rule: redundancy_cases)
  case (1 x)
  with assms(2) [OF 1(3,4)] show ?thesis by (auto simp: ops_defs redundancy_state_def typed_defs)
next
  case (2 x)
  with assms(3) [OF 2(3,4)] show ?thesis by (auto simp: ops_defs redundancy_state_def typed_defs)
qed

lemma dispatch_redundancy:
  assumes "all_redundancy running (m, w)"
    and "\<And>x. temporal_wf x \<Longrightarrow> (running \<Longrightarrow> tp_current x \<noteq> None) \<Longrightarrow>
      \<exists>y. temporal_call c x = Inr y \<and> temporal_wf y \<and> (running' \<longrightarrow> tp_current y \<noteq> None)"
    and "\<And>x. spatial_wf x \<Longrightarrow> (running \<Longrightarrow> sp_current x \<noteq> None) \<Longrightarrow>
      \<exists>y. spatial_call c x = Inr y \<and> spatial_wf y \<and> (running' \<longrightarrow> sp_current y \<noteq> None)"
  shows "\<exists>mw. dispatch_call (program_ops others) c (m, w) = Inr mw \<and> all_redundancy running' mw \<and> map fst (fst mw) = map fst m"
proof -
  have "\<exists>s' w'. ao_call (program_ops others (fst e)) c (snd e, w) = Inr (s', w') \<and> redundancy_state running' (fst e) s'"
    if "e \<in> set m" for e w
    using assms(1) that assms(2,3) by (intro redundancy_call) (auto simp: all_redundancy_def)
  from each_analysis_total [where Q = "redundancy_state running'", OF this] show ?thesis
    by (fastforce simp: dispatch_call_def all_redundancy_def)
qed

lemma dispatch_begin:
  assumes "all_redundancy running mw"
  shows "\<exists>mw'. dispatch_call (program_ops others) (AnalysisBegin thr k h sid cid mid GPU_PATCH_TYPE_DEFAULT) mw = Inr mw' \<and> all_redundancy True mw'"
proof -
  obtain m w where mw: "mw = (m, w)" by (cases mw)
  let ?c = "AnalysisBegin thr k h sid cid mid GPU_PATCH_TYPE_DEFAULT"
  have t: "\<exists>y. temporal_call ?c x = Inr y \<and> temporal_wf y \<and> (True \<longrightarrow> tp_current y \<noteq> None)" if "temporal_wf x" for x
    using temporal_fine.begin_accepted [OF that refl] temporal_fine.wf_call [OF that] by blast
  have s: "\<exists>y. spatial_call ?c x = Inr y \<and> spatial_wf y \<and> (True \<longrightarrow> sp_current y \<noteq> None)" if "spatial_wf x" for x
    using spatial_fine.begin_accepted [OF that refl] spatial_fine.wf_call [OF that] by blast
  from dispatch_redundancy [OF assms [unfolded mw] t s] show ?thesis unfolding mw by blast
qed

lemma dispatch_records: "calls_keep (all_redundancy True) (dispatch_call (program_ops others))"
  unfolding calls_keep_def
proof (intro allI impI)
  fix c and mw :: "'a analysis_state enabled \<times> world"
  assume a: "record_call_of c \<and> all_redundancy True mw"
  obtain m w where mw: "mw = (m, w)" by (cases mw)
  have t: "\<exists>y. temporal_call c x = Inr y \<and> temporal_wf y \<and> (True \<longrightarrow> tp_current y \<noteq> None)"
    if "temporal_wf x" "True \<Longrightarrow> tp_current x \<noteq> None" for x
    using temporal_fine.record_returns [OF that(1)] temporal_fine.wf_call [OF that(1)] a that(2) by blast
  have s: "\<exists>y. spatial_call c x = Inr y \<and> spatial_wf y \<and> (True \<longrightarrow> sp_current y \<noteq> None)"
    if "spatial_wf x" "True \<Longrightarrow> sp_current x \<noteq> None" for x
    using spatial_fine.record_returns [OF that(1)] spatial_fine.wf_call [OF that(1)] a that(2) by blast
  have "all_redundancy True (m, w)" using a mw by simp
  from dispatch_redundancy [OF this t s] show "\<exists>t. dispatch_call (program_ops others) c mw = Inr t \<and> all_redundancy True t"
    unfolding mw by blast
qed

lemma dispatch_end:
  assumes "all_redundancy running mw"
  shows "\<exists>mw'. dispatch_call (program_ops others) (AnalysisEnd thr k) mw = Inr mw' \<and> all_redundancy False mw'"
proof -
  obtain m w where mw: "mw = (m, w)" by (cases mw)
  let ?c = "AnalysisEnd thr k"
  have t: "\<exists>y. temporal_call ?c x = Inr y \<and> temporal_wf y \<and> (False \<longrightarrow> tp_current y \<noteq> None)" if "temporal_wf x" for x
    using temporal_fine.end_returns temporal_fine.wf_call [OF that] by blast
  have s: "\<exists>y. spatial_call ?c x = Inr y \<and> spatial_wf y \<and> (False \<longrightarrow> sp_current y \<noteq> None)" if "spatial_wf x" for x
    using spatial_fine.end_returns spatial_fine.wf_call [OF that] by blast
  from dispatch_redundancy [OF assms [unfolded mw] t s] show ?thesis unfolding mw by blast
qed

text \<open>After the end callback no analysis works on a kernel.\<close>

definition idle_state :: "'x analysis_state \<Rightarrow> bool" where
  "idle_state s = (case s of TemporalState x \<Rightarrow> tp_current x = None | SpatialState x \<Rightarrow> sp_current x = None | _ \<Rightarrow> True)"

lemma each_analysis_each:
  assumes "\<And>t s w s' w'. f t (s, w) = Inr (s', w') \<Longrightarrow> t \<in> T \<Longrightarrow> Q s'" "fst ` set m \<subseteq> T" "each_analysis f (m, w) = Inr (m', w')"
  shows "\<forall>e \<in> set m'. Q (snd e)"
  using assms(2,3)
proof (induction m arbitrary: w m')
  case (Cons e m)
  obtain t s where e: "e = (t, s)" by (cases e)
  with Cons.prems(2) obtain s' w1 m1 where r: "f t (s, w) = Inr (s', w1)" "each_analysis f (m, w1) = Inr (m1, w')" "m' = (t, s') # m1"
    by (auto simp: fbind_eq_Inr)
  with Cons.IH [OF _ r(2)] Cons.prems(1) assms(1) [OF r(1)] e show ?case by auto
qed simp

lemma dispatch_end_idle:
  assumes "fst ` set m \<subseteq> {REDSHOW_ANALYSIS_TEMPORAL_REDUNDANCY, REDSHOW_ANALYSIS_SPATIAL_REDUNDANCY}"
    and "dispatch_call (program_ops others) (AnalysisEnd thr k) (m, w) = Inr (m', w')"
  shows "\<forall>e \<in> set m'. idle_state (snd e)"
  by (rule each_analysis_each [OF _ assms(1) assms(2) [unfolded dispatch_call_def]])
    (auto simp: ops_defs fbind_eq_Inr idle_state_def temporal_analysis_end_def spatial_analysis_end_def)

definition trace_result :: "bool \<Rightarrow> redshow_result outcome option \<Rightarrow> redshow_result" where
  "trace_result registered stop =
     (case stop of
        Some (Inr result) \<Rightarrow> result
      | _ \<Rightarrow> if registered then REDSHOW_SUCCESS else REDSHOW_ERROR_NOT_REGISTER_CALLBACK)"

lemma first_stop_not_success: "first_stop g symbols rs \<noteq> Some (Inr REDSHOW_SUCCESS)"
  using record_stop_not_success by (auto simp: first_stop_def split: list.split)

text \<open>What the enabled redundancy analyses see of a buffer of complete records of a known module.\<close>

lemma redshow_analyze_complete:
  fixes kid :: i32 and thr sid :: u32 and cf :: "'t cubin_files" and others :: "redshow_analysis_type \<Rightarrow> ('x, world) analysis_ops"
  assumes ok: "redshow_ok typed_state st"
    and types: "fst ` set (rs_enabled st) \<subseteq> {REDSHOW_ANALYSIS_TEMPORAL_REDUNDANCY, REDSHOW_ANALYSIS_SPATIAL_REDUNDANCY}"
    and found: "find_module cid mid (rs_cubins st) = Some (symbols, g)" "map_prev (<) (rs_memory st) hid = Some (k0, mm)"
    and recs: "gb_records b = DefaultRecords rs" "unat (gb_head_index b) \<le> length rs"
    and rok: "\<forall>r \<in> set (take (unat (gb_head_index b)) rs). record_ok r"
  defines "stop \<equiv> first_stop g symbols (take (unat (gb_head_index b)) rs)"
    and "calls \<equiv> concat (map (record_calls (rs_config st) kid hid g symbols mm) (processed g symbols (gb_head_index b) rs))"
    and "X \<equiv> redshow_analyze cf (program_ops others) thr cid mid kid hid sid b st"
  shows "stop = Some (Inl e) \<Longrightarrow> X = Inl e"
    "(\<And>e. stop \<noteq> Some (Inl e)) \<Longrightarrow> \<exists>st'. X = Inr (trace_result (rs_log_callback st) stop, st')
       \<and> ffold (dispatch_call (program_ops others))
           (AnalysisBegin thr kid hid sid cid mid GPU_PATCH_TYPE_DEFAULT # calls @ [AnalysisEnd thr kid]) (rs_enabled st, rs_world st)
         = Inr (rs_enabled st', rs_world st')
       \<and> (\<forall>e \<in> set (rs_enabled st'). idle_state (snd e))"
proof -
  let ?call = "dispatch_call (program_ops others)"
  let ?start = "AnalysisBegin thr kid hid sid cid mid GPU_PATCH_TYPE_DEFAULT"
  have g: "graph_kinds_wf g" using ok found(1) find_module_kinds by (auto simp: redshow_ok_def)
  have red: "all_redundancy False (rs_enabled st, rs_world st)"
    using ok types by (auto simp: redshow_ok_def enabled_ok_def all_redundancy_def redundancy_state_def)
  have ty: "gb_type b = GPU_PATCH_TYPE_DEFAULT" using recs(1) by (simp add: gb_type_def)
  obtain s1 where s1: "?call ?start (rs_enabled st, rs_world st) = Inr s1" "all_redundancy True s1"
    using dispatch_begin [OF red] by blast
  have keep: "\<exists>t. ?call c s = Inr t \<and> all_redundancy True t" if "record_call_of c" "all_redundancy True s" for c s
    using dispatch_records [of others, unfolded calls_keep_def, rule_format, OF conjI [OF that]] .
  have "record_call_of c" if "c \<in> set calls" for c using that by (auto simp: calls_def dest: record_calls_of)
  then have "\<exists>t. ffold ?call calls s1 = Inr t \<and> all_redundancy True t"
    by (intro ffold_total [where P = "all_redundancy True", OF _ s1(2)] keep)
  then obtain s2 where s2: "ffold ?call calls s1 = Inr s2" "all_redundancy True s2" by blast
  note records = trace_analyze_default_list [OF g recs(2) rok, of ?call "rs_config st" kid hid symbols mm s1]
  have tr: "trace_analyze cf ?call (rs_config st) thr cid mid kid hid sid b (rs_cubin_cache st) (rs_memory st)
        (rs_cubins st, (rs_enabled st, rs_world st)) =
      fbind (stop_result stop s2) (\<lambda>(result, s2). fbind (?call (AnalysisEnd thr kid) s2) (\<lambda>s3. Inr (result, rs_cubins st, s3)))"
    using found recs(1) ty s1(1) records s2(1)
    by (simp add: trace_analyze_def fetch_cubin_def trace_records_def stop_def calls_def)
  show "stop = Some (Inl e) \<Longrightarrow> X = Inl e"
    by (simp add: X_def redshow_analyze_def tr stop_result_def)
  assume go: "\<And>e. stop \<noteq> Some (Inl e)"
  obtain s3 where s3: "?call (AnalysisEnd thr kid) s2 = Inr s3" using dispatch_end [OF s2(2)] by blast
  have all: "ffold ?call (?start # calls @ [AnalysisEnd thr kid]) (rs_enabled st, rs_world st) = Inr s3"
    using s1(1) s2(1) s3 by (simp add: ffold_append)
  have "fst ` set (fst s2) \<subseteq> {REDSHOW_ANALYSIS_TEMPORAL_REDUNDANCY, REDSHOW_ANALYSIS_SPATIAL_REDUNDANCY}"
    using s2(2) by (auto simp: all_redundancy_def redundancy_state_def)
  then have idle: "\<forall>e \<in> set (fst s3). idle_state (snd e)"
    using dispatch_end_idle [of "fst s2" others thr kid "snd s2" "fst s3" "snd s3"] s3 by simp
  obtain r where r: "stop_result stop s2 = Inr (r, s2)" "r = (case stop of Some (Inr r) \<Rightarrow> r | _ \<Rightarrow> REDSHOW_SUCCESS)"
    using go by (auto simp: stop_result_def split: option.split sum.split)
  have succ: "stop \<noteq> Some (Inr REDSHOW_SUCCESS)" unfolding stop_def by (rule first_stop_not_success)
  have "\<exists>st'. X = Inr (trace_result (rs_log_callback st) stop, st') \<and> rs_enabled st' = fst s3 \<and> rs_world st' = snd s3"
    using r succ go
    by (cases "rs_log_callback st")
      (auto simp: X_def redshow_analyze_def tr s3 put_analyses_def Let_def trace_result_def split: option.splits sum.splits)
  with all idle show "\<exists>st'. X = Inr (trace_result (rs_log_callback st) stop, st')
       \<and> ffold ?call (?start # calls @ [AnalysisEnd thr kid]) (rs_enabled st, rs_world st) = Inr (rs_enabled st', rs_world st')
       \<and> (\<forall>e \<in> set (rs_enabled st'). idle_state (snd e))" by fastforce
qed

text \<open>
  C2. In any state the library can reach with no analysis enabled but the redundancy analyses, the outcome of
  analysing a buffer of complete records of a known module is one of these. Without a snapshot for the
  operation the state is unchanged and the error is \<^verbatim>\<open>REDSHOW_ERROR_NOT_EXIST_ENTRY\<close>. When the first record that stops the
  loop accesses memory at an instruction that the module's non-empty graph lacks, the exception of \<^verbatim>\<open>at()\<close>
  escapes. Otherwise the analysis returns: with an error when a program counter lies below every symbol and with success
  exactly when the profiler's callback is registered; then no analysis is left on a kernel and the state is well formed.
  The buffer holds the records it counts, and they are as the patch writes them (\<open>record_ok\<close>).
\<close>

theorem redshow_analyze_returns:
  assumes "reachable cf (program_new new_others) (program_ops others) w st"
    and "fst ` set (rs_enabled st) \<subseteq> {REDSHOW_ANALYSIS_TEMPORAL_REDUNDANCY, REDSHOW_ANALYSIS_SPATIAL_REDUNDANCY}"
    and "find_module cid mid (rs_cubins st) = Some (symbols, g)"
    and "gb_records b = DefaultRecords rs" "unat (gb_head_index b) \<le> length rs"
    and "\<forall>r \<in> set (take (unat (gb_head_index b)) rs). record_ok r"
  shows "if map_prev (<) (rs_memory st) hid = None
    then redshow_analyze cf (program_ops others) thr cid mid kid hid sid b st = Inr (REDSHOW_ERROR_NOT_EXIST_ENTRY, st)
    else case first_stop g symbols (take (unat (gb_head_index b)) rs) of
        Some (Inl e) \<Rightarrow> redshow_analyze cf (program_ops others) thr cid mid kid hid sid b st = Inl e
      | stop \<Rightarrow> \<exists>st'. redshow_analyze cf (program_ops others) thr cid mid kid hid sid b st =
            Inr (trace_result (rs_log_callback st) stop, st')
          \<and> (\<forall>e \<in> set (rs_enabled st'). idle_state (snd e)) \<and> redshow_ok typed_state st'"
proof (cases "map_prev (<) (rs_memory st) hid")
  case None
  with assms(3) show ?thesis
    by (simp add: redshow_analyze_def trace_analyze_def fetch_cubin_def put_analyses_def)
next
  case (Some p)
  obtain k0 mm where mm: "map_prev (<) (rs_memory st) hid = Some (k0, mm)" using Some by (cases p) simp
  have ok: "redshow_ok typed_state st" using assms(1) by (rule program.reachable_ok)
  note run = redshow_analyze_complete [OF ok assms(2,3) mm assms(4-6), where cf = cf and others = others and thr = thr and kid = kid and sid = sid]
  show ?thesis
  proof (cases "\<exists>e. first_stop g symbols (take (unat (gb_head_index b)) rs) = Some (Inl e)")
    case True
    with run(1) mm show ?thesis by auto
  next
    case False
    with run(2) obtain st' where st': "redshow_analyze cf (program_ops others) thr cid mid kid hid sid b st =
        Inr (trace_result (rs_log_callback st) (first_stop g symbols (take (unat (gb_head_index b)) rs)), st')"
      "\<forall>e \<in> set (rs_enabled st'). idle_state (snd e)" by blast
    with program.analyze_ok [OF ok st'(1)] False mm show ?thesis by (auto split: option.split sum.split)
  qed
qed

text \<open>A module whose graph has a load at 0, loaded at \<open>0x40\<close>, and one memory object.\<close>

definition loaded_cubins :: cubin_map where
  "loaded_cubins = snd (projr (redshow_cubin_register json_files init_value_config 3 1 1 [0x40] ''c/m'' []))"

lemma register_loaded_cubins:
  "redshow_cubin_register json_files init_value_config 3 1 1 [0x40] ''c/m'' [] = Inr (REDSHOW_SUCCESS, loaded_cubins)"
  unfolding loaded_cubins_def by code_simp

definition ready_memory :: memory_map where
  "ready_memory = [(MemoryRange 0x100 0x200, Memory_object 0 9 1 (MemoryRange 0x100 0x200) 0 0)]"

definition ready_state :: "(unit analysis_state, world) redshow" where
  "ready_state = sample_state\<lparr>rs_cubins := loaded_cubins, rs_memory := [(9, ready_memory)]\<rparr>"

lemma ready_state_reachable: "reachable json_files (program_new (\<lambda>_. ())) (program_ops idle_ops) quiet_world ready_state"
proof -
  let ?R = "reachable json_files (program_new (\<lambda>_. ())) (program_ops idle_ops) quiet_world"
  have s: "rs_config sample_state = init_value_config" "rs_cubins sample_state = []" "rs_memory sample_state = []"
    "rs_enabled sample_state = [(REDSHOW_ANALYSIS_TEMPORAL_REDUNDANCY, TemporalState init_temporal)]"
    by (simp_all add: sample_state_def init_redshow_def)
  have "redshow_handle json_files (program_new (\<lambda>_. ())) (program_ops idle_ops) (CubinRegister 3 1 1 [0x40] ''c/m'') sample_state =
      Inr (REDSHOW_SUCCESS, sample_state\<lparr>rs_cubins := loaded_cubins\<rparr>)"
    by (simp add: redshow_handle_def s register_loaded_cubins)
  then have c: "?R (sample_state\<lparr>rs_cubins := loaded_cubins\<rparr>)"
    by (rule reachable.step [OF sample_state_reachable])
  have "redshow_handle json_files (program_new (\<lambda>_. ())) (program_ops idle_ops) (MemoryRegister (0, 0) 0 1 9 0x100 0x200)
      (sample_state\<lparr>rs_cubins := loaded_cubins\<rparr>) = Inr (REDSHOW_SUCCESS, ready_state)"
    by (simp add: redshow_handle_def redshow_memory_register_def snapshot_register_def s accept_op_def dispatch_op_def ops_defs
        put_analyses_def ready_state_def ready_memory_def Let_def)
  then show ?thesis by (rule reachable.step [OF c])
qed

abbreviation ready_symbols :: symbol_vector where
  "ready_symbols \<equiv> fst (the (find_module 3 1 loaded_cubins))"

abbreviation ready_graph :: instruction_graph where
  "ready_graph \<equiv> snd (the (find_module 3 1 loaded_cubins))"

definition record_buffer :: "gpu_patch_record list \<Rightarrow> gpu_patch_buffer" where
  "record_buffer rs = \<lparr>gb_head_index = of_nat (length rs), gb_flags = 0, gb_records = DefaultRecords rs\<rparr>"

lemma ready_facts:
  "fst ` set (rs_enabled ready_state) \<subseteq> {REDSHOW_ANALYSIS_TEMPORAL_REDUNDANCY, REDSHOW_ANALYSIS_SPATIAL_REDUNDANCY}"
  "find_module 3 1 (rs_cubins ready_state) = Some (ready_symbols, ready_graph)"
  "map_prev (<) (rs_memory ready_state) 9 = Some (9, ready_memory)" "map_prev (<) (rs_memory ready_state) 8 = None"
  "\<not> rs_log_callback ready_state" "rs_config ready_state = init_value_config"
proof -
  have "find_module 3 1 loaded_cubins \<noteq> None" unfolding loaded_cubins_def by code_simp
  then show "find_module 3 1 (rs_cubins ready_state) = Some (ready_symbols, ready_graph)" by (auto simp: ready_state_def)
qed (simp_all add: ready_state_def sample_state_def init_redshow_def map_prev_def)

lemma ready_record_ok: "record_ok (sample_record\<lparr>gr_pc := a\<rparr>)" "record_ok sample_record"
  by (simp_all add: record_ok_def sample_record_def GPU_PATCH_WARP_SIZE_def)

lemma ready_stops:
  "first_stop ready_graph ready_symbols [sample_record] = None"
  "first_stop ready_graph ready_symbols [sample_record\<lparr>gr_pc := 0x48\<rparr>] = Some (Inl OutOfRange)"
  "first_stop ready_graph ready_symbols [sample_record\<lparr>gr_pc := 8\<rparr>] = Some (Inr REDSHOW_ERROR_FAILED_ANALYZE_CUBIN)"
  unfolding loaded_cubins_def by code_simp+

abbreviation ready_run :: "u64 \<Rightarrow> gpu_patch_record list \<Rightarrow> (redshow_result \<times> (unit analysis_state, world) redshow) outcome" where
  "ready_run hid rs \<equiv> redshow_analyze json_files (program_ops idle_ops) 0 3 1 5 hid 0 (record_buffer rs) ready_state"

theorem redshow_analyze_returns_witness:
  "(\<exists>st'. ready_run 9 [sample_record] = Inr (REDSHOW_ERROR_NOT_REGISTER_CALLBACK, st') \<and> redshow_ok typed_state st')
   \<and> ready_run 9 [sample_record\<lparr>gr_pc := 0x48\<rparr>] = Inl OutOfRange
   \<and> (\<exists>st'. ready_run 9 [sample_record\<lparr>gr_pc := 8\<rparr>] = Inr (REDSHOW_ERROR_FAILED_ANALYZE_CUBIN, st'))
   \<and> ready_run 8 [sample_record] = Inr (REDSHOW_ERROR_NOT_EXIST_ENTRY, ready_state)"
proof -
  have b: "gb_records (record_buffer [r]) = DefaultRecords [r]" "unat (gb_head_index (record_buffer [r])) = 1" for r
    by (simp_all add: record_buffer_def)
  note ret = redshow_analyze_returns [OF ready_state_reachable ready_facts(1,2) b(1), unfolded b, where thr = 0 and kid = 5 and sid = 0]
  from ret [of sample_record 9] ret [of "sample_record\<lparr>gr_pc := 0x48\<rparr>" 9] ret [of "sample_record\<lparr>gr_pc := 8\<rparr>" 9] ret [of sample_record 8]
  show ?thesis using ready_facts(3-5) ready_record_ok ready_stops
    by (auto simp: trace_result_def)
qed

subsection \<open>From a trace to the counters of the temporal redundancy\<close>

fun call_events :: "analysis_call \<Rightarrow> temporal_event list" where
  "call_events (UnitAccess a) =
     [TUnit (ua_thread a) (ua_kind a) (ua_pc a) (ua_value a) (ua_addr a) (ua_index a) (ua_flags a)]"
| "call_events (BlockExit t) = [TExit t]"
| "call_events c = []"

text \<open>A temporal analysis at work on a kernel, with its trace; the other kernels are those of an earlier state.\<close>

definition working_on :: "temporal \<Rightarrow> u32 \<Rightarrow> i32 \<Rightarrow> temporal_kernel \<Rightarrow> temporal \<Rightarrow> bool" where
  "working_on x t k tr y =
     (map_ok2 (<) (<) (tp_kernels y) \<and> tp_current y = Some (t, k)
      \<and> (\<forall>a b. map_at2 (<) (<) (tp_kernels y) a b = (if a = t \<and> b = k then Some tr else map_at2 (<) (<) (tp_kernels x) a b)))"

lemma temporal_modify_at:
  assumes "working_on x t k tr y"
  shows "\<exists>z. temporal_modify f y = Inr z \<and> working_on x t k (f tr) z"
  using assms by (simp add: working_on_def temporal_modify_def thread_kernel.map_ok2_set2 thread_kernel.map_at2_set2)

lemma temporal_call_event:
  assumes "record_call_of c" "working_on x t k tr y"
  shows "\<exists>z. temporal_call c y = Inr z \<and> working_on x t k (fold kernel_event (call_events c) tr) z"
proof (cases c)
  case (UnitAccess a)
  show ?thesis
  proof (cases "has_flag (ua_flags a) GPU_PATCH_READ \<or> has_flag (ua_flags a) GPU_PATCH_WRITE")
    case True
    with UnitAccess temporal_modify_at [OF assms(2)] show ?thesis by (simp add: temporal_unit_access_def)
  next
    case False
    with UnitAccess assms(2) show ?thesis by (simp add: temporal_unit_access_def kernel_unit_access_def Let_def)
  qed
next
  case (BlockExit th)
  with temporal_modify_at [OF assms(2)] show ?thesis by (simp add: temporal_block_exit_def)
qed (use assms(1) in \<open>simp_all add: record_call_of_def\<close>)

lemma temporal_call_history:
  assumes "\<forall>c \<in> set cs. record_call_of c" "working_on x t k tr y"
  shows "\<exists>z. ffold temporal_call cs y = Inr z \<and> working_on x t k (fold kernel_event (concat (map call_events cs)) tr) z"
  using assms
proof (induction cs arbitrary: y tr)
  case (Cons c cs)
  have c: "record_call_of c" "\<forall>c \<in> set cs. record_call_of c" using Cons.prems(1) by simp_all
  from temporal_call_event [OF c(1) Cons.prems(2)] obtain z where z: "temporal_call c y = Inr z"
    "working_on x t k (fold kernel_event (call_events c) tr) z" by blast
  from Cons.IH [OF c(2) z(2)] z(1) show ?case by simp
qed simp

lemma list_all2_partner: "list_all2 P xs ys \<Longrightarrow> a \<in> set xs \<Longrightarrow> \<exists>b \<in> set ys. P a b"
  by (induction rule: list_all2_induct) auto

text \<open>
  C5. From the buffer to the counters: when the library analyses complete records of a known module in any state it can
  reach with no analysis enabled but the redundancy analyses, the temporal redundancy counts the kernel exactly as the
  definition of a redundant access says for the history of the buffer, that is for the accesses and block exits of
  the records in order, up to the first one that stops the loop, with the lanes of a warp in order and the units of
  an access in order; counters of other kernels stay as they are. The kernel is new to its thread, a snapshot exists for the operation,
  the buffer holds the records it counts, they are as the patch writes them (\<open>record_ok\<close>), and none that is reached stops the loop with an exception.
\<close>

theorem redshow_analyze_temporal_counts:
  fixes kid :: i32 and thr sid :: u32 and cf :: "'t cubin_files" and others :: "redshow_analysis_type \<Rightarrow> ('x, world) analysis_ops"
  assumes "reachable cf (program_new new_others) (program_ops others) w st"
    and "fst ` set (rs_enabled st) \<subseteq> {REDSHOW_ANALYSIS_TEMPORAL_REDUNDANCY, REDSHOW_ANALYSIS_SPATIAL_REDUNDANCY}"
    and "find_module cid mid (rs_cubins st) = Some (symbols, g)" "map_prev (<) (rs_memory st) hid = Some (k0, mm)"
    and "gb_records b = DefaultRecords rs" "unat (gb_head_index b) \<le> length rs"
    and "\<forall>r \<in> set (take (unat (gb_head_index b)) rs). record_ok r"
    and "\<And>e. first_stop g symbols (take (unat (gb_head_index b)) rs) \<noteq> Some (Inl e)"
    and "map_at analysis_lt (rs_enabled st) REDSHOW_ANALYSIS_TEMPORAL_REDUNDANCY = Some (TemporalState x)"
    and "map_at2 (<) (<) (tp_kernels x) thr kid = None"
  defines "hist \<equiv> rev (concat (map call_events
      (concat (map (record_calls (rs_config st) kid hid g symbols mm) (processed g symbols (gb_head_index b) rs)))))"
  shows "\<exists>result st' x' tr. redshow_analyze cf (program_ops others) thr cid mid kid hid sid b st = Inr (result, st')
    \<and> map_at analysis_lt (rs_enabled st') REDSHOW_ANALYSIS_TEMPORAL_REDUNDANCY = Some (TemporalState x')
    \<and> map_at2 (<) (<) (tp_kernels x') thr kid = Some tr
    \<and> (\<forall>pc prev v k. count_at (<) (<) value_kind_lt (tk_read_pairs tr) pc prev (v, k)
          = of_nat (count_list (redundant GPU_PATCH_READ hist) (pc, prev, (v, k))))
    \<and> (\<forall>pc prev v k. count_at (<) (<) value_kind_lt (tk_write_pairs tr) pc prev (v, k)
          = of_nat (count_list (redundant GPU_PATCH_WRITE hist) (pc, prev, (v, k))))
    \<and> (\<forall>pc. map_touch (<) 0 (tk_read_count tr) pc = of_nat (access_number GPU_PATCH_READ hist pc)
          \<and> map_touch (<) 0 (tk_write_count tr) pc = of_nat (access_number GPU_PATCH_WRITE hist pc))
    \<and> (\<forall>t k. (t, k) \<noteq> (thr, kid) \<longrightarrow> map_at2 (<) (<) (tp_kernels x') t k = map_at2 (<) (<) (tp_kernels x) t k)"
proof -
  let ?calls = "concat (map (record_calls (rs_config st) kid hid g symbols mm) (processed g symbols (gb_head_index b) rs))"
  let ?start = "AnalysisBegin thr kid hid sid cid mid GPU_PATCH_TYPE_DEFAULT" and ?T = REDSHOW_ANALYSIS_TEMPORAL_REDUNDANCY
  let ?cs = "?start # ?calls @ [AnalysisEnd thr kid]"
  have ok: "redshow_ok typed_state st" using assms(1) by (rule program.reachable_ok)
  obtain st' where st': "redshow_analyze cf (program_ops others) thr cid mid kid hid sid b st =
      Inr (trace_result (rs_log_callback st) (first_stop g symbols (take (unat (gb_head_index b)) rs)), st')"
    "ffold (dispatch_call (program_ops others)) ?cs (rs_enabled st, rs_world st) = Inr (rs_enabled st', rs_world st')"
    using redshow_analyze_complete(2) [OF ok assms(2-8), where cf = cf and others = others and thr = thr and kid = kid and sid = sid]
    by blast
  have mo: "map_ok analysis_lt (rs_enabled st)" "map_ok analysis_lt (rs_enabled st')"
    using ok program.analyze_ok [OF ok st'(1)] by (auto simp: redshow_ok_def enabled_ok_def)
  have xm: "(?T, TemporalState x) \<in> set (rs_enabled st)" using assms(9) analysis_order.map_at_iff_mem [OF mo(1)] by simp
  have "fst ` set (rs_enabled st) \<subseteq> modelled_types" using assms(2) by (auto simp: modelled_types_def)
  from dispatch_call_independent [OF this, THEN iffD1, OF st'(2)] list_all2_partner [OF _ xm]
  obtain s' where s': "(?T, s') \<in> set (rs_enabled st')"
    "ffold (ao_call (program_ops others ?T)) ?cs (TemporalState x, rs_world st) = Inr (s', rs_world st)" by fastforce
  have x: "map_ok2 (<) (<) (tp_kernels x)"
    using ok xm by (auto simp: redshow_ok_def enabled_ok_def typed_state_def temporal_wf_def table_ok_def)
  obtain x1 where x1: "temporal_call ?start x = Inr x1" "working_on x thr kid (new_temporal_kernel cid mid) x1"
    using assms(10) x
    by (simp add: working_on_def temporal_analysis_begin_def thread_kernel.map_ok2_set2 thread_kernel.map_at2_set2)
  have rc: "\<forall>c \<in> set ?calls. record_call_of c" by (auto dest: record_calls_of)
  obtain x2 where x2: "ffold temporal_call ?calls x1 = Inr x2"
    "working_on x thr kid (fold kernel_event (rev hist) (new_temporal_kernel cid mid)) x2"
    using temporal_call_history [OF rc x1(2)] by (auto simp: hist_def)
  have run: "ffold temporal_call ?cs x = Inr (temporal_analysis_end x2)" using x1(1) x2(1) by (simp add: ffold_append)
  have "s' = TemporalState (temporal_analysis_end x2)"
    using s'(2) run by (simp add: program_ops_def ffold_wrapped del: ffold.simps)
  then have "map_at analysis_lt (rs_enabled st') ?T = Some (TemporalState (temporal_analysis_end x2))"
    using s'(1) analysis_order.map_at_iff_mem [OF mo(2)] by simp
  moreover have "map_at2 (<) (<) (tp_kernels (temporal_analysis_end x2)) t k =
      (if t = thr \<and> k = kid then Some (fold kernel_event (rev hist) (new_temporal_kernel cid mid)) else map_at2 (<) (<) (tp_kernels x) t k)" for t k
    using x2(2) by (simp add: working_on_def temporal_analysis_end_def)
  moreover have "kernel_ok hist (fold kernel_event (rev hist) (new_temporal_kernel cid mid))"
    using kernel_ok_fold [OF kernel_ok_new, of "rev hist" cid mid] by simp
  ultimately show ?thesis using st'(1) unfolding kernel_ok_def side_ok_def
    by (intro exI conjI) (assumption | simp)+
qed

text \<open>Two loads of the same two words by the same thread: each unit of the second is redundant.\<close>

abbreviation ready_history :: "temporal_event list" where
  "ready_history \<equiv> rev (concat (map call_events (concat (map (record_calls init_value_config 5 9 ready_graph ready_symbols ready_memory)
     (processed ready_graph ready_symbols 2 [sample_record, sample_record])))))"

lemma ready_history_counts:
  "count_list (redundant GPU_PATCH_READ ready_history) (0x40, 0x40, (0, AccessKind 32 32 REDSHOW_DATA_FLOAT)) = 1"
  "access_number GPU_PATCH_READ ready_history 0x40 = 4"
  "first_stop ready_graph ready_symbols [sample_record, sample_record] = None"
  unfolding loaded_cubins_def by code_simp+

theorem redshow_analyze_temporal_counts_witness:
  "\<exists>result st' x' tr. ready_run 9 [sample_record, sample_record] = Inr (result, st')
    \<and> map_at analysis_lt (rs_enabled st') REDSHOW_ANALYSIS_TEMPORAL_REDUNDANCY = Some (TemporalState x')
    \<and> map_at2 (<) (<) (tp_kernels x') 0 5 = Some tr
    \<and> count_at (<) (<) value_kind_lt (tk_read_pairs tr) 0x40 0x40 (0, AccessKind 32 32 REDSHOW_DATA_FLOAT) = 1
    \<and> map_touch (<) 0 (tk_read_count tr) 0x40 = 4"
proof -
  let ?rs = "[sample_record, sample_record]"
  have b: "gb_records (record_buffer ?rs) = DefaultRecords ?rs" "gb_head_index (record_buffer ?rs) = 2"
    by (simp_all add: record_buffer_def)
  have head: "unat (gb_head_index (record_buffer ?rs)) \<le> length ?rs" by (simp add: b)
  have ok: "\<forall>r \<in> set (take (unat (gb_head_index (record_buffer ?rs))) ?rs). record_ok r" using ready_record_ok by (simp add: b)
  have go: "first_stop ready_graph ready_symbols (take (unat (gb_head_index (record_buffer ?rs))) ?rs) \<noteq> Some (Inl e)" for e
    using ready_history_counts(3) by (simp add: b)
  have x: "map_at analysis_lt (rs_enabled ready_state) REDSHOW_ANALYSIS_TEMPORAL_REDUNDANCY = Some (TemporalState init_temporal)"
    "map_at2 (<) (<) (tp_kernels init_temporal) 0 5 = None"
    by (simp_all add: ready_state_def sample_state_def init_temporal_def map_at2_def map_touch_def analysis_lt_def)
  from redshow_analyze_temporal_counts [OF ready_state_reachable ready_facts(1-3) b(1) head ok go x, of 0]
  obtain result st' x' tr where r: "ready_run 9 ?rs = Inr (result, st')"
    "map_at analysis_lt (rs_enabled st') REDSHOW_ANALYSIS_TEMPORAL_REDUNDANCY = Some (TemporalState x')"
    "map_at2 (<) (<) (tp_kernels x') 0 5 = Some tr"
    "count_at (<) (<) value_kind_lt (tk_read_pairs tr) 0x40 0x40 (0, AccessKind 32 32 REDSHOW_DATA_FLOAT) =
       of_nat (count_list (redundant GPU_PATCH_READ ready_history) (0x40, 0x40, (0, AccessKind 32 32 REDSHOW_DATA_FLOAT)))"
    "map_touch (<) 0 (tk_read_count tr) 0x40 = of_nat (access_number GPU_PATCH_READ ready_history 0x40)"
    unfolding b(2) ready_facts(6) by blast
  with ready_history_counts show ?thesis by (intro exI conjI) (assumption | simp)+
qed

end
