(* ===== verification/Memory_Heatmap.thy ===== *)
theory Memory_Heatmap
  imports Redundancy
begin

section \<open>The memory heatmap\<close>

text \<open>
  \<^verbatim>\<open>src/analysis/memory_heatmap.cpp\<close>: how often every unit of a memory object is accessed. The theory models the state,
  the callbacks and the report, and shows that the cells of an object count the accesses as long as its accesses have one unit size,
  and which accesses with another unit size are written past the array.
  The array of an object is the block that \<^verbatim>\<open>malloc\<close> returns, which is assumed to succeed; writing or reading past it is
  \<open>OutOfRange\<close>. Its cells are 32-bit words that are read as signed.
\<close>

subsection \<open>State\<close>

record heat_map_memory =
  hm_size :: u64
  hm_array :: "u32 list"

record memory_heatmap =
  mh_op_node :: "(u64, i32) omap"
  mh_memories :: "(u64, memory) omap"
  mh_sub_memories :: "(u64, memory) omap"
  mh_heatmaps :: "(u64, heat_map_memory) omap"
  mh_total_access :: u64

definition MemoryHeatmap :: memory_heatmap where
  "MemoryHeatmap = \<lparr>mh_op_node = [], mh_memories = [], mh_sub_memories = [], mh_heatmaps = [], mh_total_access = 0\<rparr>"

subsection \<open>Operations\<close>

definition mh_update_op_node :: "u64 \<Rightarrow> i32 \<Rightarrow> memory_heatmap \<Rightarrow> memory_heatmap" where
  "mh_update_op_node oid ctx s =
     (if oid > REDSHOW_MEMORY_HOST then s\<lparr>mh_op_node := map_set (<) (mh_op_node s) oid ctx\<rparr> else s)"

definition mh_memory_op_callback :: "memory \<Rightarrow> bool \<Rightarrow> memory_heatmap \<Rightarrow> memory_heatmap" where
  "mh_memory_op_callback op is_submemory s =
     (let s1 = mh_update_op_node (op_id op) (ctx_id op) s
      in if \<not> is_submemory then s1\<lparr>mh_memories := map_emplace (<) (mh_memories s1) (op_id op) op\<rparr>
         else s1\<lparr>mh_sub_memories := map_emplace (<) (mh_sub_memories s1) (op_id op) op\<rparr>)"

definition mh_op_callback :: "operation \<Rightarrow> bool \<Rightarrow> memory_heatmap \<Rightarrow> memory_heatmap" where
  "mh_op_callback op is_submemory s =
     (case op of MemoryOp m \<Rightarrow> mh_memory_op_callback m is_submemory s | _ \<Rightarrow> s)"

text \<open>The method reads the size of the trace buffer, which it gets as \<^verbatim>\<open>aux\<close>.\<close>

definition mh_analysis_begin :: "u32 \<Rightarrow> memory_heatmap \<Rightarrow> memory_heatmap" where
  "mh_analysis_begin buffer_size s = s\<lparr>mh_total_access := mh_total_access s + ucast buffer_size\<rparr>"

subsection \<open>Accesses\<close>

text \<open>
  The loop \<^verbatim>\<open>for (int i = start; i < end; i++)\<close>: the comparison is one of 64-bit unsigned numbers, and the counter
  overflows when it passes \<^verbatim>\<open>INT_MAX\<close>.
\<close>

function heat_loop :: "int \<Rightarrow> u64 \<Rightarrow> u32 list \<Rightarrow> u32 list outcome" where
  "heat_loop i e a =
     (if \<not> (word_of_int i :: u64) < e then Inr a
      else if i < 0 \<or> length a \<le> nat i then Inl OutOfRange
      else let a' = a[nat i := a ! nat i + 1]
           in if i = 2 ^ 31 - 1 then Inl Overflow else heat_loop (i + 1) e a')"
  by pat_completeness auto

termination heat_loop
  by (relation "measure (\<lambda>(i, e, a). length a - nat i)") (auto simp: nat_add_distrib)

declare heat_loop.simps [simp del]

definition update_heatmap_list :: "u64 \<Rightarrow> memory_range \<Rightarrow> u32 \<Rightarrow> memory_heatmap \<Rightarrow> memory_heatmap outcome" where
  "update_heatmap_list oid r unit s =
     (let heatmap = map_touch (<) \<lparr>hm_size = 0, hm_array = []\<rparr> (mh_heatmaps s) oid
      in fbind (or_fault OutOfRange (map_at (<) (mh_memories s) oid)) (\<lambda>memory.
         if unit = 0 then Inl DivideByZero
         else
           let st = (mr_start r - mr_start (mem_range memory)) div ucast unit;
               en = (mr_end r - mr_start (mem_range memory)) div ucast unit
           in fbind (heat_loop (sint (ucast st :: u32)) en (hm_array heatmap)) (\<lambda>a.
                Inr (s\<lparr>mh_heatmaps := map_set (<) (mh_heatmaps s) oid (heatmap\<lparr>hm_array := a\<rparr>)\<rparr>))))"

text \<open>The size of the new array in bytes is a 64-bit product.\<close>

definition new_heatmap :: "u64 \<Rightarrow> heat_map_memory" where
  "new_heatmap len = \<lparr>hm_size = len, hm_array = replicate (unat (4 * len) div 4) 0\<rparr>"

definition mh_unit_access :: "access_kind \<Rightarrow> memory \<Rightarrow> memory_heatmap \<Rightarrow> memory_heatmap outcome" where
  "mh_unit_access k memory s =
     (if op_id memory \<le> REDSHOW_MEMORY_HOST then Inr s
      else
        fbind (if map_has (<) (mh_heatmaps s) (op_id memory) then Inr s
               else fbind (or_fault OutOfRange (map_at (<) (mh_memories s) (op_id memory))) (\<lambda>object.
                      if unit_size k = 0 then Inl DivideByZero
                      else Inr (s\<lparr>mh_heatmaps := map_set (<) (mh_heatmaps s) (op_id memory)
                                   (new_heatmap (mem_len object div ucast (unit_size k)))\<rparr>)))
          (update_heatmap_list (op_id memory) (mem_range memory) (unit_size k)))"

subsection \<open>The report\<close>

definition heat_cells :: "heat_map_memory \<Rightarrow> string outcome" where
  "heat_cells h =
     ffold (\<lambda>i out. if i < length (hm_array h)
              then Inr (out @ int_to_string (sint (hm_array h ! i)) @ '' '' @ (if i mod 100 = 99 then newline else []))
              else Inl OutOfRange)
       [0..<unat (hm_size h)] []"

definition mh_flush :: "string \<Rightarrow> memory_heatmap \<Rightarrow> (string \<times> string) outcome" where
  "mh_flush output_dir s =
     fbind (ffold (\<lambda>(mid, h) out.
              fbind (or_fault OutOfRange (map_at (<) (mh_op_node s) mid)) (\<lambda>ctx.
              fbind (heat_cells h) (\<lambda>cells.
                Inr (out @ ''mem_id '' @ u64_to_string mid @ ''('' @ int_to_string ctx @ '')'' @ newline
                     @ cells @ newline @ newline))))
            (mh_heatmaps s) (''_total_access:'' @ u64_to_string (mh_total_access s div 16384) @ newline)) (\<lambda>out.
       Inr (output_dir @ ''memory_heatmap.csv'', out))"

subsection \<open>Cells count accesses\<close>

definition heated :: "u32 list \<Rightarrow> nat \<Rightarrow> nat \<Rightarrow> u32 list" where
  "heated a m n = map (\<lambda>j. a ! j + (if m \<le> j \<and> j < n then 1 else 0)) [0..<length a]"

lemma heated_empty: "n \<le> m \<Longrightarrow> heated a m n = a"
  by (rule nth_equalityI) (simp_all add: heated_def)

lemma heated_step: "m < n \<Longrightarrow> m < length a \<Longrightarrow> heated (a[m := a ! m + 1]) (Suc m) n = heated a m n"
  by (rule nth_equalityI) (auto simp: heated_def nth_list_update)

lemma heat_guard: "m < 2 ^ 31 \<Longrightarrow> (word_of_nat m :: u64) < e \<longleftrightarrow> m < unat e"
  by (simp add: word_less_nat_alt unsigned_of_nat take_bit_nat_eq_self)

lemma heat_loop_heated:
  assumes "m < 2 ^ 31" "unat e \<le> length a" "length a < 2 ^ 31"
  shows "heat_loop (int m) e a = Inr (heated a m (unat e))"
  using assms
proof (induction "unat e - m" arbitrary: m a)
  case 0
  then show ?case by (subst heat_loop.simps) (simp add: heat_guard heated_empty)
next
  case (Suc d)
  then have m: "m < unat e" "m < length a" by simp_all
  with Suc.prems have "heat_loop (int m) e a = heat_loop (int (Suc m)) e (a[m := a ! m + 1])"
    by (subst heat_loop.simps) (simp add: heat_guard add.commute)
  also have "\<dots> = Inr (heated (a[m := a ! m + 1]) (Suc m) (unat e))"
    using Suc m by (intro Suc.hyps(1)) auto
  finally show ?case using m by (simp add: heated_step)
qed

text \<open>A cell past the end of the array faults.\<close>

lemma heat_loop_overrun:
  assumes "m < 2 ^ 31" "length a < 2 ^ 31" "m < unat e" "length a < unat e"
  shows "heat_loop (int m) e a = Inl OutOfRange"
  using assms
proof (induction "length a - m" arbitrary: m a)
  case 0
  then show ?case by (subst heat_loop.simps) (simp add: heat_guard)
next
  case (Suc d)
  then have m: "m < length a" by simp
  with Suc.prems have "heat_loop (int m) e a = heat_loop (int (Suc m)) e (a[m := a ! m + 1])"
    by (subst heat_loop.simps) (simp add: heat_guard add.commute)
  also have "\<dots> = Inl OutOfRange"
    using Suc m by (intro Suc.hyps(1)) auto
  finally show ?case .
qed

text \<open>
  The invariant of the analysis while all accesses have the unit size \<open>u\<close>: every known object has fewer than \<open>2 ^ 31\<close> units
  and ends where its length says, and the array of an object has one cell for each unit.
\<close>

definition heat_object_ok :: "u32 \<Rightarrow> memory \<Rightarrow> bool" where
  "heat_object_ok u m =
     (unat (mem_len m) div unat u < 2 ^ 31 \<and> mr_end (mem_range m) - mr_start (mem_range m) = mem_len m \<and> range_wf (mem_range m))"

definition heat_ok :: "u32 \<Rightarrow> memory_heatmap \<Rightarrow> bool" where
  "heat_ok u s =
     (map_ok (<) (mh_memories s) \<and> map_ok (<) (mh_heatmaps s)
      \<and> (\<forall>mid m. map_at (<) (mh_memories s) mid = Some m \<longrightarrow> heat_object_ok u m)
      \<and> (\<forall>mid h. map_at (<) (mh_heatmaps s) mid = Some h \<longrightarrow>
           (\<exists>m. map_at (<) (mh_memories s) mid = Some m \<and> length (hm_array h) = unat (mem_len m) div unat u \<and> hm_size h = mem_len m div ucast u)))"

text \<open>The cells of an object, zeros before the first access.\<close>

definition heat_cell :: "memory_heatmap \<Rightarrow> u64 \<Rightarrow> nat \<Rightarrow> u32" where
  "heat_cell s mid i = (case map_at (<) (mh_heatmaps s) mid of None \<Rightarrow> 0 | Some h \<Rightarrow> if i < length (hm_array h) then hm_array h ! i else 0)"

text \<open>An access that lies in its object covers a unit.\<close>

definition heat_inside :: "memory_heatmap \<Rightarrow> memory \<Rightarrow> bool" where
  "heat_inside s a =
     (\<exists>m. map_at (<) (mh_memories s) (op_id a) = Some m \<and> mr_start (mem_range m) \<le> mr_start (mem_range a)
        \<and> mr_start (mem_range a) \<le> mr_end (mem_range a) \<and> mr_end (mem_range a) \<le> mr_end (mem_range m))"

definition heat_hits :: "u32 \<Rightarrow> memory_heatmap \<Rightarrow> memory \<Rightarrow> u64 \<Rightarrow> nat \<Rightarrow> bool" where
  "heat_hits u s a mid i =
     (op_id a = mid \<and> mid > REDSHOW_MEMORY_HOST
      \<and> (case map_at (<) (mh_memories s) mid of None \<Rightarrow> False
         | Some m \<Rightarrow>
             unat (mr_start (mem_range a) - mr_start (mem_range m)) div unat u \<le> i
             \<and> i < unat (mr_end (mem_range a) - mr_start (mem_range m)) div unat u))"

lemma sint_ucast_small: "unat (x :: u64) < 2 ^ 31 \<Longrightarrow> sint (ucast x :: u32) = int (unat x)"
proof -
  assume "unat x < 2 ^ 31"
  then have "int (unat x) < int (2 ^ 31)" by (simp only: of_nat_less_iff)
  then have "int (unat x) < 2 ^ 31" by (simp only: of_nat_power of_nat_numeral)
  then have "uint x < 2 ^ 31" by (simp only: uint_nat)
  moreover have "- (2 ^ 31) \<le> uint x" by (rule order_trans [of _ 0]) simp_all
  moreover have "sint (ucast x :: u32) = signed_take_bit 31 (uint x)" by (simp add: signed_ucast_eq)
  ultimately show ?thesis using signed_take_bit_int_eq_self [of 31 "uint x"] by simp
qed

lemma unat_ucast_u32: "unat (ucast (u :: u32) :: u64) = unat u"
  by (simp add: unsigned_ucast_eq take_bit_nat_eq_self less_trans [OF unsigned_less])

lemma heat_units:
  assumes "heat_object_ok u m" "mr_start (mem_range m) \<le> x" "x \<le> mr_end (mem_range m)"
  shows "unat (x - mr_start (mem_range m)) div unat u \<le> unat (mem_len m) div unat u"
    "unat ((x - mr_start (mem_range m)) div ucast u) = unat (x - mr_start (mem_range m)) div unat u"
    "u \<noteq> 0 \<Longrightarrow> sint (ucast ((x - mr_start (mem_range m)) div ucast u) :: u32) = int (unat (x - mr_start (mem_range m)) div unat u)"
proof -
  have "x - mr_start (mem_range m) \<le> mem_len m"
    using assms by (metis heat_object_ok_def word_le_minus_mono_left)
  then show le: "unat (x - mr_start (mem_range m)) div unat u \<le> unat (mem_len m) div unat u"
    by (simp add: word_le_nat_alt div_le_mono)
  show d: "unat ((x - mr_start (mem_range m)) div ucast u) = unat (x - mr_start (mem_range m)) div unat u"
    by (simp add: unat_div unat_ucast_u32)
  assume "u \<noteq> 0"
  have "unat (x - mr_start (mem_range m)) div unat u < 2 ^ 31" using le assms(1) by (simp add: heat_object_ok_def)
  then show "sint (ucast ((x - mr_start (mem_range m)) div ucast u) :: u32) = int (unat (x - mr_start (mem_range m)) div unat u)"
    using d by (simp add: sint_ucast_small)
qed


lemma heat_units_new: "unat u \<noteq> 0 \<Longrightarrow> heat_object_ok u m \<Longrightarrow>
    length (hm_array (new_heatmap (mem_len m div ucast u))) = unat (mem_len m) div unat u"
proof -
  assume a: "unat u \<noteq> 0" "heat_object_ok u m"
  have d: "unat (mem_len m div ucast u) = unat (mem_len m) div unat u" by (simp add: unat_div unat_ucast_u32)
  with a(2) have "unat (mem_len m div ucast u) < 2 ^ 31" by (simp add: heat_object_ok_def)
  then have "unat (4 * (mem_len m div ucast u)) = 4 * unat (mem_len m div ucast u)"
    by (simp add: unat_word_ariths)
  with d show ?thesis by (simp add: new_heatmap_def)
qed

text \<open>The array that an access finds or makes.\<close>

definition heat_prepared :: "u32 \<Rightarrow> memory_heatmap \<Rightarrow> u64 \<Rightarrow> memory \<Rightarrow> heat_map_memory" where
  "heat_prepared u s mid m = (case map_at (<) (mh_heatmaps s) mid of Some h \<Rightarrow> h | None \<Rightarrow> new_heatmap (mem_len m div ucast u))"

lemma heat_prepared_ok:
  assumes "heat_ok u s" "u \<noteq> 0" "map_at (<) (mh_memories s) mid = Some m"
  shows "length (hm_array (heat_prepared u s mid m)) = unat (mem_len m) div unat u"
    "hm_size (heat_prepared u s mid m) = mem_len m div ucast u"
    "i < unat (mem_len m) div unat u \<Longrightarrow> hm_array (heat_prepared u s mid m) ! i = heat_cell s mid i"
proof -
  have o: "heat_object_ok u m" using assms(1,3) by (auto simp: heat_ok_def)
  have "unat u \<noteq> 0" using assms(2) by (simp add: unat_eq_0)
  note n = heat_units_new [OF this o]
  show len: "length (hm_array (heat_prepared u s mid m)) = unat (mem_len m) div unat u"
    using n assms(1,3) unfolding heat_prepared_def heat_ok_def by (fastforce split: option.splits)
  show "hm_size (heat_prepared u s mid m) = mem_len m div ucast u"
    using assms(1,3) unfolding heat_prepared_def heat_ok_def by (fastforce simp: new_heatmap_def split: option.splits)
  show "hm_array (heat_prepared u s mid m) ! i = heat_cell s mid i" if "i < unat (mem_len m) div unat u"
    using len that n by (auto simp: heat_prepared_def heat_cell_def new_heatmap_def split: option.splits)
qed

lemma mh_unit_access_ok:
  assumes "heat_ok (unit_size k) s" "unit_size k \<noteq> 0" "op_id a > REDSHOW_MEMORY_HOST \<Longrightarrow> heat_inside s a"
  shows "\<exists>s'. mh_unit_access k a s = Inr s' \<and> heat_ok (unit_size k) s' \<and> mh_memories s' = mh_memories s
    \<and> (\<forall>mid i. heat_cell s' mid i = heat_cell s mid i + of_bool (heat_hits (unit_size k) s a mid i))"
proof (cases "op_id a > REDSHOW_MEMORY_HOST")
  case False
  then have "\<not> heat_hits (unit_size k) s a mid i" for mid i by (auto simp: heat_hits_def)
  with False assms(1) show ?thesis by (simp add: mh_unit_access_def not_less)
next
  case True
  let ?u = "unit_size k" and ?mid = "op_id a" and ?r = "mem_range a"
  obtain m where m: "map_at (<) (mh_memories s) ?mid = Some m" "mr_start (mem_range m) \<le> mr_start ?r" "mr_start ?r \<le> mr_end ?r"
    "mr_end ?r \<le> mr_end (mem_range m)" using assms(3) True by (auto simp: heat_inside_def)
  have o: "heat_object_ok ?u m" using assms(1) m(1) by (auto simp: heat_ok_def)
  let ?st = "unat (mr_start ?r - mr_start (mem_range m)) div unat ?u" and ?en = "unat (mr_end ?r - mr_start (mem_range m)) div unat ?u"
  note us = heat_units [OF o m(2) order_trans [OF m(3,4)]] and ue = heat_units [OF o order_trans [OF m(2,3)] m(4)]
  let ?h = "heat_prepared ?u s ?mid m"
  note p = heat_prepared_ok [OF assms(1,2) m(1)]
  have ok: "map_ok (<) (mh_heatmaps s)" "map_ok (<) (mh_memories s)" using assms(1) by (auto simp: heat_ok_def)
  have big: "unat (mem_len m) div unat ?u < 2 ^ 31" using o by (simp add: heat_object_ok_def)
  have loop: "heat_loop (int ?st) ((mr_end ?r - mr_start (mem_range m)) div ucast ?u) (hm_array ?h) = Inr (heated (hm_array ?h) ?st ?en)"
    using heat_loop_heated [of ?st "(mr_end ?r - mr_start (mem_range m)) div ucast ?u" "hm_array ?h"] us(1) ue(1,2) p(1) big by simp
  let ?s = "s\<lparr>mh_heatmaps := map_set (<) (mh_heatmaps s) ?mid (?h\<lparr>hm_array := heated (hm_array ?h) ?st ?en\<rparr>)\<rparr>"
  have run: "mh_unit_access k a s = Inr ?s"
  proof (cases "map_at (<) (mh_heatmaps s) ?mid")
    case None
    then show ?thesis using True m(1) assms(2) loop us(3) [OF assms(2)] ok(1)
      by (simp add: mh_unit_access_def update_heatmap_list_def map_has_at heat_prepared_def map_touch_def u64_order.map_at_set
          u64_order.map_set_set not_le Let_def)
  next
    case (Some h)
    then show ?thesis using True m(1) assms(2) loop us(3) [OF assms(2)]
      by (simp add: mh_unit_access_def update_heatmap_list_def map_has_at heat_prepared_def map_touch_def not_le Let_def)
  qed
  have at: "map_at (<) (mh_heatmaps ?s) j = (if j = ?mid then Some (?h\<lparr>hm_array := heated (hm_array ?h) ?st ?en\<rparr>) else map_at (<) (mh_heatmaps s) j)" for j
    using ok(1) by (simp add: u64_order.map_at_set)
  have "heat_ok ?u ?s"
    using assms(1) at m(1) p(1,2) unfolding heat_ok_def by (auto simp: u64_order.map_ok_set heated_def)
  moreover have "heat_cell ?s mid i = heat_cell s mid i + of_bool (heat_hits ?u s a mid i)" for mid i
  proof (cases "mid = ?mid")
    case True
    have "heat_cell ?s ?mid i = (if i < unat (mem_len m) div unat ?u then heat_cell s ?mid i + of_bool (?st \<le> i \<and> i < ?en) else 0)"
      using p(1) p(3) [of i] unfolding heat_cell_def [of ?s] at by (simp add: heated_def)
    moreover have "heat_cell s ?mid i = 0" if "\<not> i < unat (mem_len m) div unat ?u"
      using that assms(1) m(1) unfolding heat_ok_def by (fastforce simp: heat_cell_def split: option.splits)
    moreover have "heat_hits ?u s a ?mid i \<longleftrightarrow> ?st \<le> i \<and> i < ?en"
      using \<open>op_id a > REDSHOW_MEMORY_HOST\<close> m(1) by (simp add: heat_hits_def)
    ultimately show ?thesis using True ue(1) by auto
  next
    case False
    then show ?thesis using at by (simp add: heat_cell_def heat_hits_def)
  qed
  ultimately show ?thesis using run by auto
qed

text \<open>
  C17. The heatmap counts. As long as all accesses have one unit size and lie in known objects of fewer than \<open>2 ^ 31\<close> units,
  every access returns, nothing is written outside the arrays, and a cell grows, modulo \<open>2 ^ 32\<close>, by the number of
  accesses that cover its unit; accesses to pseudo objects change nothing.
\<close>

theorem heatmap_counts:
  assumes "heat_ok (unit_size k) s" "unit_size k \<noteq> 0" "\<forall>a \<in> set as. op_id a > REDSHOW_MEMORY_HOST \<longrightarrow> heat_inside s a"
  shows "\<exists>s'. ffold (mh_unit_access k) as s = Inr s' \<and> heat_ok (unit_size k) s'
    \<and> (\<forall>mid i. heat_cell s' mid i = heat_cell s mid i + of_nat (length (filter (\<lambda>a. heat_hits (unit_size k) s a mid i) as)))"
  using assms
proof (induction as arbitrary: s)
  case (Cons a as)
  have "op_id a > REDSHOW_MEMORY_HOST \<Longrightarrow> heat_inside s a" using Cons.prems(3) by simp
  from mh_unit_access_ok [OF Cons.prems(1,2) this] obtain s1 where
    s1: "mh_unit_access k a s = Inr s1" "heat_ok (unit_size k) s1" "mh_memories s1 = mh_memories s"
      "\<forall>mid i. heat_cell s1 mid i = heat_cell s mid i + of_bool (heat_hits (unit_size k) s a mid i)" by blast
  have same: "heat_inside s1 = heat_inside s" "heat_hits (unit_size k) s1 = heat_hits (unit_size k) s"
    by (simp_all add: fun_eq_iff heat_inside_def heat_hits_def s1(3))
  from Cons.IH [OF s1(2) Cons.prems(2)] Cons.prems(3) obtain s' where
    "ffold (mh_unit_access k) as s1 = Inr s'" "heat_ok (unit_size k) s'"
      "\<forall>mid i. heat_cell s' mid i = heat_cell s1 mid i + of_nat (length (filter (\<lambda>a. heat_hits (unit_size k) s a mid i) as))"
    unfolding same by auto
  with s1(1,4) show ?case by auto
qed simp

definition heat_object :: memory where
  "heat_object = \<lparr>op_id = 7, ctx_id = 1, op_type = OPERATION_TYPE_MEMORY, mem_stream_id = 0,
     mem_range = MemoryRange 0x100 0x140, mem_len = 0x40, mem_value = 0, mem_value_cache = 0\<rparr>"

definition heat_sample :: memory_heatmap where
  "heat_sample = MemoryHeatmap\<lparr>mh_memories := [(7, heat_object)]\<rparr>"

definition heat_access :: "u64 \<Rightarrow> u64 \<Rightarrow> memory" where
  "heat_access a b = \<lparr>op_id = 7, ctx_id = 1, op_type = OPERATION_TYPE_MEMORY, mem_stream_id = 0,
     mem_range = MemoryRange a b, mem_len = b - a, mem_value = 0, mem_value_cache = 0\<rparr>"

lemma heat_sample_ok: "heat_ok 4 heat_sample"
  by (simp add: heat_ok_def heat_sample_def heat_object_def MemoryHeatmap_def heat_object_ok_def range_wf_def map_ok_def)

lemma heat_sample_accesses:
  "heat_inside heat_sample (heat_access 0x108 0x10c)" "heat_inside heat_sample (heat_access 0x108 0x110)"
  "heat_hits 4 heat_sample (heat_access 0x108 0x10c) 7 2" "heat_hits 4 heat_sample (heat_access 0x108 0x110) 7 2"
  "heat_cell heat_sample 7 2 = 0"
  by (simp_all add: heat_inside_def heat_sample_def heat_object_def MemoryHeatmap_def heat_access_def heat_cell_def heat_hits_def REDSHOW_MEMORY_HOST_def)

theorem heatmap_counts_witness:
  "\<exists>s'. ffold (mh_unit_access (AccessKind 4 4 REDSHOW_DATA_UNKNOWN)) [heat_access 0x108 0x10c, heat_access 0x108 0x110] heat_sample = Inr s'
    \<and> heat_cell s' 7 2 = 2"
proof -
  have k: "unit_size (AccessKind 4 4 REDSHOW_DATA_UNKNOWN) = 4" by (simp add: AccessKind_def)
  show ?thesis
    using heatmap_counts [of "AccessKind 4 4 REDSHOW_DATA_UNKNOWN" heat_sample "[heat_access 0x108 0x10c, heat_access 0x108 0x110]"]
    unfolding k by (auto simp: heat_sample_ok heat_sample_accesses simp del: ffold.simps)
qed

text \<open>
  Accesses without a unit size are a division by zero: so every access of a trace of merged regions, whose kind has
  unit size zero, faults in the heatmap when its object is known. The condition in the head of the class asks for such traces.
\<close>

lemma heatmap_no_unit_size:
  assumes "op_id a > REDSHOW_MEMORY_HOST" "map_at (<) (mh_memories s) (op_id a) \<noteq> None"
  shows "mh_unit_access unknown_kind a s = Inl DivideByZero"
  using assms
  by (cases "map_has (<) (mh_heatmaps s) (op_id a)")
     (auto simp: mh_unit_access_def update_heatmap_list_def unknown_kind_def AccessKind_def not_le Let_def)

text \<open>Every access of a real object leaves an array for it, and arrays stay.\<close>

lemma mh_unit_access_array:
  assumes "map_ok (<) (mh_heatmaps s)" "mh_unit_access k a s = Inr s'"
  shows "map_at (<) (mh_heatmaps s) mid \<noteq> None \<or> mid = op_id a \<and> mid > REDSHOW_MEMORY_HOST \<Longrightarrow> map_at (<) (mh_heatmaps s') mid \<noteq> None"
    "map_ok (<) (mh_heatmaps s')"
  using assms
  by (auto simp: mh_unit_access_def update_heatmap_list_def fbind_eq_Inr Let_def map_has_at not_le u64_order.map_at_set
      u64_order.map_ok_set split: if_splits)

lemma heat_fold_arrays:
  assumes "heat_ok (unit_size k) s" "unit_size k \<noteq> 0" "\<forall>a \<in> set as. op_id a > REDSHOW_MEMORY_HOST \<longrightarrow> heat_inside s a"
    and "map_at (<) (mh_heatmaps s) mid \<noteq> None \<or> mid > REDSHOW_MEMORY_HOST \<and> mid \<in> op_id ` set as"
  shows "\<exists>s'. ffold (mh_unit_access k) as s = Inr s' \<and> heat_ok (unit_size k) s' \<and> mh_memories s' = mh_memories s
    \<and> map_at (<) (mh_heatmaps s') mid \<noteq> None"
  using assms
proof (induction as arbitrary: s)
  case (Cons a as)
  have "op_id a > REDSHOW_MEMORY_HOST \<Longrightarrow> heat_inside s a" using Cons.prems(3) by simp
  from mh_unit_access_ok [OF Cons.prems(1,2) this] obtain s1 where
    s1: "mh_unit_access k a s = Inr s1" "heat_ok (unit_size k) s1" "mh_memories s1 = mh_memories s" by blast
  have same: "heat_inside s1 = heat_inside s" by (simp add: fun_eq_iff heat_inside_def s1(3))
  have "map_ok (<) (mh_heatmaps s)" using Cons.prems(1) by (simp add: heat_ok_def)
  from mh_unit_access_array(1) [OF this s1(1), of mid] Cons.prems(4)
  have "map_at (<) (mh_heatmaps s1) mid \<noteq> None \<or> mid > REDSHOW_MEMORY_HOST \<and> mid \<in> op_id ` set as" by auto
  from Cons.IH [OF s1(2) Cons.prems(2) _ this] Cons.prems(3) s1(1,3) show ?case unfolding same by auto
qed auto

text \<open>
  C35. The first access of an object fixes the number of its cells, by its unit size. After any accesses with one unit
  size, among them one of the object, an access of a range of the object with another unit size writes behind the array
  exactly when it covers a unit and ends past the last cell; otherwise it returns. Only a smaller unit
  size can do that. The object has fewer than \<open>2 ^ 31\<close> units of either size.
\<close>

theorem heatmap_finer_unit:
  assumes "heat_ok (unit_size k) s" "unit_size k \<noteq> 0" "\<forall>a \<in> set as. op_id a > REDSHOW_MEMORY_HOST \<longrightarrow> heat_inside s a"
    and "op_id b > REDSHOW_MEMORY_HOST" "op_id b \<in> op_id ` set as" "heat_inside s b"
    and "map_at (<) (mh_memories s) (op_id b) = Some m" "unit_size k' \<noteq> 0" "heat_object_ok (unit_size k') m"
  defines "cells \<equiv> unat (mem_len m) div unat (unit_size k)"
    and "first \<equiv> unat (mr_start (mem_range b) - mr_start (mem_range m)) div unat (unit_size k')"
    and "last' \<equiv> unat (mr_end (mem_range b) - mr_start (mem_range m)) div unat (unit_size k')"
  shows "\<exists>s'. ffold (mh_unit_access k) as s = Inr s'
    \<and> (if first < last' \<and> cells < last' then mh_unit_access k' b s' = Inl OutOfRange \<and> unit_size k' < unit_size k
       else \<exists>s''. mh_unit_access k' b s' = Inr s'')"
proof -
  let ?u = "unit_size k'" and ?r = "mem_range b"
  have "map_at (<) (mh_heatmaps s) (op_id b) \<noteq> None \<or> op_id b > REDSHOW_MEMORY_HOST \<and> op_id b \<in> op_id ` set as" using assms(4,5) by simp
  from heat_fold_arrays [OF assms(1-3) this] obtain s' h where s': "ffold (mh_unit_access k) as s = Inr s'" "heat_ok (unit_size k) s'"
    "mh_memories s' = mh_memories s" "map_at (<) (mh_heatmaps s') (op_id b) = Some h" by blast
  have m: "map_at (<) (mh_memories s') (op_id b) = Some m" using assms(7) s'(3) by simp
  have len: "length (hm_array h) = cells" using s'(2,4) m by (fastforce simp: heat_ok_def cells_def)
  have o: "heat_object_ok (unit_size k) m" using s'(2) m by (auto simp: heat_ok_def)
  then have small: "cells < 2 ^ 31" by (simp add: heat_object_ok_def cells_def)
  have r: "mr_start (mem_range m) \<le> mr_start ?r" "mr_start ?r \<le> mr_end ?r" "mr_end ?r \<le> mr_end (mem_range m)"
    using assms(6,7) by (auto simp: heat_inside_def)
  note us = heat_units [OF assms(9) r(1) order_trans [OF r(2,3)]] and ue = heat_units [OF assms(9) order_trans [OF r(1,2)] r(3)]
  have firsts: "first < 2 ^ 31" using us(1) assms(9) by (simp add: first_def heat_object_ok_def)
  have en: "unat ((mr_end ?r - mr_start (mem_range m)) div ucast ?u) = last'" using ue(2) by (simp add: last'_def)
  have st: "sint (ucast ((mr_start ?r - mr_start (mem_range m)) div ucast ?u) :: u32) = int first"
    using us(3) [OF assms(8)] by (simp add: first_def)
  have run: "mh_unit_access k' b s' = fbind (heat_loop (int first) ((mr_end ?r - mr_start (mem_range m)) div ucast ?u) (hm_array h)) (\<lambda>a.
      Inr (s'\<lparr>mh_heatmaps := map_set (<) (mh_heatmaps s') (op_id b) (h\<lparr>hm_array := a\<rparr>)\<rparr>))"
    using not_le [THEN iffD2, OF assms(4)] assms(8) s'(4) m st
    by (simp add: mh_unit_access_def update_heatmap_list_def map_has_at map_touch_def Let_def)
  have "mh_unit_access k' b s' = Inl OutOfRange" if "first < last'" "cells < last'"
    using heat_loop_overrun [of first "hm_array h" "(mr_end ?r - mr_start (mem_range m)) div ucast ?u"] that firsts small en run len by simp
  moreover have "\<exists>s''. mh_unit_access k' b s' = Inr s''" if "\<not> (first < last' \<and> cells < last')"
  proof (cases "first < last'")
    case True
    with that heat_loop_heated [OF firsts, of "(mr_end ?r - mr_start (mem_range m)) div ucast ?u" "hm_array h"] small en run len
    show ?thesis by simp
  next
    case False
    then have "heat_loop (int first) ((mr_end ?r - mr_start (mem_range m)) div ucast ?u) (hm_array h) = Inr (hm_array h)"
      using firsts en by (subst heat_loop.simps) (simp add: heat_guard)
    with run show ?thesis by simp
  qed
  moreover have "?u < unit_size k" if "cells < last'"
  proof (rule ccontr)
    assume "\<not> ?u < unit_size k"
    moreover have "0 < unat (unit_size k)" using assms(2) by (simp add: unat_gt_0)
    ultimately have "unat (mem_len m) div unat ?u \<le> cells"
      unfolding cells_def by (intro div_le_mono2) (simp_all add: word_le_nat_alt not_less)
    with that ue(1) show False by (simp add: last'_def)
  qed
  ultimately show ?thesis using s'(1) by auto
qed

theorem heatmap_finer_unit_witness:
  "\<exists>s'. ffold (mh_unit_access (AccessKind 8 8 REDSHOW_DATA_UNKNOWN)) [heat_access 0x100 0x108] heat_sample = Inr s'
    \<and> mh_unit_access (AccessKind 4 4 REDSHOW_DATA_UNKNOWN) (heat_access 0x120 0x140) s' = Inl OutOfRange"
proof -
  let ?k = "AccessKind 8 8 REDSHOW_DATA_UNKNOWN" and ?k' = "AccessKind 4 4 REDSHOW_DATA_UNKNOWN"
  have u: "unit_size ?k = 8" "unit_size ?k' = 4" by (simp_all add: AccessKind_def)
  have "heat_ok 8 heat_sample" "heat_object_ok 4 heat_object"
    by (simp_all add: heat_ok_def heat_sample_def heat_object_def MemoryHeatmap_def heat_object_ok_def range_wf_def map_ok_def)
  moreover have "heat_inside heat_sample (heat_access 0x100 0x108)" "heat_inside heat_sample (heat_access 0x120 0x140)"
    "map_at (<) (mh_memories heat_sample) (op_id (heat_access 0x120 0x140)) = Some heat_object"
    by (simp_all add: heat_inside_def heat_sample_def heat_object_def MemoryHeatmap_def heat_access_def)
  ultimately show ?thesis
    using heatmap_finer_unit [of ?k heat_sample "[heat_access 0x100 0x108]" "heat_access 0x120 0x140" heat_object ?k'] unfolding u
    by (auto simp: heat_access_def heat_object_def REDSHOW_MEMORY_HOST_def simp del: ffold.simps)
qed

end
