(* ===== verification/Dependency_Graph.thy ===== *)
theory Dependency_Graph
  imports Containers
begin

section \<open>The dependency graph of the memory liveness analysis\<close>

text \<open>
  The class \<^verbatim>\<open>DependencyGraph\<close> of \<^verbatim>\<open>include/analysis/memory_liveness.h\<close> with its node, edge and index types, and the
  layering of its nodes in \<^verbatim>\<open>dump_topological_order\<close>. The loop of the layering takes the nodes without incoming edges away until
  the graph is empty; on a graph with a cycle it does not end, which is the value \<open>None\<close>.
\<close>

datatype memory_operation =
    REDSHOW_MEMORY_ALLOC
  | REDSHOW_MEMORY_SET
  | REDSHOW_MEMORY_COPYT
  | REDSHOW_MEMORY_COPYF
  | REDSHOW_MEMORY_ACCESS
  | REDSHOW_MEMORY_FREE
  | REDSHOW_SUBMEMORY_ALLOC
  | REDSHOW_SUBMEMORY_FREE
  | REDSHOW_OPERATION_NUMS

record ml_node =
  nd_op_id :: u64
  nd_stream_id :: u32
  nd_op_type :: memory_operation

definition ml_Node :: "u64 \<Rightarrow> memory_operation \<Rightarrow> ml_node" where
  "ml_Node oid ty = \<lparr>nd_op_id = oid, nd_stream_id = 0, nd_op_type = ty\<rparr>"

datatype ml_edge_type = STREAM_DEPENDENCY | DATA_DEPENDENCY

datatype ml_access_type = READ | WRITE

record ml_edge_index =
  ei_from :: u64
  ei_to :: u64
  ei_type :: ml_edge_type

abbreviation EdgeIndex :: "u64 \<Rightarrow> u64 \<Rightarrow> ml_edge_type \<Rightarrow> ml_edge_index" where
  "EdgeIndex a b ty \<equiv> \<lparr>ei_from = a, ei_to = b, ei_type = ty\<rparr>"

definition ei_lt :: "ml_edge_index \<Rightarrow> ml_edge_index \<Rightarrow> bool" where
  "ei_lt x y =
     (if ei_from x = ei_from y then
        if ei_to x = ei_to y then ei_type x = STREAM_DEPENDENCY \<and> ei_type y = DATA_DEPENDENCY
        else ei_to x < ei_to y
      else ei_from x < ei_from y)"

text \<open>An edge is the objects that it is about, with the access.\<close>

type_synonym ml_edge = "(u64, ml_access_type) omap"

record dependency_graph =
  dg_incoming :: "(u64, ml_edge_index oset) omap"
  dg_outcoming :: "(u64, ml_edge_index oset) omap"
  dg_edges :: "(ml_edge_index, ml_edge) omap"
  dg_nodes :: "(u64, ml_node) omap"

definition dg_empty :: dependency_graph where
  "dg_empty = \<lparr>dg_incoming = [], dg_outcoming = [], dg_edges = [], dg_nodes = []\<rparr>"

definition dg_add_node :: "u64 \<Rightarrow> ml_node \<Rightarrow> dependency_graph \<Rightarrow> dependency_graph" where
  "dg_add_node i node g =
     g\<lparr>dg_nodes := map_emplace (<) (dg_nodes g) i node,
       dg_incoming := map_set (<) (dg_incoming g) i [],
       dg_outcoming := map_set (<) (dg_outcoming g) i []\<rparr>"

definition dg_add_edge :: "ml_edge_index \<Rightarrow> ml_edge \<Rightarrow> dependency_graph \<Rightarrow> dependency_graph" where
  "dg_add_edge e edge g =
     g\<lparr>dg_edges := map_emplace ei_lt (dg_edges g) e edge,
       dg_incoming := map_upd (<) [] (dg_incoming g) (ei_to e) (\<lambda>s. set_insert ei_lt s e),
       dg_outcoming := map_upd (<) [] (dg_outcoming g) (ei_from e) (\<lambda>s. set_insert ei_lt s e)\<rparr>"

definition dg_has_node :: "u64 \<Rightarrow> dependency_graph \<Rightarrow> bool" where
  "dg_has_node i g = map_has (<) (dg_nodes g) i"

definition dg_has_edge :: "ml_edge_index \<Rightarrow> dependency_graph \<Rightarrow> bool" where
  "dg_has_edge e g = map_has ei_lt (dg_edges g) e"

definition dg_edge :: "ml_edge_index \<Rightarrow> dependency_graph \<Rightarrow> ml_edge outcome" where
  "dg_edge e g = or_fault OutOfRange (map_at ei_lt (dg_edges g) e)"

definition dg_node :: "u64 \<Rightarrow> dependency_graph \<Rightarrow> ml_node outcome" where
  "dg_node i g = or_fault OutOfRange (map_at (<) (dg_nodes g) i)"

definition dg_remove_edge :: "ml_edge_index \<Rightarrow> dependency_graph \<Rightarrow> dependency_graph" where
  "dg_remove_edge e g =
     g\<lparr>dg_incoming := map_upd (<) [] (dg_incoming g) (ei_to e) (\<lambda>s. set_erase ei_lt s e),
       dg_outcoming := map_upd (<) [] (dg_outcoming g) (ei_from e) (\<lambda>s. set_erase ei_lt s e),
       dg_edges := map_erase ei_lt (dg_edges g) e\<rparr>"

definition dg_remove_node :: "u64 \<Rightarrow> dependency_graph \<Rightarrow> dependency_graph" where
  "dg_remove_node i g =
     (let e_list = map_touch (<) [] (dg_incoming g) i @ map_touch (<) [] (dg_outcoming g) i;
          g' = fold dg_remove_edge e_list g
      in g'\<lparr>dg_incoming := map_erase (<) (dg_incoming g') i,
            dg_outcoming := map_erase (<) (dg_outcoming g') i,
            dg_nodes := map_erase (<) (dg_nodes g') i\<rparr>)"

definition dg_get_no_inedge_nodes :: "dependency_graph \<Rightarrow> u64 list" where
  "dg_get_no_inedge_nodes g = map fst (filter (\<lambda>e. snd e = []) (dg_incoming g))"

definition dg_is_empty :: "dependency_graph \<Rightarrow> bool" where
  "dg_is_empty g = (dg_nodes g = [])"

text \<open>The loop of \<^verbatim>\<open>dump_topological_order\<close>: the layers, by their index.\<close>

partial_function (option) dg_layers :: "dependency_graph \<Rightarrow> u64 list list option" where
  "dg_layers g =
     (if dg_is_empty g then Some []
      else Option.bind (dg_layers (fold dg_remove_node (dg_get_no_inedge_nodes g) g))
             (\<lambda>ls. Some (dg_get_no_inedge_nodes g # ls)))"

subsection \<open>Consistency\<close>

interpretation ei_order: strict_total ei_lt
proof
  show "\<not> ei_lt x x" for x by (simp add: ei_lt_def)
  show "ei_lt x y \<Longrightarrow> ei_lt y z \<Longrightarrow> ei_lt x z" for x y z by (auto simp: ei_lt_def split: if_splits)
  show "ei_lt x z \<Longrightarrow> ei_lt x y \<or> ei_lt y z" for x y z
    by (cases "ei_type x"; cases "ei_type y"; cases "ei_type z") (auto simp: ei_lt_def split: if_splits)
  show "\<not> ei_lt x y \<Longrightarrow> \<not> ei_lt y x \<Longrightarrow> x = y" for x y
    by (cases "ei_type x"; cases "ei_type y") (auto simp: ei_lt_def split: if_splits)
qed

definition dg_node_set :: "dependency_graph \<Rightarrow> u64 set" where
  "dg_node_set g = fst ` set (dg_nodes g)"

definition dg_edge_set :: "dependency_graph \<Rightarrow> ml_edge_index set" where
  "dg_edge_set g = fst ` set (dg_edges g)"

definition incidence_ok :: "(u64, ml_edge_index oset) omap \<Rightarrow> (ml_edge_index \<Rightarrow> u64) \<Rightarrow> u64 set \<Rightarrow> ml_edge_index set \<Rightarrow> bool" where
  "incidence_ok m f V E =
     (map_ok (<) m \<and> (\<forall>n. n \<notin> V \<longrightarrow> map_at (<) m n = None)
      \<and> (\<forall>n \<in> V. \<exists>s. map_at (<) m n = Some s \<and> set_ok ei_lt s \<and> set s = {e \<in> E. f e = n}))"

definition dg_ok :: "dependency_graph \<Rightarrow> bool" where
  "dg_ok g =
     (map_ok (<) (dg_nodes g) \<and> map_ok ei_lt (dg_edges g)
      \<and> incidence_ok (dg_incoming g) ei_to (dg_node_set g) (dg_edge_set g)
      \<and> incidence_ok (dg_outcoming g) ei_from (dg_node_set g) (dg_edge_set g)
      \<and> (\<forall>e \<in> dg_edge_set g. ei_from e \<in> dg_node_set g \<and> ei_to e \<in> dg_node_set g))"

lemma incidence_insert:
  assumes "incidence_ok m f V E" "f e \<in> V"
  shows "incidence_ok (map_upd (<) [] m (f e) (\<lambda>s. set_insert ei_lt s e)) f V (insert e E)"
proof -
  obtain s where s: "map_at (<) m (f e) = Some s" "set_ok ei_lt s" "set s = {x \<in> E. f x = f e}"
    using assms by (auto simp: incidence_ok_def)
  have "set_ok ei_lt (set_insert ei_lt s e)" "set (set_insert ei_lt s e) = {x \<in> insert e E. f x = f e}"
    using s by (auto simp: ei_order.set_ok_insert ei_order.set_set_insert_eq)
  moreover have "map_touch (<) [] m (f e) = s" using s by (simp add: map_touch_def)
  ultimately show ?thesis
    using assms unfolding incidence_ok_def
    by (auto simp: u64_order.map_at_upd u64_order.map_ok_upd)
qed

lemma incidence_erase:
  assumes "incidence_ok m f V E" "f e \<in> V"
  shows "incidence_ok (map_upd (<) [] m (f e) (\<lambda>s. set_erase ei_lt s e)) f V (E - {e})"
proof -
  obtain s where s: "map_at (<) m (f e) = Some s" "set_ok ei_lt s" "set s = {x \<in> E. f x = f e}"
    using assms by (auto simp: incidence_ok_def)
  have "set_ok ei_lt (set_erase ei_lt s e)" "set (set_erase ei_lt s e) = {x \<in> E - {e}. f x = f e}"
    using s by (auto simp: ei_order.set_ok_erase ei_order.set_set_erase_eq)
  moreover have "map_touch (<) [] m (f e) = s" using s by (simp add: map_touch_def)
  moreover have "{x \<in> E - {e}. f x = n} = {x \<in> E. f x = n}" if "n \<noteq> f e" for n using that by auto
  ultimately show ?thesis
    using assms unfolding incidence_ok_def
    by (auto simp: u64_order.map_at_upd u64_order.map_ok_upd)
qed

lemma dg_add_node_ok:
  assumes "dg_ok g" "i \<notin> dg_node_set g"
  shows "dg_ok (dg_add_node i node g)" "dg_node_set (dg_add_node i node g) = insert i (dg_node_set g)"
    "dg_edge_set (dg_add_node i node g) = dg_edge_set g"
proof -
  have n: "map_ok (<) (dg_nodes g)" using assms(1) by (simp add: dg_ok_def)
  show V: "dg_node_set (dg_add_node i node g) = insert i (dg_node_set g)"
    using n by (simp add: dg_node_set_def dg_add_node_def u64_order.map_keys_emplace)
  show E: "dg_edge_set (dg_add_node i node g) = dg_edge_set g" by (simp add: dg_edge_set_def dg_add_node_def)
  have inc: "incidence_ok (map_set (<) m i []) f (insert i (dg_node_set g)) (dg_edge_set g)"
    if "incidence_ok m f (dg_node_set g) (dg_edge_set g)" "\<forall>e \<in> dg_edge_set g. f e \<in> dg_node_set g" for m f
    using that assms(2) unfolding incidence_ok_def by (auto simp: u64_order.map_at_set u64_order.map_ok_set)
  show "dg_ok (dg_add_node i node g)"
    using assms(1) n inc unfolding dg_ok_def V E by (auto simp: dg_add_node_def u64_order.map_ok_emplace)
qed

lemma dg_add_edge_ok:
  assumes "dg_ok g" "ei_from e \<in> dg_node_set g" "ei_to e \<in> dg_node_set g"
  shows "dg_ok (dg_add_edge e edge g)" "dg_node_set (dg_add_edge e edge g) = dg_node_set g"
    "dg_edge_set (dg_add_edge e edge g) = insert e (dg_edge_set g)"
proof -
  have m: "map_ok ei_lt (dg_edges g)" using assms(1) by (simp add: dg_ok_def)
  show V: "dg_node_set (dg_add_edge e edge g) = dg_node_set g" by (simp add: dg_node_set_def dg_add_edge_def)
  show E: "dg_edge_set (dg_add_edge e edge g) = insert e (dg_edge_set g)"
    using m by (simp add: dg_edge_set_def dg_add_edge_def ei_order.map_keys_emplace)
  show "dg_ok (dg_add_edge e edge g)"
    using assms m incidence_insert [of _ ei_to _ _ e] incidence_insert [of _ ei_from _ _ e]
    unfolding dg_ok_def V E by (auto simp: dg_add_edge_def ei_order.map_ok_emplace)
qed

lemma dg_remove_edge_ok:
  assumes "dg_ok g" "ei_from e \<in> dg_node_set g" "ei_to e \<in> dg_node_set g"
  shows "dg_ok (dg_remove_edge e g)" "dg_node_set (dg_remove_edge e g) = dg_node_set g"
    "dg_edge_set (dg_remove_edge e g) = dg_edge_set g - {e}"
proof -
  have m: "map_ok ei_lt (dg_edges g)" using assms(1) by (simp add: dg_ok_def)
  show V: "dg_node_set (dg_remove_edge e g) = dg_node_set g" by (simp add: dg_node_set_def dg_remove_edge_def)
  show E: "dg_edge_set (dg_remove_edge e g) = dg_edge_set g - {e}"
    using m by (simp add: dg_edge_set_def dg_remove_edge_def ei_order.map_keys_erase)
  show "dg_ok (dg_remove_edge e g)"
    using assms m incidence_erase [of _ ei_to _ _ e] incidence_erase [of _ ei_from _ _ e]
    unfolding dg_ok_def V E by (auto simp: dg_remove_edge_def ei_order.map_ok_erase)
qed

lemma dg_remove_edges_ok:
  assumes "dg_ok g" "\<forall>e \<in> set es. ei_from e \<in> dg_node_set g \<and> ei_to e \<in> dg_node_set g"
  shows "dg_ok (fold dg_remove_edge es g)" "dg_node_set (fold dg_remove_edge es g) = dg_node_set g"
    "dg_edge_set (fold dg_remove_edge es g) = dg_edge_set g - set es"
proof -
  have "dg_ok (fold dg_remove_edge es g) \<and> dg_node_set (fold dg_remove_edge es g) = dg_node_set g
      \<and> dg_edge_set (fold dg_remove_edge es g) = dg_edge_set g - set es"
    using assms
  proof (induction es arbitrary: g)
    case (Cons e es)
    note r = dg_remove_edge_ok [OF Cons.prems(1), of e]
    from Cons.IH [of "dg_remove_edge e g"] r Cons.prems show ?case by auto
  qed simp
  then show "dg_ok (fold dg_remove_edge es g)" "dg_node_set (fold dg_remove_edge es g) = dg_node_set g"
    "dg_edge_set (fold dg_remove_edge es g) = dg_edge_set g - set es" by auto
qed

lemma dg_incident:
  assumes "dg_ok g" "i \<in> dg_node_set g"
  shows "set (map_touch (<) [] (dg_incoming g) i) = {e \<in> dg_edge_set g. ei_to e = i}"
    "set (map_touch (<) [] (dg_outcoming g) i) = {e \<in> dg_edge_set g. ei_from e = i}"
  using assms by (auto simp: dg_ok_def incidence_ok_def map_touch_def)

lemma dg_remove_node_ok:
  assumes "dg_ok g" "i \<in> dg_node_set g"
  shows "dg_ok (dg_remove_node i g)" "dg_node_set (dg_remove_node i g) = dg_node_set g - {i}"
    "dg_edge_set (dg_remove_node i g) = {e \<in> dg_edge_set g. ei_from e \<noteq> i \<and> ei_to e \<noteq> i}"
proof -
  let ?es = "map_touch (<) [] (dg_incoming g) i @ map_touch (<) [] (dg_outcoming g) i"
  let ?g = "fold dg_remove_edge ?es g"
  have ends: "\<forall>e \<in> dg_edge_set g. ei_from e \<in> dg_node_set g \<and> ei_to e \<in> dg_node_set g" using assms(1) by (simp add: dg_ok_def)
  have "\<forall>e \<in> set ?es. ei_from e \<in> dg_node_set g \<and> ei_to e \<in> dg_node_set g" using ends dg_incident [OF assms] by auto
  note r = dg_remove_edges_ok [OF assms(1) this]
  have g: "dg_ok ?g" "dg_node_set ?g = dg_node_set g" "dg_edge_set ?g = {e \<in> dg_edge_set g. ei_from e \<noteq> i \<and> ei_to e \<noteq> i}"
    using r dg_incident [OF assms] by (simp_all del: fold_append) auto
  have n: "map_ok (<) (dg_nodes ?g)" using g(1) by (simp add: dg_ok_def)
  have def: "dg_remove_node i g = ?g\<lparr>dg_incoming := map_erase (<) (dg_incoming ?g) i,
      dg_outcoming := map_erase (<) (dg_outcoming ?g) i, dg_nodes := map_erase (<) (dg_nodes ?g) i\<rparr>"
    by (simp add: dg_remove_node_def Let_def)
  show V: "dg_node_set (dg_remove_node i g) = dg_node_set g - {i}"
    using n g(2) by (simp add: def dg_node_set_def u64_order.map_keys_erase)
  show E: "dg_edge_set (dg_remove_node i g) = {e \<in> dg_edge_set g. ei_from e \<noteq> i \<and> ei_to e \<noteq> i}"
    using g(3) by (simp add: def dg_edge_set_def)
  have inc: "incidence_ok (map_erase (<) m i) f (dg_node_set g - {i}) (dg_edge_set ?g)"
    if "incidence_ok m f (dg_node_set g) (dg_edge_set ?g)" for m f
    using that unfolding incidence_ok_def by (auto simp: u64_order.map_at_erase u64_order.map_ok_erase)
  show "dg_ok (dg_remove_node i g)"
    using g(1) n inc unfolding dg_ok_def V E g(2) g(3) [symmetric]
    by (auto simp: def u64_order.map_ok_erase) (use g(3) in auto)
qed

subsection \<open>Layers\<close>

definition dg_rel :: "dependency_graph \<Rightarrow> (u64 \<times> u64) set" where
  "dg_rel g = (\<lambda>e. (ei_from e, ei_to e)) ` dg_edge_set g"

definition dg_sources :: "dependency_graph \<Rightarrow> u64 set" where
  "dg_sources g = {n \<in> dg_node_set g. \<forall>e \<in> dg_edge_set g. ei_to e \<noteq> n}"

lemma dg_no_inedge_nodes:
  assumes "dg_ok g"
  shows "set (dg_get_no_inedge_nodes g) = dg_sources g" "distinct (dg_get_no_inedge_nodes g)"
proof -
  have inc: "incidence_ok (dg_incoming g) ei_to (dg_node_set g) (dg_edge_set g)" using assms by (simp add: dg_ok_def)
  have ok: "map_ok (<) (dg_incoming g)" using inc by (simp add: incidence_ok_def)
  have "n \<in> set (dg_get_no_inedge_nodes g) \<longleftrightarrow> map_at (<) (dg_incoming g) n = Some []" for n
    using u64_order.map_at_iff_mem [OF ok, of n "[]"] by (force simp: dg_get_no_inedge_nodes_def)
  moreover have "map_at (<) (dg_incoming g) n = Some [] \<longleftrightarrow> n \<in> dg_sources g" for n
  proof (cases "n \<in> dg_node_set g")
    case True
    then obtain s where "map_at (<) (dg_incoming g) n = Some s" "set s = {e \<in> dg_edge_set g. ei_to e = n}"
      using inc by (auto simp: incidence_ok_def)
    with True show ?thesis by (auto simp: dg_sources_def simp flip: set_empty)
  qed (use inc in \<open>auto simp: incidence_ok_def dg_sources_def\<close>)
  ultimately show "set (dg_get_no_inedge_nodes g) = dg_sources g" by blast
  have "sorted_wrt (<) (map fst (dg_incoming g))" using ok by (simp add: map_ok_def sorted_wrt_map)
  then have "distinct (map fst (dg_incoming g))" by (simp add: strict_sorted_iff)
  then show "distinct (dg_get_no_inedge_nodes g)"
    unfolding dg_get_no_inedge_nodes_def by (rule distinct_map_filter)
qed

lemma dg_remove_nodes_ok:
  assumes "dg_ok g" "set ns \<subseteq> dg_node_set g" "distinct ns"
  shows "dg_ok (fold dg_remove_node ns g)" "dg_node_set (fold dg_remove_node ns g) = dg_node_set g - set ns"
    "dg_edge_set (fold dg_remove_node ns g) = {e \<in> dg_edge_set g. ei_from e \<notin> set ns \<and> ei_to e \<notin> set ns}"
proof -
  have "dg_ok (fold dg_remove_node ns g) \<and> dg_node_set (fold dg_remove_node ns g) = dg_node_set g - set ns
      \<and> dg_edge_set (fold dg_remove_node ns g) = {e \<in> dg_edge_set g. ei_from e \<notin> set ns \<and> ei_to e \<notin> set ns}"
    using assms
  proof (induction ns arbitrary: g)
    case (Cons n ns)
    note r = dg_remove_node_ok [OF Cons.prems(1), of n]
    from Cons.IH [of "dg_remove_node n g"] r Cons.prems show ?case by auto
  qed simp
  then show "dg_ok (fold dg_remove_node ns g)" "dg_node_set (fold dg_remove_node ns g) = dg_node_set g - set ns"
    "dg_edge_set (fold dg_remove_node ns g) = {e \<in> dg_edge_set g. ei_from e \<notin> set ns \<and> ei_to e \<notin> set ns}" by auto
qed

text \<open>One round of the loop.\<close>

lemma dg_round:
  assumes "dg_ok g"
  defines "g' \<equiv> fold dg_remove_node (dg_get_no_inedge_nodes g) g"
  shows "dg_ok g'" "dg_node_set g' = dg_node_set g - dg_sources g"
    "dg_edge_set g' = {e \<in> dg_edge_set g. ei_from e \<notin> dg_sources g}"
proof -
  have "set (dg_get_no_inedge_nodes g) \<subseteq> dg_node_set g" using dg_no_inedge_nodes(1) [OF assms(1)] by (auto simp: dg_sources_def)
  note r = dg_remove_nodes_ok [OF assms(1) this dg_no_inedge_nodes(2) [OF assms(1)]]
  show "dg_ok g'" "dg_node_set g' = dg_node_set g - dg_sources g" using r dg_no_inedge_nodes [OF assms(1)] by (simp_all add: g'_def)
  show "dg_edge_set g' = {e \<in> dg_edge_set g. ei_from e \<notin> dg_sources g}"
    using r(3) dg_no_inedge_nodes [OF assms(1)] by (auto simp: g'_def dg_sources_def)
qed

lemma dg_empty_sets: "dg_ok g \<Longrightarrow> dg_is_empty g \<longleftrightarrow> dg_node_set g = {}"
  by (simp add: dg_is_empty_def dg_node_set_def)

lemma finite_dg_sets [simp]: "finite (dg_node_set g)" "finite (dg_edge_set g)"
  by (simp_all add: dg_node_set_def dg_edge_set_def)

text \<open>A graph with nodes but without a cycle has a source.\<close>

lemma dg_has_source:
  assumes "dg_ok g" "acyclic (dg_rel g)" "dg_node_set g \<noteq> {}"
  shows "dg_sources g \<noteq> {}"
proof -
  have "wf (dg_rel g)" using assms(2) by (intro finite_acyclic_wf) (simp_all add: dg_rel_def)
  then obtain n where n: "n \<in> dg_node_set g" "\<And>y. (y, n) \<in> dg_rel g \<Longrightarrow> y \<notin> dg_node_set g"
    using assms(3) by (auto simp: wf_eq_minimal)
  have "\<forall>e \<in> dg_edge_set g. ei_to e \<noteq> n"
  proof
    fix e assume "e \<in> dg_edge_set g"
    with assms(1) n(2) [of "ei_from e"] show "ei_to e \<noteq> n" by (auto simp: dg_ok_def dg_rel_def)
  qed
  with n(1) show ?thesis by (auto simp: dg_sources_def)
qed

lemma dg_layers_returns:
  assumes "dg_ok g" "acyclic (dg_rel g)"
  shows "\<exists>ls. dg_layers g = Some ls"
  using assms
proof (induction "card (dg_node_set g)" arbitrary: g rule: less_induct)
  case less
  show ?case
  proof (cases "dg_is_empty g")
    case True
    then show ?thesis by (simp add: dg_layers.simps)
  next
    case False
    let ?g = "fold dg_remove_node (dg_get_no_inedge_nodes g) g"
    note r = dg_round [OF less.prems(1)]
    have "dg_sources g \<noteq> {}" using dg_has_source [OF less.prems] dg_empty_sets [OF less.prems(1)] False by simp
    then have "card (dg_node_set ?g) < card (dg_node_set g)"
      unfolding r(2) by (intro psubset_card_mono) (auto simp: dg_sources_def)
    moreover have "dg_rel ?g \<subseteq> dg_rel g" unfolding dg_rel_def r(3) by auto
    then have "acyclic (dg_rel ?g)" using less.prems(2) acyclic_subset by blast
    ultimately show ?thesis using less.hyps [of ?g] r(1) False by (subst dg_layers.simps) auto
  qed
qed

text \<open>Every layer the loop returns is in order.\<close>

definition layers_ok :: "u64 list list \<Rightarrow> dependency_graph \<Rightarrow> bool" where
  "layers_ok ls g =
     (distinct (concat ls) \<and> set (concat ls) = dg_node_set g
      \<and> (\<forall>e \<in> dg_edge_set g. \<forall>i < length ls. \<forall>j < length ls. ei_from e \<in> set (ls ! i) \<and> ei_to e \<in> set (ls ! j) \<longrightarrow> i < j))"

lemma sources_cycle_free:
  assumes "dg_ok g" "acyclic (dg_rel (fold dg_remove_node (dg_get_no_inedge_nodes g) g))"
  shows "acyclic (dg_rel g)"
proof -
  let ?g = "fold dg_remove_node (dg_get_no_inedge_nodes g) g"
  note r = dg_round [OF assms(1)]
  have target: "y \<notin> dg_sources g" if "(x, y) \<in> dg_rel g" for x y using that by (auto simp: dg_rel_def dg_sources_def)
  have step: "(x, y) \<in> dg_rel ?g" if "(x, y) \<in> dg_rel g" "x \<notin> dg_sources g" for x y
    using that unfolding dg_rel_def r(3) by auto
  have path: "(x, y) \<in> (dg_rel ?g)\<^sup>+ \<and> y \<notin> dg_sources g" if "(x, y) \<in> (dg_rel g)\<^sup>+" "x \<notin> dg_sources g" for x y
    using that
  proof (induction rule: trancl_induct)
    case (base y)
    then show ?case using step target by blast
  next
    case (step y z)
    then have "(y, z) \<in> dg_rel ?g" using \<open>\<And>x y. (x, y) \<in> dg_rel g \<Longrightarrow> x \<notin> dg_sources g \<Longrightarrow> (x, y) \<in> dg_rel ?g\<close> by blast
    with step target show ?case by (meson trancl.trancl_into_trancl)
  qed
  show ?thesis
    unfolding acyclic_def
  proof (intro allI notI)
    fix x assume x: "(x, x) \<in> (dg_rel g)\<^sup>+"
    then have "x \<notin> dg_sources g" using target by (meson tranclD2)
    with path [OF x] assms(2) show False by (simp add: acyclic_def)
  qed
qed

lemma dg_layers_step:
  assumes "dg_ok g" "dg_is_empty g \<and> ls = [] \<or> \<not> dg_is_empty g \<and> (\<exists>ls'. ls = dg_get_no_inedge_nodes g # ls'
     \<and> layers_ok ls' (fold dg_remove_node (dg_get_no_inedge_nodes g) g) \<and> acyclic (dg_rel (fold dg_remove_node (dg_get_no_inedge_nodes g) g)))"
  shows "layers_ok ls g \<and> acyclic (dg_rel g)"
proof (cases "dg_is_empty g")
  case True
  then have V: "ls = []" "dg_node_set g = {}" using assms dg_empty_sets by auto
  moreover have "dg_edge_set g = {}" using assms(1) unfolding dg_ok_def V(2) by blast
  ultimately show ?thesis by (simp add: layers_ok_def dg_rel_def acyclic_def)
next
  case False
  let ?ns = "dg_get_no_inedge_nodes g" and ?g = "fold dg_remove_node (dg_get_no_inedge_nodes g) g"
  note r = dg_round [OF assms(1)] and ns = dg_no_inedge_nodes [OF assms(1)]
  obtain ls' where ls': "ls = ?ns # ls'" and ih: "layers_ok ls' ?g" "acyclic (dg_rel ?g)" using assms(2) False by blast
  have "distinct (concat ls)" "set (concat ls) = dg_node_set g"
    using ih(1) ns r(2) unfolding ls' layers_ok_def by (auto simp: dg_sources_def)
  moreover have "i < j" if e: "e \<in> dg_edge_set g" "i < length ls" "j < length ls" "ei_from e \<in> set (ls ! i)" "ei_to e \<in> set (ls ! j)" for e i j
  proof -
    have "ei_to e \<notin> set ?ns" using e(1) ns(1) by (auto simp: dg_sources_def)
    then obtain j' where j: "j = Suc j'" using e(5) ls' by (cases j) auto
    show ?thesis
    proof (cases i)
      case (Suc i')
      then have "ei_from e \<in> set (concat ls')" using e(2,4) ls' by auto
      then have "ei_from e \<notin> dg_sources g" using ih(1) r(2) by (auto simp: layers_ok_def)
      then have "e \<in> dg_edge_set ?g" using e(1) r(3) by simp
      then show ?thesis using ih(1) e j Suc ls' by (auto simp: layers_ok_def)
    qed (simp add: j)
  qed
  ultimately show ?thesis using sources_cycle_free [OF assms(1) ih(2)] unfolding layers_ok_def by blast
qed

lemma dg_layers_correct:
  assumes "dg_layers g = Some ls" "dg_ok g"
  shows "layers_ok ls g \<and> acyclic (dg_rel g)"
proof -
  have "dg_ok g \<longrightarrow> layers_ok ls g \<and> acyclic (dg_rel g)"
  proof (rule dg_layers.raw_induct [OF _ assms(1)], intro impI)
    fix rec :: "dependency_graph \<Rightarrow> u64 list list option" and g ls
    assume IH: "\<And>g ls. rec g = Some ls \<Longrightarrow> dg_ok g \<longrightarrow> layers_ok ls g \<and> acyclic (dg_rel g)"
      and res: "(if dg_is_empty g then Some [] else Option.bind (rec (fold dg_remove_node (dg_get_no_inedge_nodes g) g))
             (\<lambda>ls. Some (dg_get_no_inedge_nodes g # ls))) = Some ls"
      and ok: "dg_ok g"
    show "layers_ok ls g \<and> acyclic (dg_rel g)"
    proof (rule dg_layers_step [OF ok])
      show "dg_is_empty g \<and> ls = [] \<or> \<not> dg_is_empty g \<and> (\<exists>ls'. ls = dg_get_no_inedge_nodes g # ls'
          \<and> layers_ok ls' (fold dg_remove_node (dg_get_no_inedge_nodes g) g) \<and> acyclic (dg_rel (fold dg_remove_node (dg_get_no_inedge_nodes g) g)))"
        using res IH dg_round(1) [OF ok] by (auto split: if_splits Option.bind_splits)
    qed
  qed
  with assms(2) show ?thesis by blast
qed

text \<open>
  C18. The loop of \<^verbatim>\<open>dump_topological_order\<close> returns exactly when the dependency graph has no cycle. Then its layers hold every
  node once, and every edge leads from a layer to a later one. On a graph with a cycle, a loop from a node to itself included,
  the program never leaves \<^verbatim>\<open>flush\<close>.
\<close>

theorem dependency_layers:
  assumes "dg_ok g"
  shows "if acyclic (dg_rel g) then \<exists>ls. dg_layers g = Some ls \<and> layers_ok ls g else dg_layers g = None"
  using dg_layers_returns [OF assms] dg_layers_correct [OF _ assms] by (cases "dg_layers g") auto

definition dg_sample :: dependency_graph where
  "dg_sample = dg_add_edge (EdgeIndex 7 8 DATA_DEPENDENCY) [(7, WRITE)]
     (dg_add_node 8 (ml_Node 8 REDSHOW_MEMORY_FREE) (dg_add_node 7 (ml_Node 7 REDSHOW_MEMORY_ALLOC) dg_empty))"

lemma dg_empty_ok: "dg_ok dg_empty" "dg_node_set dg_empty = {}" "dg_edge_set dg_empty = {}"
  by (simp_all add: dg_empty_def dg_ok_def dg_node_set_def dg_edge_set_def incidence_ok_def)

lemma dg_sample_ok: "dg_ok dg_sample" "dg_node_set dg_sample = {7, 8}" "dg_rel dg_sample = {(7, 8)}"
proof -
  note a = dg_add_node_ok [OF dg_empty_ok(1), of 7 "ml_Node 7 REDSHOW_MEMORY_ALLOC", unfolded dg_empty_ok]
  have a1: "dg_ok (dg_add_node 7 (ml_Node 7 REDSHOW_MEMORY_ALLOC) dg_empty)"
    "dg_node_set (dg_add_node 7 (ml_Node 7 REDSHOW_MEMORY_ALLOC) dg_empty) = {7}"
    "dg_edge_set (dg_add_node 7 (ml_Node 7 REDSHOW_MEMORY_ALLOC) dg_empty) = {}" using a by simp_all
  have "8 \<notin> dg_node_set (dg_add_node 7 (ml_Node 7 REDSHOW_MEMORY_ALLOC) dg_empty)" by (simp add: a1)
  note b = dg_add_node_ok [OF a1(1) this, of "ml_Node 8 REDSHOW_MEMORY_FREE", unfolded a1]
  note c = dg_add_edge_ok [OF b(1), of "EdgeIndex 7 8 DATA_DEPENDENCY" "[(7, WRITE)]", unfolded b(2,3)]
  show "dg_ok dg_sample" "dg_node_set dg_sample = {7, 8}" "dg_rel dg_sample = {(7, 8)}"
    using c by (auto simp: dg_sample_def dg_rel_def)
qed

theorem dependency_layers_witness: "\<exists>ls. dg_layers dg_sample = Some ls \<and> layers_ok ls dg_sample"
proof -
  have "acyclic (dg_rel dg_sample)" by (simp add: dg_sample_ok acyclic_def trancl_insert)
  then show ?thesis using dependency_layers [OF dg_sample_ok(1)] by simp
qed

end
