(* ===== verification/Memory_Liveness.thy ===== *)
theory Memory_Liveness
  imports Dependency_Graph Redundancy
begin

section \<open>The memory liveness analysis\<close>

text \<open>
  \<^verbatim>\<open>src/analysis/memory_liveness.cpp\<close>, with the two macros that its header defines: kernels report the objects they hit in
  an auxiliary buffer (\<^verbatim>\<open>REDSHOW_GPU_ANALYSIS\<close>), and the tensors of PyTorch are tracked as sub-memories
  (\<^verbatim>\<open>REDSHOW_TORCH_SUBMEMORY_ANALYSIS\<close>). The Python frames that torch-monitor reports and the native frames that libunwind
  finds at a call are arguments of the callbacks. Lists are shorter than \<open>2 ^ 31\<close>, so the \<^verbatim>\<open>int\<close> indices of the loops do not overflow.
\<close>

subsection \<open>State\<close>

record memory_entry =
  me_op_id :: u64
  me_size :: u64

record op_streams =
  os_type1 :: memory_operation
  os_stream1 :: u32
  os_type2 :: memory_operation
  os_stream2 :: u32

definition op_streams_of :: "memory_operation \<Rightarrow> u32 \<Rightarrow> op_streams" where
  "op_streams_of ty st = \<lparr>os_type1 = ty, os_stream1 = st, os_type2 = REDSHOW_OPERATION_NUMS, os_stream2 = 0\<rparr>"

record python_state =
  ps_file_name :: string
  ps_function_name :: string
  ps_first_lineno :: u64
  ps_lineno :: u64

record libunwind_frame =
  lf_pc :: u64
  lf_offset :: u64
  lf_frame :: string

text \<open>What torch-monitor and libunwind report at a call.\<close>

record ml_env =
  env_python_states :: "python_state list"
  env_frames :: "libunwind_frame list"

record memory_liveness =
  ml_op_node :: "(u64, i32) omap"
  ml_kernel_op_node :: "(u64, i32) omap"
  ml_ctx_node :: "(i32, memory_operation) omap"
  ml_memory_size_list :: "memory_entry list"
  ml_memories :: "(u64, memory) omap"
  ml_current_memories :: "(u64, memory) omap"
  ml_addresses_map :: "(u64, u64) omap"
  ml_operations :: "(u64, (u64, memory_operation) omap) omap"
  ml_op_to_stream :: "(u64, op_streams) omap"
  ml_stream_to_op :: "(u32, u64 list) omap"
  ml_current_memory_usage :: u64
  ml_current_memory_peak :: u64
  ml_optimal_memory_peak :: u64
  ml_memory_peak_kernel :: u64
  ml_memory_size_log :: "(u64, string \<times> u64) omap"
  ml_submemories :: "(u64, memory) omap"
  ml_current_submemories :: "(u64, memory) omap"
  ml_sub_addresses_map :: "(u64, u64) omap"
  ml_sub_operations :: "(u64, (u64, memory_operation) omap) omap"
  ml_submemory_size_log :: "(u64, string \<times> u64) omap"
  ml_submemory_size_list :: "memory_entry list"
  ml_current_submemory_usage :: u64
  ml_current_submemory_peak :: u64
  ml_optimal_submemory_peak :: u64
  ml_submemory_peak_kernel :: u64
  ml_torch_python_states :: "(u64, python_state list) omap"
  ml_sub_op_node :: "(u64, string) omap"
  ml_libunwind_frames :: "(u64, libunwind_frame list) omap"
  ml_obj_ownership :: "(u64, u64) omap"
  ml_stream_ownership :: "(u32, u64) omap"
  ml_stream_nodes :: "(u32, u64 list) omap"
  ml_read_nodes :: "(u64, u64 list) omap"
  ml_edge_list :: "ml_edge_index list"
  ml_graph :: dependency_graph
  ml_global_op_id_start :: u64

definition MemoryLiveness :: memory_liveness where
  "MemoryLiveness =
     \<lparr>ml_op_node = [], ml_kernel_op_node = [], ml_ctx_node = [], ml_memory_size_list = [], ml_memories = [],
      ml_current_memories = [], ml_addresses_map = [], ml_operations = [], ml_op_to_stream = [], ml_stream_to_op = [],
      ml_current_memory_usage = 0, ml_current_memory_peak = 0, ml_optimal_memory_peak = 0, ml_memory_peak_kernel = 0,
      ml_memory_size_log = [], ml_submemories = [], ml_current_submemories = [], ml_sub_addresses_map = [],
      ml_sub_operations = [], ml_submemory_size_log = [], ml_submemory_size_list = [], ml_current_submemory_usage = 0,
      ml_current_submemory_peak = 0, ml_optimal_submemory_peak = 0, ml_submemory_peak_kernel = 0,
      ml_torch_python_states = [], ml_sub_op_node = [], ml_libunwind_frames = [], ml_obj_ownership = [],
      ml_stream_ownership = [], ml_stream_nodes = [], ml_read_nodes = [], ml_edge_list = [], ml_graph = dg_empty,
      ml_global_op_id_start = - 1\<rparr>"

subsection \<open>Bookkeeping\<close>

definition update_torch_python_states :: "ml_env \<Rightarrow> u64 \<Rightarrow> memory_liveness \<Rightarrow> memory_liveness" where
  "update_torch_python_states env oid s =
     s\<lparr>ml_torch_python_states := map_emplace (<) (ml_torch_python_states s) oid (env_python_states env)\<rparr>"

definition get_torch_libunwind_backtrace :: "ml_env \<Rightarrow> u64 \<Rightarrow> memory_liveness \<Rightarrow> memory_liveness" where
  "get_torch_libunwind_backtrace env oid s =
     s\<lparr>ml_libunwind_frames := map_emplace (<) (ml_libunwind_frames s) oid (env_frames env)\<rparr>"

definition ml_update_ctx_node :: "i32 \<Rightarrow> memory_operation \<Rightarrow> memory_liveness \<Rightarrow> memory_liveness" where
  "ml_update_ctx_node ctx op s =
     (if \<not> map_has (<) (ml_ctx_node s) ctx then s\<lparr>ml_ctx_node := map_emplace (<) (ml_ctx_node s) ctx op\<rparr> else s)"

definition ml_update_op_node :: "u64 \<Rightarrow> i32 \<Rightarrow> memory_liveness \<Rightarrow> memory_liveness" where
  "ml_update_op_node oid ctx s =
     (if oid > REDSHOW_MEMORY_HOST then s\<lparr>ml_op_node := map_set (<) (ml_op_node s) oid ctx\<rparr> else s)"

definition update_stream_for_ops :: "u32 \<Rightarrow> u64 \<Rightarrow> memory_operation \<Rightarrow> memory_liveness \<Rightarrow> memory_liveness" where
  "update_stream_for_ops stream oid ty s =
     (let ots = (case map_at (<) (ml_op_to_stream s) oid of
                   None \<Rightarrow> map_emplace (<) (ml_op_to_stream s) oid (op_streams_of ty stream)
                 | Some o1 \<Rightarrow>
                     if ty = REDSHOW_MEMORY_COPYT \<or> ty = REDSHOW_MEMORY_COPYF
                     then map_set (<) (ml_op_to_stream s) oid (o1\<lparr>os_type2 := ty, os_stream2 := stream\<rparr>)
                     else ml_op_to_stream s);
          sto = (case map_at (<) (ml_stream_to_op s) stream of
                   None \<Rightarrow> map_emplace (<) (ml_stream_to_op s) stream [oid]
                 | Some ops \<Rightarrow> map_set (<) (ml_stream_to_op s) stream (ops @ [oid]))
      in s\<lparr>ml_op_to_stream := ots, ml_stream_to_op := sto\<rparr>)"

definition register_operation ::
  "u64 \<Rightarrow> u64 \<Rightarrow> memory_operation \<Rightarrow> (u64, (u64, memory_operation) omap) omap \<Rightarrow> (u64, (u64, memory_operation) omap) omap" where
  "register_operation mid oid ty ops =
     (case map_at (<) ops mid of
        None \<Rightarrow> map_emplace (<) ops mid [(oid, ty)]
      | Some node \<Rightarrow>
          if map_at (<) node oid = None then map_set (<) ops mid (map_emplace (<) node oid ty) else ops)"

definition memory_operation_register :: "u64 \<Rightarrow> u64 \<Rightarrow> memory_operation \<Rightarrow> bool \<Rightarrow> memory_liveness \<Rightarrow> memory_liveness" where
  "memory_operation_register mid oid ty is_sub s =
     (if \<not> is_sub then s\<lparr>ml_operations := register_operation mid oid ty (ml_operations s)\<rparr>
      else s\<lparr>ml_sub_operations := register_operation mid oid ty (ml_sub_operations s)\<rparr>)"

definition update_global_op_id_start :: "u64 \<Rightarrow> memory_liveness \<Rightarrow> memory_liveness" where
  "update_global_op_id_start oid s =
     (if oid < ml_global_op_id_start s then s\<lparr>ml_global_op_id_start := oid\<rparr> else s)"

subsection \<open>The dependency graph\<close>

definition update_stream_nodes :: "u64 \<Rightarrow> u32 \<Rightarrow> memory_liveness \<Rightarrow> memory_liveness" where
  "update_stream_nodes oid stream s =
     (case map_at (<) (ml_stream_nodes s) stream of
        None \<Rightarrow> s\<lparr>ml_stream_nodes := map_emplace (<) (ml_stream_nodes s) stream [oid]\<rparr>
      | Some ns \<Rightarrow> if oid \<in> set ns then s else s\<lparr>ml_stream_nodes := map_set (<) (ml_stream_nodes s) stream (ns @ [oid])\<rparr>)"

text \<open>\<^verbatim>\<open>_graph.add_edge(edge_index, edge); _edge_list.push_back(edge_index);\<close>\<close>

definition ml_add_edge :: "ml_edge_index \<Rightarrow> ml_edge \<Rightarrow> memory_liveness \<Rightarrow> memory_liveness" where
  "ml_add_edge e edge s = s\<lparr>ml_graph := dg_add_edge e edge (ml_graph s), ml_edge_list := ml_edge_list s @ [e]\<rparr>"

text \<open>The stream part of \<^verbatim>\<open>update_graph_at_malloc\<close> and \<^verbatim>\<open>update_graph_at_free\<close>.\<close>

definition ml_stream_edge :: "u64 \<Rightarrow> u32 \<Rightarrow> memory_liveness \<Rightarrow> memory_liveness" where
  "ml_stream_edge oid stream s =
     (case map_at (<) (ml_stream_ownership s) stream of
        None \<Rightarrow> s\<lparr>ml_stream_ownership := map_emplace (<) (ml_stream_ownership s) stream oid\<rparr>
      | Some prev \<Rightarrow>
          (ml_add_edge (EdgeIndex prev oid STREAM_DEPENDENCY) [] s)
            \<lparr>ml_stream_ownership := map_set (<) (ml_stream_ownership s) stream oid\<rparr>)"

definition update_graph_at_malloc :: "u64 \<Rightarrow> u32 \<Rightarrow> memory_operation \<Rightarrow> memory_liveness \<Rightarrow> memory_liveness" where
  "update_graph_at_malloc oid stream ty s =
     (let s1 = (if \<not> dg_has_node oid (ml_graph s)
                then s\<lparr>ml_graph := dg_add_node oid (ml_Node oid ty) (ml_graph s),
                       ml_obj_ownership := map_emplace (<) (ml_obj_ownership s) oid oid\<rparr>
                else s)
      in ml_stream_edge oid stream (update_stream_nodes oid stream s1))"

definition update_graph_at_free :: "u64 \<Rightarrow> u32 \<Rightarrow> u64 \<Rightarrow> memory_operation \<Rightarrow> memory_liveness \<Rightarrow> memory_liveness outcome" where
  "update_graph_at_free oid stream mid ty s =
     (let s1 = (if \<not> dg_has_node oid (ml_graph s) then s\<lparr>ml_graph := dg_add_node oid (ml_Node oid ty) (ml_graph s)\<rparr> else s)
      in fbind (or_fault OutOfRange (map_at (<) (ml_obj_ownership s1) mid)) (\<lambda>owner.
         fbind (or_fault OutOfRange (map_at (<) (ml_read_nodes s1) mid)) (\<lambda>read_nodes.
           let s2 = (if read_nodes = [] then ml_add_edge (EdgeIndex owner oid DATA_DEPENDENCY) [(mid, WRITE)] s1
                     else (fold (\<lambda>r. ml_add_edge (EdgeIndex r oid DATA_DEPENDENCY) [(mid, WRITE)]) read_nodes s1)
                            \<lparr>ml_read_nodes := map_set (<) (ml_read_nodes s1) mid []\<rparr>);
               s3 = s2\<lparr>ml_obj_ownership := map_set (<) (ml_obj_ownership s2) mid oid\<rparr>
           in Inr (ml_stream_edge oid stream (update_stream_nodes oid stream s3)))))"

text \<open>An edge of \<^verbatim>\<open>update_graph_at_access\<close>: an edge that is there gets the object, else it is added.\<close>

definition ml_data_edge :: "u64 \<Rightarrow> u64 \<Rightarrow> u64 \<Rightarrow> ml_access_type \<Rightarrow> memory_liveness \<Rightarrow> memory_liveness outcome" where
  "ml_data_edge from to obj ty s =
     (let e = EdgeIndex from to DATA_DEPENDENCY
      in if dg_has_edge e (ml_graph s) then
           fbind (dg_edge e (ml_graph s)) (\<lambda>edge.
             Inr (s\<lparr>ml_graph := (ml_graph s)\<lparr>dg_edges := map_set ei_lt (dg_edges (ml_graph s)) e (map_emplace (<) edge obj ty)\<rparr>\<rparr>))
         else Inr (ml_add_edge e [(obj, ty)] s))"

definition update_graph_at_access ::
  "u64 \<Rightarrow> memory_operation \<Rightarrow> u32 \<Rightarrow> u64 \<Rightarrow> ml_access_type \<Rightarrow> memory_liveness \<Rightarrow> memory_liveness outcome" where
  "update_graph_at_access oid ty stream obj acc s =
     (let s1 = (if \<not> dg_has_node oid (ml_graph s) then s\<lparr>ml_graph := dg_add_node oid (ml_Node oid ty) (ml_graph s)\<rparr> else s);
          s2 = (if map_at (<) (ml_stream_ownership s1) stream = Some oid then s1 else ml_stream_edge oid stream s1);
          s3 = update_stream_nodes oid stream s2
      in fbind (or_fault OutOfRange (map_at (<) (ml_read_nodes s3) obj)) (\<lambda>read_nodes.
         case acc of
           READ \<Rightarrow>
             let s4 = s3\<lparr>ml_read_nodes := map_set (<) (ml_read_nodes s3) obj (read_nodes @ [oid])\<rparr>
             in fbind (or_fault NullDeref (map_at (<) (ml_obj_ownership s4) obj)) (\<lambda>owner. ml_data_edge owner oid obj acc s4)
         | WRITE \<Rightarrow>
             fbind (if read_nodes = [] then
                      fbind (or_fault NullDeref (map_at (<) (ml_obj_ownership s3) obj)) (\<lambda>owner. ml_data_edge owner oid obj acc s3)
                    else
                      fbind (ffold (\<lambda>r. ml_data_edge r oid obj acc) read_nodes s3) (\<lambda>s4.
                        Inr (s4\<lparr>ml_read_nodes := map_set (<) (ml_read_nodes s4) obj []\<rparr>))) (\<lambda>s5.
             fbind (or_fault NullDeref (map_at (<) (ml_obj_ownership s5) obj)) (\<lambda>_.
               Inr (s5\<lparr>ml_obj_ownership := map_set (<) (ml_obj_ownership s5) obj oid\<rparr>)))))"

subsection \<open>Auxiliary buffers of kernels\<close>

record aux_address_dict =
  aux_size :: u32
  aux_start_end :: "(u64 \<times> u64) list"
  aux_hit :: "u8 list"
  aux_read :: "u8 list"
  aux_write :: "u8 list"

definition aux_at :: "'a list \<Rightarrow> nat \<Rightarrow> 'a outcome" where
  "aux_at xs i = (if i < length xs then Inr (xs ! i) else Inl OutOfRange)"

text \<open>The loop over the objects that a kernel hit, which adds up their sizes.\<close>

definition aux_hit_loop ::
  "aux_address_dict \<Rightarrow> u64 \<Rightarrow> bool \<Rightarrow> memory_liveness \<Rightarrow> (u64 \<times> memory_liveness) outcome" where
  "aux_hit_loop aux kernel_op_id is_sub s =
     ffold (\<lambda>i (usage, s1).
         fbind (aux_at (aux_hit aux) i) (\<lambda>hit.
         if hit \<noteq> 1 then Inr (usage, s1)
         else
           fbind (aux_at (aux_start_end aux) i) (\<lambda>se.
           fbind (or_fault OutOfRange (map_at (<) (if is_sub then ml_sub_addresses_map s1 else ml_addresses_map s1) (fst se))) (\<lambda>mid.
             let s2 = memory_operation_register mid kernel_op_id REDSHOW_MEMORY_ACCESS is_sub s1
             in fbind (or_fault OutOfRange (map_at (<) (if is_sub then ml_current_submemories s2 else ml_current_memories s2) mid)) (\<lambda>m.
                  Inr (usage + mem_len m, s2))))))
       [0..<unat (aux_size aux)] (0, s)"

definition update_aux_hit :: "aux_address_dict \<Rightarrow> u64 \<Rightarrow> bool \<Rightarrow> memory_liveness \<Rightarrow> memory_liveness outcome" where
  "update_aux_hit aux kernel_op_id is_sub s =
     fbind (aux_hit_loop aux kernel_op_id is_sub s) (\<lambda>(usage, s1).
       Inr (if \<not> is_sub then
              if ml_optimal_memory_peak s1 < usage
              then s1\<lparr>ml_memory_peak_kernel := kernel_op_id, ml_optimal_memory_peak := usage\<rparr> else s1
            else
              if ml_optimal_submemory_peak s1 < usage
              then s1\<lparr>ml_submemory_peak_kernel := kernel_op_id, ml_optimal_submemory_peak := usage\<rparr> else s1))"

text \<open>The body of the loop of \<^verbatim>\<open>update_graph_at_kernel\<close>.\<close>

definition update_graph_at_entry :: "aux_address_dict \<Rightarrow> u64 \<Rightarrow> u32 \<Rightarrow> nat \<Rightarrow> memory_liveness \<Rightarrow> memory_liveness outcome" where
  "update_graph_at_entry aux oid stream i s =
     fbind (aux_at (aux_hit aux) i) (\<lambda>hit.
     if hit \<noteq> 1 then Inr s
     else
       fbind (aux_at (aux_start_end aux) i) (\<lambda>se.
       fbind (or_fault OutOfRange (map_at (<) (ml_addresses_map s) (fst se))) (\<lambda>mid.
       fbind (aux_at (aux_write aux) i) (\<lambda>write.
         if write = 1 then update_graph_at_access oid REDSHOW_MEMORY_ACCESS stream mid WRITE s
         else
           fbind (aux_at (aux_read aux) i) (\<lambda>read.
             if read = 1 then update_graph_at_access oid REDSHOW_MEMORY_ACCESS stream mid READ s else Inr s)))))"

definition update_graph_at_kernel :: "aux_address_dict \<Rightarrow> u64 \<Rightarrow> u32 \<Rightarrow> memory_liveness \<Rightarrow> memory_liveness outcome" where
  "update_graph_at_kernel aux oid stream s =
     ffold (update_graph_at_entry aux oid stream) [0..<unat (aux_size aux)] s"

definition ml_analysis_begin ::
  "aux_address_dict option \<Rightarrow> aux_address_dict option \<Rightarrow> u64 \<Rightarrow> u32 \<Rightarrow> gpu_patch_type \<Rightarrow> memory_liveness \<Rightarrow> memory_liveness outcome" where
  "ml_analysis_begin aux torch_aux host_op_id stream_id type s =
     (if type \<noteq> GPU_PATCH_TYPE_ADDRESS_PATCH \<and> type \<noteq> GPU_PATCH_TYPE_ADDRESS_ANALYSIS then Inl AssertFail
      else
        fbind (case aux of None \<Rightarrow> Inr s
               | Some a \<Rightarrow> fbind (update_aux_hit a host_op_id False s) (update_graph_at_kernel a host_op_id stream_id)) (\<lambda>s1.
        case torch_aux of None \<Rightarrow> Inr s1 | Some a \<Rightarrow> update_aux_hit a host_op_id True s1))"

subsection \<open>Operations\<close>

definition ml_memory_op_callback :: "ml_env \<Rightarrow> memory \<Rightarrow> bool \<Rightarrow> memory_liveness \<Rightarrow> memory_liveness" where
  "ml_memory_op_callback env op is_submemory s =
     (let oid = op_id op; s0 = update_global_op_id_start oid s in
      if \<not> is_submemory then
        let s1 = ml_update_op_node oid (ctx_id op) s0;
            s2 = update_stream_for_ops (mem_stream_id op) oid REDSHOW_MEMORY_ALLOC s1;
            s3 = ml_update_ctx_node (ctx_id op) REDSHOW_MEMORY_ALLOC s2;
            s4 = update_graph_at_malloc oid (mem_stream_id op) REDSHOW_MEMORY_ALLOC s3;
            usage = ml_current_memory_usage s4 + mem_len op;
            s5 = s4\<lparr>ml_read_nodes := map_emplace (<) (ml_read_nodes s4) oid [],
                    ml_memories := map_emplace (<) (ml_memories s4) oid op,
                    ml_current_memories := map_emplace (<) (ml_current_memories s4) oid op,
                    ml_addresses_map := map_emplace (<) (ml_addresses_map s4) (mr_start (mem_range op)) oid,
                    ml_memory_size_list := ml_memory_size_list s4 @ [\<lparr>me_op_id = oid, me_size = mem_len op\<rparr>],
                    ml_current_memory_usage := usage,
                    ml_memory_size_log := map_emplace (<) (ml_memory_size_log s4) oid (''alloc'', usage),
                    ml_current_memory_peak := (if usage > ml_current_memory_peak s4 then usage else ml_current_memory_peak s4)\<rparr>
        in if \<not> map_has (<) (ml_operations s5) oid then memory_operation_register oid oid REDSHOW_MEMORY_ALLOC False s5 else s5
      else
        let s1 = update_torch_python_states env oid (get_torch_libunwind_backtrace env oid s0);
            usage = ml_current_submemory_usage s1 + mem_len op;
            s2 = s1\<lparr>ml_sub_op_node := map_emplace (<) (ml_sub_op_node s1) oid ''ALLOC'',
                    ml_submemories := map_emplace (<) (ml_submemories s1) oid op,
                    ml_current_submemories := map_emplace (<) (ml_current_submemories s1) oid op,
                    ml_sub_addresses_map := map_emplace (<) (ml_sub_addresses_map s1) (mr_start (mem_range op)) oid,
                    ml_submemory_size_list := ml_submemory_size_list s1 @ [\<lparr>me_op_id = oid, me_size = mem_len op\<rparr>],
                    ml_current_submemory_usage := usage,
                    ml_submemory_size_log := map_emplace (<) (ml_submemory_size_log s1) oid (''alloc'', usage),
                    ml_current_submemory_peak := (if usage > ml_current_submemory_peak s1 then usage else ml_current_submemory_peak s1)\<rparr>
        in if \<not> map_has (<) (ml_sub_operations s2) oid then memory_operation_register oid oid REDSHOW_SUBMEMORY_ALLOC True s2 else s2)"

definition ml_memfree_op_callback :: "ml_env \<Rightarrow> memfree \<Rightarrow> bool \<Rightarrow> memory_liveness \<Rightarrow> memory_liveness outcome" where
  "ml_memfree_op_callback env op is_submemory s =
     (let oid = op_id op; address = mr_start (mf_range op) in
      if \<not> is_submemory then
        let s1 = ml_update_op_node oid (ctx_id op) s;
            s2 = update_stream_for_ops (mf_stream_id op) oid REDSHOW_MEMORY_FREE s1;
            s3 = ml_update_ctx_node (ctx_id op) REDSHOW_MEMORY_FREE s2
        in fbind (or_fault OutOfRange (map_at (<) (ml_addresses_map s3) address)) (\<lambda>malloc_op_id.
             let usage = ml_current_memory_usage s3 - mf_len op;
                 s4 = s3\<lparr>ml_addresses_map := map_erase (<) (ml_addresses_map s3) address,
                         ml_current_memories := map_erase (<) (ml_current_memories s3) malloc_op_id,
                         ml_current_memory_usage := usage,
                         ml_memory_size_log := map_emplace (<) (ml_memory_size_log s3) oid (''free'', usage)\<rparr>;
                 s5 = memory_operation_register malloc_op_id oid REDSHOW_MEMORY_FREE False s4
             in update_graph_at_free oid (mf_stream_id op) malloc_op_id REDSHOW_MEMORY_FREE s5)
      else
        let s1 = update_torch_python_states env oid (get_torch_libunwind_backtrace env oid s);
            s2 = s1\<lparr>ml_sub_op_node := map_emplace (<) (ml_sub_op_node s1) oid ''FREE''\<rparr>
        in fbind (or_fault OutOfRange (map_at (<) (ml_sub_addresses_map s2) address)) (\<lambda>sub_alloc_id.
             let usage = ml_current_submemory_usage s2 - mf_len op;
                 s3 = s2\<lparr>ml_sub_addresses_map := map_erase (<) (ml_sub_addresses_map s2) address,
                         ml_current_submemories := map_erase (<) (ml_current_submemories s2) sub_alloc_id,
                         ml_current_submemory_usage := usage,
                         ml_submemory_size_log := map_emplace (<) (ml_submemory_size_log s2) oid (''free'', usage)\<rparr>
             in Inr (memory_operation_register sub_alloc_id oid REDSHOW_SUBMEMORY_FREE True s3)))"

definition ml_kernel_op_callback :: "ml_env \<Rightarrow> kernel \<Rightarrow> memory_liveness \<Rightarrow> memory_liveness" where
  "ml_kernel_op_callback env op s =
     (let oid = op_id op;
          s1 = ml_update_op_node oid (ctx_id op) s;
          s2 = ml_update_ctx_node (ctx_id op) REDSHOW_MEMORY_ACCESS s1;
          s3 = update_stream_for_ops (k_stream_id op) oid REDSHOW_MEMORY_ACCESS s2;
          s4 = s3\<lparr>ml_kernel_op_node := map_set (<) (ml_kernel_op_node s3) oid (ctx_id op)\<rparr>
      in if ml_submemories s4 \<noteq> []
         then update_torch_python_states env oid (s4\<lparr>ml_sub_op_node := map_emplace (<) (ml_sub_op_node s4) oid ''ACCESS''\<rparr>)
         else s4)"

text \<open>
  The sub-memories from one iterator up to another, which is not part of them; the loop runs over the end of the
  map when the second comes first. An iterator at the end has no value.
\<close>

definition sub_iterators :: "u64 \<Rightarrow> u64 \<Rightarrow> memory_liveness \<Rightarrow> ((u64 \<times> u64) \<times> (u64 \<times> u64)) option outcome" where
  "sub_iterators st len s =
     (case map_prev (<) (ml_sub_addresses_map s) st of
        None \<Rightarrow> Inr None
      | Some l \<Rightarrow> fbind (or_fault NullDeref (map_prev (<) (ml_sub_addresses_map s) (st + len))) (\<lambda>r. Inr (Some (l, r))))"

definition sub_between :: "(u64, u64) omap \<Rightarrow> u64 \<Rightarrow> u64 \<Rightarrow> u64 list outcome" where
  "sub_between m l r =
     (let rest = dropWhile (\<lambda>e. fst e \<noteq> l) m
      in if r \<in> fst ` set rest then Inr (map snd (takeWhile (\<lambda>e. fst e \<noteq> r) rest)) else Inl OutOfRange)"

definition register_sub_between ::
  "u64 \<times> u64 \<Rightarrow> u64 \<times> u64 \<Rightarrow> u64 \<Rightarrow> memory_operation \<Rightarrow> memory_liveness \<Rightarrow> memory_liveness outcome" where
  "register_sub_between l r oid ty s =
     fbind (sub_between (ml_sub_addresses_map s) (fst l) (fst r)) (\<lambda>ids.
       Inr (fold (\<lambda>i. memory_operation_register i oid ty True) ids s))"

text \<open>The sub-memories of a written area: the loop runs when they differ, and the last is always registered.\<close>

definition register_sub_written :: "u64 \<Rightarrow> u64 \<Rightarrow> u64 \<Rightarrow> memory_operation \<Rightarrow> memory_liveness \<Rightarrow> memory_liveness outcome" where
  "register_sub_written st len oid ty s =
     fbind (sub_iterators st len s) (\<lambda>x.
       case x of
         None \<Rightarrow> Inr s
       | Some (l, r) \<Rightarrow>
           fbind (if snd r \<noteq> snd l then register_sub_between l r oid ty s else Inr s) (\<lambda>s1.
             Inr (memory_operation_register (snd r) oid ty True s1)))"

text \<open>The sub-memories of the source of a copy: the last is registered only when they differ.\<close>

definition register_sub_read :: "u64 \<Rightarrow> u64 \<Rightarrow> u64 \<Rightarrow> memory_operation \<Rightarrow> memory_liveness \<Rightarrow> memory_liveness outcome" where
  "register_sub_read st len oid ty s =
     fbind (sub_iterators st len s) (\<lambda>x.
       case x of
         None \<Rightarrow> Inr s
       | Some (l, r) \<Rightarrow>
           if snd r \<noteq> snd l then
             fbind (register_sub_between l r oid ty s) (\<lambda>s1. Inr (memory_operation_register (snd r) oid ty True s1))
           else Inr s)"

definition ml_copy_side ::
  "memcpy \<Rightarrow> memory_operation \<Rightarrow> ml_access_type \<Rightarrow> u64 \<Rightarrow> u32 \<Rightarrow> memory_liveness \<Rightarrow> memory_liveness outcome" where
  "ml_copy_side op ty acc mid stream s =
     (if mid \<noteq> REDSHOW_MEMORY_HOST then
        let s1 = ml_update_ctx_node (ctx_id op) ty s;
            s2 = update_stream_for_ops stream (op_id op) ty s1;
            s3 = memory_operation_register mid (op_id op) ty False s2
        in update_graph_at_access (op_id op) ty stream mid acc s3
      else Inr s)"

definition ml_memcpy_op_callback :: "memcpy \<Rightarrow> memory_liveness \<Rightarrow> memory_liveness outcome" where
  "ml_memcpy_op_callback op s =
     fbind (ml_copy_side op REDSHOW_MEMORY_COPYF READ (src_memory_op_id op) (src_stream_id op)
              (ml_update_op_node (op_id op) (ctx_id op) s)) (\<lambda>s1.
     fbind (ml_copy_side op REDSHOW_MEMORY_COPYT WRITE (dst_memory_op_id op) (dst_stream_id op) s1) (\<lambda>s2.
     fbind (if src_memory_op_id op \<noteq> REDSHOW_MEMORY_HOST
            then register_sub_read (src_start op) (mc_len op) (op_id op) REDSHOW_MEMORY_COPYF s2 else Inr s2) (\<lambda>s3.
       if dst_memory_op_id op \<noteq> REDSHOW_MEMORY_HOST
       then register_sub_written (dst_start op) (mc_len op) (op_id op) REDSHOW_MEMORY_COPYT s3 else Inr s3)))"

definition ml_memset_op_callback :: "memset \<Rightarrow> memory_liveness \<Rightarrow> memory_liveness outcome" where
  "ml_memset_op_callback op s =
     (let s1 = ml_update_op_node (op_id op) (ctx_id op) s;
          s2 = ml_update_ctx_node (ctx_id op) REDSHOW_MEMORY_SET s1;
          s3 = update_stream_for_ops (ms_stream_id op) (op_id op) REDSHOW_MEMORY_SET s2
      in fbind (update_graph_at_access (op_id op) REDSHOW_MEMORY_SET (ms_stream_id op) (ms_memory_op_id op) WRITE s3) (\<lambda>s4.
           register_sub_written (ms_start op) (ms_len op) (op_id op) REDSHOW_MEMORY_SET
             (memory_operation_register (ms_memory_op_id op) (op_id op) REDSHOW_MEMORY_SET False s4)))"

definition ml_op_callback :: "ml_env \<Rightarrow> operation \<Rightarrow> bool \<Rightarrow> memory_liveness \<Rightarrow> memory_liveness outcome" where
  "ml_op_callback env op is_submemory s =
     (case op of
        KernelOp k \<Rightarrow> Inr (ml_kernel_op_callback env k s)
      | MemoryOp m \<Rightarrow> Inr (ml_memory_op_callback env m is_submemory s)
      | MemfreeOp m \<Rightarrow> ml_memfree_op_callback env m is_submemory s
      | MemcpyOp c \<Rightarrow> ml_memcpy_op_callback c s
      | MemsetOp m \<Rightarrow> ml_memset_op_callback m s)"

end
