(* ===== verification/Liveness_Reports.thy ===== *)
theory Liveness_Reports
  imports Memory_Liveness
begin

section \<open>The reports of the memory liveness analysis\<close>

text \<open>
  The second half of \<^verbatim>\<open>src/analysis/memory_liveness.cpp\<close>: the text of every report, the selection sort of the sizes, the dependency
  graph in dot syntax and the layers of \<^verbatim>\<open>dump_topological_order\<close>. A report is the content of its file.
\<close>

subsection \<open>Lists of operations and sizes\<close>

text \<open>An unscoped enumeration is written as its number.\<close>

definition memory_operation_code :: "memory_operation \<Rightarrow> int" where
  "memory_operation_code ty =
     (case ty of REDSHOW_MEMORY_ALLOC \<Rightarrow> 0 | REDSHOW_MEMORY_SET \<Rightarrow> 1 | REDSHOW_MEMORY_COPYT \<Rightarrow> 2 | REDSHOW_MEMORY_COPYF \<Rightarrow> 3
      | REDSHOW_MEMORY_ACCESS \<Rightarrow> 4 | REDSHOW_MEMORY_FREE \<Rightarrow> 5 | REDSHOW_SUBMEMORY_ALLOC \<Rightarrow> 6 | REDSHOW_SUBMEMORY_FREE \<Rightarrow> 7
      | REDSHOW_OPERATION_NUMS \<Rightarrow> 8)"

definition operation_list_text :: "(u64, (u64, memory_operation) omap) omap \<Rightarrow> string" where
  "operation_list_text ops =
     concat (map (\<lambda>(mid, node). ''['' @ u64_to_string mid @ '']: ''
       @ concat (map (\<lambda>(oid, ty). u64_to_string oid @ ''('' @ int_to_string (memory_operation_code ty) @ ''), '') node) @ newline) ops)"

definition output_memory_operation_list :: "memory_liveness \<Rightarrow> string" where
  "output_memory_operation_list s = operation_list_text (ml_operations s)"

text \<open>
  The selection sort: \<open>select_from\<close> is the inner loop from the index \<open>j\<close>, with the index and the entry that is
  the largest so far. The bound of the outer loop is the size less one as an unsigned number, so an empty list is read at 0.
\<close>

fun select_from :: "memory_entry list \<Rightarrow> nat \<Rightarrow> nat \<Rightarrow> memory_entry \<Rightarrow> nat \<times> memory_entry" where
  "select_from [] j index temp = (index, temp)"
| "select_from (x # xs) j index temp =
     (if me_size x > me_size temp then select_from xs (Suc j) j x else select_from xs (Suc j) index temp)"

definition sort_step :: "nat \<Rightarrow> memory_entry list \<Rightarrow> memory_entry list" where
  "sort_step i xs =
     (let (index, temp) = select_from (drop (Suc i) xs) (Suc i) i (xs ! i)
      in if index \<noteq> i then xs[index := xs ! i, i := temp] else xs)"

definition sort_memory_sizes :: "memory_entry list \<Rightarrow> memory_entry list outcome" where
  "sort_memory_sizes xs = (if xs = [] then Inl OutOfRange else Inr (fold sort_step [0..<length xs - 1] xs))"

definition memory_entry_text :: "memory_entry \<Rightarrow> string" where
  "memory_entry_text e = ''op_id='' @ u64_to_string (me_op_id e) @ '', size='' @ u64_to_string (me_size e) @ newline"

definition output_memory_size_list :: "memory_liveness \<Rightarrow> (string \<times> memory_liveness) outcome" where
  "output_memory_size_list s =
     fbind (sort_memory_sizes (ml_memory_size_list s)) (\<lambda>xs.
       Inr (concat (map memory_entry_text xs), s\<lparr>ml_memory_size_list := xs\<rparr>))"

definition output_kernel_list :: "memory_liveness \<Rightarrow> string" where
  "output_kernel_list s =
     concat (map (\<lambda>(oid, ctx). u64_to_string oid @ '', '' @ int_to_string ctx @ newline) (ml_kernel_op_node s))"

subsection \<open>Contexts, streams and sizes\<close>

definition peak_text :: "memory_liveness \<Rightarrow> string" where
  "peak_text s =
     ''memory_peak_kernel: '' @ u64_to_string (ml_memory_peak_kernel s) @ newline
     @ ''optimal_memory_peak: '' @ u64_to_string (ml_optimal_memory_peak s) @ '' B'' @ newline
     @ ''current_memory_peak: '' @ u64_to_string (ml_current_memory_peak s - 512) @ '' B'' @ newline @ newline"

text \<open>The name of the kind of a context in \<^verbatim>\<open>output_ctx_node\<close> and \<^verbatim>\<open>output_stream_info\<close>.\<close>

definition operation_name :: "memory_operation \<Rightarrow> string" where
  "operation_name ty =
     (case ty of REDSHOW_MEMORY_ALLOC \<Rightarrow> ''ALLOC '' | REDSHOW_MEMORY_FREE \<Rightarrow> ''FREE '' | REDSHOW_MEMORY_ACCESS \<Rightarrow> ''ACCESS ''
      | REDSHOW_MEMORY_SET \<Rightarrow> ''SET '' | REDSHOW_MEMORY_COPYT \<Rightarrow> ''COPYT '' | REDSHOW_MEMORY_COPYF \<Rightarrow> ''COPYF ''
      | REDSHOW_SUBMEMORY_ALLOC \<Rightarrow> ''SUBALLOC'' | REDSHOW_SUBMEMORY_FREE \<Rightarrow> ''SUBFREE'' | REDSHOW_OPERATION_NUMS \<Rightarrow> '''')"

definition output_ctx_node :: "memory_liveness \<Rightarrow> string outcome" where
  "output_ctx_node s =
     ffold (\<lambda>(oid, ctx) out.
         fbind (or_fault OutOfRange (map_at (<) (ml_ctx_node s) ctx)) (\<lambda>ty.
           Inr (out @ ''op_id: '' @ u64_to_string oid @ '', ''
                @ (if ty = REDSHOW_OPERATION_NUMS then [] else operation_name ty @ int_to_string ctx @ newline))))
       (ml_op_node s) (peak_text s)"

text \<open>
  The stream of a copy is that of the side whose kind is the one of the context; a context whose kind is on neither
  side leaves the variable without a value, for which \<open>junk\<close> stands.
\<close>

definition copy_stream :: "u32 \<Rightarrow> memory_operation \<Rightarrow> op_streams \<Rightarrow> u32" where
  "copy_stream junk ty o1 = (if os_type1 o1 = ty then os_stream1 o1 else if os_type2 o1 = ty then os_stream2 o1 else junk)"

definition output_stream_info :: "u32 \<Rightarrow> memory_liveness \<Rightarrow> string outcome" where
  "output_stream_info junk s =
     ffold (\<lambda>(oid, ctx) out.
         fbind (or_fault OutOfRange (map_at (<) (ml_ctx_node s) ctx)) (\<lambda>ty.
         fbind (or_fault OutOfRange (map_at (<) (ml_op_to_stream s) oid)) (\<lambda>o1.
           let head = out @ ''op_id: '' @ u64_to_string oid @ '', '';
               named = operation_name ty @ int_to_string ctx
           in Inr (head @ (
                if ty \<in> {REDSHOW_MEMORY_ALLOC, REDSHOW_MEMORY_FREE, REDSHOW_MEMORY_ACCESS, REDSHOW_MEMORY_SET}
                then named @ '', stream_id: '' @ u32_to_string (os_stream1 o1) @ newline
                else if ty \<in> {REDSHOW_MEMORY_COPYT, REDSHOW_MEMORY_COPYF}
                then named @ '', stream_id: '' @ u32_to_string (copy_stream junk ty o1) @ newline
                else if ty \<in> {REDSHOW_SUBMEMORY_ALLOC, REDSHOW_SUBMEMORY_FREE} then named @ newline else [])))))
       (ml_op_node s) []"

definition size_log_text :: "(u64, string \<times> u64) omap \<Rightarrow> string" where
  "size_log_text m =
     concat (map (\<lambda>(oid, (op, sz)). u64_to_string oid @ ''('' @ op @ ''): '' @ u64_to_string sz @ '' B'' @ newline) m)"

definition output_memory_size_growth_sequence :: "memory_liveness \<Rightarrow> string" where
  "output_memory_size_growth_sequence s = peak_text s @ size_log_text (ml_memory_size_log s)"

subsection \<open>Sub-memories\<close>

definition sub_peak_text :: "memory_liveness \<Rightarrow> string" where
  "sub_peak_text s =
     ''submemory_peak_kernel: '' @ u64_to_string (ml_submemory_peak_kernel s) @ newline
     @ ''optimal_submemory_peak: '' @ u64_to_string (ml_optimal_submemory_peak s) @ '' B'' @ newline
     @ ''current_submemory_peak: '' @ u64_to_string (ml_current_submemory_peak s - 512) @ '' B'' @ newline @ newline"

definition output_submemory_liveness :: "memory_liveness \<Rightarrow> string option" where
  "output_submemory_liveness s =
     (if ml_submemories s = [] then None else Some (operation_list_text (ml_sub_operations s)))"

definition output_submemory_size_list :: "memory_liveness \<Rightarrow> (string option \<times> memory_liveness) outcome" where
  "output_submemory_size_list s =
     (if ml_submemories s = [] then Inr (None, s)
      else fbind (sort_memory_sizes (ml_submemory_size_list s)) (\<lambda>xs.
             Inr (Some (concat (map memory_entry_text xs)), s\<lparr>ml_submemory_size_list := xs\<rparr>)))"

definition output_submemory_info :: "memory_liveness \<Rightarrow> string option" where
  "output_submemory_info s = (if ml_submemories s = [] then None else Some (sub_peak_text s))"

text \<open>The report is written twice, with and without the operation ids; the second name has a prefix in front of the whole path.\<close>

definition output_submemory_size_growth_sequence :: "string \<Rightarrow> memory_liveness \<Rightarrow> (string \<times> string) list" where
  "output_submemory_size_growth_sequence filename s =
     (if ml_submemories s = [] then []
      else [(filename, sub_peak_text s @ size_log_text (ml_submemory_size_log s)),
            (''id_'' @ filename, sub_peak_text s
               @ concat (map (\<lambda>(oid, (op, sz)). ''('' @ op @ ''): '' @ u64_to_string sz @ '' B'' @ newline) (ml_submemory_size_log s)))])"

definition tab :: string where
  "tab = [char_of (9 :: nat)]"

definition python_states_text :: "python_state list \<Rightarrow> string" where
  "python_states_text ps =
     concat (map (\<lambda>(i, p). ''('' @ nat_digits i @ '')File: '' @ ps_file_name p @ newline
         @ tab @ ''Function: '' @ ps_function_name p @ newline
         @ tab @ ''First line: '' @ u64_to_string (ps_first_lineno p) @ newline
         @ tab @ ''Call at line: '' @ u64_to_string (ps_lineno p) @ newline) (enumerate 0 ps))"

definition output_torch_python_states :: "memory_liveness \<Rightarrow> string option outcome" where
  "output_torch_python_states s =
     (if ml_submemories s = [] then Inr None
      else
        fbind (ffold (\<lambda>(oid, ps) out.
            fbind (or_fault OutOfRange (map_at (<) (ml_sub_op_node s) oid)) (\<lambda>kind.
              Inr (out @ ''------------------------------'' @ newline @ kind @ '': '' @ u64_to_string oid @ newline
                   @ python_states_text ps @ newline)))
          (ml_torch_python_states s) []) (\<lambda>out. Inr (Some out)))"

text \<open>
  The loops that merge: the first entry that is left names every later entry with the same value, and all of them leave the
  map. The maps are empty at the end.
\<close>

function merge_groups :: "(u64 \<times> 'v) list \<Rightarrow> (u64 list \<times> 'v) list" where
  "merge_groups [] = []"
| "merge_groups ((oid, v) # m) =
     (oid # map fst (filter (\<lambda>e. snd e = v) m), v) # merge_groups (filter (\<lambda>e. snd e \<noteq> v) m)"
  by pat_completeness auto

termination merge_groups
  by (relation "measure length") (simp_all add: less_Suc_eq_le)

definition group_text ::
  "('v \<Rightarrow> string) \<Rightarrow> memory_liveness \<Rightarrow> u64 list \<times> 'v \<Rightarrow> string \<Rightarrow> string outcome" where
  "group_text show s g out =
     fbind (ffold (\<lambda>oid o1.
         fbind (or_fault OutOfRange (map_at (<) (ml_sub_op_node s) oid)) (\<lambda>kind.
           Inr (o1 @ kind @ '' '' @ u64_to_string oid @ newline)))
       (fst g) (out @ ''--------------------------------------------------'' @ newline)) (\<lambda>o2.
       Inr (o2 @ show (snd g) @ newline))"

definition output_merged_torch_python_states :: "memory_liveness \<Rightarrow> (string option \<times> memory_liveness) outcome" where
  "output_merged_torch_python_states s =
     (if ml_submemories s = [] then Inr (None, s)
      else fbind (ffold (group_text python_states_text s) (merge_groups (ml_torch_python_states s)) []) (\<lambda>out.
             Inr (Some out, s\<lparr>ml_torch_python_states := []\<rparr>)))"

text \<open>The program counters are written as decimal numbers behind \<^verbatim>\<open>0x\<close>.\<close>

definition frames_text :: "libunwind_frame list \<Rightarrow> string" where
  "frames_text fs =
     concat (map (\<lambda>f. ''0x'' @ u64_to_string (lf_pc f) @ '': '' @ lf_frame f @ ''+0x'' @ u64_to_string (lf_offset f) @ newline) fs)"

definition output_torch_libunwind_backtrace :: "memory_liveness \<Rightarrow> (string option \<times> memory_liveness) outcome" where
  "output_torch_libunwind_backtrace s =
     (if ml_submemories s = [] then Inr (None, s)
      else fbind (ffold (group_text frames_text s) (merge_groups (ml_libunwind_frames s)) []) (\<lambda>out.
             Inr (Some out, s\<lparr>ml_libunwind_frames := []\<rparr>)))"

subsection \<open>The dependency graph in dot syntax\<close>

text \<open>The letter in front of the label of a node, for the kinds that are declared.\<close>

definition node_letter :: "memory_operation \<Rightarrow> string option" where
  "node_letter ty =
     (case ty of REDSHOW_MEMORY_ALLOC \<Rightarrow> Some ''A'' | REDSHOW_MEMORY_FREE \<Rightarrow> Some ''F'' | REDSHOW_MEMORY_SET \<Rightarrow> Some ''S''
      | REDSHOW_MEMORY_ACCESS \<Rightarrow> Some ''K'' | REDSHOW_MEMORY_COPYT \<Rightarrow> Some ''C'' | REDSHOW_MEMORY_COPYF \<Rightarrow> Some ''C''
      | _ \<Rightarrow> None)"

record cluster =
  cl_text :: string
  cl_alloc :: "u64 list"
  cl_free :: "u64 list"
  cl_other :: "u64 list"
  cl_labels :: "(u64, string) omap"

definition quote :: string where
  "quote = [char_of (34 :: nat)]"

definition cluster_node :: "memory_liveness \<Rightarrow> u64 \<Rightarrow> u64 \<Rightarrow> cluster \<Rightarrow> cluster outcome" where
  "cluster_node s final node c =
     (let i = node - ml_global_op_id_start s;
          out = cl_text c @ u64_to_string i @ (if node \<noteq> final then '' -> '' else [])
      in fbind (dg_node node (ml_graph s)) (\<lambda>n.
           let ty = nd_op_type n; c1 = c\<lparr>cl_text := out\<rparr>
           in Inr (case node_letter ty of
                None \<Rightarrow> c1
              | Some l \<Rightarrow>
                  let c2 = (if ty = REDSHOW_MEMORY_ALLOC then c1\<lparr>cl_alloc := cl_alloc c1 @ [node]\<rparr>
                            else if ty = REDSHOW_MEMORY_FREE then c1\<lparr>cl_free := cl_free c1 @ [node]\<rparr>
                            else c1\<lparr>cl_other := cl_other c1 @ [node]\<rparr>)
                  in c2\<lparr>cl_labels := map_emplace (<) (cl_labels c2) i (l @ u64_to_string i)\<rparr>)))"

definition node_lines :: "memory_liveness \<Rightarrow> (u64, string) omap \<Rightarrow> string \<Rightarrow> u64 list \<Rightarrow> string" where
  "node_lines s labels attributes ns =
     concat (map (\<lambda>n. let i = n - ml_global_op_id_start s
       in u64_to_string i @ ''['' @ attributes @ ''label='' @ map_touch (<) [] labels i @ ''];'' @ newline) ns)"

definition cluster_text :: "memory_liveness \<Rightarrow> nat \<Rightarrow> u32 \<times> u64 list \<Rightarrow> string \<Rightarrow> string outcome" where
  "cluster_text s k nodes out =
     fbind (ffold (cluster_node s (last (snd nodes))) (snd nodes)
        \<lparr>cl_text = out @ ''subgraph cluster_'' @ nat_digits k @ '' {'' @ newline @ ''style=rounded;'' @ newline
            @ ''color=lightgrey;'' @ newline @ ''label = '' @ quote @ ''stream'' @ u32_to_string (fst nodes) @ quote @ '';'' @ newline,
         cl_alloc = [], cl_free = [], cl_other = [], cl_labels = []\<rparr>) (\<lambda>c.
       Inr (cl_text c @ ''[color=green];'' @ newline
            @ node_lines s (cl_labels c) ''shape=box,'' (cl_alloc c)
            @ node_lines s (cl_labels c) ''shape=box,color=lightgrey,style=filled,'' (cl_free c)
            @ node_lines s (cl_labels c) [] (cl_other c) @ ''}'' @ newline))"

definition edge_text :: "memory_liveness \<Rightarrow> ml_edge_index \<Rightarrow> string \<Rightarrow> string outcome" where
  "edge_text s e out =
     (if ei_type e \<noteq> DATA_DEPENDENCY then Inr out
      else
        let start = ml_global_op_id_start s
        in fbind (dg_edge e (ml_graph s)) (\<lambda>objs.
           fbind (if objs = [] then Inr []
                  else fbind (dg_node (ei_to e) (ml_graph s)) (\<lambda>n.
                    Inr (if nd_op_type n = REDSHOW_MEMORY_FREE then ''D'' @ u64_to_string (fst (hd objs) - start)
                         else concat (map (\<lambda>(obj, acc). (if acc = READ then ''R'' else ''W'') @ u64_to_string (obj - start) @ '' '') objs)))) (\<lambda>label.
             Inr (out @ u64_to_string (ei_from e - start) @ '' -> '' @ u64_to_string (ei_to e - start)
                  @ ''[color=red,label='' @ quote @ label @ quote @ ''];'' @ newline))))"

definition dump_dependency_graph :: "memory_liveness \<Rightarrow> string outcome" where
  "dump_dependency_graph s =
     fbind (ffold (\<lambda>(k, nodes). cluster_text s k nodes) (enumerate 0 (ml_stream_nodes s)) (''digraph G {'' @ newline)) (\<lambda>o1.
     fbind (ffold (edge_text s) (ml_edge_list s) o1) (\<lambda>o2. Inr (o2 @ ''}'' @ newline)))"

subsection \<open>Layers and the whole report\<close>

definition layer_text :: "memory_liveness \<Rightarrow> nat \<times> u64 list \<Rightarrow> string \<Rightarrow> string outcome" where
  "layer_text s layer out =
     fbind (ffold (\<lambda>j o1.
         fbind (or_fault OutOfRange (map_at (<) (ml_op_node s) j)) (\<lambda>ctx.
         fbind (or_fault OutOfRange (map_at (<) (ml_ctx_node s) ctx)) (\<lambda>ty.
           Inr (if node_letter ty = None then o1
                else o1 @ u64_to_string j @ '' '' @ operation_name ty @ nat_digits (fst layer) @ newline))))
       (snd layer) (out @ ''top_index: '' @ nat_digits (fst layer) @ newline)) (\<lambda>o2. Inr (o2 @ newline))"

text \<open>The graph without the layers that the loop took away.\<close>

definition emptied :: "u64 list list \<Rightarrow> dependency_graph \<Rightarrow> dependency_graph" where
  "emptied ls g = fold dg_remove_node (concat ls) g"

text \<open>\<open>None\<close>: the loop does not end.\<close>

definition dump_topological_order :: "memory_liveness \<Rightarrow> (string \<times> memory_liveness) outcome option" where
  "dump_topological_order s =
     (case dg_layers (ml_graph s) of
        None \<Rightarrow> None
      | Some ls \<Rightarrow>
          Some (fbind (ffold (layer_text s) (enumerate 0 ls) []) (\<lambda>out.
            Inr (out, s\<lparr>ml_graph := emptied ls (ml_graph s)\<rparr>))))"

definition opt_file :: "string \<Rightarrow> string option \<Rightarrow> (string \<times> string) list" where
  "opt_file name text = (case text of None \<Rightarrow> [] | Some t \<Rightarrow> [(name, t)])"

text \<open>The reports before the layers and those after them.\<close>

definition flush_first :: "u32 \<Rightarrow> string \<Rightarrow> memory_liveness \<Rightarrow> ((string \<times> string) list \<times> memory_liveness) outcome" where
  "flush_first junk dir s =
     fbind (output_memory_size_list s) (\<lambda>(sizes, s1).
     fbind (output_ctx_node s1) (\<lambda>ctxs.
     fbind (output_stream_info junk s1) (\<lambda>streams.
     fbind (dump_dependency_graph s1) (\<lambda>dot.
       Inr ([(dir @ ''memory_liveness.txt'', output_memory_operation_list s), (dir @ ''memory_size_list.txt'', sizes),
             (dir @ ''kernel_list.txt'', output_kernel_list s1), (dir @ ''memory_liveness.csv'', ctxs),
             (dir @ ''memory_growth_sequence.txt'', output_memory_size_growth_sequence s1),
             (dir @ ''operation_stream_info.txt'', streams), (dir @ ''dependency_graph.dot'', dot)], s1)))))"

definition flush_last :: "string \<Rightarrow> memory_liveness \<Rightarrow> ((string \<times> string) list \<times> memory_liveness) outcome" where
  "flush_last dir s =
     fbind (output_submemory_size_list s) (\<lambda>(sizes, s1).
     fbind (output_torch_python_states s1) (\<lambda>states.
     fbind (output_merged_torch_python_states s1) (\<lambda>(merged, s2).
     fbind (output_torch_libunwind_backtrace s2) (\<lambda>(frames, s3).
       Inr (opt_file (dir @ ''submemory_liveness.txt'') (output_submemory_liveness s)
            @ opt_file (dir @ ''submemory_size_list.txt'') sizes
            @ opt_file (dir @ ''submemory_info.txt'') (output_submemory_info s1)
            @ opt_file (dir @ ''torch_python_states.txt'') states
            @ opt_file (dir @ ''merged_torch_python_states.txt'') merged
            @ output_submemory_size_growth_sequence (dir @ ''submemory_growth_sequence.txt'') s2
            @ opt_file (dir @ ''torch_libunwind_backtrace.txt'') frames, s3)))))"

definition ml_flush :: "u32 \<Rightarrow> string \<Rightarrow> memory_liveness \<Rightarrow> ((string \<times> string) list \<times> memory_liveness) outcome option" where
  "ml_flush junk dir s =
     (case flush_first junk dir s of
        Inl e \<Rightarrow> Some (Inl e)
      | Inr (files, s1) \<Rightarrow>
          (case dump_topological_order s1 of
             None \<Rightarrow> None
           | Some r \<Rightarrow>
               Some (fbind r (\<lambda>(order, s2). fbind (flush_last dir s2) (\<lambda>(more, s3).
                 Inr (files @ (dir @ ''topological_order.txt'', order) # more, s3))))))"

subsection \<open>The selection sort sorts\<close>

lemma select_from_max:
  assumes "drop j xs = ys" "j \<le> length xs" "lo \<le> i" "i < j" "xs ! i = t" "\<forall>l. lo \<le> l \<and> l < j \<longrightarrow> me_size (xs ! l) \<le> me_size t"
  shows "\<exists>k. select_from ys j i t = (k, xs ! k) \<and> lo \<le> k \<and> k < length xs
    \<and> (\<forall>l. lo \<le> l \<and> l < length xs \<longrightarrow> me_size (xs ! l) \<le> me_size (xs ! k))"
  using assms
proof (induction ys arbitrary: j i t)
  case Nil
  then show ?case by (intro exI [of _ i]) auto
next
  case (Cons y ys)
  have j: "j < length xs" "xs ! j = y" "drop (Suc j) xs = ys"
    using Cons.prems(1) by (auto simp: drop_Suc drop_tl nth_via_drop intro: ccontr)
  show ?case
  proof (cases "me_size y > me_size t")
    case True
    then have "\<forall>l. lo \<le> l \<and> l < Suc j \<longrightarrow> me_size (xs ! l) \<le> me_size y"
      using Cons.prems(6) j(2) by (metis less_Suc_eq less_imp_le order_trans order_refl)
    then show ?thesis using Cons.IH [of "Suc j" j y] Cons.prems(3,4) j True by auto
  next
    case False
    then have "\<forall>l. lo \<le> l \<and> l < Suc j \<longrightarrow> me_size (xs ! l) \<le> me_size t"
      using Cons.prems(6) j(2) by (metis less_Suc_eq not_le)
    then show ?thesis using Cons.IH [of "Suc j" i t] Cons.prems(3-5) j False by auto
  qed
qed

definition sorted_upto :: "nat \<Rightarrow> memory_entry list \<Rightarrow> bool" where
  "sorted_upto i xs = (\<forall>p < i. \<forall>q < length xs. p < q \<longrightarrow> me_size (xs ! q) \<le> me_size (xs ! p))"

lemma mset_swap_entries:
  "i < length xs \<Longrightarrow> k < length xs \<Longrightarrow> mset (xs[k := xs ! i, i := xs ! k]) = mset xs"
  by (cases "i = k") (simp_all add: mset_swap)

lemma sort_step_sorts:
  assumes "sorted_upto i xs" "i < length xs"
  shows "sorted_upto (Suc i) (sort_step i xs) \<and> mset (sort_step i xs) = mset xs"
proof -
  obtain k where k: "select_from (drop (Suc i) xs) (Suc i) i (xs ! i) = (k, xs ! k)" "i \<le> k" "k < length xs"
      "\<forall>l. i \<le> l \<and> l < length xs \<longrightarrow> me_size (xs ! l) \<le> me_size (xs ! k)"
  proof -
    have "\<forall>l. i \<le> l \<and> l < Suc i \<longrightarrow> me_size (xs ! l) \<le> me_size (xs ! i)" by (metis le_antisym less_Suc_eq_le order_refl)
    from select_from_max [OF refl _ order_refl lessI refl this] assms(2) that show ?thesis by auto
  qed
  have s: "sort_step i xs = xs[k := xs ! i, i := xs ! k]"
    using k(1) assms(2) by (auto simp: sort_step_def)
  have "me_size (sort_step i xs ! q) \<le> me_size (sort_step i xs ! p)" if "p < Suc i" "p < q" "q < length xs" for p q
  proof (cases "p = i")
    case True
    with that k assms(2) show ?thesis unfolding s by (auto simp: nth_list_update)
  next
    case False
    then have "p < i" using that(1) by simp
    with that k(2,3) assms show ?thesis unfolding s by (auto simp: nth_list_update sorted_upto_def)
  qed
  then show ?thesis using mset_swap_entries [of i xs k] assms(2) k(3) by (auto simp: sorted_upto_def s)
qed

lemma sort_steps:
  "n < length xs \<Longrightarrow> sorted_upto n (fold sort_step [0..<n] xs) \<and> mset (fold sort_step [0..<n] xs) = mset xs"
proof (induction n)
  case (Suc n)
  then have "sorted_upto n (fold sort_step [0..<n] xs)" "mset (fold sort_step [0..<n] xs) = mset xs" by auto
  moreover have "length (fold sort_step [0..<n] xs) = length xs" using calculation(2) by (metis size_mset)
  ultimately show ?case using sort_step_sorts [of n "fold sort_step [0..<n] xs"] Suc.prems by simp
qed (simp add: sorted_upto_def)

text \<open>
  C34. The selection sort of \<^verbatim>\<open>output_memory_size_list\<close> and \<^verbatim>\<open>output_submemory_size_list\<close> returns the entries of the list, each as
  often as it was there, by descending size. With no entry the bound of its loop wraps around and it reads outside the list.
\<close>

theorem sort_memory_sizes_correct:
  "if xs = [] then sort_memory_sizes xs = Inl OutOfRange
   else \<exists>ys. sort_memory_sizes xs = Inr ys \<and> mset ys = mset xs \<and> sorted_wrt (\<lambda>x y. me_size y \<le> me_size x) ys"
proof (cases "xs = []")
  case False
  let ?ys = "fold sort_step [0..<length xs - 1] xs"
  have "length xs - 1 < length xs" using False by simp
  note s = sort_steps [OF this]
  moreover have len: "length ?ys = length xs" using s by (metis size_mset)
  have "me_size (?ys ! q) \<le> me_size (?ys ! p)" if "p < q" "q < length ?ys" for p q
  proof -
    have "p < length xs - 1" using that len by linarith
    then show ?thesis using s that unfolding sorted_upto_def by blast
  qed
  then have "sorted_wrt (\<lambda>x y. me_size y \<le> me_size x) ?ys" by (simp add: sorted_wrt_iff_nth_less)
  with s False show ?thesis by (simp add: sort_memory_sizes_def)
qed (simp add: sort_memory_sizes_def)

end
