(* ===== verification/Liveness_Graph.thy ===== *)
theory Liveness_Graph
  imports Liveness_Reports
begin

section \<open>The dependency graph of a run\<close>

text \<open>
  Runs of the memory liveness analysis. The invariant \<open>ml_graph_ok\<close> says that every edge of the dependency graph leads from a
  smaller operation id to a greater one, and that owners and readers of objects are operations of the graph. Every callback keeps it
  when its operation is newer than all others (\<open>ml_before\<close>, \<open>ml_during\<close> and \<open>ml_after\<close> are the states before, within and after
  an operation), so after a run the graph is acyclic and the report of the layers ends. A copy within one object breaks it.
\<close>

subsection \<open>The dependency graph stays acyclic\<close>

text \<open>
  Every edge ascends, the owners of objects and streams and the readers of objects are nodes, and no two addresses hold
  the same object.
\<close>

definition ml_graph_ok :: "memory_liveness \<Rightarrow> bool" where
  "ml_graph_ok s =
     (dg_ok (ml_graph s) \<and> map_ok (<) (ml_obj_ownership s) \<and> map_ok (<) (ml_stream_ownership s) \<and> map_ok (<) (ml_read_nodes s)
      \<and> map_ok (<) (ml_addresses_map s)
      \<and> (\<forall>e \<in> dg_edge_set (ml_graph s). ei_from e < ei_to e)
      \<and> (\<forall>o' v. map_at (<) (ml_obj_ownership s) o' = Some v \<longrightarrow> v \<in> dg_node_set (ml_graph s))
      \<and> (\<forall>st v. map_at (<) (ml_stream_ownership s) st = Some v \<longrightarrow> v \<in> dg_node_set (ml_graph s))
      \<and> (\<forall>o' vs. map_at (<) (ml_read_nodes s) o' = Some vs \<longrightarrow> set vs \<subseteq> dg_node_set (ml_graph s))
      \<and> (\<forall>a v. map_at (<) (ml_addresses_map s) a = Some v \<longrightarrow> v \<in> dg_node_set (ml_graph s))
      \<and> (\<forall>a b v. map_at (<) (ml_addresses_map s) a = Some v \<and> map_at (<) (ml_addresses_map s) b = Some v \<longrightarrow> a = b))"

lemma ml_graph_ok_start: "ml_graph_ok MemoryLiveness"
  by (simp add: ml_graph_ok_def MemoryLiveness_def dg_empty_ok)

lemma ascending_acyclic:
  assumes "\<forall>e \<in> dg_edge_set g. ei_from e < ei_to e"
  shows "acyclic (dg_rel g)"
proof -
  have "x < y" if "(x, y) \<in> (dg_rel g)\<^sup>+" for x y
    using that by (induction rule: trancl_induct) (use assms in \<open>auto simp: dg_rel_def\<close>)
  then show ?thesis by (auto simp: acyclic_def)
qed

text \<open>The parts of the state that the invariant is about.\<close>

definition graph_part :: "memory_liveness \<Rightarrow>
    dependency_graph \<times> (u64, u64) omap \<times> (u32, u64) omap \<times> (u64, u64 list) omap \<times> (u64, u64) omap" where
  "graph_part s = (ml_graph s, ml_obj_ownership s, ml_stream_ownership s, ml_read_nodes s, ml_addresses_map s)"

lemma graph_part_ok: "graph_part s' = graph_part s \<Longrightarrow> ml_graph_ok s' = ml_graph_ok s"
  by (simp add: graph_part_def ml_graph_ok_def)

lemma graph_part_simps [simp]:
  "graph_part (ml_update_op_node oid ctx s) = graph_part s"
  "graph_part (update_stream_for_ops st oid ty s) = graph_part s"
  "graph_part (ml_update_ctx_node ctx ty s) = graph_part s"
  "graph_part (update_global_op_id_start oid s) = graph_part s"
  "graph_part (memory_operation_register mid oid ty sub s) = graph_part s"
  "graph_part (update_torch_python_states env oid s) = graph_part s"
  "graph_part (get_torch_libunwind_backtrace env oid s) = graph_part s"
  "graph_part (update_stream_nodes oid st s) = graph_part s"
  by (auto simp: graph_part_def ml_update_op_node_def update_stream_for_ops_def ml_update_ctx_node_def update_global_op_id_start_def
      memory_operation_register_def update_torch_python_states_def get_torch_libunwind_backtrace_def update_stream_nodes_def Let_def
      split: option.splits)

text \<open>
  In the middle of an operation: no node has a greater number, and only the objects in \<open>T\<close> are owned or read by
  the operation itself.
\<close>

definition ml_during :: "u64 \<Rightarrow> u64 set \<Rightarrow> memory_liveness \<Rightarrow> bool" where
  "ml_during oid T s =
     (ml_graph_ok s \<and> (\<forall>n \<in> dg_node_set (ml_graph s). n \<le> oid)
      \<and> (\<forall>o' v. map_at (<) (ml_obj_ownership s) o' = Some v \<and> v = oid \<longrightarrow> o' \<in> T)
      \<and> (\<forall>o' vs. map_at (<) (ml_read_nodes s) o' = Some vs \<and> oid \<in> set vs \<longrightarrow> o' \<in> T))"

lemma graph_part_during: "graph_part s' = graph_part s \<Longrightarrow> ml_during oid T s' = ml_during oid T s"
  by (simp add: ml_during_def ml_graph_ok_def graph_part_def)

lemma ml_graph_okD:
  assumes "ml_graph_ok s"
  shows "map_at (<) (ml_obj_ownership s) o' = Some v \<Longrightarrow> v \<in> dg_node_set (ml_graph s)"
    "map_at (<) (ml_read_nodes s) o' = Some vs \<Longrightarrow> set vs \<subseteq> dg_node_set (ml_graph s)"
    "map_at (<) (ml_addresses_map s) a = Some w \<Longrightarrow> w \<in> dg_node_set (ml_graph s)"
    "map_at (<) (ml_addresses_map s) a = Some w \<Longrightarrow> map_at (<) (ml_addresses_map s) b = Some w \<Longrightarrow> a = b"
  using assms by (simp_all add: ml_graph_ok_def)

lemma ml_during_start:
  "ml_graph_ok s \<Longrightarrow> \<forall>n \<in> dg_node_set (ml_graph s). n < oid \<Longrightarrow> ml_during oid {} s"
proof -
  assume ok: "ml_graph_ok s" and new: "\<forall>n \<in> dg_node_set (ml_graph s). n < oid"
  then have n: "oid \<notin> dg_node_set (ml_graph s)" by auto
  have "v \<noteq> oid" if "map_at (<) (ml_obj_ownership s) o' = Some v" for o' v
    using ml_graph_okD(1) [OF ok that] n by auto
  moreover have "oid \<notin> set vs" if "map_at (<) (ml_read_nodes s) o' = Some vs" for o' vs
    using ml_graph_okD(2) [OF ok that] n by auto
  ultimately show "ml_during oid {} s" using ok new unfolding ml_during_def by (simp add: less_imp_le)
qed

text \<open>The node of the operation.\<close>

definition with_node :: "u64 \<Rightarrow> memory_operation \<Rightarrow> memory_liveness \<Rightarrow> memory_liveness" where
  "with_node oid ty s =
     (if \<not> dg_has_node oid (ml_graph s) then s\<lparr>ml_graph := dg_add_node oid (ml_Node oid ty) (ml_graph s)\<rparr> else s)"

lemma with_node_parts [simp]:
  "ml_obj_ownership (with_node oid ty s) = ml_obj_ownership s" "ml_stream_ownership (with_node oid ty s) = ml_stream_ownership s"
  "ml_read_nodes (with_node oid ty s) = ml_read_nodes s" "ml_addresses_map (with_node oid ty s) = ml_addresses_map s"
  by (simp_all add: with_node_def)

lemma dg_has_node_iff: "dg_ok g \<Longrightarrow> dg_has_node n g \<longleftrightarrow> n \<in> dg_node_set g"
  using u64_order.map_key_iff [of "dg_nodes g" n] by (auto simp: dg_has_node_def map_has_at dg_node_set_def dg_ok_def)

lemma with_node_ok:
  assumes "ml_during oid T s"
  shows "ml_during oid T (with_node oid ty s)" "oid \<in> dg_node_set (ml_graph (with_node oid ty s))"
    "dg_node_set (ml_graph (with_node oid ty s)) = insert oid (dg_node_set (ml_graph s))"
    "dg_edge_set (ml_graph (with_node oid ty s)) = dg_edge_set (ml_graph s)"
proof -
  have g: "dg_ok (ml_graph s)" using assms by (simp add: ml_during_def ml_graph_ok_def)
  note h = dg_has_node_iff [OF g, of oid] and a = dg_add_node_ok [OF g, of oid "ml_Node oid ty"]
  show V: "dg_node_set (ml_graph (with_node oid ty s)) = insert oid (dg_node_set (ml_graph s))"
    and E: "dg_edge_set (ml_graph (with_node oid ty s)) = dg_edge_set (ml_graph s)"
    using h a by (auto simp: with_node_def)
  then show "oid \<in> dg_node_set (ml_graph (with_node oid ty s))" by simp
  have "dg_ok (ml_graph (with_node oid ty s))" using g h a by (auto simp: with_node_def)
  with assms show "ml_during oid T (with_node oid ty s)"
    unfolding ml_during_def ml_graph_ok_def V E with_node_parts by blast
qed

text \<open>An edge from an older node to the node of the operation.\<close>

lemma ml_add_edge_ok:
  assumes "ml_during oid T s" "oid \<in> dg_node_set (ml_graph s)" "from \<in> dg_node_set (ml_graph s)" "from \<noteq> oid"
  shows "ml_during oid T (ml_add_edge (EdgeIndex from oid ty) edge s)"
    "dg_node_set (ml_graph (ml_add_edge (EdgeIndex from oid ty) edge s)) = dg_node_set (ml_graph s)"
proof -
  let ?s = "ml_add_edge (EdgeIndex from oid ty) edge s"
  have g: "dg_ok (ml_graph s)" using assms by (simp add: ml_during_def ml_graph_ok_def)
  note a = dg_add_edge_ok [OF g, of "EdgeIndex from oid ty" edge]
  have lt: "from < oid" using assms(1,3,4) by (auto simp: ml_during_def order_less_le)
  show V: "dg_node_set (ml_graph ?s) = dg_node_set (ml_graph s)" using a assms by (simp add: ml_add_edge_def)
  have E: "dg_edge_set (ml_graph ?s) = insert (EdgeIndex from oid ty) (dg_edge_set (ml_graph s))"
    and ok: "dg_ok (ml_graph ?s)" using a assms by (simp_all add: ml_add_edge_def)
  have "ml_obj_ownership ?s = ml_obj_ownership s" "ml_stream_ownership ?s = ml_stream_ownership s"
    "ml_read_nodes ?s = ml_read_nodes s" "ml_addresses_map ?s = ml_addresses_map s"
    by (simp_all add: ml_add_edge_def)
  with ok lt assms(1) show "ml_during oid T ?s" unfolding ml_during_def ml_graph_ok_def V E by auto
qed

lemma stream_owner_ok:
  assumes "ml_during oid T s" "oid \<in> dg_node_set (ml_graph s)"
  shows "ml_during oid T (s\<lparr>ml_stream_ownership := map_set (<) (ml_stream_ownership s) st oid\<rparr>)"
  using assms unfolding ml_during_def ml_graph_ok_def by (auto simp: u32_order.map_ok_set u32_order.map_at_set)

lemma ml_stream_edge_ok:
  assumes "ml_during oid T s" "oid \<in> dg_node_set (ml_graph s)" "map_at (<) (ml_stream_ownership s) st \<noteq> Some oid"
  shows "ml_during oid T (ml_stream_edge oid st s)" "dg_node_set (ml_graph (ml_stream_edge oid st s)) = dg_node_set (ml_graph s)"
proof -
  have "ml_during oid T (ml_stream_edge oid st s) \<and> dg_node_set (ml_graph (ml_stream_edge oid st s)) = dg_node_set (ml_graph s)"
  proof (cases "map_at (<) (ml_stream_ownership s) st")
    case None
    then show ?thesis using stream_owner_ok [OF assms(1,2), of st]
      by (simp add: ml_stream_edge_def map_emplace_def map_has_at)
  next
    case (Some prev)
    have p: "prev \<in> dg_node_set (ml_graph s)" "prev \<noteq> oid" using Some assms(1,3) by (auto simp: ml_during_def ml_graph_ok_def)
    note a = ml_add_edge_ok [OF assms(1,2) p, of STREAM_DEPENDENCY "[]"]
    have same: "ml_stream_ownership (ml_add_edge (EdgeIndex prev oid STREAM_DEPENDENCY) [] s) = ml_stream_ownership s"
      by (simp add: ml_add_edge_def)
    show ?thesis using stream_owner_ok [OF a(1), of st] a(2) assms(2) Some by (simp add: ml_stream_edge_def same)
  qed
  then show "ml_during oid T (ml_stream_edge oid st s)" "dg_node_set (ml_graph (ml_stream_edge oid st s)) = dg_node_set (ml_graph s)"
    by auto
qed

text \<open>An edge of the data flow, new or not.\<close>

lemma ml_data_edge_ok:
  assumes "ml_during oid T s" "oid \<in> dg_node_set (ml_graph s)" "from \<in> dg_node_set (ml_graph s)" "from \<noteq> oid"
    and "ml_data_edge from oid obj acc s = Inr s'"
  shows "ml_during oid T s' \<and> dg_node_set (ml_graph s') = dg_node_set (ml_graph s)
    \<and> ml_read_nodes s' = ml_read_nodes s \<and> ml_obj_ownership s' = ml_obj_ownership s"
proof (cases "dg_has_edge (EdgeIndex from oid DATA_DEPENDENCY) (ml_graph s)")
  case False
  then have "s' = ml_add_edge (EdgeIndex from oid DATA_DEPENDENCY) [(obj, acc)] s" using assms(5) by (simp add: ml_data_edge_def)
  with ml_add_edge_ok [OF assms(1-4)] show ?thesis by (simp add: ml_add_edge_def)
next
  case True
  let ?g = "ml_graph s" and ?e = "EdgeIndex from oid DATA_DEPENDENCY"
  obtain edge where s': "s' = s\<lparr>ml_graph := ?g\<lparr>dg_edges := map_set ei_lt (dg_edges ?g) ?e (map_emplace (<) edge obj acc)\<rparr>\<rparr>"
    using assms(5) True by (auto simp: ml_data_edge_def fbind_eq_Inr Let_def)
  have g: "dg_ok ?g" using assms(1) by (simp add: ml_during_def ml_graph_ok_def)
  then have m: "map_ok ei_lt (dg_edges ?g)" by (simp add: dg_ok_def)
  have "?e \<in> dg_edge_set ?g" using True ei_order.map_key_iff [OF m, of ?e] by (simp add: dg_has_edge_def map_has_at dg_edge_set_def)
  then have E: "dg_edge_set (ml_graph s') = dg_edge_set ?g" "dg_node_set (ml_graph s') = dg_node_set ?g"
    using m by (auto simp: s' dg_edge_set_def dg_node_set_def ei_order.map_keys_set)
  have "dg_ok (ml_graph s')" using g m unfolding dg_ok_def E by (simp add: s' ei_order.map_ok_set)
  with assms(1) E show ?thesis unfolding ml_during_def ml_graph_ok_def by (simp add: s')
qed

lemma ml_during_mono: "ml_during oid T s \<Longrightarrow> T \<subseteq> T' \<Longrightarrow> ml_during oid T' s"
  unfolding ml_during_def by blast

lemma ml_duringD:
  assumes "ml_during oid T s"
  shows "ml_graph_ok s" "\<forall>n \<in> dg_node_set (ml_graph s). n \<le> oid"
    "map_at (<) (ml_obj_ownership s) obj = Some v \<Longrightarrow> obj \<notin> T \<Longrightarrow> v \<in> dg_node_set (ml_graph s) \<and> v \<noteq> oid"
    "map_at (<) (ml_read_nodes s) obj = Some vs \<Longrightarrow> obj \<notin> T \<Longrightarrow> set vs \<subseteq> dg_node_set (ml_graph s) \<and> oid \<notin> set vs"
  using assms ml_graph_okD [of s] unfolding ml_during_def by blast+

lemma ml_during_read:
  assumes "ml_during oid T s" "set vs \<subseteq> dg_node_set (ml_graph s)" "oid \<in> set vs \<Longrightarrow> obj \<in> T"
  shows "ml_during oid T (s\<lparr>ml_read_nodes := map_set (<) (ml_read_nodes s) obj vs\<rparr>)"
  using assms by (auto simp: ml_during_def ml_graph_ok_def u64_order.map_ok_set u64_order.map_at_set split: if_splits)

lemma ml_during_own:
  assumes "ml_during oid T s" "oid \<in> dg_node_set (ml_graph s)" "obj \<in> T"
  shows "ml_during oid T (s\<lparr>ml_obj_ownership := map_set (<) (ml_obj_ownership s) obj oid\<rparr>)"
  using assms by (auto simp: ml_during_def ml_graph_ok_def u64_order.map_ok_set u64_order.map_at_set split: if_splits)

text \<open>Edges from readers.\<close>

lemma ml_data_edges_ok:
  assumes "ml_during oid T s" "oid \<in> dg_node_set (ml_graph s)" "set rs \<subseteq> dg_node_set (ml_graph s)" "oid \<notin> set rs"
    and "ffold (\<lambda>r. ml_data_edge r oid obj acc) rs s = Inr s'"
  shows "ml_during oid T s' \<and> dg_node_set (ml_graph s') = dg_node_set (ml_graph s)
    \<and> ml_read_nodes s' = ml_read_nodes s \<and> ml_obj_ownership s' = ml_obj_ownership s"
  using assms
proof (induction rs arbitrary: s)
  case (Cons r rs)
  then obtain s1 where s1: "ml_data_edge r oid obj acc s = Inr s1" "ffold (\<lambda>r. ml_data_edge r oid obj acc) rs s1 = Inr s'"
    by (auto simp: fbind_eq_Inr)
  have "r \<in> dg_node_set (ml_graph s)" "r \<noteq> oid" using Cons.prems(3,4) by auto
  note e = ml_data_edge_ok [OF Cons.prems(1,2) this s1(1)]
  from Cons.IH [OF _ _ _ _ s1(2)] e Cons.prems(2-4) show ?case by simp
qed simp

lemma ml_add_edges_ok:
  fixes ty edge
  assumes "ml_during oid T s" "oid \<in> dg_node_set (ml_graph s)" "set rs \<subseteq> dg_node_set (ml_graph s)" "oid \<notin> set rs"
  defines "s' \<equiv> fold (\<lambda>r. ml_add_edge (EdgeIndex r oid ty) edge) rs s"
  shows "ml_during oid T s' \<and> dg_node_set (ml_graph s') = dg_node_set (ml_graph s)
    \<and> ml_read_nodes s' = ml_read_nodes s \<and> ml_obj_ownership s' = ml_obj_ownership s \<and> ml_stream_ownership s' = ml_stream_ownership s"
  unfolding s'_def using assms(1-4)
proof (induction rs arbitrary: s)
  case (Cons r rs)
  have "r \<in> dg_node_set (ml_graph s)" "r \<noteq> oid" using Cons.prems(3,4) by auto
  note e = ml_add_edge_ok [OF Cons.prems(1,2) this, of ty edge]
  from Cons.IH [of "ml_add_edge (EdgeIndex r oid ty) edge s"] e Cons.prems(2-4) show ?case by (simp add: ml_add_edge_def)
qed simp

text \<open>An access of an object that the operation has not touched yet.\<close>

lemma ml_access_enter:
  fixes ty st
  assumes "ml_during oid T s"
  defines "s1 \<equiv> with_node oid ty s"
  defines "s3 \<equiv> update_stream_nodes oid st (if map_at (<) (ml_stream_ownership s1) st = Some oid then s1 else ml_stream_edge oid st s1)"
  shows "ml_during oid T s3" "oid \<in> dg_node_set (ml_graph s3)" "ml_addresses_map s3 = ml_addresses_map s"
proof -
  note w = with_node_ok [OF assms(1), of ty]
  note e = ml_stream_edge_ok [OF w(1,2), of st]
  have p: "graph_part s3 = graph_part (if map_at (<) (ml_stream_ownership s1) st = Some oid then s1 else ml_stream_edge oid st s1)"
    by (simp only: s3_def graph_part_simps)
  show "ml_during oid T s3" using graph_part_during [OF p] w e by (simp add: s1_def)
  have "ml_graph s3 = ml_graph (if map_at (<) (ml_stream_ownership s1) st = Some oid then s1 else ml_stream_edge oid st s1)"
    "ml_addresses_map s3 = ml_addresses_map (if map_at (<) (ml_stream_ownership s1) st = Some oid then s1 else ml_stream_edge oid st s1)"
    using p by (simp_all add: graph_part_def)
  then show "oid \<in> dg_node_set (ml_graph s3)" "ml_addresses_map s3 = ml_addresses_map s" using w e
    by (simp_all add: s1_def ml_stream_edge_def ml_add_edge_def split: option.splits)
qed

lemma ml_data_edge_addresses: "ml_data_edge a b obj acc s = Inr s' \<Longrightarrow> ml_addresses_map s' = ml_addresses_map s"
  by (auto simp: ml_data_edge_def ml_add_edge_def fbind_eq_Inr Let_def split: if_splits)

lemma ml_access_ok:
  assumes "ml_during oid T s" "obj \<notin> T" "update_graph_at_access oid ty st obj acc s = Inr s'"
  shows "ml_during oid (insert obj T) s' \<and> ml_addresses_map s' = ml_addresses_map s"
proof -
  let ?s1 = "with_node oid ty s"
  let ?s3 = "update_stream_nodes oid st (if map_at (<) (ml_stream_ownership ?s1) st = Some oid then ?s1 else ml_stream_edge oid st ?s1)"
  note e = ml_access_enter [where ty = ty and st = st, OF assms(1)]
  obtain rs where rs: "map_at (<) (ml_read_nodes ?s3) obj = Some rs"
    and run: "(case acc of
           READ \<Rightarrow>
             let s4 = ?s3\<lparr>ml_read_nodes := map_set (<) (ml_read_nodes ?s3) obj (rs @ [oid])\<rparr>
             in fbind (or_fault NullDeref (map_at (<) (ml_obj_ownership s4) obj)) (\<lambda>owner. ml_data_edge owner oid obj acc s4)
         | WRITE \<Rightarrow>
             fbind (if rs = [] then
                      fbind (or_fault NullDeref (map_at (<) (ml_obj_ownership ?s3) obj)) (\<lambda>owner. ml_data_edge owner oid obj acc ?s3)
                    else
                      fbind (ffold (\<lambda>r. ml_data_edge r oid obj acc) rs ?s3) (\<lambda>s4.
                        Inr (s4\<lparr>ml_read_nodes := map_set (<) (ml_read_nodes s4) obj []\<rparr>))) (\<lambda>s5.
             fbind (or_fault NullDeref (map_at (<) (ml_obj_ownership s5) obj)) (\<lambda>_.
               Inr (s5\<lparr>ml_obj_ownership := map_set (<) (ml_obj_ownership s5) obj oid\<rparr>)))) = Inr s'"
    using assms(3) unfolding update_graph_at_access_def with_node_def [symmetric] Let_def by (auto simp: fbind_eq_Inr)
  note r = ml_duringD(4) [OF e(1) rs assms(2)]
  show ?thesis
  proof (cases acc)
    case READ
    let ?s4 = "?s3\<lparr>ml_read_nodes := map_set (<) (ml_read_nodes ?s3) obj (rs @ [oid])\<rparr>"
    obtain owner where o: "map_at (<) (ml_obj_ownership ?s3) obj = Some owner" "ml_data_edge owner oid obj acc ?s4 = Inr s'"
      using run READ by (auto simp: fbind_eq_Inr Let_def)
    have d: "ml_during oid (insert obj T) ?s4"
      by (rule ml_during_read [OF ml_during_mono [OF e(1)]]) (use r e(2) in auto)
    note own = ml_duringD(3) [OF e(1) o(1) assms(2)]
    show ?thesis using ml_data_edge_ok [OF d _ _ _ o(2)] ml_data_edge_addresses [OF o(2)] own e(2,3) by simp
  next
    case WRITE
    have "\<exists>s5. ml_during oid T s5 \<and> dg_node_set (ml_graph s5) = dg_node_set (ml_graph ?s3) \<and> ml_addresses_map s5 = ml_addresses_map ?s3
        \<and> s' = s5\<lparr>ml_obj_ownership := map_set (<) (ml_obj_ownership s5) obj oid\<rparr>"
    proof (cases "rs = []")
      case True
      then obtain owner where o: "map_at (<) (ml_obj_ownership ?s3) obj = Some owner" and
        x: "\<exists>s5. ml_data_edge owner oid obj acc ?s3 = Inr s5 \<and> s' = s5\<lparr>ml_obj_ownership := map_set (<) (ml_obj_ownership s5) obj oid\<rparr>"
        using run WRITE by (auto simp: fbind_eq_Inr Let_def)
      then obtain s5 where s5: "ml_data_edge owner oid obj acc ?s3 = Inr s5" "s' = s5\<lparr>ml_obj_ownership := map_set (<) (ml_obj_ownership s5) obj oid\<rparr>"
        by blast
      note own = ml_duringD(3) [OF e(1) o(1) assms(2)]
      show ?thesis using ml_data_edge_ok [OF e(1,2) _ _ s5(1)] ml_data_edge_addresses [OF s5(1)] own s5(2) by blast
    next
      case False
      then obtain s4 where s4: "ffold (\<lambda>r. ml_data_edge r oid obj acc) rs ?s3 = Inr s4"
        "s' = s4\<lparr>ml_read_nodes := map_set (<) (ml_read_nodes s4) obj [], ml_obj_ownership := map_set (<) (ml_obj_ownership s4) obj oid\<rparr>"
        using run WRITE by (auto simp: fbind_eq_Inr Let_def)
      note d = ml_data_edges_ok [OF e(1,2) _ _ s4(1)]
      have "ml_addresses_map s4 = ml_addresses_map ?s3"
        by (rule ffold_invariant [where P = "\<lambda>x. ml_addresses_map x = ml_addresses_map ?s3", OF _ _ s4(1)])
           (auto dest: ml_data_edge_addresses)
      then show ?thesis using d r s4(2) ml_during_read [of oid T s4 "[]" obj]
        by (intro exI [of _ "s4\<lparr>ml_read_nodes := map_set (<) (ml_read_nodes s4) obj []\<rparr>"]) auto
    qed
    then obtain s5 where s5: "ml_during oid T s5" "dg_node_set (ml_graph s5) = dg_node_set (ml_graph ?s3)" "ml_addresses_map s5 = ml_addresses_map ?s3"
      "s' = s5\<lparr>ml_obj_ownership := map_set (<) (ml_obj_ownership s5) obj oid\<rparr>" by blast
    have "ml_during oid (insert obj T) s5" using s5(1) by (rule ml_during_mono) auto
    from ml_during_own [OF this, of obj] s5 e(2,3) show ?thesis by simp
  qed
qed

text \<open>Registering sub-memories and adding up what a kernel hit leave the graph alone.\<close>

lemma graph_part_register_list: "graph_part (fold (\<lambda>i. memory_operation_register i oid ty sub) ids s) = graph_part s"
  by (induction ids arbitrary: s) simp_all

lemma graph_part_sub_between: "register_sub_between l r oid ty s = Inr s' \<Longrightarrow> graph_part s' = graph_part s"
  by (auto simp: register_sub_between_def fbind_eq_Inr graph_part_register_list)

lemma graph_part_sub_written:
  assumes "register_sub_written st len oid ty s = Inr s'"
  shows "graph_part s' = graph_part s"
proof -
  obtain x where "sub_iterators st len s = Inr x" using assms by (auto simp: register_sub_written_def fbind_eq_Inr)
  with assms show ?thesis
    by (cases x) (auto simp: register_sub_written_def fbind_eq_Inr dest: graph_part_sub_between split: if_splits prod.splits)
qed

lemma graph_part_sub_read:
  assumes "register_sub_read st len oid ty s = Inr s'"
  shows "graph_part s' = graph_part s"
proof -
  obtain x where "sub_iterators st len s = Inr x" using assms by (auto simp: register_sub_read_def fbind_eq_Inr)
  with assms show ?thesis
    by (cases x) (auto simp: register_sub_read_def fbind_eq_Inr dest: graph_part_sub_between split: if_splits prod.splits)
qed

lemma graph_part_aux_hit:
  assumes "update_aux_hit aux oid sub s = Inr s'"
  shows "graph_part s' = graph_part s"
proof -
  obtain usage s1 where s1: "aux_hit_loop aux oid sub s = Inr (usage, s1)" "graph_part s' = graph_part s1"
    using assms by (auto simp: update_aux_hit_def fbind_eq_Inr graph_part_def split: if_splits)
  have "graph_part (snd (usage, s1)) = graph_part s"
    by (rule ffold_invariant [where P = "\<lambda>x. graph_part (snd x) = graph_part s", OF _ _ s1(1) [unfolded aux_hit_loop_def]])
       (auto simp: fbind_eq_Inr Let_def split: if_splits)
  with s1(2) show ?thesis by simp
qed

text \<open>Before an operation: no node has its number yet.\<close>

definition ml_before :: "u64 \<Rightarrow> memory_liveness \<Rightarrow> bool" where
  "ml_before oid s = (ml_graph_ok s \<and> (\<forall>n \<in> dg_node_set (ml_graph s). n < oid))"

lemma graph_part_before: "graph_part s' = graph_part s \<Longrightarrow> ml_before oid s' = ml_before oid s"
  by (simp add: ml_before_def ml_graph_ok_def graph_part_def)

lemma ml_before_during: "ml_before oid s \<Longrightarrow> ml_during oid {} s"
  by (simp add: ml_before_def ml_during_start)

lemma ml_before_has_node: "ml_before oid s \<Longrightarrow> \<not> dg_has_node oid (ml_graph s)"
  by (auto simp: ml_before_def ml_graph_ok_def dg_has_node_iff)

lemma ml_before_stream: "ml_before oid s \<Longrightarrow> map_at (<) (ml_stream_ownership s) st \<noteq> Some oid"
  by (auto simp: ml_before_def ml_graph_ok_def)

text \<open>The stream edge after the node has been entered into the stream.\<close>

lemma ml_stream_enter:
  assumes "ml_during oid T s" "oid \<in> dg_node_set (ml_graph s)" "map_at (<) (ml_stream_ownership s) st \<noteq> Some oid"
  shows "ml_during oid T (ml_stream_edge oid st (update_stream_nodes oid st s))"
    "dg_node_set (ml_graph (ml_stream_edge oid st (update_stream_nodes oid st s))) = dg_node_set (ml_graph s)"
proof -
  let ?s = "update_stream_nodes oid st s"
  have p: "graph_part ?s = graph_part s" by simp
  then have "ml_graph ?s = ml_graph s" "ml_stream_ownership ?s = ml_stream_ownership s" by (simp_all add: graph_part_def)
  with ml_stream_edge_ok [of oid T ?s st] graph_part_during [OF p] assms
  show "ml_during oid T (ml_stream_edge oid st ?s)" "dg_node_set (ml_graph (ml_stream_edge oid st ?s)) = dg_node_set (ml_graph s)"
    by simp_all
qed

lemma ml_malloc_graph_ok:
  fixes st ty
  assumes "ml_before oid s"
  defines "s' \<equiv> update_graph_at_malloc oid st ty s"
  shows "ml_during oid {oid} s'" "oid \<in> dg_node_set (ml_graph s')" "ml_addresses_map s' = ml_addresses_map s"
    "ml_read_nodes s' = ml_read_nodes s"
proof -
  let ?s0 = "with_node oid ty s"
  let ?s1 = "?s0\<lparr>ml_obj_ownership := map_emplace (<) (ml_obj_ownership s) oid oid\<rparr>"
  note w = with_node_ok [OF ml_before_during [OF assms(1)], of ty]
  have "ml_during oid {oid} ?s1"
    using ml_during_mono [OF w(1), of "{oid}"] ml_during_own [of oid "{oid}" ?s0 oid] w(2)
    by (cases "map_has (<) (ml_obj_ownership s) oid")
       (simp_all add: map_emplace_def graph_part_during [of "?s0\<lparr>ml_obj_ownership := ml_obj_ownership s\<rparr>" ?s0] graph_part_def)
  note e = ml_stream_enter [OF this, of st]
  have def: "s' = ml_stream_edge oid st (update_stream_nodes oid st ?s1)"
    using ml_before_has_node [OF assms(1)] by (simp add: s'_def update_graph_at_malloc_def with_node_def)
  have p: "graph_part (update_stream_nodes oid st ?s1) = graph_part ?s1" by simp
  show "ml_during oid {oid} s'" "oid \<in> dg_node_set (ml_graph s')"
    using e w(2) ml_before_stream [OF assms(1)] by (simp_all add: def)
  show "ml_addresses_map s' = ml_addresses_map s" "ml_read_nodes s' = ml_read_nodes s"
    using p by (simp_all add: def ml_stream_edge_def ml_add_edge_def graph_part_def split: option.splits)
qed

lemma ml_free_graph_ok:
  assumes "ml_before oid s" "update_graph_at_free oid st mid ty s = Inr s'"
  shows "ml_during oid {mid} s'"
proof -
  let ?s1 = "with_node oid ty s"
  obtain owner rs where o: "map_at (<) (ml_obj_ownership ?s1) mid = Some owner" "map_at (<) (ml_read_nodes ?s1) mid = Some rs"
    and s': "s' = (let s2 = (if rs = [] then ml_add_edge (EdgeIndex owner oid DATA_DEPENDENCY) [(mid, WRITE)] ?s1
                     else (fold (\<lambda>r. ml_add_edge (EdgeIndex r oid DATA_DEPENDENCY) [(mid, WRITE)]) rs ?s1)
                            \<lparr>ml_read_nodes := map_set (<) (ml_read_nodes ?s1) mid []\<rparr>);
               s3 = s2\<lparr>ml_obj_ownership := map_set (<) (ml_obj_ownership s2) mid oid\<rparr>
           in ml_stream_edge oid st (update_stream_nodes oid st s3))"
    using assms(2) unfolding update_graph_at_free_def with_node_def [symmetric] by (auto simp: fbind_eq_Inr Let_def)
  note d = ml_before_during [OF assms(1)]
  note w = with_node_ok [OF d, of ty]
  note own = ml_duringD(3) [OF w(1) o(1)] and rds = ml_duringD(4) [OF w(1) o(2)]
  define s2 where "s2 = (if rs = [] then ml_add_edge (EdgeIndex owner oid DATA_DEPENDENCY) [(mid, WRITE)] ?s1
                     else (fold (\<lambda>r. ml_add_edge (EdgeIndex r oid DATA_DEPENDENCY) [(mid, WRITE)]) rs ?s1)
                            \<lparr>ml_read_nodes := map_set (<) (ml_read_nodes ?s1) mid []\<rparr>)"
  have s2: "ml_during oid {} s2 \<and> dg_node_set (ml_graph s2) = dg_node_set (ml_graph ?s1) \<and> ml_stream_ownership s2 = ml_stream_ownership ?s1"
  proof (cases "rs = []")
    case True
    then show ?thesis using ml_add_edge_ok [OF w(1,2), of owner DATA_DEPENDENCY "[(mid, WRITE)]"] own
      by (simp add: s2_def) (simp add: ml_add_edge_def)
  next
    case False
    let ?f = "fold (\<lambda>r. ml_add_edge (EdgeIndex r oid DATA_DEPENDENCY) [(mid, WRITE)]) rs ?s1"
    note f = ml_add_edges_ok [OF w(1,2), of rs DATA_DEPENDENCY "[(mid, WRITE)]"]
    have "ml_during oid {} (?f\<lparr>ml_read_nodes := map_set (<) (ml_read_nodes ?f) mid []\<rparr>)"
      by (rule ml_during_read) (use f rds in auto)
    with f rds False show ?thesis by (simp add: s2_def)
  qed
  have "ml_during oid {mid} (s2\<lparr>ml_obj_ownership := map_set (<) (ml_obj_ownership s2) mid oid\<rparr>)"
    using ml_during_own [OF ml_during_mono [of oid "{}" s2 "{mid}"], of mid] s2 w(2) by simp
  from ml_stream_enter(1) [OF this, of st] s2 w(2) ml_before_stream [OF assms(1)]
  show ?thesis by (simp add: s' s2_def [symmetric])
qed

text \<open>After an operation.\<close>

definition ml_after :: "u64 \<Rightarrow> memory_liveness \<Rightarrow> bool" where
  "ml_after oid s = (ml_graph_ok s \<and> (\<forall>n \<in> dg_node_set (ml_graph s). n \<le> oid))"

lemma ml_during_after: "ml_during oid T s \<Longrightarrow> ml_after oid s"
  by (simp add: ml_during_def ml_after_def)

lemma graph_part_after: "graph_part s' = graph_part s \<Longrightarrow> ml_after oid s' = ml_after oid s"
  by (simp add: ml_after_def ml_graph_ok_def graph_part_def)

lemma ml_graph_ok_alloc:
  assumes "ml_graph_ok s" "oid \<in> dg_node_set (ml_graph s)" "\<And>a. map_at (<) (ml_addresses_map s) a \<noteq> Some oid"
    and "graph_part s' = (ml_graph s, ml_obj_ownership s, ml_stream_ownership s,
      map_emplace (<) (ml_read_nodes s) oid [], map_emplace (<) (ml_addresses_map s) st oid)"
  shows "ml_graph_ok s'"
proof -
  have p: "ml_graph s' = ml_graph s" "ml_obj_ownership s' = ml_obj_ownership s" "ml_stream_ownership s' = ml_stream_ownership s"
    "ml_read_nodes s' = map_emplace (<) (ml_read_nodes s) oid []" "ml_addresses_map s' = map_emplace (<) (ml_addresses_map s) st oid"
    using assms(4) by (simp_all add: graph_part_def)
  show ?thesis
    using assms(1-3) unfolding ml_graph_ok_def p
    by (auto simp: u64_order.map_ok_emplace u64_order.map_at_emplace split: if_splits)
qed

lemma ml_graph_ok_dealloc:
  assumes "ml_graph_ok s" "graph_part s' = (ml_graph s, ml_obj_ownership s, ml_stream_ownership s,
      ml_read_nodes s, map_erase (<) (ml_addresses_map s) st)"
  shows "ml_graph_ok s'"
proof -
  have p: "ml_graph s' = ml_graph s" "ml_obj_ownership s' = ml_obj_ownership s" "ml_stream_ownership s' = ml_stream_ownership s"
    "ml_read_nodes s' = ml_read_nodes s" "ml_addresses_map s' = map_erase (<) (ml_addresses_map s) st"
    using assms(2) by (simp_all add: graph_part_def)
  show ?thesis
    using assms(1) unfolding ml_graph_ok_def p
    by (auto simp: u64_order.map_ok_erase u64_order.map_at_erase split: if_splits)
qed

text \<open>Kernels: the objects they hit start at different addresses, so no object is accessed twice.\<close>

lemma ml_entry_cases:
  assumes "update_graph_at_entry aux oid stream i s = Inr s'"
  obtains "s' = s" | mid acc where "map_at (<) (ml_addresses_map s) (fst (aux_start_end aux ! i)) = Some mid"
    "update_graph_at_access oid REDSHOW_MEMORY_ACCESS stream mid acc s = Inr s'"
  using assms by (auto simp: update_graph_at_entry_def fbind_eq_Inr aux_at_def split: if_splits)

lemma ml_kernel_loop_ok:
  assumes "ml_during oid T s" "distinct (map (\<lambda>i. fst (aux_start_end aux ! i)) is)"
    "\<And>i mid. i \<in> set is \<Longrightarrow> map_at (<) (ml_addresses_map s) (fst (aux_start_end aux ! i)) = Some mid \<Longrightarrow> mid \<notin> T"
    and "ffold (update_graph_at_entry aux oid stream) is s = Inr s'"
  shows "ml_after oid s'"
  using assms
proof (induction "is" arbitrary: s T)
  case Nil
  then show ?case by (auto dest: ml_during_after)
next
  case (Cons i "is")
  let ?b = "fst (aux_start_end aux ! i)"
  obtain s1 where s1: "update_graph_at_entry aux oid stream i s = Inr s1"
    and r: "ffold (update_graph_at_entry aux oid stream) is s1 = Inr s'"
    using Cons.prems(4) by (auto simp: fbind_eq_Inr)
  have dist: "distinct (map (\<lambda>i. fst (aux_start_end aux ! i)) is)" using Cons.prems(2) by simp
  from s1 show ?case
  proof (cases rule: ml_entry_cases)
    case 1
    show ?thesis
      by (rule Cons.IH [OF Cons.prems(1) dist _ r [unfolded 1]]) (rule Cons.prems(3), simp_all)
  next
    case (2 mid acc)
    have new: "mid \<notin> T" using Cons.prems(3) [OF _ 2(1)] by simp
    note ok = ml_access_ok [OF Cons.prems(1) new 2(2)]
    have graph: "ml_graph_ok s" using Cons.prems(1) by (simp add: ml_during_def)
    show ?thesis
    proof (rule Cons.IH [OF conjunct1 [OF ok] dist _ r])
      fix j mid' assume j: "j \<in> set is" "map_at (<) (ml_addresses_map s1) (fst (aux_start_end aux ! j)) = Some mid'"
      then have at: "map_at (<) (ml_addresses_map s) (fst (aux_start_end aux ! j)) = Some mid'" using ok by simp
      have "mid' \<noteq> mid"
      proof
        assume "mid' = mid"
        with ml_graph_okD(4) [OF graph at] 2(1) have "fst (aux_start_end aux ! j) = ?b" by simp
        moreover have "fst (aux_start_end aux ! j) \<in> (\<lambda>i. fst (aux_start_end aux ! i)) ` set is" using j(1) by (rule imageI)
        ultimately show False using Cons.prems(2) by simp
      qed
      with Cons.prems(3) [OF _ at] j(1) show "mid' \<notin> insert mid T" by simp
    qed
  qed
qed

lemma ml_kernel_graph_ok:
  assumes "ml_before oid s" "distinct (map fst (take (unat (aux_size aux)) (aux_start_end aux)))"
    "update_graph_at_kernel aux oid stream s = Inr s'" "unat (aux_size aux) \<le> length (aux_start_end aux)"
  shows "ml_after oid s'"
proof -
  have "map (\<lambda>i. fst (aux_start_end aux ! i)) [0..<unat (aux_size aux)] = map fst (take (unat (aux_size aux)) (aux_start_end aux))"
    using assms(4) by (intro nth_equalityI) auto
  then show ?thesis
    using ml_kernel_loop_ok [OF ml_before_during [OF assms(1)] _ _ assms(3) [unfolded update_graph_at_kernel_def]] assms(2) by simp
qed

lemma ml_before_after: "ml_before oid s \<Longrightarrow> ml_after oid s"
  by (auto simp: ml_before_def ml_after_def)

lemma ml_address_new: "ml_before oid s \<Longrightarrow> map_at (<) (ml_addresses_map s) a \<noteq> Some oid"
  using ml_graph_okD(3) [of s a oid] by (auto simp: ml_before_def)

lemma ml_memory_op_ok:
  assumes "ml_before (op_id op) s"
  shows "ml_after (op_id op) (ml_memory_op_callback env op sub s)"
proof (cases sub)
  case True
  have p: "graph_part (ml_memory_op_callback env op sub s) = graph_part s"
    using True graph_part_simps(4,5,6,7) unfolding ml_memory_op_callback_def Let_def
    by (simp add: graph_part_def memory_operation_register_def update_torch_python_states_def get_torch_libunwind_backtrace_def
        update_global_op_id_start_def)
  show ?thesis using graph_part_after [OF p] ml_before_after [OF assms] by simp
next
  case False
  let ?oid = "op_id op"
  let ?s3 = "ml_update_ctx_node (ctx_id op) REDSHOW_MEMORY_ALLOC (update_stream_for_ops (mem_stream_id op) ?oid REDSHOW_MEMORY_ALLOC
      (ml_update_op_node ?oid (ctx_id op) (update_global_op_id_start ?oid s)))"
  let ?s4 = "update_graph_at_malloc ?oid (mem_stream_id op) REDSHOW_MEMORY_ALLOC ?s3"
  have p3: "graph_part ?s3 = graph_part s" by simp
  then have b: "ml_before ?oid ?s3" using assms graph_part_before by blast
  note m = ml_malloc_graph_ok [where st = "mem_stream_id op" and ty = REDSHOW_MEMORY_ALLOC, OF b]
  have p: "graph_part (ml_memory_op_callback env op sub s) = (ml_graph ?s4, ml_obj_ownership ?s4, ml_stream_ownership ?s4,
      map_emplace (<) (ml_read_nodes ?s4) ?oid [], map_emplace (<) (ml_addresses_map ?s4) (mr_start (mem_range op)) ?oid)"
    using False unfolding ml_memory_op_callback_def Let_def by (simp add: graph_part_def memory_operation_register_def)
  have "ml_graph_ok (ml_memory_op_callback env op sub s)"
    by (rule ml_graph_ok_alloc [OF _ _ _ p]) (use m ml_address_new [OF b] in \<open>simp_all add: ml_during_def\<close>)
  moreover have "ml_graph (ml_memory_op_callback env op sub s) = ml_graph ?s4" using p by (simp add: graph_part_def)
  ultimately show ?thesis using m(1) by (simp add: ml_after_def ml_during_def)
qed

lemma ml_memfree_op_ok:
  assumes "ml_before (op_id op) s" "ml_memfree_op_callback env op sub s = Inr s'"
  shows "ml_after (op_id op) s'"
proof (cases sub)
  case True
  have p: "graph_part s' = graph_part s"
    using assms(2) True unfolding ml_memfree_op_callback_def Let_def
    by (auto simp: fbind_eq_Inr graph_part_def memory_operation_register_def update_torch_python_states_def get_torch_libunwind_backtrace_def)
  show ?thesis using graph_part_after [OF p] ml_before_after [OF assms(1)] by simp
next
  case False
  let ?oid = "op_id op"
  let ?s3 = "ml_update_ctx_node (ctx_id op) REDSHOW_MEMORY_FREE (update_stream_for_ops (mf_stream_id op) ?oid REDSHOW_MEMORY_FREE
      (ml_update_op_node ?oid (ctx_id op) s))"
  have p3: "graph_part ?s3 = graph_part s" by simp
  then have b: "ml_before ?oid ?s3" using assms(1) graph_part_before by blast
  obtain mid s5 where run: "update_graph_at_free ?oid (mf_stream_id op) mid REDSHOW_MEMORY_FREE s5 = Inr s'"
    and p5: "graph_part s5 = (ml_graph ?s3, ml_obj_ownership ?s3, ml_stream_ownership ?s3, ml_read_nodes ?s3,
      map_erase (<) (ml_addresses_map ?s3) (mr_start (mf_range op)))"
    using assms(2) False unfolding ml_memfree_op_callback_def Let_def
    by (auto simp: fbind_eq_Inr graph_part_def memory_operation_register_def)
  have "ml_graph_ok s5" using b by (intro ml_graph_ok_dealloc [OF _ p5]) (simp add: ml_before_def)
  moreover have "ml_graph s5 = ml_graph ?s3" using p5 by (simp add: graph_part_def)
  ultimately have "ml_before ?oid s5" using b by (simp add: ml_before_def)
  from ml_during_after [OF ml_free_graph_ok [OF this run]] show ?thesis .
qed

text \<open>A copy between two different objects, or from or to the host.\<close>

lemma ml_copy_side_ok:
  assumes "ml_during (op_id op) T s" "mid \<noteq> REDSHOW_MEMORY_HOST \<Longrightarrow> mid \<notin> T" "ml_copy_side op ty acc mid stream s = Inr s'"
  shows "ml_during (op_id op) (insert mid T) s'"
proof (cases "mid = REDSHOW_MEMORY_HOST")
  case True
  then show ?thesis using assms(1,3) ml_during_mono [of "op_id op" T s "insert mid T"] by (auto simp: ml_copy_side_def)
next
  case False
  let ?s = "memory_operation_register mid (op_id op) ty False
      (update_stream_for_ops stream (op_id op) ty (ml_update_ctx_node (ctx_id op) ty s))"
  have p: "graph_part ?s = graph_part s" by simp
  have "ml_during (op_id op) T ?s" using graph_part_during [OF p] assms(1) by simp
  from ml_access_ok [OF this assms(2) [OF False]] assms(3) False show ?thesis by (simp add: ml_copy_side_def Let_def)
qed

lemma ml_memcpy_op_ok:
  assumes "ml_before (op_id op) s" "ml_memcpy_op_callback op s = Inr s'"
    and "src_memory_op_id op \<noteq> dst_memory_op_id op \<or> dst_memory_op_id op = REDSHOW_MEMORY_HOST"
  shows "ml_after (op_id op) s'"
proof -
  let ?s = "ml_update_op_node (op_id op) (ctx_id op) s"
  obtain s1 s2 where s1: "ml_copy_side op REDSHOW_MEMORY_COPYF READ (src_memory_op_id op) (src_stream_id op) ?s = Inr s1"
    and s2: "ml_copy_side op REDSHOW_MEMORY_COPYT WRITE (dst_memory_op_id op) (dst_stream_id op) s1 = Inr s2"
    and p: "graph_part s' = graph_part s2"
    using assms(2) unfolding ml_memcpy_op_callback_def
    by (auto simp: fbind_eq_Inr split: if_splits dest!: graph_part_sub_read graph_part_sub_written)
  have p1: "graph_part ?s = graph_part s" by simp
  have "ml_during (op_id op) {} ?s" using graph_part_during [OF p1] ml_before_during [OF assms(1)] by simp
  note d1 = ml_copy_side_ok [OF this _ s1]
  have "ml_during (op_id op) {dst_memory_op_id op, src_memory_op_id op} s2"
    using ml_copy_side_ok [OF d1 _ s2] assms(3) by auto
  from ml_during_after [OF this] graph_part_after [OF p] show ?thesis by simp
qed

lemma ml_memset_op_ok:
  assumes "ml_before (op_id op) s" "ml_memset_op_callback op s = Inr s'"
  shows "ml_after (op_id op) s'"
proof -
  let ?s = "update_stream_for_ops (ms_stream_id op) (op_id op) REDSHOW_MEMORY_SET
      (ml_update_ctx_node (ctx_id op) REDSHOW_MEMORY_SET (ml_update_op_node (op_id op) (ctx_id op) s))"
  obtain s4 where s4: "update_graph_at_access (op_id op) REDSHOW_MEMORY_SET (ms_stream_id op) (ms_memory_op_id op) WRITE ?s = Inr s4"
    and p: "graph_part s' = graph_part s4"
    using assms(2) unfolding ml_memset_op_callback_def Let_def
    by (auto simp: fbind_eq_Inr dest!: graph_part_sub_written)
  have p1: "graph_part ?s = graph_part s" by simp
  have "ml_during (op_id op) {} ?s" using graph_part_during [OF p1] ml_before_during [OF assms(1)] by simp
  from ml_access_ok [OF this _ s4] have "ml_during (op_id op) {ms_memory_op_id op} s4" by simp
  from ml_during_after [OF this] graph_part_after [OF p] show ?thesis by simp
qed

lemma graph_part_kernel_op: "graph_part (ml_kernel_op_callback env op s) = graph_part s"
  by (simp add: ml_kernel_op_callback_def Let_def) (simp add: graph_part_def update_stream_for_ops_def ml_update_ctx_node_def
      ml_update_op_node_def Let_def split: option.splits)

subsection \<open>Runs\<close>

text \<open>The events of a run: an operation, or the end of a kernel whose buffers have come back.\<close>

datatype ml_event =
    LvOp ml_env operation bool
  | LvKernel "aux_address_dict option" "aux_address_dict option" u64 u32 gpu_patch_type

fun ml_step :: "ml_event \<Rightarrow> memory_liveness \<Rightarrow> memory_liveness outcome" where
  "ml_step (LvOp env op sub) s = ml_op_callback env op sub s"
| "ml_step (LvKernel aux torch_aux oid stream ty) s = ml_analysis_begin aux torch_aux oid stream ty s"

definition ml_run :: "ml_event list \<Rightarrow> memory_liveness \<Rightarrow> memory_liveness outcome" where
  "ml_run evs s = ffold ml_step evs s"

text \<open>The operation ids that an event may enter into the dependency graph.\<close>

fun ml_graph_ids :: "ml_event \<Rightarrow> u64 list" where
  "ml_graph_ids (LvOp env (KernelOp k) sub) = []"
| "ml_graph_ids (LvOp env (MemoryOp m) sub) = (if sub then [] else [op_id m])"
| "ml_graph_ids (LvOp env (MemfreeOp m) sub) = (if sub then [] else [op_id m])"
| "ml_graph_ids (LvOp env (MemcpyOp c) sub) = [op_id c]"
| "ml_graph_ids (LvOp env (MemsetOp m) sub) = [op_id m]"
| "ml_graph_ids (LvKernel aux torch_aux oid stream ty) = (if aux = None then [] else [oid])"

text \<open>Copies are not within one object of the device, and a buffer lists an object once.\<close>

fun ml_event_ok :: "ml_event \<Rightarrow> bool" where
  "ml_event_ok (LvOp env (MemcpyOp c) sub) =
     (src_memory_op_id c \<noteq> dst_memory_op_id c \<or> dst_memory_op_id c = REDSHOW_MEMORY_HOST)"
| "ml_event_ok (LvOp env op sub) = True"
| "ml_event_ok (LvKernel (Some aux) torch_aux oid stream ty) =
     (unat (aux_size aux) \<le> length (aux_start_end aux) \<and> distinct (map fst (take (unat (aux_size aux)) (aux_start_end aux))))"
| "ml_event_ok (LvKernel None torch_aux oid stream ty) = True"

lemma graph_part_sub_alloc: "graph_part (ml_memory_op_callback env op True s) = graph_part s"
  unfolding ml_memory_op_callback_def Let_def
  by (simp add: graph_part_def memory_operation_register_def update_torch_python_states_def get_torch_libunwind_backtrace_def
      update_global_op_id_start_def)

lemma graph_part_sub_free: "ml_memfree_op_callback env op True s = Inr s' \<Longrightarrow> graph_part s' = graph_part s"
  unfolding ml_memfree_op_callback_def Let_def
  by (auto simp: fbind_eq_Inr graph_part_def memory_operation_register_def update_torch_python_states_def get_torch_libunwind_backtrace_def)

lemma ml_kernel_end_ok:
  assumes "ml_before oid s" "ml_event_ok (LvKernel (Some aux) torch_aux oid stream ty)"
    "ml_analysis_begin (Some aux) torch_aux oid stream ty s = Inr s'"
  shows "ml_after oid s'"
proof -
  obtain s1 s2 where s1: "update_aux_hit aux oid False s = Inr s1" "update_graph_at_kernel aux oid stream s1 = Inr s2"
    and p: "graph_part s' = graph_part s2"
    using assms(3)
    by (cases torch_aux) (auto simp: ml_analysis_begin_def fbind_eq_Inr split: if_splits intro: graph_part_aux_hit)
  have "ml_before oid s1" using graph_part_before [OF graph_part_aux_hit [OF s1(1)]] assms(1) by simp
  from ml_kernel_graph_ok [OF this _ s1(2)] assms(2) have "ml_after oid s2" by simp
  with graph_part_after [OF p] show ?thesis by simp
qed

lemma ml_step_ok:
  assumes "ml_step ev s = Inr s'" "ml_event_ok ev" "ml_graph_ok s" "\<And>i. i \<in> set (ml_graph_ids ev) \<Longrightarrow> ml_before i s"
  shows "graph_part s' = graph_part s \<or> (\<exists>i. ml_graph_ids ev = [i] \<and> ml_after i s')"
proof (cases ev)
  case (LvOp env op sub)
  with assms show ?thesis
  proof (cases op)
    case (MemoryOp m)
    show ?thesis using assms(1,4) LvOp MemoryOp
      by (cases sub) (auto simp: ml_op_callback_def graph_part_sub_alloc ml_memory_op_ok)
  next
    case (MemfreeOp m)
    show ?thesis using assms(1,4) LvOp MemfreeOp
      by (cases sub) (auto simp: ml_op_callback_def dest: graph_part_sub_free ml_memfree_op_ok)
  qed (auto simp: ml_op_callback_def graph_part_kernel_op dest: ml_memcpy_op_ok ml_memset_op_ok)
next
  case (LvKernel aux torch_aux oid stream ty)
  show ?thesis
  proof (cases aux)
    case None
    then show ?thesis using assms(1) LvKernel
      by (auto simp: ml_analysis_begin_def split: if_splits option.splits dest: graph_part_aux_hit)
  next
    case (Some a)
    then show ?thesis using assms LvKernel by (auto dest: ml_kernel_end_ok)
  qed
qed

lemma ml_run_ok:
  assumes "ml_run evs s = Inr s'" "ml_graph_ok s" "\<forall>ev \<in> set evs. ml_event_ok ev"
    "sorted_wrt (<) (concat (map ml_graph_ids evs))" "\<forall>n \<in> dg_node_set (ml_graph s). \<forall>i \<in> set (concat (map ml_graph_ids evs)). n < i"
  shows "ml_graph_ok s'"
  using assms
proof (induction evs arbitrary: s)
  case (Cons ev evs)
  obtain s1 where s1: "ml_step ev s = Inr s1" and r: "ml_run evs s1 = Inr s'"
    using Cons.prems(1) by (auto simp: ml_run_def fbind_eq_Inr)
  have asc: "sorted_wrt (<) (concat (map ml_graph_ids evs))"
    and later: "\<And>i j. i \<in> set (ml_graph_ids ev) \<Longrightarrow> j \<in> set (concat (map ml_graph_ids evs)) \<Longrightarrow> i < j"
    using Cons.prems(4) by (auto simp add: sorted_wrt_append)
  have "ml_before i s" if "i \<in> set (ml_graph_ids ev)" for i using Cons.prems(2,5) that by (simp add: ml_before_def)
  from ml_step_ok [OF s1 _ Cons.prems(2) this] Cons.prems(3)
  have "graph_part s1 = graph_part s \<or> (\<exists>i. ml_graph_ids ev = [i] \<and> ml_after i s1)" by simp
  then have "ml_graph_ok s1 \<and> (\<forall>n \<in> dg_node_set (ml_graph s1). \<forall>i \<in> set (concat (map ml_graph_ids evs)). n < i)"
  proof (elim disjE exE conjE)
    assume p: "graph_part s1 = graph_part s"
    then have "ml_graph s1 = ml_graph s" by (simp add: graph_part_def)
    with graph_part_ok [OF p] Cons.prems(2,5) show ?thesis by simp
  next
    fix i assume i: "ml_graph_ids ev = [i]" "ml_after i s1"
    then show ?thesis using later [of i] by (simp add: ml_after_def) (meson le_less_trans)
  qed
  with Cons.IH [OF r] Cons.prems(3) asc show ?case by simp
qed (simp add: ml_run_def)

text \<open>
  C8. When the operations come with ascending ids, as the program numbers them, no copy stays within one object of the device
  and a buffer lists an object once, the dependency graph has no cycle after any run. So the loop of
  \<^verbatim>\<open>dump_topological_order\<close> ends, and it writes layers in which every operation of the graph occurs once and every
  dependency leads to a later layer.
\<close>

theorem liveness_report_ends:
  assumes "ml_run evs MemoryLiveness = Inr s" "sorted_wrt (<) (concat (map ml_graph_ids evs))" "\<forall>ev \<in> set evs. ml_event_ok ev"
  shows "dump_topological_order s \<noteq> None \<and> (\<exists>ls. dg_layers (ml_graph s) = Some ls \<and> layers_ok ls (ml_graph s))"
proof -
  have "dg_node_set (ml_graph MemoryLiveness) = {}" by (simp add: MemoryLiveness_def dg_empty_ok)
  then have ok: "ml_graph_ok s" using ml_run_ok [OF assms(1) ml_graph_ok_start assms(3,2)] by simp
  then have g: "dg_ok (ml_graph s)" "acyclic (dg_rel (ml_graph s))" by (simp_all add: ml_graph_ok_def ascending_acyclic)
  obtain ls where "dg_layers (ml_graph s) = Some ls" using dg_layers_returns [OF g] by blast
  with dg_layers_correct [OF _ g(1)] show ?thesis by (auto simp: dump_topological_order_def)
qed

text \<open>An edge between any two nodes of the graph.\<close>

lemma ml_data_edge_graph:
  assumes "dg_ok (ml_graph s)" "from \<in> dg_node_set (ml_graph s)" "to \<in> dg_node_set (ml_graph s)"
    and "ml_data_edge from to obj acc s = Inr s'"
  shows "dg_ok (ml_graph s') \<and> dg_node_set (ml_graph s') = dg_node_set (ml_graph s)
    \<and> dg_edge_set (ml_graph s') = insert (EdgeIndex from to DATA_DEPENDENCY) (dg_edge_set (ml_graph s))"
proof (cases "dg_has_edge (EdgeIndex from to DATA_DEPENDENCY) (ml_graph s)")
  case False
  then have "s' = ml_add_edge (EdgeIndex from to DATA_DEPENDENCY) [(obj, acc)] s" using assms(4) by (simp add: ml_data_edge_def)
  with dg_add_edge_ok [OF assms(1), of "EdgeIndex from to DATA_DEPENDENCY"] assms(2,3) show ?thesis by (simp add: ml_add_edge_def)
next
  case True
  let ?g = "ml_graph s" and ?e = "EdgeIndex from to DATA_DEPENDENCY"
  obtain edge where s': "s' = s\<lparr>ml_graph := ?g\<lparr>dg_edges := map_set ei_lt (dg_edges ?g) ?e (map_emplace (<) edge obj acc)\<rparr>\<rparr>"
    using assms(4) True by (auto simp: ml_data_edge_def fbind_eq_Inr Let_def)
  have m: "map_ok ei_lt (dg_edges ?g)" using assms(1) by (simp add: dg_ok_def)
  have "?e \<in> dg_edge_set ?g" using True ei_order.map_key_iff [OF m, of ?e] by (simp add: dg_has_edge_def map_has_at dg_edge_set_def)
  then have E: "dg_edge_set (ml_graph s') = dg_edge_set ?g" "dg_node_set (ml_graph s') = dg_node_set ?g"
    using m by (auto simp: s' dg_edge_set_def dg_node_set_def ei_order.map_keys_set)
  have "dg_ok (ml_graph s')" using assms(1) m unfolding dg_ok_def E by (simp add: s' ei_order.map_ok_set)
  with E \<open>?e \<in> dg_edge_set ?g\<close> show ?thesis by auto
qed

lemma ml_data_edges_graph:
  assumes "dg_ok (ml_graph s)" "set rs \<subseteq> dg_node_set (ml_graph s)" "to \<in> dg_node_set (ml_graph s)"
    and "ffold (\<lambda>r. ml_data_edge r to obj acc) rs s = Inr s'"
  shows "dg_ok (ml_graph s') \<and> dg_edge_set (ml_graph s') = (\<lambda>r. EdgeIndex r to DATA_DEPENDENCY) ` set rs \<union> dg_edge_set (ml_graph s)"
  using assms
proof (induction rs arbitrary: s)
  case (Cons r rs)
  obtain s1 where s1: "ml_data_edge r to obj acc s = Inr s1" "ffold (\<lambda>r. ml_data_edge r to obj acc) rs s1 = Inr s'"
    using Cons.prems(4) by (auto simp: fbind_eq_Inr)
  have "r \<in> dg_node_set (ml_graph s)" using Cons.prems(2) by simp
  note e = ml_data_edge_graph [OF Cons.prems(1) this Cons.prems(3) s1(1)]
  from Cons.IH [OF _ _ _ s1(2)] e Cons.prems(2,3) show ?case by auto
qed simp

text \<open>A write of an object that the operation has read adds an edge from the operation to itself.\<close>

lemma ml_write_after_read:
  assumes "ml_during oid T s" "oid \<in> dg_node_set (ml_graph s)" "map_at (<) (ml_read_nodes s) obj = Some rs" "oid \<in> set rs"
    and "update_graph_at_access oid ty st obj WRITE s = Inr s'"
  shows "dg_ok (ml_graph s') \<and> (oid, oid) \<in> dg_rel (ml_graph s')"
proof -
  let ?s3 = "update_stream_nodes oid st (if map_at (<) (ml_stream_ownership s) st = Some oid then s else ml_stream_edge oid st s)"
  have ok: "ml_graph_ok s" and node: "dg_has_node oid (ml_graph s)"
    using assms(1,2) by (simp_all add: ml_during_def dg_has_node_iff ml_graph_ok_def)
  then have w: "with_node oid ty s = s" by (simp add: with_node_def)
  note e = ml_access_enter [where ty = ty and st = st, OF assms(1), unfolded w]
  have p: "graph_part ?s3 = graph_part (if map_at (<) (ml_stream_ownership s) st = Some oid then s else ml_stream_edge oid st s)"
    by (simp only: graph_part_simps)
  then have r3: "map_at (<) (ml_read_nodes ?s3) obj = Some rs"
    using assms(3) by (auto simp: graph_part_def ml_stream_edge_def ml_add_edge_def split: option.splits if_splits)
  have g3: "ml_graph_ok ?s3" using e(1) by (simp add: ml_during_def)
  obtain s4 where s4: "ffold (\<lambda>r. ml_data_edge r oid obj WRITE) rs ?s3 = Inr s4" "ml_graph s' = ml_graph s4"
    using assms(4,5) r3 unfolding update_graph_at_access_def with_node_def [symmetric] w Let_def
    by (auto simp: fbind_eq_Inr split: if_splits)
  note d = ml_data_edges_graph [OF _ ml_graph_okD(2) [OF g3 r3] e(2) s4(1)]
  have "dg_ok (ml_graph s') \<and> EdgeIndex oid oid DATA_DEPENDENCY \<in> dg_edge_set (ml_graph s')"
    using d g3 assms(4) unfolding s4(2) by (simp add: ml_graph_ok_def)
  then show ?thesis unfolding dg_rel_def by (auto intro: rev_image_eqI)
qed

lemma ml_read_registers:
  assumes "ml_during oid T s" "obj \<notin> T" "update_graph_at_access oid ty st obj READ s = Inr s'"
  shows "oid \<in> dg_node_set (ml_graph s')" "\<exists>rs. map_at (<) (ml_read_nodes s') obj = Some rs \<and> oid \<in> set rs"
proof -
  let ?s1 = "with_node oid ty s"
  let ?s3 = "update_stream_nodes oid st (if map_at (<) (ml_stream_ownership ?s1) st = Some oid then ?s1 else ml_stream_edge oid st ?s1)"
  note e = ml_access_enter [where ty = ty and st = st, OF assms(1)]
  have g3: "map_ok (<) (ml_read_nodes ?s3)" using e(1) by (simp add: ml_during_def ml_graph_ok_def)
  obtain rs where rs: "map_at (<) (ml_read_nodes ?s3) obj = Some rs"
    and run: "fbind (or_fault NullDeref (map_at (<) (ml_obj_ownership ?s3) obj))
      (\<lambda>owner. ml_data_edge owner oid obj READ (?s3\<lparr>ml_read_nodes := map_set (<) (ml_read_nodes ?s3) obj (rs @ [oid])\<rparr>)) = Inr s'"
    using assms(3) unfolding update_graph_at_access_def with_node_def [symmetric] Let_def by (auto simp: fbind_eq_Inr)
  let ?s4 = "?s3\<lparr>ml_read_nodes := map_set (<) (ml_read_nodes ?s3) obj (rs @ [oid])\<rparr>"
  obtain owner where o: "map_at (<) (ml_obj_ownership ?s3) obj = Some owner" "ml_data_edge owner oid obj READ ?s4 = Inr s'"
    using run by (auto simp: fbind_eq_Inr)
  note r = ml_duringD(4) [OF e(1) rs assms(2)]
  have d: "ml_during oid (insert obj T) ?s4"
    by (rule ml_during_read [OF ml_during_mono [OF e(1)]]) (use r e(2) in auto)
  note own = ml_duringD(3) [OF e(1) o(1) assms(2)]
  have x: "dg_node_set (ml_graph s') = dg_node_set (ml_graph ?s3) \<and> ml_read_nodes s' = map_set (<) (ml_read_nodes ?s3) obj (rs @ [oid])"
    using ml_data_edge_ok [OF d _ _ _ o(2)] own e(2) by simp
  show "oid \<in> dg_node_set (ml_graph s')" using x e(2) by simp
  show "\<exists>rs. map_at (<) (ml_read_nodes s') obj = Some rs \<and> oid \<in> set rs"
    using conjunct2 [OF x] u64_order.map_at_set [OF g3, of obj "rs @ [oid]" obj]
    by (intro exI [of _ "rs @ [oid]"]) simp
qed

text \<open>
  C33. A copy within one object of the device reads and then writes it under the same operation id, so the operation depends on
  itself. The graph then has a cycle, and the loop of \<^verbatim>\<open>dump_topological_order\<close> never ends: the report of the run is lost.
\<close>

theorem liveness_self_copy:
  assumes "ml_before (op_id op) s" "src_memory_op_id op = mid" "dst_memory_op_id op = mid" "mid \<noteq> REDSHOW_MEMORY_HOST"
    and "ml_memcpy_op_callback op s = Inr s'"
  shows "dump_topological_order s' = None"
proof -
  let ?s = "ml_update_op_node (op_id op) (ctx_id op) s"
  let ?r = "\<lambda>ty st x. memory_operation_register mid (op_id op) ty False (update_stream_for_ops st (op_id op) ty (ml_update_ctx_node (ctx_id op) ty x))"
  obtain s1 s2 where s1: "update_graph_at_access (op_id op) REDSHOW_MEMORY_COPYF (src_stream_id op) mid READ
        (?r REDSHOW_MEMORY_COPYF (src_stream_id op) ?s) = Inr s1"
    and s2: "update_graph_at_access (op_id op) REDSHOW_MEMORY_COPYT (dst_stream_id op) mid WRITE
        (?r REDSHOW_MEMORY_COPYT (dst_stream_id op) s1) = Inr s2"
    and p: "graph_part s' = graph_part s2"
    using assms(2-5) unfolding ml_memcpy_op_callback_def ml_copy_side_def Let_def
    by (auto simp: fbind_eq_Inr split: if_splits dest!: graph_part_sub_read graph_part_sub_written)
  have p1: "graph_part (?r REDSHOW_MEMORY_COPYF (src_stream_id op) ?s) = graph_part s" by simp
  have "ml_during (op_id op) {} (?r REDSHOW_MEMORY_COPYF (src_stream_id op) ?s)"
    using graph_part_during [OF p1] ml_before_during [OF assms(1)] by simp
  note d = ml_access_ok [OF this _ s1] ml_read_registers [OF this _ s1]
  have p2: "graph_part (?r REDSHOW_MEMORY_COPYT (dst_stream_id op) s1) = graph_part s1" by simp
  then have g2: "ml_graph (?r REDSHOW_MEMORY_COPYT (dst_stream_id op) s1) = ml_graph s1"
    "ml_read_nodes (?r REDSHOW_MEMORY_COPYT (dst_stream_id op) s1) = ml_read_nodes s1" by (simp_all add: graph_part_def)
  obtain rs where rs: "map_at (<) (ml_read_nodes s1) mid = Some rs" "op_id op \<in> set rs" using d(3) by auto
  have "dg_ok (ml_graph s2) \<and> (op_id op, op_id op) \<in> dg_rel (ml_graph s2)"
    by (rule ml_write_after_read [OF _ _ _ rs(2) s2]) (use graph_part_during [OF p2] g2 d(1,2) rs(1) in auto)
  moreover have "ml_graph s' = ml_graph s2" using p by (simp add: graph_part_def)
  ultimately have "dg_ok (ml_graph s')" "\<not> acyclic (dg_rel (ml_graph s'))" by (auto simp: acyclic_def)
  with dg_layers_correct [of "ml_graph s'"] have "dg_layers (ml_graph s') = None" by (cases "dg_layers (ml_graph s')") auto
  then show ?thesis by (simp add: dump_topological_order_def)
qed

definition lv_env :: ml_env where
  "lv_env = \<lparr>env_python_states = [], env_frames = []\<rparr>"

definition lv_object :: memory where
  "lv_object = \<lparr>op_id = 7, ctx_id = 1, op_type = OPERATION_TYPE_MEMORY, mem_stream_id = 0,
     mem_range = \<lparr>mr_start = 0x100, mr_end = 0x140\<rparr>, mem_len = 64, mem_value = 0, mem_value_cache = 0\<rparr>"

definition lv_copy :: "u64 \<Rightarrow> u64 \<Rightarrow> memcpy" where
  "lv_copy src dst = \<lparr>op_id = 8, ctx_id = 1, op_type = OPERATION_TYPE_MEMCPY, src_memory_op_id = src, src_stream_id = 0, src_start = 0x100,
     src_shadow_start = 0, dst_memory_op_id = dst, dst_stream_id = 0, dst_start = 0x120, dst_shadow_start = 0, mc_len = 16\<rparr>"

lemma lv_before: "ml_before 8 (ml_memory_op_callback lv_env lv_object False MemoryLiveness)"
proof -
  have "ml_before 7 MemoryLiveness" using ml_graph_ok_start by (simp add: ml_before_def MemoryLiveness_def dg_empty_ok)
  with ml_memory_op_ok [of lv_object MemoryLiveness lv_env False]
  have "ml_after 7 (ml_memory_op_callback lv_env lv_object False MemoryLiveness)" by (simp add: lv_object_def)
  then show ?thesis by (auto simp: ml_after_def ml_before_def intro: le_less_trans [of _ 7])
qed

definition succeeds :: "'a outcome \<Rightarrow> bool" where
  "succeeds r = (case r of Inl _ \<Rightarrow> False | Inr _ \<Rightarrow> True)"

lemma succeedsD: "succeeds r \<Longrightarrow> \<exists>x. r = Inr x"
  by (cases r) (simp_all add: succeeds_def)

lemma lv_self_copy_runs: "succeeds (ml_memcpy_op_callback (lv_copy 7 7) (ml_memory_op_callback lv_env lv_object False MemoryLiveness))"
  by code_simp

theorem liveness_self_copy_witness:
  "\<exists>s'. ml_memcpy_op_callback (lv_copy 7 7) (ml_memory_op_callback lv_env lv_object False MemoryLiveness) = Inr s'
     \<and> dump_topological_order s' = None"
proof -
  obtain s' where s': "ml_memcpy_op_callback (lv_copy 7 7) (ml_memory_op_callback lv_env lv_object False MemoryLiveness) = Inr s'"
    using succeedsD [OF lv_self_copy_runs] by blast
  have "dump_topological_order s' = None"
    by (rule liveness_self_copy [OF _ _ _ _ s', of 7]) (use lv_before in \<open>simp_all add: lv_copy_def REDSHOW_MEMORY_HOST_def\<close>)
  with s' show ?thesis by blast
qed

definition lv_events :: "ml_event list" where
  "lv_events = [LvOp lv_env (MemoryOp lv_object) False, LvOp lv_env (MemcpyOp (lv_copy 6 7)) False,
     LvKernel (Some \<lparr>aux_size = 1, aux_start_end = [(0x100, 0x140)], aux_hit = [1], aux_read = [1], aux_write = [0]\<rparr>) None 9 0
       GPU_PATCH_TYPE_ADDRESS_ANALYSIS]"

lemma lv_events_run: "succeeds (ml_run lv_events MemoryLiveness)"
  by code_simp

theorem liveness_report_ends_witness:
  "\<exists>s. ml_run lv_events MemoryLiveness = Inr s \<and> dump_topological_order s \<noteq> None"
proof -
  obtain s where s: "ml_run lv_events MemoryLiveness = Inr s" using succeedsD [OF lv_events_run] by blast
  moreover have "sorted_wrt (<) (concat (map ml_graph_ids lv_events))" "\<forall>ev \<in> set lv_events. ml_event_ok ev"
    by (simp_all add: lv_events_def lv_object_def lv_copy_def REDSHOW_MEMORY_HOST_def)
  ultimately show ?thesis using liveness_report_ends by blast
qed

end
