(* ===== verification/Floating.thy ===== *)
theory Floating
  imports Values
begin

section \<open>Floating-point arithmetic\<close>

text \<open>
  The operations of \<^verbatim>\<open>double\<close> and \<^verbatim>\<open>float\<close> on the values of the theory \<open>Values\<close>: a finite result is the exact one rounded to
  nearest, ties to even, with subnormal numbers and overflow to infinity. The sign of a NaN that an operation creates is
  that of x86: set.
\<close>

definition ieee_round :: "nat \<Rightarrow> int \<Rightarrow> int \<Rightarrow> bool \<Rightarrow> rat \<Rightarrow> ieee" where
  "ieee_round p emin emax s x =
     (if x = 0 then Finite s 0
      else
        let e = max (rat_exponent x - (int p - 1)) emin;
            m = of_int (half_even (x / 2 powi e)) * 2 powi e
        in if 2 powi emax \<le> m then Infinity s else Finite s m)"

definition to_double :: "rat \<Rightarrow> ieee" where
  "to_double x = ieee_round 53 (- 1074) 1024 (x < 0) \<bar>x\<bar>"

definition to_float :: "rat \<Rightarrow> ieee" where
  "to_float x = ieee_round 24 (- 149) 128 (x < 0) \<bar>x\<bar>"

fun signed_value :: "bool \<Rightarrow> rat \<Rightarrow> rat" where
  "signed_value s x = (if s then - x else x)"

definition ieee_neg :: "ieee \<Rightarrow> ieee" where
  "ieee_neg a = (case a of Nan s \<Rightarrow> Nan (\<not> s) | Infinity s \<Rightarrow> Infinity (\<not> s) | Finite s x \<Rightarrow> Finite (\<not> s) x)"

definition ieee_abs :: "ieee \<Rightarrow> ieee" where
  "ieee_abs a = (case a of Nan s \<Rightarrow> Nan False | Infinity s \<Rightarrow> Infinity False | Finite s x \<Rightarrow> Finite False x)"

text \<open>A sum, with the rounding of the type.\<close>

definition ieee_add :: "(rat \<Rightarrow> ieee) \<Rightarrow> ieee \<Rightarrow> ieee \<Rightarrow> ieee" where
  "ieee_add rnd a b =
     (case a of
        Nan s \<Rightarrow> a
      | Infinity s \<Rightarrow> (case b of Nan _ \<Rightarrow> b | Infinity t \<Rightarrow> (if s = t then a else Nan True) | Finite _ _ \<Rightarrow> a)
      | Finite s x \<Rightarrow>
          (case b of
             Nan _ \<Rightarrow> b
           | Infinity _ \<Rightarrow> b
           | Finite t y \<Rightarrow>
               let r = signed_value s x + signed_value t y
               in if r = 0 then Finite (s \<and> t) 0 else rnd r))"

definition ieee_sub :: "(rat \<Rightarrow> ieee) \<Rightarrow> ieee \<Rightarrow> ieee \<Rightarrow> ieee" where
  "ieee_sub rnd a b = (case b of Nan _ \<Rightarrow> (case a of Nan _ \<Rightarrow> a | _ \<Rightarrow> b) | _ \<Rightarrow> ieee_add rnd a (ieee_neg b))"

text \<open>The sign of an exact product or quotient that is rounded to zero stays.\<close>

definition with_sign :: "bool \<Rightarrow> ieee \<Rightarrow> ieee" where
  "with_sign s a = (case a of Finite _ x \<Rightarrow> Finite s x | Infinity _ \<Rightarrow> Infinity s | Nan t \<Rightarrow> Nan t)"

definition ieee_mul :: "(rat \<Rightarrow> ieee) \<Rightarrow> ieee \<Rightarrow> ieee \<Rightarrow> ieee" where
  "ieee_mul rnd a b =
     (case a of
        Nan s \<Rightarrow> a
      | Infinity s \<Rightarrow>
          (case b of Nan _ \<Rightarrow> b | Infinity t \<Rightarrow> Infinity (s \<noteq> t) | Finite t y \<Rightarrow> (if y = 0 then Nan True else Infinity (s \<noteq> t)))
      | Finite s x \<Rightarrow>
          (case b of
             Nan _ \<Rightarrow> b
           | Infinity t \<Rightarrow> (if x = 0 then Nan True else Infinity (s \<noteq> t))
           | Finite t y \<Rightarrow> with_sign (s \<noteq> t) (rnd (x * y))))"

definition ieee_div :: "(rat \<Rightarrow> ieee) \<Rightarrow> ieee \<Rightarrow> ieee \<Rightarrow> ieee" where
  "ieee_div rnd a b =
     (case a of
        Nan s \<Rightarrow> a
      | Infinity s \<Rightarrow> (case b of Nan _ \<Rightarrow> b | Infinity _ \<Rightarrow> Nan True | Finite t _ \<Rightarrow> Infinity (s \<noteq> t))
      | Finite s x \<Rightarrow>
          (case b of
             Nan _ \<Rightarrow> b
           | Infinity t \<Rightarrow> Finite (s \<noteq> t) 0
           | Finite t y \<Rightarrow>
               if y = 0 then (if x = 0 then Nan True else Infinity (s \<noteq> t)) else with_sign (s \<noteq> t) (rnd (x / y))))"

text \<open>Comparisons are false on a NaN.\<close>

fun ieee_less :: "ieee \<Rightarrow> ieee \<Rightarrow> bool" where
  "ieee_less (Finite s x) (Finite t y) = (signed_value s x < signed_value t y)"
| "ieee_less (Finite s x) (Infinity t) = (\<not> t)"
| "ieee_less (Infinity s) (Finite t y) = s"
| "ieee_less (Infinity s) (Infinity t) = (s \<and> \<not> t)"
| "ieee_less (Nan s) b = False"
| "ieee_less a (Nan t) = False"

fun ieee_le :: "ieee \<Rightarrow> ieee \<Rightarrow> bool" where
  "ieee_le (Finite s x) (Finite t y) = (signed_value s x \<le> signed_value t y)"
| "ieee_le (Finite s x) (Infinity t) = (\<not> t)"
| "ieee_le (Infinity s) (Finite t y) = s"
| "ieee_le (Infinity s) (Infinity t) = (s \<or> \<not> t)"
| "ieee_le (Nan s) b = False"
| "ieee_le a (Nan t) = False"

text \<open>The integer part, when the target type of the conversion can hold it.\<close>

definition ieee_to_int :: "nat \<Rightarrow> ieee \<Rightarrow> int outcome" where
  "ieee_to_int w a =
     (case a of
        Finite s x \<Rightarrow>
          let n = (if s then - \<lfloor>x\<rfloor> else \<lfloor>x\<rfloor>)
          in if - (2 ^ (w - 1)) \<le> n \<and> n < 2 ^ (w - 1) then Inr n else Inl Overflow
      | _ \<Rightarrow> Inl Overflow)"

subsection \<open>Small integers\<close>

text \<open>Integers that the significand can hold are exact.\<close>

lemma to_float_int: "0 \<le> n \<Longrightarrow> n < 2 ^ 24 \<Longrightarrow> to_float (of_int n) = Finite False (of_int n)"
proof -
  assume n: "0 \<le> n" "n < 2 ^ 24"
  show ?thesis
  proof (cases "n = 0")
    case False
    then have pos: "0 < (of_int n :: rat)" using n by simp
    have "0 \<le> rat_exponent (of_int n)"
    proof (rule ccontr)
      assume "\<not> 0 \<le> rat_exponent (of_int n :: rat)"
      then have "(2 :: rat) powi (rat_exponent (of_int n) + 1) \<le> 2 powi 0" by (intro powi_le) simp
      then have "(of_int n :: rat) < 1" using rat_exponent_bounds(2) [OF pos] by simp
      with n(1) False show False by simp
    qed
    then have e: "max (rat_exponent (of_int n :: rat) - 23) (- 149) = rat_exponent (of_int n) - 23" by simp
    have "of_int (half_even (of_int n / 2 powi (rat_exponent (of_int n :: rat) - 23))) * 2 powi (rat_exponent (of_int n :: rat) - 23) = (of_int n :: rat)"
      using round_bits_exact [of n 24] round_bits_pos [OF pos, of 24] n False by simp
    moreover have "(of_int n :: rat) < 2 powi 128"
    proof -
      have "n < 2 ^ 128" using n(2) by (rule less_le_trans) (rule power_increasing, simp_all)
      then have "(of_int n :: rat) < of_int (2 ^ 128)" by (simp only: of_int_less_iff)
      then show ?thesis by (simp add: power_int_def)
    qed
    ultimately show ?thesis using pos e by (simp add: to_float_def ieee_round_def Let_def)
  qed (simp add: to_float_def ieee_round_def)
qed

end
