(* ===== verification/Value_Pattern.thy ===== *)
theory Value_Pattern
  imports Redundancy Trace Floating
begin

section \<open>Value patterns\<close>

text \<open>
  \<^verbatim>\<open>src/analysis/value_pattern.cpp\<close>: the values of every unit of a memory object, and the patterns they show. The theory models
  the state, the accesses, the patterns and the report. A shift by the width of its operand or more, and the conversion of a
  floating-point value that the integer type cannot hold, are undefined in C++: they are the fault \<open>Overflow\<close>. \<^verbatim>\<open>std::sort\<close> leaves the
  order of equal elements open, so the function that sorts values by their counts is a parameter, and the fields of
  \<^verbatim>\<open>ArrayPatternInfo\<close> that nothing has set are arguments.
\<close>

unbundle bit_operations_syntax

subsection \<open>State\<close>

text \<open>
  The map with keys of type \<^verbatim>\<open>Memory\<close> compares operation ids: it maps an id to the object that came first and its arrays.
\<close>

type_synonym value_count = "(u64, u64) omap"
type_synonym items_value_count = "(u64, value_count) omap"
type_synonym value_dist = "(u64, memory \<times> (access_kind, items_value_count) omap) omap"

record value_pattern_trace =
  vt_ctx_id :: i32
  vt_cubin_id :: u32
  vt_mod_id :: u32
  vt_w_value_dist :: value_dist
  vt_r_value_dist :: value_dist

record value_pattern =
  vp_kernel_trace :: "(u32, (i32, value_pattern_trace) omap) omap"
  vp_trace_at :: "(u32 \<times> i32) option"

definition ValuePattern :: value_pattern where
  "ValuePattern = \<lparr>vp_kernel_trace = [], vp_trace_at = None\<rparr>"

definition vp_analysis_begin :: "u32 \<Rightarrow> i32 \<Rightarrow> u32 \<Rightarrow> u32 \<Rightarrow> gpu_patch_type \<Rightarrow> value_pattern \<Rightarrow> value_pattern outcome" where
  "vp_analysis_begin cpu_thread kernel_id cubin_id mod_id type s =
     (if type \<noteq> GPU_PATCH_TYPE_DEFAULT then Inl AssertFail
      else
        let ks = (if map_at2 (<) (<) (vp_kernel_trace s) cpu_thread kernel_id = None
                  then map_set2 (<) (<) (vp_kernel_trace s) cpu_thread kernel_id
                         \<lparr>vt_ctx_id = kernel_id, vt_cubin_id = cubin_id, vt_mod_id = mod_id, vt_w_value_dist = [], vt_r_value_dist = []\<rparr>
                  else vp_kernel_trace s)
        in Inr (s\<lparr>vp_kernel_trace := ks, vp_trace_at := Some (cpu_thread, kernel_id)\<rparr>))"

definition vp_analysis_end :: "value_pattern \<Rightarrow> value_pattern" where
  "vp_analysis_end s = s\<lparr>vp_trace_at := None\<rparr>"

subsection \<open>Accesses\<close>

datatype redshow_approx_level =
    REDSHOW_APPROX_NONE | REDSHOW_APPROX_MIN | REDSHOW_APPROX_LOW | REDSHOW_APPROX_MID | REDSHOW_APPROX_HIGH | REDSHOW_APPROX_MAX

definition vp_approx_level_config :: "redshow_approx_level \<Rightarrow> int \<times> int" where
  "vp_approx_level_config level =
     (case level of
        REDSHOW_APPROX_NONE \<Rightarrow> (VALID_FLOAT_DIGITS, VALID_DOUBLE_DIGITS)
      | REDSHOW_APPROX_MIN \<Rightarrow> (MIN_FLOAT_DIGITS, MIN_DOUBLE_DIGITS)
      | REDSHOW_APPROX_LOW \<Rightarrow> (LOW_FLOAT_DIGITS, LOW_DOUBLE_DIGITS)
      | REDSHOW_APPROX_MID \<Rightarrow> (MID_FLOAT_DIGITS, MID_DOUBLE_DIGITS)
      | REDSHOW_APPROX_HIGH \<Rightarrow> (HIGH_FLOAT_DIGITS, HIGH_DOUBLE_DIGITS)
      | REDSHOW_APPROX_MAX \<Rightarrow> (MAX_FLOAT_DIGITS, MAX_DOUBLE_DIGITS))"

text \<open>\<^verbatim>\<open>value_dist[memory][access_kind][offset][value] += 1\<close>\<close>

definition count_value :: "memory \<Rightarrow> access_kind \<Rightarrow> u64 \<Rightarrow> u64 \<Rightarrow> value_dist \<Rightarrow> value_dist" where
  "count_value memory kind offset val d =
     (let (m, kinds) = (case map_at (<) d (op_id memory) of None \<Rightarrow> (memory, []) | Some e \<Rightarrow> e)
      in map_set (<) d (op_id memory) (m, count_inc access_kind_lt (<) (<) kinds kind offset val))"

text \<open>The address of a unit: the product with the index is one of 32-bit numbers.\<close>

definition moved_addr :: "access_kind \<Rightarrow> u64 \<Rightarrow> u32 \<Rightarrow> u64" where
  "moved_addr kind addr index = addr + ucast (index * unit_size kind div 8)"

definition float_value_kept :: "value_config \<Rightarrow> access_kind \<Rightarrow> u64 \<Rightarrow> u64" where
  "float_value_kept cfg kind val =
     (if data_type kind = REDSHOW_DATA_FLOAT \<and> decimal_degree_f32 cfg = VALID_FLOAT_DIGITS then
        let (f32, f64) = vp_approx_level_config REDSHOW_APPROX_MIN
        in if unit_size kind = 32 then value_to_float val f32
           else if unit_size kind = 64 then value_to_double val f64 else val
      else val)"

definition record_value ::
  "access_kind \<Rightarrow> memory \<Rightarrow> u64 \<Rightarrow> u64 \<Rightarrow> u32 \<Rightarrow> value_pattern_trace \<Rightarrow> value_pattern_trace" where
  "record_value kind memory offset val flags t =
     (let t1 = (if has_flag flags GPU_PATCH_READ
                then t\<lparr>vt_r_value_dist := count_value memory kind offset val (vt_r_value_dist t)\<rparr> else t)
      in if has_flag flags GPU_PATCH_WRITE
         then t1\<lparr>vt_w_value_dist := count_value memory kind offset val (vt_w_value_dist t1)\<rparr> else t1)"

text \<open>An access of a known type.\<close>

definition vp_typed_access ::
  "value_config \<Rightarrow> access_kind \<Rightarrow> memory \<Rightarrow> u64 \<Rightarrow> u64 \<Rightarrow> u32 \<Rightarrow> u32 \<Rightarrow> value_pattern \<Rightarrow> value_pattern outcome" where
  "vp_typed_access cfg kind memory val addr index flags s =
     (case vp_trace_at s of
        None \<Rightarrow> Inl NullDeref
      | Some (thr, k) \<Rightarrow>
          fbind (or_fault NullDeref (map_at2 (<) (<) (vp_kernel_trace s) thr k)) (\<lambda>t.
            let bytes = drop_bit 3 (unit_size kind)
            in if bytes = 0 then Inl DivideByZero
               else
                 let offset = (moved_addr kind addr index - mr_start (mem_range memory)) div ucast bytes
                 in Inr (s\<lparr>vp_kernel_trace := map_set2 (<) (<) (vp_kernel_trace s) thr k
                            (record_value kind memory offset (float_value_kept cfg kind val) flags t)\<rparr>)))"

text \<open>An unknown type is tried as each of the two; the address that the calls get has moved already.\<close>

definition vp_unit_access ::
  "value_config \<Rightarrow> access_kind \<Rightarrow> memory \<Rightarrow> u64 \<Rightarrow> u64 \<Rightarrow> u32 \<Rightarrow> u32 \<Rightarrow> value_pattern \<Rightarrow> value_pattern outcome" where
  "vp_unit_access cfg kind memory val addr index flags s =
     (if data_type kind = REDSHOW_DATA_UNKNOWN then
        fbind (vp_typed_access cfg (kind\<lparr>data_type := REDSHOW_DATA_FLOAT\<rparr>) memory val (moved_addr kind addr index) index flags s)
          (vp_typed_access cfg (kind\<lparr>data_type := REDSHOW_DATA_INT\<rparr>) memory val (moved_addr kind addr index) index flags)
      else vp_typed_access cfg kind memory val addr index flags s)"

subsection \<open>Types that are too wide\<close>

text \<open>The index of the highest bit that is set below the sign bit, \<open>-1\<close> when there is none.\<close>

fun lead_index :: "u64 \<Rightarrow> nat \<Rightarrow> u64 \<Rightarrow> int" where
  "lead_index flag 0 a = - 1"
| "lead_index flag (Suc i) a = (if a AND flag \<noteq> 0 then int i else lead_index flag i (push_bit 1 a))"

fun tail_index :: "nat \<Rightarrow> u64 \<Rightarrow> int" where
  "tail_index 0 b = 0"
| "tail_index (Suc n) b = (if b AND 1 \<noteq> 0 then 0 else 1 + tail_index n (drop_bit 1 b))"

text \<open>The flag is a shifted 32-bit number.\<close>

definition get_redundant_zeros_bits :: "u64 \<Rightarrow> access_kind \<Rightarrow> (int \<times> int \<times> int) outcome" where
  "get_redundant_zeros_bits a kind =
     (let u = unit_size kind
      in if u - 1 \<ge> 32 then Inl Overflow
         else
           let flag = ucast (push_bit (unat (u - 1)) (1 :: u32)) :: u64;
               sign_bit = drop_bit (unat (u - 1)) a AND 1;
               i = lead_index flag (unat u) (push_bit 1 a)
           in Inr (int (unat u) - 1 - i, (if sign_bit \<noteq> 0 then 0 else int (unat u) - i), tail_index (unat u) a))"

definition power2 :: "int list" where
  "power2 = [0, 1, 2, 4]"

definition valid_int_bits :: "int list" where
  "valid_int_bits = [8, 16, 32, 64]"

definition check_zeros_bits :: "int \<Rightarrow> int \<Rightarrow> int outcome" where
  "check_zeros_bits zeros_bits full =
     (if zeros_bits = full then Inr 8
      else case find (\<lambda>i. full - 8 * power2 ! i > 0 \<and> zeros_bits < full - 8 * power2 ! i) [3, 2, 1, 0] of
        None \<Rightarrow> Inl OutOfRange
      | Some i \<Rightarrow> Inr (valid_int_bits ! i))"

definition detect_type_overuse :: "int \<times> int \<times> int \<Rightarrow> access_kind \<Rightarrow> (int \<times> int \<times> int) outcome" where
  "detect_type_overuse bits kind =
     (let u = int (unat (unit_size kind)); (sgn, unsgn, tail) = bits
      in if u \<in> {64, 32, 16} then
           fbind (check_zeros_bits sgn u) (\<lambda>a.
           fbind (check_zeros_bits unsgn u) (\<lambda>b.
           fbind (check_zeros_bits tail u) (\<lambda>c. Inr (a, b, c))))
         else Inr (u, u, u))"

subsection \<open>Floating-point values\<close>

definition float_no_decimal :: "u64 \<Rightarrow> access_kind \<Rightarrow> bool outcome" where
  "float_no_decimal a kind =
     (if unit_size kind = 32 then
        let b = float_of_bits (ucast a)
        in fbind (ieee_to_int 32 b) (\<lambda>d.
             Inr (\<not> ieee_less (to_double (1 / 10 ^ 6)) (ieee_abs (ieee_sub to_float b (to_float (of_int d))))))
      else if unit_size kind = 64 then
        let b = double_of_bits a
        in fbind (ieee_to_int 64 b) (\<lambda>d.
             Inr (\<not> ieee_less (to_double (1 / 10 ^ 14)) (ieee_abs (ieee_sub to_double b (to_double (of_int d))))))
      else Inr True)"

record exponent_scan =
  es_same :: bool
  es_bits :: u64
  es_max :: int

text \<open>The branch for a size: its mask of leading fraction bits, and the test of the exponent.\<close>

definition first_bits :: "u64 \<Rightarrow> u64 \<Rightarrow> exponent_scan \<Rightarrow> exponent_scan" where
  "first_bits bits val e =
     (let tmp = bits AND val
      in if tmp \<noteq> es_bits e then e\<lparr>es_same := (if es_bits e \<noteq> 0 then False else es_same e), es_bits := tmp\<rparr> else e)"

definition check_exponent_and_fraction :: "u64 \<Rightarrow> access_kind \<Rightarrow> exponent_scan \<Rightarrow> bool \<times> exponent_scan" where
  "check_exponent_and_fraction val kind e =
     (if unit_size kind = 64 then
        let e1 = first_bits 0xfffff00000000 val e; x = int (unat (drop_bit 52 val AND 0x7ff))
        in if 896 \<le> x \<and> x \<le> 1151 then (True, if \<bar>es_max e1\<bar> > \<bar>x - 1023\<bar> then e1 else e1\<lparr>es_max := x - 1023\<rparr>)
           else (False, e1)
      else if unit_size kind = 32 then
        let e1 = first_bits 0x7fc000 val e; x = int (unat (drop_bit 23 val AND 0x7f8))
        in if 113 \<le> x \<and> x \<le> 142 then (True, if \<bar>es_max e1\<bar> > \<bar>x - 127\<bar> then e1 else e1\<lparr>es_max := \<bar>x - 127\<bar> - 127\<rparr>)
           else (False, e1)
      else (False, e))"

subsection \<open>Structured arrays\<close>

text \<open>The sum of the offsets, of the values, and of what the line through them misses.\<close>

definition u64_to_double :: "u64 \<Rightarrow> ieee" where
  "u64_to_double a = to_double (of_int (uint a))"

definition ieee_zero :: ieee where
  "ieee_zero = Finite False 0"

abbreviation dadd :: "ieee \<Rightarrow> ieee \<Rightarrow> ieee" where "dadd \<equiv> ieee_add to_double"
abbreviation dsub :: "ieee \<Rightarrow> ieee \<Rightarrow> ieee" where "dsub \<equiv> ieee_sub to_double"
abbreviation dmul :: "ieee \<Rightarrow> ieee \<Rightarrow> ieee" where "dmul \<equiv> ieee_mul to_double"
abbreviation ddiv :: "ieee \<Rightarrow> ieee \<Rightarrow> ieee" where "ddiv \<equiv> ieee_div to_double"

definition first_value :: "value_count \<Rightarrow> u64 outcome" where
  "first_value counts = (case counts of [] \<Rightarrow> Inl NullDeref | e # _ \<Rightarrow> Inr (fst e))"

text \<open>A 64-bit value is cut to its low half before its bits are read as a \<^verbatim>\<open>double\<close>.\<close>

definition float_sum :: "access_kind \<Rightarrow> items_value_count \<Rightarrow> ieee outcome" where
  "float_sum kind items =
     ffold (\<lambda>e sum. fbind (first_value (snd e)) (\<lambda>v.
         Inr (if unit_size kind = 32 then dadd sum (float_of_bits (ucast v))
              else if unit_size kind = 64 then dadd sum (double_of_bits (v AND 0xffffffff)) else sum)))
       items ieee_zero"

definition average_value :: "access_kind \<Rightarrow> items_value_count \<Rightarrow> ieee outcome" where
  "average_value kind items =
     (let n = u64_to_double (of_nat (length items))
      in if data_type kind = REDSHOW_DATA_INT then
           fbind (ffold (\<lambda>e sum. fbind (first_value (snd e)) (\<lambda>v. Inr (sum + v))) items (0 :: u64)) (\<lambda>sum.
             Inr (ddiv (to_double (of_int (sint sum))) n))
         else if data_type kind = REDSHOW_DATA_FLOAT then
           fbind (float_sum kind items) (\<lambda>sum. Inr (ddiv sum n))
         else Inr ieee_zero)"

text \<open>The two sums of the regression, and the squares of the errors of a line.\<close>

definition line_sums :: "ieee \<Rightarrow> ieee \<Rightarrow> items_value_count \<Rightarrow> (ieee \<times> ieee) outcome" where
  "line_sums avg_x avg_y items =
     ffold (\<lambda>e (sum1, sum2). fbind (first_value (snd e)) (\<lambda>v.
         let dx = dsub (u64_to_double (fst e)) avg_x
         in Inr (dadd sum1 (dmul dx (dsub (u64_to_double v) avg_y)), dadd sum2 (dmul dx dx))))
       items (ieee_zero, ieee_zero)"

definition line_errors :: "ieee \<Rightarrow> ieee \<Rightarrow> items_value_count \<Rightarrow> (ieee \<times> ieee) outcome" where
  "line_errors k b items =
     ffold (\<lambda>e (mse, threshold). fbind (first_value (snd e)) (\<lambda>v.
         let t = dsub (dadd (dmul k (u64_to_double (fst e))) b) (u64_to_double v); t' = dmul (to_double (1 / 10)) t
         in Inr (dadd mse (dmul t t), dadd threshold (dmul t' t'))))
       items (ieee_zero, ieee_zero)"

text \<open>Slope, intercept and mean square error, when the line fits.\<close>

definition detect_structured_pattern :: "access_kind \<Rightarrow> int \<Rightarrow> items_value_count \<Rightarrow> (ieee \<times> ieee \<times> ieee) option outcome" where
  "detect_structured_pattern kind unique_item_count items =
     (let number_of_items = of_nat (length items) :: u64; n = u64_to_double number_of_items
      in if word_of_int unique_item_count = number_of_items \<and> number_of_items \<ge> 3 then
           let avg_x = ddiv (fold (\<lambda>e sum. dadd sum (u64_to_double (fst e))) items ieee_zero) n
           in fbind (average_value kind items) (\<lambda>avg_y.
              fbind (line_sums avg_x avg_y items) (\<lambda>(sum1, sum2).
                let k = ddiv sum1 sum2; b = dsub avg_y (dmul k avg_x)
                in fbind (line_errors k b items) (\<lambda>(mse, threshold).
                     let mse' = ddiv mse n; threshold' = ddiv threshold n
                     in Inr (if ieee_less (ieee_abs (dsub mse' threshold')) (to_double (1 / 1000))
                             then Some (k, b, mse') else None))))
         else Inr None)"

subsection \<open>Patterns of an array\<close>

datatype value_pattern_type =
    VP_REDUNDANT_ZEROS | VP_SINGLE_VALUE | VP_DENSE_VALUE | VP_TYPE_OVERUSE | VP_APPROXIMATE_VALUE
  | VP_SILENT_STORE | VP_SILENT_LOAD | VP_NO_PATTERN | VP_INAPPROPRIATE_FLOAT | VP_STRUCTURED_PATTERN

fun pattern_code :: "value_pattern_type \<Rightarrow> nat" where
  "pattern_code VP_REDUNDANT_ZEROS = 0" | "pattern_code VP_SINGLE_VALUE = 1" | "pattern_code VP_DENSE_VALUE = 2"
| "pattern_code VP_TYPE_OVERUSE = 3" | "pattern_code VP_APPROXIMATE_VALUE = 4" | "pattern_code VP_SILENT_STORE = 5"
| "pattern_code VP_SILENT_LOAD = 6" | "pattern_code VP_NO_PATTERN = 7" | "pattern_code VP_INAPPROPRIATE_FLOAT = 8"
| "pattern_code VP_STRUCTURED_PATTERN = 9"

fun pattern_names :: "value_pattern_type \<Rightarrow> string" where
  "pattern_names VP_REDUNDANT_ZEROS = ''Redundant Zeros''" | "pattern_names VP_SINGLE_VALUE = ''Single Value''"
| "pattern_names VP_DENSE_VALUE = ''Dense Value''" | "pattern_names VP_TYPE_OVERUSE = ''Type Overuse''"
| "pattern_names VP_APPROXIMATE_VALUE = ''Approximate Value''" | "pattern_names VP_SILENT_STORE = ''Silent Store''"
| "pattern_names VP_SILENT_LOAD = ''Silent Load''" | "pattern_names VP_NO_PATTERN = ''No Pattern''"
| "pattern_names VP_INAPPROPRIATE_FLOAT = ''Inappropriate Float Type''" | "pattern_names VP_STRUCTURED_PATTERN = ''Structured''"

record array_pattern_info =
  ap_kind :: access_kind
  ap_memory :: memory
  ap_narrow :: "int \<times> int \<times> int"
  ap_top :: "(u64 \<times> u64) list"
  ap_unique_items :: int
  ap_unique_accesses :: u64
  ap_unique_values :: "(u64 \<times> u64) list"
  ap_total :: u64
  ap_line :: "ieee \<times> ieee \<times> ieee"
  ap_patterns :: "value_pattern_type list"

text \<open>The three counts and the line of a new object are not set.\<close>

type_synonym unset_info = "int \<times> u64 \<times> u64 \<times> (ieee \<times> ieee \<times> ieee)"

definition ArrayPatternInfo :: "unset_info \<Rightarrow> access_kind \<Rightarrow> memory \<Rightarrow> array_pattern_info" where
  "ArrayPatternInfo unset kind memory =
     (case unset of (item_count, accesses, all_accesses, line) \<Rightarrow>
        \<lparr>ap_kind = kind, ap_memory = memory, ap_narrow = (0, 0, 0), ap_top = [], ap_unique_items = item_count,
         ap_unique_accesses = accesses, ap_unique_values = [], ap_total = all_accesses, ap_line = line, ap_patterns = []\<rparr>)"

record dense_scan =
  ds_inappropriate :: bool
  ds_zero_bits :: "int \<times> int \<times> int"
  ds_exp :: exponent_scan
  ds_possible :: bool
  ds_unique :: value_count
  ds_unique_items :: int
  ds_total :: u64
  ds_unique_total :: u64

definition init_scan :: "access_kind \<Rightarrow> dense_scan" where
  "init_scan kind =
     (let u = int (unat (unit_size kind))
      in \<lparr>ds_inappropriate = True, ds_zero_bits = (u, u, u), ds_exp = \<lparr>es_same = True, es_bits = 0, es_max = 0\<rparr>,
          ds_possible = True, ds_unique = [], ds_unique_items = 0, ds_total = 0, ds_unique_total = 0\<rparr>)"

definition scan_int :: "access_kind \<Rightarrow> value_count \<Rightarrow> int \<times> int \<times> int \<Rightarrow> (int \<times> int \<times> int) outcome" where
  "scan_int kind counts bits =
     ffold (\<lambda>e (a, b, c). fbind (get_redundant_zeros_bits (fst e) kind) (\<lambda>(x, y, z). Inr (min a x, min b y, min c z))) counts bits"

text \<open>The loop over the values that stops at the first with a fractional part.\<close>

fun scan_decimal :: "access_kind \<Rightarrow> value_count \<Rightarrow> bool \<Rightarrow> bool outcome" where
  "scan_decimal kind [] inappropriate = Inr inappropriate"
| "scan_decimal kind (e # es) inappropriate =
     (if inappropriate then fbind (float_no_decimal (fst e) kind) (\<lambda>b. if b then scan_decimal kind es True else Inr False)
      else scan_decimal kind es False)"

text \<open>
  The loop over the exponents. For both sizes it keeps the largest exponent in \<^verbatim>\<open>max_exponents_double\<close>; only one of the two
  flags is in use for an array.
\<close>

fun scan_exponent :: "access_kind \<Rightarrow> value_count \<Rightarrow> exponent_scan \<Rightarrow> bool \<times> exponent_scan" where
  "scan_exponent kind [] e = (True, e)"
| "scan_exponent kind (x # xs) e =
     (if unit_size kind = 64 \<and> - 127 \<le> es_max e \<and> es_max e \<le> 128 \<or> unit_size kind = 32 \<and> - 14 \<le> es_max e \<and> es_max e \<le> 15
      then case check_exponent_and_fraction (fst x) kind e of
             (possible, e1) \<Rightarrow> if possible then scan_exponent kind xs e1 else (False, e1)
      else scan_exponent kind xs e)"

definition scan_types :: "access_kind \<Rightarrow> value_count \<Rightarrow> dense_scan \<Rightarrow> dense_scan outcome" where
  "scan_types kind counts s =
     (if data_type kind = REDSHOW_DATA_INT then
        fbind (scan_int kind counts (ds_zero_bits s)) (\<lambda>bits. Inr (s\<lparr>ds_zero_bits := bits\<rparr>))
      else if data_type kind = REDSHOW_DATA_FLOAT then
        fbind (scan_decimal kind counts (ds_inappropriate s)) (\<lambda>b.
          let s1 = s\<lparr>ds_inappropriate := b\<rparr>
          in Inr (if ds_possible s1 then case scan_exponent kind counts (ds_exp s1) of
                    (p, e) \<Rightarrow> s1\<lparr>ds_possible := p, ds_exp := e\<rparr> else s1))
      else Inr s)"

definition scan_counts :: "value_count \<Rightarrow> dense_scan \<Rightarrow> dense_scan" where
  "scan_counts counts s =
     (let s1 = (case counts of
                  [e] \<Rightarrow> s\<lparr>ds_unique := map_upd (<) 0 (ds_unique s) (fst e) (\<lambda>n. n + 1), ds_unique_items := ds_unique_items s + 1\<rparr>
                | _ \<Rightarrow> s)
      in fold (\<lambda>e t. t\<lparr>ds_total := ds_total t + snd e,
                       ds_unique_total := (if length counts = 1 then ds_unique_total t + snd e else ds_unique_total t)\<rparr>) counts s1)"

definition scan_item :: "access_kind \<Rightarrow> u64 \<times> value_count \<Rightarrow> dense_scan \<Rightarrow> dense_scan outcome" where
  "scan_item kind item s = fbind (scan_types kind (snd item) s) (\<lambda>s1. Inr (scan_counts (snd item) s1))"

text \<open>A product of a \<^verbatim>\<open>float\<close> and a count.\<close>

definition float_times :: "rat \<Rightarrow> nat \<Rightarrow> ieee" where
  "float_times c n = ieee_mul to_float (to_float c) (to_float (of_nat n))"

definition single_pattern :: "access_kind \<Rightarrow> u64 \<Rightarrow> value_pattern_type" where
  "single_pattern kind val =
     (if data_type kind = REDSHOW_DATA_FLOAT then
        if unit_size kind = 32 then
          if ieee_less (ieee_abs (float_of_bits (ucast val))) (to_double (1 / 10 ^ 6)) then VP_REDUNDANT_ZEROS else VP_SINGLE_VALUE
        else if unit_size kind = 64 then
          if ieee_less (ieee_abs (double_of_bits val)) (to_double (1 / 10 ^ 14)) then VP_REDUNDANT_ZEROS else VP_SINGLE_VALUE
        else VP_NO_PATTERN
      else if data_type kind = REDSHOW_DATA_INT then (if val = 0 then VP_REDUNDANT_ZEROS else VP_SINGLE_VALUE)
      else VP_NO_PATTERN)"

definition value_pattern_of :: "access_kind \<Rightarrow> nat \<Rightarrow> dense_scan \<Rightarrow> value_pattern_type" where
  "value_pattern_of kind number_of_items s =
     (case ds_unique s of
        [e] \<Rightarrow> if ds_total s = ds_unique_total s then single_pattern kind (fst e) else VP_NO_PATTERN
      | es \<Rightarrow>
          if ieee_le (float_times (1 / 2) number_of_items) (to_float (of_int (ds_unique_items s)))
             \<and> ieee_le (to_float (of_nat (length es))) (float_times (1 / 10) number_of_items)
          then VP_DENSE_VALUE else VP_NO_PATTERN)"

text \<open>The exponents of \<^verbatim>\<open>float\<close> arrays are never kept, so their bound is that of zero.\<close>

definition float_overuse :: "access_kind \<Rightarrow> value_pattern_type \<Rightarrow> dense_scan \<Rightarrow> (int \<times> int \<times> int) option" where
  "float_overuse kind vpt s =
     (if data_type kind \<noteq> REDSHOW_DATA_FLOAT then None
      else if unit_size kind = 32 then
        if vpt \<in> {VP_SINGLE_VALUE, VP_REDUNDANT_ZEROS} \<or> \<not> es_same (ds_exp s) then Some (16, 32, 32) else None
      else if unit_size kind = 64 then
        if (vpt \<in> {VP_SINGLE_VALUE, VP_REDUNDANT_ZEROS} \<or> \<not> es_same (ds_exp s)) \<and> es_max (ds_exp s) \<le> 127
        then Some (32, 64, 64) else None
      else None)"

text \<open>The code is only called with a new \<^verbatim>\<open>ArrayPatternInfo\<close>, whose two lists of values are empty.\<close>

definition dense_value_pattern ::
  "((u64 \<times> u64) list \<Rightarrow> (u64 \<times> u64) list) \<Rightarrow> items_value_count \<Rightarrow> array_pattern_info \<Rightarrow> array_pattern_info outcome" where
  "dense_value_pattern sort_counts items info =
     (let kind = ap_kind info; u = int (unat (unit_size kind))
      in if mem_len (ap_memory info) = 0 then Inr (info\<lparr>ap_patterns := ap_patterns info @ [VP_NO_PATTERN]\<rparr>)
         else
           fbind (ffold (scan_item kind) items (init_scan kind)) (\<lambda>s.
           fbind (detect_structured_pattern kind (ds_unique_items s) items) (\<lambda>line.
           fbind (if data_type kind = REDSHOW_DATA_INT then
                    fbind (detect_type_overuse (ds_zero_bits s) kind) (\<lambda>n. Inr (n, if n \<noteq> (u, u, u) then [VP_TYPE_OVERUSE] else []))
                  else Inr (ap_narrow info, [])) (\<lambda>(narrow, overuse).
             let values = sort_counts (ds_unique s);
                 vpt = value_pattern_of kind (length items) s;
                 fo = float_overuse kind vpt s;
                 vpts = ap_patterns info @ (if line \<noteq> None then [VP_STRUCTURED_PATTERN] else [])
                   @ (if data_type kind = REDSHOW_DATA_FLOAT \<and> ds_inappropriate s then [VP_INAPPROPRIATE_FLOAT] else [])
                   @ overuse @ (if fo \<noteq> None then [VP_TYPE_OVERUSE] else [])
             in Inr (info\<lparr>ap_total := ds_total s, ap_unique_items := ds_unique_items s, ap_unique_accesses := ds_unique_total s,
                          ap_line := (case line of None \<Rightarrow> ap_line info | Some l \<Rightarrow> l),
                          ap_narrow := (case fo of None \<Rightarrow> narrow | Some n \<Rightarrow> n),
                          ap_unique_values := values, ap_top := take 10 values,
                          ap_patterns := (if vpts \<noteq> [] \<and> vpt = VP_NO_PATTERN then vpts else vpts @ [vpt])\<rparr>)))))"

subsection \<open>The report\<close>

text \<open>Values with fewer significant bits, and whether their patterns differ.\<close>

definition approximate_items :: "access_kind \<Rightarrow> items_value_count \<Rightarrow> items_value_count" where
  "approximate_items kind items =
     (let (f32, f64) = vp_approx_level_config REDSHOW_APPROX_MAX
      in fold (\<lambda>(index, counts) r. fold (\<lambda>(val, n) r1.
             let put = (\<lambda>v. map_upd (<) [] r1 index (\<lambda>m. map_upd (<) 0 m v (\<lambda>c. c + n)))
             in if unit_size kind = 32 then put (value_to_float val f32)
                else if unit_size kind = 64 then put (value_to_double val f64) else r1) counts r) items [])"

definition approximate_value_pattern ::
  "((u64 \<times> u64) list \<Rightarrow> (u64 \<times> u64) list) \<Rightarrow> items_value_count \<Rightarrow> array_pattern_info \<Rightarrow> array_pattern_info \<Rightarrow>
   (bool \<times> array_pattern_info) outcome" where
  "approximate_value_pattern sort_counts items info approx =
     (if data_type (ap_kind info) \<noteq> REDSHOW_DATA_FLOAT then Inr (False, approx)
      else
        fbind (dense_value_pattern sort_counts (approximate_items (ap_kind info) items) approx) (\<lambda>a.
          Inr (ap_patterns a \<noteq> []
               \<and> (length (ap_patterns a) \<noteq> length (ap_patterns info)
                  \<or> sort_key pattern_code (ap_patterns info) \<noteq> sort_key pattern_code (ap_patterns a)), a)))"

definition vp_tab :: string where
  "vp_tab = [char_of (9 :: nat)]"

text \<open>The narrower kind: the quotient of vector and unit size, times the unit.\<close>

definition narrowed :: "access_kind \<Rightarrow> int \<Rightarrow> access_kind" where
  "narrowed kind n =
     (let u = word_of_int n :: u32 in \<lparr>vec_size = u * (vec_size kind div unit_size kind), unit_size = u, data_type = data_type kind\<rparr>)"

definition narrowing_text :: "access_kind \<Rightarrow> string \<Rightarrow> int \<Rightarrow> string \<Rightarrow> string outcome" where
  "narrowing_text kind label n end_text =
     (if unit_size kind = word_of_int n then Inr []
      else if unit_size kind = 0 then Inl DivideByZero
      else Inr (label @ access_kind_to_string kind @ '' --> '' @ access_kind_to_string (narrowed kind n) @ end_text))"

definition pattern_text :: "array_pattern_info \<Rightarrow> value_pattern_type \<Rightarrow> string outcome" where
  "pattern_text info vpt =
     (let kind = ap_kind info; (sgn, unsgn, tail) = ap_narrow info; (k, b, mse) = ap_line info
      in fbind (case vpt of
             VP_TYPE_OVERUSE \<Rightarrow>
               fbind (narrowing_text kind ''signed: '' sgn vp_tab) (\<lambda>x.
               fbind (narrowing_text kind ''unsigned: '' unsgn vp_tab) (\<lambda>y.
               fbind (narrowing_text kind ''cased by tail zeros: '' tail []) (\<lambda>z. Inr (x @ y @ z))))
           | VP_INAPPROPRIATE_FLOAT \<Rightarrow>
               Inr (access_kind_to_string kind @ '' --> '' @ access_kind_to_string (kind\<lparr>data_type := REDSHOW_DATA_INT\<rparr>))
           | VP_STRUCTURED_PATTERN \<Rightarrow>
               Inr (''y = '' @ ieee_to_string k @ ''x + '' @ ieee_to_string b @ '' mse: '' @ ieee_to_string mse)
           | _ \<Rightarrow> Inr []) (\<lambda>more. Inr ('' * '' @ pattern_names vpt @ vp_tab @ more @ newline)))"

definition show_value_pattern :: "array_pattern_info \<Rightarrow> u32 \<Rightarrow> string outcome" where
  "show_value_pattern info read_flag =
     (let kind = ap_kind info; memory = ap_memory info;
          vpts = (if ap_patterns info = [] then [VP_NO_PATTERN] else ap_patterns info)
      in fbind (ffold (\<lambda>vpt out. fbind (pattern_text info vpt) (\<lambda>x. Inr (out @ x))) vpts []) (\<lambda>patterns.
         Inr (''array id: '' @ int_to_string (ctx_id memory) @ '', memory size '' @ u64_to_string (mem_len memory) @ '', value type ''
              @ access_kind_to_string kind @ '' '' @ (if read_flag = GPU_PATCH_READ then ''Read'' else ''Write'') @ newline
              @ ''total access count: '' @ u64_to_string (ap_total info) @ newline
              @ ''unique item count: '' @ int_to_string (ap_unique_items info) @ newline
              @ ''unqiue item value count: '' @ nat_digits (length (ap_unique_values info)) @ newline
              @ ''unqiue item access count: '' @ u64_to_string (ap_unique_accesses info) @ newline
              @ ''pattern type:'' @ newline @ patterns
              @ (if ap_top info = [] then []
                 else ''TOP unqiue value'' @ vp_tab @ ''count'' @ newline
                   @ concat (map (\<lambda>(v, n). value_to_string kind v True @ vp_tab @ u64_to_string n @ newline) (ap_top info)))
              @ newline)))"

definition check_array ::
  "((u64 \<times> u64) list \<Rightarrow> (u64 \<times> u64) list) \<Rightarrow> unset_info \<Rightarrow> u32 \<Rightarrow> memory \<Rightarrow> access_kind \<times> items_value_count \<Rightarrow> string outcome" where
  "check_array sort_counts unset read_flag memory array =
     (let new = ArrayPatternInfo unset (fst array) memory
      in fbind (dense_value_pattern sort_counts (snd array) new) (\<lambda>info.
         fbind (approximate_value_pattern sort_counts (snd array) info new) (\<lambda>(valid, approx).
         fbind (show_value_pattern info read_flag) (\<lambda>text.
         fbind (if valid then fbind (show_value_pattern approx read_flag) (\<lambda>t. Inr (''====  approximate ===='' @ newline @ t))
                else Inr []) (\<lambda>more. Inr (text @ more))))))"

definition check_pattern_for_value_dist ::
  "((u64 \<times> u64) list \<Rightarrow> (u64 \<times> u64) list) \<Rightarrow> unset_info \<Rightarrow> u32 \<Rightarrow> value_dist \<Rightarrow> string \<Rightarrow> string outcome" where
  "check_pattern_for_value_dist sort_counts unset read_flag d out =
     ffold (\<lambda>(_, memory, arrays).
         ffold (\<lambda>array o1. fbind (check_array sort_counts unset read_flag memory array) (\<lambda>t. Inr (o1 @ t))) arrays) d out"

text \<open>The summary over all kernels is switched off in the code.\<close>

definition vp_flush_thread ::
  "((u64 \<times> u64) list \<Rightarrow> (u64 \<times> u64) list) \<Rightarrow> unset_info \<Rightarrow> u32 \<Rightarrow> string \<Rightarrow> value_pattern \<Rightarrow> (string \<times> string) list outcome" where
  "vp_flush_thread sort_counts unset cpu_thread output_dir s =
     (case map_at (<) (vp_kernel_trace s) cpu_thread of
        None \<Rightarrow> Inr []
      | Some kernels \<Rightarrow>
          fbind (ffold (\<lambda>(kernel_id, t) out.
              fbind (check_pattern_for_value_dist sort_counts unset GPU_PATCH_READ (vt_r_value_dist t)
                       (out @ ''kernel id: '' @ int_to_string kernel_id @ newline))
                (check_pattern_for_value_dist sort_counts unset GPU_PATCH_WRITE (vt_w_value_dist t)))
            kernels []) (\<lambda>out.
          Inr [(output_dir @ ''value_pattern_t'' @ u32_to_string cpu_thread @ ''.csv'', out)]))"

subsection \<open>The recorded values\<close>

interpretation value_counts: counters access_kind_lt "(<) :: u64 \<Rightarrow> u64 \<Rightarrow> bool" "(<) :: u64 \<Rightarrow> u64 \<Rightarrow> bool"
  by unfold_locales

definition value_dist_ok :: "value_dist \<Rightarrow> bool" where
  "value_dist_ok d = (map_ok (<) d \<and> (\<forall>i m ks. map_at (<) d i = Some (m, ks) \<longrightarrow> counts_ok access_kind_lt (<) (<) ks))"

definition value_count_at :: "value_dist \<Rightarrow> u64 \<Rightarrow> access_kind \<Rightarrow> u64 \<Rightarrow> u64 \<Rightarrow> u64" where
  "value_count_at d i kind offset val =
     (case map_at (<) d i of None \<Rightarrow> 0 | Some (m, ks) \<Rightarrow> count_at access_kind_lt (<) (<) ks kind offset val)"

lemma count_at_Nil [simp]: "count_at access_kind_lt (<) (<) [] kind offset val = 0"
  by (simp add: count_at_def map_touch_def)

lemma count_value_ok:
  assumes "value_dist_ok d"
  shows "value_dist_ok (count_value m kind offset val d)"
    "value_count_at (count_value m kind offset val d) i k j v =
       value_count_at d i k j v + (if i = op_id m \<and> k = kind \<and> j = offset \<and> v = val then 1 else 0)"
proof -
  obtain m0 ks where e: "(case map_at (<) d (op_id m) of None \<Rightarrow> (m, []) | Some e \<Rightarrow> e) = (m0, ks)" by fastforce
  have ks: "counts_ok access_kind_lt (<) (<) ks"
    using assms e value_counts.counts_ok_Nil by (auto simp: value_dist_ok_def split: option.splits)
  have d: "map_ok (<) d" using assms by (simp add: value_dist_ok_def)
  have c: "count_value m kind offset val d = map_set (<) d (op_id m) (m0, count_inc access_kind_lt (<) (<) ks kind offset val)"
    using e by (simp add: count_value_def)
  show "value_dist_ok (count_value m kind offset val d)"
    using assms value_counts.counts_ok_inc [OF ks] unfolding c value_dist_ok_def
    by (auto simp: u64_order.map_ok_set u64_order.map_at_set split: if_splits)
  have old: "value_count_at d (op_id m) k j v = count_at access_kind_lt (<) (<) ks k j v"
    using e by (auto simp: value_count_at_def split: option.splits)
  show "value_count_at (count_value m kind offset val d) i k j v =
       value_count_at d i k j v + (if i = op_id m \<and> k = kind \<and> j = offset \<and> v = val then 1 else 0)"
    using old unfolding c
    by (cases "i = op_id m") (simp_all add: value_count_at_def u64_order.map_at_set [OF d] value_counts.count_at_inc [OF ks])
qed

text \<open>The trace of the kernel that is analysed, and the unit that an access of a known type counts.\<close>

definition vp_running :: "u32 \<Rightarrow> i32 \<Rightarrow> value_pattern_trace \<Rightarrow> value_pattern \<Rightarrow> bool" where
  "vp_running thr k t s =
     (vp_trace_at s = Some (thr, k) \<and> map_ok2 (<) (<) (vp_kernel_trace s) \<and> map_at2 (<) (<) (vp_kernel_trace s) thr k = Some t
      \<and> value_dist_ok (vt_r_value_dist t) \<and> value_dist_ok (vt_w_value_dist t))"

definition access_offset :: "unit_args \<Rightarrow> u64" where
  "access_offset a =
     (moved_addr (ua_kind a) (ua_addr a) (ua_index a) - mr_start (mem_range (ua_memory a))) div ucast (drop_bit 3 (unit_size (ua_kind a)))"

definition counts_for :: "value_config \<Rightarrow> u32 \<Rightarrow> u64 \<Rightarrow> access_kind \<Rightarrow> u64 \<Rightarrow> u64 \<Rightarrow> unit_args \<Rightarrow> bool" where
  "counts_for cfg flag i kind offset val a =
     (has_flag (ua_flags a) flag \<and> op_id (ua_memory a) = i \<and> ua_kind a = kind \<and> access_offset a = offset
      \<and> float_value_kept cfg kind (ua_value a) = val)"

definition vp_access :: "value_config \<Rightarrow> unit_args \<Rightarrow> value_pattern \<Rightarrow> value_pattern outcome" where
  "vp_access cfg a =
     vp_unit_access cfg (ua_kind a) (ua_memory a) (ua_value a) (ua_addr a) (ua_index a) (ua_flags a)"

lemma record_value_ok:
  assumes "value_dist_ok (vt_r_value_dist t)" "value_dist_ok (vt_w_value_dist t)"
  shows "value_dist_ok (vt_r_value_dist (record_value kind m offset val flags t))"
    "value_dist_ok (vt_w_value_dist (record_value kind m offset val flags t))"
    "value_count_at (vt_r_value_dist (record_value kind m offset val flags t)) i k j v = value_count_at (vt_r_value_dist t) i k j v
       + (if has_flag flags GPU_PATCH_READ \<and> i = op_id m \<and> k = kind \<and> j = offset \<and> v = val then 1 else 0)"
    "value_count_at (vt_w_value_dist (record_value kind m offset val flags t)) i k j v = value_count_at (vt_w_value_dist t) i k j v
       + (if has_flag flags GPU_PATCH_WRITE \<and> i = op_id m \<and> k = kind \<and> j = offset \<and> v = val then 1 else 0)"
  using assms by (simp_all add: record_value_def Let_def count_value_ok)

lemma vp_typed_runs:
  fixes kind addr index m
  assumes "vp_running thr k t s" "8 \<le> unit_size kind"
  defines "offset \<equiv> (moved_addr kind addr index - mr_start (mem_range m)) div ucast (drop_bit 3 (unit_size kind))"
  shows "\<exists>s' t'. vp_typed_access cfg kind m val addr index flags s = Inr s' \<and> vp_running thr k t' s'
    \<and> (\<forall>i kd j v. value_count_at (vt_r_value_dist t') i kd j v = value_count_at (vt_r_value_dist t) i kd j v
          + (if has_flag flags GPU_PATCH_READ \<and> i = op_id m \<and> kd = kind \<and> j = offset \<and> v = float_value_kept cfg kind val then 1 else 0))
    \<and> (\<forall>i kd j v. value_count_at (vt_w_value_dist t') i kd j v = value_count_at (vt_w_value_dist t) i kd j v
          + (if has_flag flags GPU_PATCH_WRITE \<and> i = op_id m \<and> kd = kind \<and> j = offset \<and> v = float_value_kept cfg kind val then 1 else 0))"
proof -
  let ?t = "record_value kind m offset (float_value_kept cfg kind val) flags t"
  let ?s = "s\<lparr>vp_kernel_trace := map_set2 (<) (<) (vp_kernel_trace s) thr k ?t\<rparr>"
  have "8 div 8 \<le> unat (unit_size kind) div 8" using assms(2) by (intro div_le_mono) (simp add: word_le_nat_alt)
  then have "unat (drop_bit 3 (unit_size kind)) \<noteq> 0" by (simp add: drop_bit_eq_div unat_div)
  then have "drop_bit 3 (unit_size kind) \<noteq> 0" by auto
  then have "vp_typed_access cfg kind m val addr index flags s = Inr ?s"
    using assms(1) by (simp add: vp_typed_access_def vp_running_def offset_def Let_def)
  moreover have "vp_running thr k ?t ?s"
    using assms(1) by (simp add: vp_running_def thread_kernel.map_ok2_set2 thread_kernel.map_at2_set2 record_value_ok)
  ultimately show ?thesis
    using assms(1) by (intro exI [of _ ?s] exI [of _ ?t]) (simp add: vp_running_def record_value_ok)
qed

lemma vp_access_runs:
  assumes "vp_running thr k t s" "data_type (ua_kind a) \<noteq> REDSHOW_DATA_UNKNOWN" "8 \<le> unit_size (ua_kind a)"
  shows "\<exists>s' t'. vp_access cfg a s = Inr s' \<and> vp_running thr k t' s'
    \<and> value_count_at (vt_r_value_dist t') i kind offset val = value_count_at (vt_r_value_dist t) i kind offset val
        + (if counts_for cfg GPU_PATCH_READ i kind offset val a then 1 else 0)
    \<and> value_count_at (vt_w_value_dist t') i kind offset val = value_count_at (vt_w_value_dist t) i kind offset val
        + (if counts_for cfg GPU_PATCH_WRITE i kind offset val a then 1 else 0)"
proof -
  obtain s' t' where r: "vp_typed_access cfg (ua_kind a) (ua_memory a) (ua_value a) (ua_addr a) (ua_index a) (ua_flags a) s = Inr s'"
    "vp_running thr k t' s'"
    "\<And>i kd j v. value_count_at (vt_r_value_dist t') i kd j v = value_count_at (vt_r_value_dist t) i kd j v
       + (if has_flag (ua_flags a) GPU_PATCH_READ \<and> i = op_id (ua_memory a) \<and> kd = ua_kind a \<and> j = access_offset a
            \<and> v = float_value_kept cfg (ua_kind a) (ua_value a) then 1 else 0)"
    "\<And>i kd j v. value_count_at (vt_w_value_dist t') i kd j v = value_count_at (vt_w_value_dist t) i kd j v
       + (if has_flag (ua_flags a) GPU_PATCH_WRITE \<and> i = op_id (ua_memory a) \<and> kd = ua_kind a \<and> j = access_offset a
            \<and> v = float_value_kept cfg (ua_kind a) (ua_value a) then 1 else 0)"
    using vp_typed_runs [where addr = "ua_addr a" and index = "ua_index a" and m = "ua_memory a" and cfg = cfg and val = "ua_value a"
        and flags = "ua_flags a", OF assms(1,3)]
    unfolding access_offset_def by blast
  have "vp_access cfg a s = Inr s'" using r(1) assms(2) by (simp add: vp_access_def vp_unit_access_def)
  then show ?thesis using r(2) by (intro exI [of _ s'] exI [of _ t']) (auto simp: r(3,4) counts_for_def)
qed

text \<open>A kernel that has begun, and reads of its units.\<close>

definition value_object :: memory where
  "value_object = Memory_object 0 7 3 (MemoryRange 0x100 0x140) 0 0"

definition value_access :: "u32 \<Rightarrow> u64 \<Rightarrow> unit_args" where
  "value_access index val =
     \<lparr>ua_kernel_id = 5, ua_host_op_id = 9, ua_thread = \<lparr>flat_block_id = 0, flat_thread_id = 0\<rparr>, ua_kind = AccessKind 32 32 REDSHOW_DATA_INT, ua_memory = value_object,
      ua_pc = 0x10, ua_value = val, ua_addr = 0x100, ua_index = index, ua_flags = GPU_PATCH_READ\<rparr>"

definition value_trace :: value_pattern_trace where
  "value_trace = \<lparr>vt_ctx_id = 5, vt_cubin_id = 0, vt_mod_id = 0, vt_w_value_dist = [], vt_r_value_dist = []\<rparr>"

definition value_begun :: value_pattern where
  "value_begun = \<lparr>vp_kernel_trace = [(1, [(5, value_trace)])], vp_trace_at = Some (1, 5)\<rparr>"

lemma value_begun_begin: "vp_analysis_begin 1 5 0 0 GPU_PATCH_TYPE_DEFAULT ValuePattern = Inr value_begun"
  by (simp add: vp_analysis_begin_def ValuePattern_def value_begun_def value_trace_def map_at2_def map_set2_def map_touch_def map_upd_def)

lemma value_begun_running: "vp_running 1 5 value_trace value_begun"
  by (simp add: vp_running_def value_begun_def value_trace_def map_at2_def map_ok2_def map_touch_def map_ok_Cons value_dist_ok_def)

lemma value_access_offsets:
  "access_offset (value_access 2 v) = 2" "access_offset (value_access 3 v) = 3" "op_id (ua_memory (value_access i v)) = 7"
  "ua_kind (value_access i v) = AccessKind 32 32 REDSHOW_DATA_INT" "ua_value (value_access i v) = v" "ua_flags (value_access i v) = GPU_PATCH_READ"
  by (simp_all add: access_offset_def moved_addr_def value_access_def value_object_def Memory_object_def AccessKind_def drop_bit_eq_div)

text \<open>
  C36. Between the begin and the end of a kernel every count of the two distributions is the number of accesses that read or
  wrote the value at the offset of the object with the kind, after the rounding that the configuration asks for. No access of a known
  type of at least a byte faults.
\<close>

theorem value_pattern_counts:
  assumes "vp_running thr k t s" "\<forall>a \<in> set as. data_type (ua_kind a) \<noteq> REDSHOW_DATA_UNKNOWN \<and> 8 \<le> unit_size (ua_kind a)"
  shows "\<exists>s' t'. ffold (vp_access cfg) as s = Inr s' \<and> vp_running thr k t' s'
    \<and> value_count_at (vt_r_value_dist t') i kind offset val = value_count_at (vt_r_value_dist t) i kind offset val
        + of_nat (length (filter (counts_for cfg GPU_PATCH_READ i kind offset val) as))
    \<and> value_count_at (vt_w_value_dist t') i kind offset val = value_count_at (vt_w_value_dist t) i kind offset val
        + of_nat (length (filter (counts_for cfg GPU_PATCH_WRITE i kind offset val) as))"
  using assms
proof (induction as arbitrary: s t)
  case Nil
  then show ?case by auto
next
  case (Cons a as)
  obtain s1 t1 where 1: "vp_access cfg a s = Inr s1" "vp_running thr k t1 s1"
    "value_count_at (vt_r_value_dist t1) i kind offset val = value_count_at (vt_r_value_dist t) i kind offset val
        + (if counts_for cfg GPU_PATCH_READ i kind offset val a then 1 else 0)"
    "value_count_at (vt_w_value_dist t1) i kind offset val = value_count_at (vt_w_value_dist t) i kind offset val
        + (if counts_for cfg GPU_PATCH_WRITE i kind offset val a then 1 else 0)"
    using vp_access_runs [OF Cons.prems(1), of a] Cons.prems(2) by fastforce
  from Cons.IH [OF 1(2)] Cons.prems(2) 1 show ?case by (fastforce simp: ac_simps)
qed

theorem value_pattern_counts_witness:
  "\<exists>s' t'. ffold (vp_access init_value_config) [value_access 2 7, value_access 3 7, value_access 2 7] value_begun = Inr s' \<and> vp_running 1 5 t' s'
    \<and> value_count_at (vt_r_value_dist t') 7 (AccessKind 32 32 REDSHOW_DATA_INT) 2 7 = 2"
proof -
  let ?k = "AccessKind 32 32 REDSHOW_DATA_INT" and ?as = "[value_access 2 7, value_access 3 7, value_access 2 7]"
  have a: "\<forall>a \<in> set ?as. data_type (ua_kind a) \<noteq> REDSHOW_DATA_UNKNOWN \<and> 8 \<le> unit_size (ua_kind a)"
    by (simp add: value_access_offsets AccessKind_def)
  have c: "filter (counts_for init_value_config GPU_PATCH_READ 7 ?k 2 7) ?as = [value_access 2 7, value_access 2 7]"
    by (simp add: counts_for_def value_access_offsets has_flag_def GPU_PATCH_READ_def float_value_kept_def AccessKind_def)
  have z: "value_count_at (vt_r_value_dist value_trace) 7 ?k 2 7 = 0"
    by (simp add: value_count_at_def value_trace_def)
  show ?thesis
    using value_pattern_counts [OF value_begun_running a, of init_value_config 7 ?k 2 7] unfolding c z by auto
qed

text \<open>
  C40. An access of an unknown type is counted as a \<^verbatim>\<open>float\<close> and as an integer, but twice as far from its address as its index says:
  the call that tries a type moves the address that was moved already.
\<close>

theorem value_pattern_unknown_offset:
  assumes "vp_running thr k t s" "data_type kind = REDSHOW_DATA_UNKNOWN" "8 \<le> unit_size kind"
    and "offset = (addr + 2 * ucast (index * unit_size kind div 8) - mr_start (mem_range m)) div ucast (drop_bit 3 (unit_size kind))"
  shows "\<exists>s' t'. vp_unit_access cfg kind m val addr index flags s = Inr s' \<and> vp_running thr k t' s'
    \<and> (\<forall>i kd j v. value_count_at (vt_r_value_dist t') i kd j v = value_count_at (vt_r_value_dist t) i kd j v
          + (if has_flag flags GPU_PATCH_READ \<and> i = op_id m
                \<and> kd \<in> {kind\<lparr>data_type := REDSHOW_DATA_FLOAT\<rparr>, kind\<lparr>data_type := REDSHOW_DATA_INT\<rparr>}
                \<and> j = offset \<and> v = float_value_kept cfg kd val then 1 else 0))"
proof -
  let ?f = "kind\<lparr>data_type := REDSHOW_DATA_FLOAT\<rparr>" and ?i = "kind\<lparr>data_type := REDSHOW_DATA_INT\<rparr>" and ?a = "moved_addr kind addr index"
  have off: "(moved_addr kd ?a index - mr_start (mem_range m)) div ucast (drop_bit 3 (unit_size kd)) = offset" "8 \<le> unit_size kd"
    if "kd \<in> {?f, ?i}" for kd
    using that assms(3,4) by (auto simp: moved_addr_def algebra_simps)
  have ne: "?f \<noteq> ?i" by (metis access_kind.select_convs(3) access_kind.update_convs(3) access_kind.surjective redshow_data_type.distinct(5))
  obtain s1 t1 where 1: "vp_typed_access cfg ?f m val ?a index flags s = Inr s1" "vp_running thr k t1 s1"
    "\<And>i kd j v. value_count_at (vt_r_value_dist t1) i kd j v = value_count_at (vt_r_value_dist t) i kd j v
          + (if has_flag flags GPU_PATCH_READ \<and> i = op_id m \<and> kd = ?f \<and> j = offset \<and> v = float_value_kept cfg ?f val then 1 else 0)"
    using vp_typed_runs [where addr = ?a and index = index and m = m and cfg = cfg and val = val and flags = flags, OF assms(1) off(2), of ?f] off(1) [of ?f] by auto
  obtain s2 t2 where 2: "vp_typed_access cfg ?i m val ?a index flags s1 = Inr s2" "vp_running thr k t2 s2"
    "\<And>i kd j v. value_count_at (vt_r_value_dist t2) i kd j v = value_count_at (vt_r_value_dist t1) i kd j v
          + (if has_flag flags GPU_PATCH_READ \<and> i = op_id m \<and> kd = ?i \<and> j = offset \<and> v = float_value_kept cfg ?i val then 1 else 0)"
    using vp_typed_runs [where addr = ?a and index = index and m = m and cfg = cfg and val = val and flags = flags, OF 1(2) off(2), of ?i] off(1) [of ?i] by auto
  have "vp_unit_access cfg kind m val addr index flags s = Inr s2" using assms(2) 1(1) 2(1) by (simp add: vp_unit_access_def)
  then show ?thesis using 2(2) ne by (intro exI [of _ s2] exI [of _ t2]) (auto simp: 2(3) 1(3))
qed

theorem value_pattern_unknown_offset_witness:
  "\<exists>s' t'. vp_unit_access init_value_config (AccessKind 32 32 REDSHOW_DATA_UNKNOWN) value_object 7 0x100 2 GPU_PATCH_READ value_begun = Inr s'
    \<and> vp_running 1 5 t' s' \<and> value_count_at (vt_r_value_dist t') 7 (AccessKind 32 32 REDSHOW_DATA_INT) 4 7 = 1"
proof -
  let ?k = "AccessKind 32 32 REDSHOW_DATA_UNKNOWN"
  have k: "data_type ?k = REDSHOW_DATA_UNKNOWN" "8 \<le> unit_size ?k"
    "4 = (0x100 + 2 * ucast (2 * unit_size ?k div 8) - mr_start (mem_range value_object)) div ucast (drop_bit 3 (unit_size ?k))"
    by (simp_all add: AccessKind_def value_object_def Memory_object_def drop_bit_eq_div)
  obtain s' t' where r: "vp_unit_access init_value_config ?k value_object 7 0x100 2 GPU_PATCH_READ value_begun = Inr s'"
    "vp_running 1 5 t' s'" "\<forall>i kd j v. value_count_at (vt_r_value_dist t') i kd j v = value_count_at (vt_r_value_dist value_trace) i kd j v
       + (if has_flag GPU_PATCH_READ GPU_PATCH_READ \<and> i = op_id value_object
            \<and> kd \<in> {?k\<lparr>data_type := REDSHOW_DATA_FLOAT\<rparr>, ?k\<lparr>data_type := REDSHOW_DATA_INT\<rparr>}
            \<and> j = 4 \<and> v = float_value_kept init_value_config kd 7 then 1 else 0)"
    using value_pattern_unknown_offset [where m = value_object and addr = "0x100" and index = 2 and cfg = init_value_config and val = 7
        and flags = GPU_PATCH_READ, OF value_begun_running k] by blast
  then show ?thesis
    by (intro exI [of _ s'] exI [of _ t'])
       (simp add: has_flag_def GPU_PATCH_READ_def value_object_def Memory_object_def AccessKind_def float_value_kept_def value_count_at_def value_trace_def)
qed

end
