(* ===== verification/Array_Patterns.thy ===== *)
theory Array_Patterns
  imports Value_Pattern
begin

section \<open>The patterns of integer arrays\<close>

text \<open>
  What \<^verbatim>\<open>ValuePattern::dense_value_pattern\<close> finds for arrays of integers: the zero bits of a value as bounds on it, the scan of
  an array in closed form, the narrowest types, single values, and the shift that is undefined for 64-bit integers.
\<close>

subsection \<open>Integer arrays that are too wide\<close>

lemma bits_below: "(\<forall>j. w \<le> j \<and> j < m \<longrightarrow> \<not> bit n j) \<longleftrightarrow> take_bit m n < 2 ^ w" for n :: nat
proof -
  have "take_bit m n < 2 ^ w \<longleftrightarrow> drop_bit w (take_bit m n) = 0"
    by (simp add: drop_bit_eq_div div_eq_0_iff)
  also have "\<dots> \<longleftrightarrow> (\<forall>j. \<not> bit (take_bit m n) (w + j))"
    by (simp add: bit_eq_iff bit_drop_bit_eq)
  also have "\<dots> \<longleftrightarrow> (\<forall>j. w \<le> j \<and> j < m \<longrightarrow> \<not> bit n j)"
    by (auto simp: bit_take_bit_iff le_iff_add)
  finally show ?thesis by simp
qed

lemma and_flag: "i < 64 \<Longrightarrow> a AND push_bit i 1 \<noteq> 0 \<longleftrightarrow> bit (a :: u64) i"
proof -
  assume "i < 64"
  have "a AND push_bit i 1 \<noteq> 0 \<longleftrightarrow> (\<exists>j. bit (a AND push_bit i 1) j)"
    by (metis bit_eq_iff bit_0_eq bot_apply bot_bool_def)
  also have "\<dots> \<longleftrightarrow> bit a i" using \<open>i < 64\<close> by (auto simp: bit_and_iff bit_exp_iff)
  finally show ?thesis .
qed

text \<open>The loop over the leading bits finds the highest bit below the sign.\<close>

lemma lead_index_le:
  assumes "n \<le> u" "u \<le> 64" "0 < u"
  shows "lead_index (push_bit (u - 1) 1) n (push_bit (u + 1 - n) a) \<le> int w \<longleftrightarrow> (\<forall>j. w \<le> j \<and> j + 2 \<le> n \<longrightarrow> \<not> bit a j)"
  using assms(1)
proof (induction n)
  case (Suc i)
  have t: "push_bit (u + 1 - Suc i) a AND push_bit (u - 1) 1 \<noteq> 0 \<longleftrightarrow> 0 < i \<and> bit a (i - 1)"
    using and_flag [of "u - 1" "push_bit (u - i) a"] assms(2,3) Suc.prems
    by (auto simp: bit_push_bit_iff Suc_diff_Suc)
  have shift: "push_bit 1 (push_bit (u + 1 - Suc i) a) = push_bit (u + 1 - i) a"
    using Suc.prems by (simp add: push_bit_push_bit Suc_diff_le)
  show ?case
  proof (cases "0 < i \<and> bit a (i - 1)")
    case True
    have "i \<le> w \<longleftrightarrow> (\<forall>j. w \<le> j \<and> j + 2 \<le> Suc i \<longrightarrow> \<not> bit a j)"
      using True by (auto dest: spec [of _ "i - 1"])
    with True t show ?thesis by simp
  next
    case False
    have "lead_index (push_bit (u - 1) 1) (Suc i) (push_bit (u + 1 - Suc i) a)
        = lead_index (push_bit (u - 1) 1) i (push_bit (u + 1 - i) a)"
      by (subst lead_index.simps(2)) (simp only: t False if_False shift)
    moreover have "(\<forall>j. w \<le> j \<and> j + 2 \<le> Suc i \<longrightarrow> \<not> bit a j) \<longleftrightarrow> (\<forall>j. w \<le> j \<and> j + 2 \<le> i \<longrightarrow> \<not> bit a j)"
      using False by (metis (no_types, opaque_lifting) One_nat_def Suc_leI Suc_le_mono add_2_eq_Suc' diff_Suc_1 le_SucI le_antisym not_less_eq_eq zero_less_Suc)
    ultimately show ?thesis using Suc.IH Suc.prems by simp
  qed
qed simp

lemma tail_index_ge: "w \<le> n \<Longrightarrow> int w \<le> tail_index n b \<longleftrightarrow> (\<forall>j < w. \<not> bit b j)"
proof (induction n arbitrary: b w)
  case (Suc n)
  have b0: "b AND 1 \<noteq> 0 \<longleftrightarrow> bit b 0" using and_flag [of 0 b] by simp
  show ?case
  proof (cases w)
    case (Suc w')
    have "(\<forall>j < Suc w'. \<not> bit b j) \<longleftrightarrow> \<not> bit b 0 \<and> (\<forall>j < w'. \<not> bit (drop_bit 1 b) j)"
      by (auto simp: bit_drop_bit_eq less_Suc_eq_0_disj)
    with Suc.IH [of w' "drop_bit 1 b"] Suc.prems Suc b0 show ?thesis by auto
  qed (use Suc.IH [of 0 "drop_bit 1 b"] in auto)
qed simp

text \<open>The three counts of a value, as bounds on the value.\<close>

lemma unat_bit: "bit (unat (a :: u64)) j = bit a j"
  by (auto simp: bit_unsigned_iff dest: bit_imp_le_length)

lemma lead_index_bounds: "- 1 \<le> lead_index f n a \<and> lead_index f n a < int n"
  by (induction n arbitrary: a) (auto simp: less_Suc_eq, smt (verit))

lemma tail_index_bounds: "0 \<le> tail_index n b \<and> tail_index n b \<le> int n"
  by (induction n arbitrary: b) auto

lemma get_redundant_zeros_bits_small:
  assumes "unit_size kind = of_nat u" "8 \<le> u" "u \<le> 32"
  defines "i a \<equiv> lead_index (push_bit (u - 1) 1) u (push_bit 1 a)"
  shows "get_redundant_zeros_bits a kind = Inr (int u - 1 - i a, if bit a (u - 1) then 0 else int u - i a, tail_index u a)"
proof -
  have u: "unat (unit_size kind) = u" using assms by (simp add: unsigned_of_nat take_bit_nat_eq_self)
  have "unit_size kind \<noteq> 0" using u assms(2) by auto
  then have u1: "unat (unit_size kind - 1) = u - 1" using u by (simp add: unat_minus_one)
  then have "\<not> unit_size kind - 1 \<ge> 32" using assms(3) by (simp add: word_le_nat_alt) 
  moreover have "(ucast (push_bit (u - 1) (1 :: u32)) :: u64) = push_bit (u - 1) 1"
    using assms(3) by (intro bit_word_eqI) (auto simp: bit_unsigned_iff bit_exp_iff)
  moreover have "drop_bit (u - 1) a AND 1 \<noteq> 0 \<longleftrightarrow> bit a (u - 1)"
    using and_flag [of 0 "drop_bit (u - 1) a"] by (simp add: bit_drop_bit_eq)
  ultimately show ?thesis by (simp only: get_redundant_zeros_bits_def Let_def u u1 i_def if_False if_True)
qed

lemma zeros_of_value:
  assumes "get_redundant_zeros_bits a kind = Inr (x, y, z)" "unit_size kind = of_nat u" "8 \<le> u" "u \<le> 32" "unat a < 2 ^ u"
    and "0 < w" "w \<le> u"
  shows "int u - int w \<le> x \<longleftrightarrow> unat a mod 2 ^ (u - 1) < 2 ^ (w - 1)"
    "int u - int w \<le> y \<longleftrightarrow> unat a < 2 ^ w"
    "int u - int w \<le> z \<longleftrightarrow> 2 ^ (u - w) dvd unat a"
proof -
  let ?i = "lead_index (push_bit (u - 1) 1) u (push_bit 1 a)"
  have r: "x = int u - 1 - ?i" "y = (if bit a (u - 1) then 0 else int u - ?i)" "z = tail_index u a"
    using assms(1) get_redundant_zeros_bits_small [OF assms(2-4), of a] by simp_all
  have lead: "?i \<le> int v \<longleftrightarrow> unat a mod 2 ^ (u - 1) < 2 ^ v" for v
  proof -
    have "?i \<le> int v \<longleftrightarrow> (\<forall>j. v \<le> j \<and> j < u - 1 \<longrightarrow> \<not> bit (unat a) j)"
      using lead_index_le [of u u a v] assms(3,4) by (auto simp: unat_bit)
    then show ?thesis unfolding bits_below by (simp add: take_bit_eq_mod)
  qed
  have "int u - int w \<le> x \<longleftrightarrow> ?i \<le> int (w - 1)" using r(1) assms(6) by auto
  then show "int u - int w \<le> x \<longleftrightarrow> unat a mod 2 ^ (u - 1) < 2 ^ (w - 1)" using lead by simp
  have split: "(2 :: nat) ^ u = 2 * 2 ^ (u - 1)" using assms(3) by (cases u) simp_all
  have sign: "bit a (u - 1) \<longleftrightarrow> 2 ^ (u - 1) \<le> unat a"
  proof -
    have q: "unat a div 2 ^ (u - 1) < 2" using assms(5) split by (simp add: less_mult_imp_div_less)
    have "bit a (u - 1) \<longleftrightarrow> odd (unat a div 2 ^ (u - 1))" using unat_bit [of a "u - 1"] by (simp add: bit_iff_odd)
    also have "\<dots> \<longleftrightarrow> unat a div 2 ^ (u - 1) \<noteq> 0" using q by (cases "unat a div 2 ^ (u - 1)") auto
    also have "\<dots> \<longleftrightarrow> 2 ^ (u - 1) \<le> unat a" by (simp add: div_eq_0_iff not_less)
    finally show ?thesis .
  qed
  show "int u - int w \<le> y \<longleftrightarrow> unat a < 2 ^ w"
  proof (cases "bit a (u - 1)")
    case True
    then have "unat a < 2 ^ w \<longleftrightarrow> w = u"
      using sign assms(5,7) power_increasing [of w "u - 1" "2 :: nat"] by (cases "w = u") (auto dest: le_less_trans)
    with True r(2) assms(7) show ?thesis by auto
  next
    case False
    then have "unat a mod 2 ^ (u - 1) = unat a" using sign by simp
    with lead [of w] False r(2) show ?thesis by auto
  qed
  have "int u - int w \<le> z \<longleftrightarrow> int (u - w) \<le> tail_index u a" using r(3) assms(7) by (simp add: of_nat_diff)
  also have "\<dots> \<longleftrightarrow> (\<forall>j. 0 \<le> j \<and> j < u - w \<longrightarrow> \<not> bit (unat a) j)"
    using tail_index_ge [of "u - w" u a] by (auto simp: unat_bit)
  also have "\<dots> \<longleftrightarrow> 2 ^ (u - w) dvd unat a"
    unfolding bits_below by (simp add: take_bit_eq_mod dvd_eq_mod_eq_0)
  finally show "int u - int w \<le> z \<longleftrightarrow> 2 ^ (u - w) dvd unat a" .
qed

text \<open>The width that a number of zero bits allows.\<close>

definition least_width :: "nat \<Rightarrow> (nat \<Rightarrow> bool) \<Rightarrow> int" where
  "least_width u P = (if P 8 then 8 else if P 16 then 16 else int u)"

lemma check_zeros_bits_width:
  assumes "u \<in> {16, 32}" "z \<le> int u"
  shows "check_zeros_bits z (int u) = Inr (least_width u (\<lambda>w. int u - int w \<le> z))"
  using assms by (auto simp: check_zeros_bits_def least_width_def power2_def valid_int_bits_def)

subsection \<open>What the scan of an array counts\<close>

definition scan_part :: "dense_scan \<Rightarrow> value_count \<times> int \<times> u64 \<times> u64" where
  "scan_part s = (ds_unique s, ds_unique_items s, ds_total s, ds_unique_total s)"

lemma scan_types_part: "scan_types kind counts s = Inr s' \<Longrightarrow> scan_part s' = scan_part s"
  by (auto simp: scan_types_def scan_part_def fbind_eq_Inr Let_def split: if_splits prod.splits)

lemma scan_counts_closed:
  "scan_counts counts s =
     s\<lparr>ds_unique := (case counts of [e] \<Rightarrow> map_upd (<) 0 (ds_unique s) (fst e) (\<lambda>n. n + 1) | _ \<Rightarrow> ds_unique s),
       ds_unique_items := ds_unique_items s + (if length counts = 1 then 1 else 0),
       ds_total := ds_total s + sum_list (map snd counts),
       ds_unique_total := ds_unique_total s + (if length counts = 1 then sum_list (map snd counts) else 0)\<rparr>"
proof -
  have f: "fold (\<lambda>e t. t\<lparr>ds_total := ds_total t + snd e, ds_unique_total := (if b then ds_unique_total t + snd e else ds_unique_total t)\<rparr>) es t
      = t\<lparr>ds_total := ds_total t + sum_list (map snd es),
          ds_unique_total := ds_unique_total t + (if b then sum_list (map snd es) else 0)\<rparr>" for b es t
    by (induction es arbitrary: t) (simp_all add: ac_simps)
  show ?thesis
    unfolding scan_counts_def Let_def f by (simp split: list.splits)
qed

lemma scan_part_counts:
  "scan_part s' = scan_part s \<Longrightarrow> scan_part (scan_counts counts s') = scan_part (scan_counts counts s)"
  by (simp add: scan_counts_closed scan_part_def split: list.splits)

lemma scan_items_part:
  assumes "ffold (scan_item kind) items s = Inr s'" "scan_part s = scan_part t"
  shows "scan_part s' = scan_part (fold (\<lambda>item. scan_counts (snd item)) items t)"
  using assms
proof (induction items arbitrary: s t)
  case (Cons item items)
  obtain r where r: "scan_item kind item s = Inr r" "ffold (scan_item kind) items r = Inr s'"
    using Cons.prems(1) by (auto simp: fbind_eq_Inr)
  obtain s1 where s1: "scan_types kind (snd item) s = Inr s1" "r = scan_counts (snd item) s1"
    using r(1) by (auto simp: scan_item_def fbind_eq_Inr)
  have "scan_part (scan_counts (snd item) s1) = scan_part (scan_counts (snd item) t)"
    by (rule scan_part_counts) (simp add: scan_types_part [OF s1(1)] Cons.prems(2))
  from Cons.IH [OF r(2) [unfolded s1(2)] this] show ?case by simp
qed simp

text \<open>The items with one value, and the sums of their counts.\<close>

definition single_items :: "items_value_count \<Rightarrow> items_value_count" where
  "single_items items = filter (\<lambda>item. length (snd item) = 1) items"

definition item_total :: "items_value_count \<Rightarrow> u64" where
  "item_total items = sum_list (map (\<lambda>item. sum_list (map snd (snd item))) items)"

lemma scan_counts_fold:
  fixes items
  assumes "map_ok (<) (ds_unique s)"
  defines "s' \<equiv> fold (\<lambda>item. scan_counts (snd item)) items s"
  shows "map_ok (<) (ds_unique s')"
    "fst ` set (ds_unique s') = fst ` set (ds_unique s) \<union> (\<lambda>item. fst (hd (snd item))) ` set (single_items items)"
    "ds_unique_items s' = ds_unique_items s + int (length (single_items items))"
    "ds_total s' = ds_total s + item_total items"
    "ds_unique_total s' = ds_unique_total s + item_total (single_items items)"
proof -
  have "map_ok (<) (ds_unique s')
    \<and> fst ` set (ds_unique s') = fst ` set (ds_unique s) \<union> (\<lambda>item. fst (hd (snd item))) ` set (single_items items)
    \<and> ds_unique_items s' = ds_unique_items s + int (length (single_items items))
    \<and> ds_total s' = ds_total s + item_total items
    \<and> ds_unique_total s' = ds_unique_total s + item_total (single_items items)"
    unfolding s'_def using assms(1)
  proof (induction items arbitrary: s)
    case Nil
    then show ?case by (simp add: single_items_def item_total_def)
  next
    case (Cons item items)
    let ?t = "scan_counts (snd item) s"
    obtain o' cs where item: "item = (o', cs)" by (cases item)
    have ok: "map_ok (<) (ds_unique ?t)"
      using Cons.prems by (simp add: scan_counts_closed u64_order.map_ok_upd split: list.splits)
    have keys: "fst ` set (ds_unique ?t) = fst ` set (ds_unique s) \<union> (if length cs = 1 then {fst (hd cs)} else {})"
      using Cons.prems by (auto simp: item scan_counts_closed map_upd_def u64_order.map_keys_set split: list.splits)
    have rest: "ds_unique_items ?t = ds_unique_items s + (if length cs = 1 then 1 else 0)"
      "ds_total ?t = ds_total s + sum_list (map snd cs)"
      "ds_unique_total ?t = ds_unique_total s + (if length cs = 1 then sum_list (map snd cs) else 0)"
      by (simp_all add: item scan_counts_closed)
    show ?case
      using Cons.IH [OF ok] keys rest by (auto simp: item single_items_def item_total_def ac_simps)
  qed
  then show "map_ok (<) (ds_unique s')"
    "fst ` set (ds_unique s') = fst ` set (ds_unique s) \<union> (\<lambda>item. fst (hd (snd item))) ` set (single_items items)"
    "ds_unique_items s' = ds_unique_items s + int (length (single_items items))"
    "ds_total s' = ds_total s + item_total items"
    "ds_unique_total s' = ds_unique_total s + item_total (single_items items)" by auto
qed

lemma scan_result:
  assumes "ffold (scan_item kind) items (init_scan kind) = Inr s"
  shows "map_ok (<) (ds_unique s)" "fst ` set (ds_unique s) = (\<lambda>item. fst (hd (snd item))) ` set (single_items items)"
    "ds_unique_items s = int (length (single_items items))" "ds_total s = item_total items"
    "ds_unique_total s = item_total (single_items items)"
proof -
  have ok: "map_ok (<) (ds_unique (init_scan kind))" by (simp add: init_scan_def Let_def)
  note f = scan_counts_fold [OF ok, of items]
  have "scan_part s = scan_part (fold (\<lambda>item. scan_counts (snd item)) items (init_scan kind))"
    by (rule scan_items_part [OF assms refl])
  then show "map_ok (<) (ds_unique s)" "fst ` set (ds_unique s) = (\<lambda>item. fst (hd (snd item))) ` set (single_items items)"
    "ds_unique_items s = int (length (single_items items))" "ds_total s = item_total items"
    "ds_unique_total s = item_total (single_items items)"
    using f by (simp_all add: scan_part_def init_scan_def Let_def)
qed

text \<open>The fit of a line returns when every item has a value.\<close>

definition items_filled :: "items_value_count \<Rightarrow> bool" where
  "items_filled items = (\<forall>item \<in> set items. snd item \<noteq> [])"

lemma first_value_filled: "items_filled items \<Longrightarrow> e \<in> set items \<Longrightarrow> \<exists>v. first_value (snd e) = Inr v"
  by (auto simp: items_filled_def first_value_def split: list.splits)

lemma ffold_returns: "(\<And>e s. e \<in> set xs \<Longrightarrow> \<exists>t. f e s = Inr t) \<Longrightarrow> \<exists>t. ffold f xs s = Inr t"
proof (induction xs arbitrary: s)
  case (Cons x xs)
  then obtain t where "f x s = Inr t" by (meson list.set_intros(1))
  moreover have "\<exists>u. ffold f xs t = Inr u" by (rule Cons.IH) (rule Cons.prems, simp)
  ultimately show ?case by simp
qed simp

lemma fbind_returns: "\<exists>a. x = Inr a \<Longrightarrow> (\<And>a. \<exists>b. f a = Inr b) \<Longrightarrow> \<exists>b. fbind x f = Inr b"
  by auto

lemma average_returns:
  assumes "items_filled items"
  shows "\<exists>a. average_value kind items = Inr a"
proof -
  have "\<exists>t. ffold (\<lambda>e sum. fbind (first_value (snd e)) (\<lambda>v. Inr (sum + v))) items (0 :: u64) = Inr t"
    by (rule ffold_returns) (use first_value_filled [OF assms] in fastforce)
  moreover have "\<exists>t. float_sum kind items = Inr t" unfolding float_sum_def
    by (rule ffold_returns) (use first_value_filled [OF assms] in fastforce)
  ultimately show ?thesis by (auto simp: average_value_def Let_def)
qed

lemma structured_returns:
  assumes "items_filled items"
  shows "\<exists>l. detect_structured_pattern kind n items = Inr l"
proof -
  obtain a where a: "average_value kind items = Inr a" using average_returns [OF assms] by blast
  have "\<exists>p. line_sums x y items = Inr p" for x y
    unfolding line_sums_def by (rule ffold_returns) (use first_value_filled [OF assms] in \<open>fastforce simp: Let_def\<close>)
  moreover have "\<exists>p. line_errors k b items = Inr p" for k b
    unfolding line_errors_def by (rule ffold_returns) (use first_value_filled [OF assms] in \<open>fastforce simp: Let_def\<close>)
  ultimately show ?thesis
    unfolding detect_structured_pattern_def Let_def a fbind_Inr
    by (auto intro!: fbind_returns split: prod.splits)
qed

text \<open>The least numbers of zero bits of all values of an array.\<close>

definition zero_counts :: "nat \<Rightarrow> u64 \<Rightarrow> int \<times> int \<times> int" where
  "zero_counts u a =
     (let i = lead_index (push_bit (u - 1) 1) u (push_bit 1 a)
      in (int u - 1 - i, if bit a (u - 1) then 0 else int u - i, tail_index u a))"

definition int_kind :: "nat \<Rightarrow> access_kind \<Rightarrow> bool" where
  "int_kind u kind = (data_type kind = REDSHOW_DATA_INT \<and> unit_size kind = of_nat u \<and> 8 \<le> u \<and> u \<le> 32)"

lemma int_kind_zeros: "int_kind u kind \<Longrightarrow> get_redundant_zeros_bits a kind = Inr (zero_counts u a)"
  using get_redundant_zeros_bits_small [of kind u a] by (simp add: int_kind_def zero_counts_def Let_def)

text \<open>A bound that all of them have: \<open>f\<close> picks one of the three.\<close>

definition picks :: "(int \<times> int \<times> int \<Rightarrow> int) set" where
  "picks = {fst, \<lambda>t. fst (snd t), \<lambda>t. snd (snd t)}"

lemma scan_int_returns:
  assumes "int_kind u kind"
  shows "\<exists>t. scan_int kind counts s = Inr t
    \<and> (\<forall>f \<in> picks. \<forall>m. m \<le> f t \<longleftrightarrow> m \<le> f s \<and> (\<forall>e \<in> set counts. m \<le> f (zero_counts u (fst e))))"
proof (induction counts arbitrary: s)
  case Nil
  then show ?case by (simp add: scan_int_def)
next
  case (Cons e counts)
  obtain a b c where s: "s = (a, b, c)" by (cases s)
  obtain x y z where z: "zero_counts u (fst e) = (x, y, z)" by (cases "zero_counts u (fst e)")
  obtain t where t: "scan_int kind counts (min a x, min b y, min c z) = Inr t"
    "\<forall>f \<in> picks. \<forall>m. m \<le> f t \<longleftrightarrow> m \<le> f (min a x, min b y, min c z) \<and> (\<forall>e \<in> set counts. m \<le> f (zero_counts u (fst e)))"
    using Cons.IH [of "(min a x, min b y, min c z)"] by blast
  have "scan_int kind (e # counts) s = Inr t"
    using t(1) int_kind_zeros [OF assms, of "fst e"] by (simp add: scan_int_def s z)
  moreover have "\<forall>f \<in> picks. \<forall>m. m \<le> f (min a x, min b y, min c z) \<longleftrightarrow> m \<le> f s \<and> m \<le> f (zero_counts u (fst e))"
    by (auto simp: picks_def s z)
  ultimately show ?case using t(2) by auto
qed

definition array_values :: "items_value_count \<Rightarrow> u64 set" where
  "array_values items = (\<Union>item \<in> set items. fst ` set (snd item))"

lemma scan_zero_bits: "ds_zero_bits (scan_counts counts s) = ds_zero_bits s"
  by (simp add: scan_counts_closed)

lemma int_scan_returns:
  assumes "int_kind u kind"
  shows "\<exists>s'. ffold (scan_item kind) items s = Inr s'
    \<and> (\<forall>f \<in> picks. \<forall>m. m \<le> f (ds_zero_bits s') \<longleftrightarrow> m \<le> f (ds_zero_bits s) \<and> (\<forall>v \<in> array_values items. m \<le> f (zero_counts u v)))"
proof (induction items arbitrary: s)
  case Nil
  then show ?case by (simp add: array_values_def)
next
  case (Cons item items)
  obtain t where t: "scan_int kind (snd item) (ds_zero_bits s) = Inr t"
    "\<forall>f \<in> picks. \<forall>m. m \<le> f t \<longleftrightarrow> m \<le> f (ds_zero_bits s) \<and> (\<forall>e \<in> set (snd item). m \<le> f (zero_counts u (fst e)))"
    using scan_int_returns [OF assms] by blast
  let ?s = "scan_counts (snd item) (s\<lparr>ds_zero_bits := t\<rparr>)"
  have i: "scan_item kind item s = Inr ?s"
    using t(1) assms by (simp add: scan_item_def scan_types_def int_kind_def)
  obtain s' where s': "ffold (scan_item kind) items ?s = Inr s'"
    "\<forall>f \<in> picks. \<forall>m. m \<le> f (ds_zero_bits s') \<longleftrightarrow> m \<le> f (ds_zero_bits ?s) \<and> (\<forall>v \<in> array_values items. m \<le> f (zero_counts u v))"
    using Cons.IH [of ?s] by blast
  have z: "ds_zero_bits ?s = t" by (simp add: scan_zero_bits)
  have v: "array_values (item # items) = fst ` set (snd item) \<union> array_values items" by (simp add: array_values_def)
  have "ffold (scan_item kind) (item # items) s = Inr s'" using i s'(1) by simp
  moreover have "\<forall>f \<in> picks. \<forall>m. m \<le> f (ds_zero_bits s') \<longleftrightarrow> m \<le> f (ds_zero_bits s) \<and> (\<forall>v \<in> array_values (item # items). m \<le> f (zero_counts u v))"
    using s'(2) t(2) unfolding z v by auto
  ultimately show ?case by blast
qed

text \<open>An integer array with a narrower type: the least numbers as bounds on all values.\<close>

lemma int_zero_bits:
  assumes "int_kind u kind" "\<forall>v \<in> array_values items. unat v < 2 ^ u" "ffold (scan_item kind) items (init_scan kind) = Inr s"
    and "0 < w" "w \<le> u" "ds_zero_bits s = (a, b, c)"
  shows "int u - int w \<le> a \<longleftrightarrow> (\<forall>v \<in> array_values items. unat v mod 2 ^ (u - 1) < 2 ^ (w - 1))"
    "int u - int w \<le> b \<longleftrightarrow> (\<forall>v \<in> array_values items. unat v < 2 ^ w)"
    "int u - int w \<le> c \<longleftrightarrow> (\<forall>v \<in> array_values items. 2 ^ (u - w) dvd unat v)"
    "a \<le> int u" "b \<le> int u" "c \<le> int u"
proof -
  have k: "unit_size kind = of_nat u" "8 \<le> u" "u \<le> 32" using assms(1) by (simp_all add: int_kind_def)
  have u: "unat (unit_size kind) = u" using k by (simp add: unsigned_of_nat take_bit_nat_eq_self)
  have p: "\<forall>f \<in> picks. \<forall>m. m \<le> f (a, b, c) \<longleftrightarrow> m \<le> f (int u, int u, int u) \<and> (\<forall>v \<in> array_values items. m \<le> f (zero_counts u v))"
    using int_scan_returns [OF assms(1), of items "init_scan kind"] assms(3,6) by (simp only: init_scan_def Let_def u) auto
  have q: "\<And>m. m \<le> a \<longleftrightarrow> m \<le> int u \<and> (\<forall>v \<in> array_values items. m \<le> fst (zero_counts u v))"
    "\<And>m. m \<le> b \<longleftrightarrow> m \<le> int u \<and> (\<forall>v \<in> array_values items. m \<le> fst (snd (zero_counts u v)))"
    "\<And>m. m \<le> c \<longleftrightarrow> m \<le> int u \<and> (\<forall>v \<in> array_values items. m \<le> snd (snd (zero_counts u v)))"
    using p by (simp_all add: picks_def)
  show "a \<le> int u" "b \<le> int u" "c \<le> int u" using q(1) [of a] q(2) [of b] q(3) [of c] by simp_all
  have z: "int u - int w \<le> fst (zero_counts u v) \<longleftrightarrow> unat v mod 2 ^ (u - 1) < 2 ^ (w - 1)"
    "int u - int w \<le> fst (snd (zero_counts u v)) \<longleftrightarrow> unat v < 2 ^ w"
    "int u - int w \<le> snd (snd (zero_counts u v)) \<longleftrightarrow> 2 ^ (u - w) dvd unat v" if "v \<in> array_values items" for v
    using zeros_of_value [OF _ k, of v "fst (zero_counts u v)" "fst (snd (zero_counts u v))" "snd (snd (zero_counts u v))" w]
      int_kind_zeros [OF assms(1), of v] assms(2,4,5) that by simp_all
  show "int u - int w \<le> a \<longleftrightarrow> (\<forall>v \<in> array_values items. unat v mod 2 ^ (u - 1) < 2 ^ (w - 1))"
    "int u - int w \<le> b \<longleftrightarrow> (\<forall>v \<in> array_values items. unat v < 2 ^ w)"
    "int u - int w \<le> c \<longleftrightarrow> (\<forall>v \<in> array_values items. 2 ^ (u - w) dvd unat v)"
    using q [of "int u - int w"] z by auto
qed

text \<open>The pattern analysis of an integer array returns.\<close>

lemma least_width_cong: "(\<And>w. w \<in> {8, 16} \<Longrightarrow> P w = Q w) \<Longrightarrow> least_width u P = least_width u Q"
  by (simp add: least_width_def)

lemma int_overuse:
  assumes "int_kind u kind" "u \<in> {8, 16, 32}" "\<forall>v \<in> array_values items. unat v < 2 ^ u"
    and "ffold (scan_item kind) items (init_scan kind) = Inr s"
  shows "detect_type_overuse (ds_zero_bits s) kind =
    Inr (least_width u (\<lambda>w. \<forall>v \<in> array_values items. unat v mod 2 ^ (u - 1) < 2 ^ (w - 1)),
         least_width u (\<lambda>w. \<forall>v \<in> array_values items. unat v < 2 ^ w),
         least_width u (\<lambda>w. \<forall>v \<in> array_values items. 2 ^ (u - w) dvd unat v))"
proof -
  obtain a b c where z: "ds_zero_bits s = (a, b, c)" by (cases "ds_zero_bits s")
  have u: "unat (unit_size kind) = u" using assms(1) by (simp add: int_kind_def unsigned_of_nat take_bit_nat_eq_self)
  show ?thesis
  proof (cases "u = 8")
    case True
    have "int u \<notin> {64, 32, 16}" using True by simp
    then have "detect_type_overuse (ds_zero_bits s) kind = Inr (8, 8, 8)"
      using True by (simp add: detect_type_overuse_def Let_def u z)
    moreover have "\<forall>v \<in> array_values items. unat v < 2 ^ 8" using assms(3) True by simp
    ultimately show ?thesis using True by (simp add: least_width_def)
  next
    case False
    with assms(2) have uu: "u \<in> {16, 32}" by simp
    note i = int_zero_bits [OF assms(1,3,4) _ _ z]
    have w: "0 < w \<and> w \<le> u" if "w \<in> {8, 16}" for w using that uu by auto
    have "a \<le> int u" "b \<le> int u" "c \<le> int u" using i(4-6) [of 8] uu by auto
    note c = this [THEN check_zeros_bits_width [OF uu]]
    have "least_width u (\<lambda>w. int u - int w \<le> a) = least_width u (\<lambda>w. \<forall>v \<in> array_values items. unat v mod 2 ^ (u - 1) < 2 ^ (w - 1))"
      "least_width u (\<lambda>w. int u - int w \<le> b) = least_width u (\<lambda>w. \<forall>v \<in> array_values items. unat v < 2 ^ w)"
      "least_width u (\<lambda>w. int u - int w \<le> c) = least_width u (\<lambda>w. \<forall>v \<in> array_values items. 2 ^ (u - w) dvd unat v)"
      by (rule least_width_cong, rule i, use w in blast, use w in blast)+
    moreover have "int u \<in> {64, 32, 16}" using uu by auto
    ultimately show ?thesis using c by (simp only: detect_type_overuse_def Let_def u z split_conv if_True fbind_Inr)
  qed
qed

subsection \<open>Patterns of integer arrays\<close>

lemma int_not_float: "int_kind u kind \<Longrightarrow> data_type kind = REDSHOW_DATA_INT"
  by (simp add: int_kind_def)

lemma int_dense:
  assumes "int_kind u kind" "u \<in> {8, 16, 32}" "mem_len m \<noteq> 0" "items_filled items" "\<forall>v \<in> array_values items. unat v < 2 ^ u"
  obtains s r where "ffold (scan_item kind) items (init_scan kind) = Inr s"
    "dense_value_pattern srt items (ArrayPatternInfo unset kind m) = Inr r"
    "ap_narrow r = (least_width u (\<lambda>w. \<forall>v \<in> array_values items. unat v mod 2 ^ (u - 1) < 2 ^ (w - 1)),
                    least_width u (\<lambda>w. \<forall>v \<in> array_values items. unat v < 2 ^ w),
                    least_width u (\<lambda>w. \<forall>v \<in> array_values items. 2 ^ (u - w) dvd unat v))"
    "VP_TYPE_OVERUSE \<in> set (ap_patterns r) \<longleftrightarrow> ap_narrow r \<noteq> (int u, int u, int u)"
    "\<And>p. p \<in> {VP_REDUNDANT_ZEROS, VP_SINGLE_VALUE} \<Longrightarrow> p \<in> set (ap_patterns r) \<longleftrightarrow> value_pattern_of kind (length items) s = p"
proof -
  obtain s where s: "ffold (scan_item kind) items (init_scan kind) = Inr s"
    using int_scan_returns [OF assms(1)] by blast
  obtain l where l: "detect_structured_pattern kind (ds_unique_items s) items = Inr l"
    using structured_returns [OF assms(4)] by blast
  have u: "unat (unit_size kind) = u" using assms(1) by (simp add: int_kind_def unsigned_of_nat take_bit_nat_eq_self)
  then have u': "uint (unit_size kind) = int u" by (metis of_nat_unat)
  note n = int_overuse [OF assms(1,2,5) s]
  have f: "float_overuse kind vpt s = None" for vpt using assms(1) by (simp add: float_overuse_def int_kind_def)
  have vpt: "value_pattern_of kind (length items) s \<in> {VP_REDUNDANT_ZEROS, VP_SINGLE_VALUE, VP_DENSE_VALUE, VP_NO_PATTERN}"
    using assms(1) by (auto simp: value_pattern_of_def single_pattern_def int_kind_def split: list.splits)
  have m: "ap_kind (ArrayPatternInfo unset kind m) = kind" "ap_memory (ArrayPatternInfo unset kind m) = m"
    "ap_patterns (ArrayPatternInfo unset kind m) = []"
    by (simp_all add: ArrayPatternInfo_def split: prod.splits)
  let ?n = "(least_width u (\<lambda>w. \<forall>v \<in> array_values items. unat v mod 2 ^ (u - 1) < 2 ^ (w - 1)),
             least_width u (\<lambda>w. \<forall>v \<in> array_values items. unat v < 2 ^ w),
             least_width u (\<lambda>w. \<forall>v \<in> array_values items. 2 ^ (u - w) dvd unat v))"
  let ?p = "(if l \<noteq> None then [VP_STRUCTURED_PATTERN] else []) @ (if ?n \<noteq> (int u, int u, int u) then [VP_TYPE_OVERUSE] else [])"
  let ?t = "value_pattern_of kind (length items) s"
  obtain r where r: "dense_value_pattern srt items (ArrayPatternInfo unset kind m) = Inr r" "ap_narrow r = ?n"
    "ap_patterns r = (if ?p \<noteq> [] \<and> ?t = VP_NO_PATTERN then ?p else ?p @ [?t])"
    using s l n m assms(3) int_not_float [OF assms(1)]
    by (simp add: dense_value_pattern_def Let_def f u' cong: if_cong)
  have "p \<in> set (ap_patterns r) \<longleftrightarrow> ?t = p" if "p \<in> {VP_REDUNDANT_ZEROS, VP_SINGLE_VALUE}" for p
    using that unfolding r(3) by auto
  moreover have "VP_TYPE_OVERUSE \<in> set (ap_patterns r) \<longleftrightarrow> ap_narrow r \<noteq> (int u, int u, int u)"
    using vpt unfolding r(2,3) by (simp del: prod.inject) auto
  ultimately show thesis by (rule that [OF s r(1,2), rotated])
qed

text \<open>A small array, for the examples.\<close>

definition narrow_items :: items_value_count where
  "narrow_items = [(0, [(0x100, 2)]), (1, [(0x200, 1), (0x300, 1)])]"

lemma int_kind_32: "int_kind 32 (AccessKind 32 32 REDSHOW_DATA_INT)"
  by (simp add: int_kind_def AccessKind_def)

lemma value_object_len: "mem_len value_object \<noteq> 0"
  by (simp add: value_object_def Memory_object_def)

text \<open>
  C37. An array of integers of 8, 16 or 32 bits gets three widths, each the narrowest of 8, 16 and its own with: for the first, the
  values without their sign bits need at most one bit less than the width; for the second, the values read as unsigned
  numbers fit into the width; for the third, the bits that the width cuts off at the low end are 0 in every value. The report says
  that the type is too wide exactly when one of the three is below the width of the array. The first width is not the one a signed reading needs:
  the sign bit is ignored, so that \<open>0x80000001\<close> is given 8 bits. Arrays of 64-bit integers are excluded.
\<close>

theorem value_pattern_int_narrow:
  assumes "int_kind u kind" "u \<in> {8, 16, 32}" "mem_len m \<noteq> 0" "items_filled items" "\<forall>v \<in> array_values items. unat v < 2 ^ u"
  shows "\<exists>r. dense_value_pattern srt items (ArrayPatternInfo unset kind m) = Inr r
    \<and> ap_narrow r = (least_width u (\<lambda>w. \<forall>v \<in> array_values items. unat v mod 2 ^ (u - 1) < 2 ^ (w - 1)),
                     least_width u (\<lambda>w. \<forall>v \<in> array_values items. unat v < 2 ^ w),
                     least_width u (\<lambda>w. \<forall>v \<in> array_values items. 2 ^ (u - w) dvd unat v))
    \<and> (VP_TYPE_OVERUSE \<in> set (ap_patterns r) \<longleftrightarrow> ap_narrow r \<noteq> (int u, int u, int u))"
  by (rule int_dense [OF assms, where srt = srt and unset = unset]) blast

theorem value_pattern_int_narrow_witness:
  "\<exists>r. dense_value_pattern id narrow_items (ArrayPatternInfo (0, 0, 0, ieee_zero, ieee_zero, ieee_zero) (AccessKind 32 32 REDSHOW_DATA_INT) value_object) = Inr r
    \<and> ap_narrow r = (16, 16, 32) \<and> VP_TYPE_OVERUSE \<in> set (ap_patterns r)
   \<and> (\<exists>r. dense_value_pattern id [(0, [(0x80000001, 1)])] (ArrayPatternInfo (0, 0, 0, ieee_zero, ieee_zero, ieee_zero) (AccessKind 32 32 REDSHOW_DATA_INT) value_object) = Inr r
        \<and> ap_narrow r = (8, 32, 32))"
proof -
  have i: "items_filled narrow_items" by (simp add: items_filled_def narrow_items_def)
  have v: "array_values narrow_items = {0x100, 0x200, 0x300}" by (auto simp: array_values_def narrow_items_def)
  have b: "\<forall>v \<in> array_values narrow_items. unat v < 2 ^ 32" unfolding v by simp
  let ?i = "[(0, [(0x80000001, 1)])] :: items_value_count"
  have i': "items_filled ?i" by (simp add: items_filled_def)
  have v': "array_values ?i = {0x80000001}" by (auto simp: array_values_def)
  have b': "\<forall>v \<in> array_values ?i. unat v < 2 ^ 32" unfolding v' by simp
  have "\<exists>r. dense_value_pattern id ?i (ArrayPatternInfo (0, 0, 0, ieee_zero, ieee_zero, ieee_zero) (AccessKind 32 32 REDSHOW_DATA_INT) value_object) = Inr r
      \<and> ap_narrow r = (8, 32, 32)"
    using value_pattern_int_narrow [OF int_kind_32 _ value_object_len i' b', of id "(0, 0, 0, ieee_zero, ieee_zero, ieee_zero)"]
    unfolding v' by (auto simp: least_width_def)
  then show ?thesis
    using value_pattern_int_narrow [OF int_kind_32 _ value_object_len i b, of id "(0, 0, 0, ieee_zero, ieee_zero, ieee_zero)"]
    unfolding v by (auto simp: least_width_def)
qed

text \<open>The counts of an array: every item has values, each with its own positive count, and the sum of all is a 64-bit number.\<close>

definition items_counted :: "items_value_count \<Rightarrow> bool" where
  "items_counted items =
     ((\<forall>item \<in> set items. snd item \<noteq> [] \<and> map_ok (<) (snd item) \<and> (\<forall>e \<in> set (snd item). snd e \<noteq> 0))
      \<and> sum_list (map (\<lambda>item. sum_list (map (unat \<circ> snd) (snd item))) items) < 2 ^ 64)"

definition counted :: "items_value_count \<Rightarrow> nat" where
  "counted items = sum_list (map (\<lambda>item. sum_list (map (unat \<circ> snd) (snd item))) items)"

lemma of_nat_counts: "(of_nat (sum_list (map (unat \<circ> snd) xs)) :: u64) = sum_list (map snd xs)"
  by (induction xs) simp_all

lemma of_nat_counted: "of_nat (counted items) = item_total items"
  by (induction items) (simp_all add: counted_def item_total_def of_nat_counts [unfolded comp_def] comp_def)

lemma counted_single:
  assumes "\<forall>item \<in> set items. snd item \<noteq> [] \<and> (\<forall>e \<in> set (snd item). snd e \<noteq> 0)"
  shows "counted (single_items items) \<le> counted items \<and> (counted (single_items items) = counted items \<longleftrightarrow> single_items items = items)"
  using assms
proof (induction items)
  case Nil
  then show ?case by (simp add: single_items_def counted_def)
next
  case (Cons item items)
  have pos: "0 < sum_list (map (unat \<circ> snd) (snd item))"
  proof -
    obtain e es where e: "snd item = e # es" using Cons.prems by (cases "snd item") auto
    then have "snd e \<noteq> 0" using Cons.prems by simp
    then have "0 < unat (snd e)" by (simp add: unat_gt_0)
    then show ?thesis by (simp add: e)
  qed
  have len: "length (single_items xs) \<le> length xs" for xs by (simp add: single_items_def)
  have "single_items items \<noteq> item # items"
    using len [of items] by (metis impossible_Cons)
  then show ?case using Cons.IH Cons.prems pos by (auto simp: single_items_def counted_def)
qed

lemma single_total:
  assumes "items_counted items"
  shows "item_total items = item_total (single_items items) \<longleftrightarrow> single_items items = items"
proof -
  have c: "counted (single_items items) \<le> counted items" "counted (single_items items) = counted items \<longleftrightarrow> single_items items = items"
    "counted items < 2 ^ 64"
    using assms counted_single [of items] by (auto simp: items_counted_def counted_def)
  then have "unat (of_nat (counted items) :: u64) = counted items"
    "unat (of_nat (counted (single_items items)) :: u64) = counted (single_items items)"
    by (simp_all add: unsigned_of_nat take_bit_nat_eq_self)
  then show ?thesis using c(2) by (metis of_nat_counted)
qed

lemma single_items_values:
  assumes "single_items items = items"
  shows "array_values items = (\<lambda>item. fst (hd (snd item))) ` set items"
proof -
  have l: "length (snd item) = 1" if "item \<in> set items" for item
    using assms that unfolding single_items_def filter_id_conv by blast
  have "fst ` set (snd item) = {fst (hd (snd item))}" if "item \<in> set items" for item
    using l [OF that] by (cases "snd item") auto
  then show ?thesis by (auto simp: array_values_def)
qed

lemma u64_keys_distinct: "map_ok (<) (m :: (u64, 'v) omap) \<Longrightarrow> distinct (map fst m)"
  by (induction m) (auto simp: map_ok_Cons)

lemma one_value_items:
  assumes "items_counted items" "array_values items = {v}"
  shows "single_items items = items"
proof -
  have "length (snd item) = 1" if i: "item \<in> set items" for item
  proof -
    have s: "fst ` set (snd item) \<subseteq> {v}" using assms(2) i by (auto simp: array_values_def)
    have d: "snd item \<noteq> []" "map_ok (<) (snd item)" using assms(1) i by (auto simp: items_counted_def)
    have "distinct (map fst (snd item))" using d(2) by (rule u64_keys_distinct)
    then have "length (snd item) = card (fst ` set (snd item))" by (metis distinct_card length_map set_map)
    also have "\<dots> \<le> 1" using card_mono [OF _ s] by simp
    finally show ?thesis using d(1) by (cases "snd item") auto
  qed
  then show ?thesis by (simp add: single_items_def)
qed

lemma one_unique:
  assumes "ffold (scan_item kind) items (init_scan kind) = Inr s" "items_counted items"
  shows "(\<exists>n. ds_unique s = [(v, n)]) \<and> ds_total s = ds_unique_total s \<longleftrightarrow> array_values items = {v}"
proof -
  note r = scan_result [OF assms(1)]
  have keys: "fst ` set (ds_unique s) = array_values items" if "single_items items = items"
    using r(2) single_items_values [OF that] that by simp
  have one: "(\<exists>n. ds_unique s = [(v, n)]) \<longleftrightarrow> fst ` set (ds_unique s) = {v}"
  proof
    assume k: "fst ` set (ds_unique s) = {v}"
    have "length (ds_unique s) = card (fst ` set (ds_unique s))"
      by (metis distinct_card length_map set_map u64_keys_distinct [OF r(1)])
    then have "length (ds_unique s) = 1" using k by simp
    then show "\<exists>n. ds_unique s = [(v, n)]" using k by (cases "ds_unique s") auto
  qed auto
  have "ds_total s = ds_unique_total s \<longleftrightarrow> single_items items = items"
    using r(4,5) single_total [OF assms(2)] by simp
  then show ?thesis using one keys one_value_items [OF assms(2), of v] by auto
qed

text \<open>
  C38. The pattern of an array of integers of 8, 16 or 32 bits is a single value exactly when all its items only ever hold the same
  value, which is not 0, and it is redundant zeros exactly when the value is 0. For arrays of 64-bit integers the analysis is undefined.
\<close>

theorem value_pattern_single_value:
  assumes "int_kind u kind" "u \<in> {8, 16, 32}" "mem_len m \<noteq> 0" "\<forall>v \<in> array_values items. unat v < 2 ^ u" "items_counted items"
  shows "\<exists>r. dense_value_pattern srt items (ArrayPatternInfo unset kind m) = Inr r
    \<and> (VP_REDUNDANT_ZEROS \<in> set (ap_patterns r) \<longleftrightarrow> array_values items = {0})
    \<and> (VP_SINGLE_VALUE \<in> set (ap_patterns r) \<longleftrightarrow> (\<exists>v. v \<noteq> 0 \<and> array_values items = {v}))"
proof -
  have f: "items_filled items" using assms(5) by (simp add: items_counted_def items_filled_def)
  obtain s r where s: "ffold (scan_item kind) items (init_scan kind) = Inr s"
    and r: "dense_value_pattern srt items (ArrayPatternInfo unset kind m) = Inr r"
    and p: "\<And>p. p \<in> {VP_REDUNDANT_ZEROS, VP_SINGLE_VALUE} \<Longrightarrow> p \<in> set (ap_patterns r) \<longleftrightarrow> value_pattern_of kind (length items) s = p"
    by (rule int_dense [OF assms(1,2,3) f assms(4), where srt = srt and unset = unset]) blast
  note one = one_unique [OF s assms(5)]
  have "value_pattern_of kind (length items) s = VP_REDUNDANT_ZEROS \<longleftrightarrow> (\<exists>n. ds_unique s = [(0, n)]) \<and> ds_total s = ds_unique_total s"
    "value_pattern_of kind (length items) s = VP_SINGLE_VALUE \<longleftrightarrow>
       (\<exists>v. v \<noteq> 0 \<and> (\<exists>n. ds_unique s = [(v, n)]) \<and> ds_total s = ds_unique_total s)"
    using assms(1) by (auto simp: value_pattern_of_def single_pattern_def int_kind_def split: list.splits)
  then show ?thesis using r p one by auto
qed

theorem value_pattern_single_value_witness:
  "\<exists>r. dense_value_pattern id [(0, [(5, 2)]), (4, [(5, 1)])] (ArrayPatternInfo (0, 0, 0, ieee_zero, ieee_zero, ieee_zero) (AccessKind 32 32 REDSHOW_DATA_INT) value_object) = Inr r
    \<and> VP_SINGLE_VALUE \<in> set (ap_patterns r)"
proof -
  let ?i = "[(0, [(5, 2)]), (4, [(5, 1)])] :: items_value_count"
  have i: "items_counted ?i" by (simp add: items_counted_def map_ok_def)
  have v: "array_values ?i = {5}" by (auto simp: array_values_def)
  have b: "\<forall>v \<in> array_values ?i. unat v < 2 ^ 32" unfolding v by simp
  show ?thesis
    using value_pattern_single_value [OF int_kind_32 _ value_object_len b i, of id "(0, 0, 0, ieee_zero, ieee_zero, ieee_zero)"]
    unfolding v by auto
qed

text \<open>
  C39. The analysis of an array of 64-bit integers with a value is undefined: it shifts a 32-bit number by 63.
\<close>

theorem value_pattern_int64_undefined:
  assumes "data_type kind = REDSHOW_DATA_INT" "unit_size kind = 64" "mem_len m \<noteq> 0" "items = item # rest" "snd item \<noteq> []"
  shows "dense_value_pattern srt items (ArrayPatternInfo unset kind m) = Inl Overflow"
proof -
  obtain e es where e: "snd item = e # es" using assms(5) by (cases "snd item") auto
  have "get_redundant_zeros_bits (fst e) kind = Inl Overflow" by (simp add: get_redundant_zeros_bits_def assms(2))
  then have "scan_item kind item s = Inl Overflow" for s
    using assms(1) by (simp add: scan_item_def scan_types_def scan_int_def e split_def)
  then show ?thesis
    using assms(3,4) by (simp add: dense_value_pattern_def Let_def ArrayPatternInfo_def split_def)
qed

theorem value_pattern_int64_undefined_witness:
  "dense_value_pattern id [(0, [(5, 2)])] (ArrayPatternInfo (0, 0, 0, ieee_zero, ieee_zero, ieee_zero) (AccessKind 64 64 REDSHOW_DATA_INT) value_object) = Inl Overflow"
  by (rule value_pattern_int64_undefined [OF _ _ value_object_len refl]) (simp_all add: AccessKind_def)

end
