(* ===== verification/Spec2Isabelle.thy ===== *)
theory Spec2Isabelle
  imports Program Memory_Heatmap Liveness_Graph Array_Patterns
begin

text \<open>
  \<^bold>\<open>TenProf: the analysis library redshow\<close>

  TenProf profiles GPU programs. Patched kernels write buffers of memory accesses (\<^verbatim>\<open>include/gpu-patch.h\<close>); the
  profiler passes them, and every allocation, copy, fill and kernel launch, to the library \<^verbatim>\<open>redshow\<close>, which
  resolves the accesses and drives analyses that look for redundant values, data flow and memory inefficiencies. This
  development models that library: what it keeps, what its calls do, and why the reports are right.

  \<^bold>\<open>Parts and theories.\<close> Paths are below \<^verbatim>\<open>redshow/\<close>.

  \<^item> \<open>Prelude\<close>, \<open>Containers\<close>: faults as values of \<open>outcome\<close>, loops that may fault, and the ordered containers of
    \<^verbatim>\<open>include/common/map.h\<close> and \<^verbatim>\<open>set.h\<close> as sorted association lists. The locale \<open>strict_total\<close> states what a
    comparison must satisfy, and is interpreted for every key type of the program.
  \<^item> \<open>Graphs\<close>: \<^verbatim>\<open>include/common/graph.h\<close> and \<^verbatim>\<open>path.h\<close>. The locale \<open>graph_keys\<close> gives the consistency of
    edges and incidence sets.
  \<^item> \<open>Operations\<close>, \<open>Host_Memory\<close>: the operations of \<^verbatim>\<open>include/operation\<close>, and the byte loops over the
    shadow copies of device memory (\<^verbatim>\<open>memcpy.cpp\<close>, \<^verbatim>\<open>memset.cpp\<close>, \<^verbatim>\<open>utils.cpp\<close>).
  \<^item> \<open>Range_Sets\<close>: sets of address ranges, as \<^verbatim>\<open>DataFlow::merge_memory_range\<close> and the memory profile keep them, against
    the sets of bytes they stand for.
  \<^item> \<open>Memory_Snapshot\<close>: the live objects at every operation (\<^verbatim>\<open>src/redshow.cpp\<close>), a refinement of the history of
    allocations, and the pruning of old snapshots.
  \<^item> \<open>Doubles\<close>, \<open>Values\<close>: floating-point rounding, and the values of accesses as the analyses compare and print them.
  \<^item> \<open>Sha256\<close>: \<^verbatim>\<open>src/common/hash.cpp\<close> against the specification of the hash function.
  \<^item> \<open>Instructions\<close>, \<open>Symbols\<close>, \<open>Cubins\<close>: \<^verbatim>\<open>src/binutils\<close>: the dependence graph with access kinds, the attribution of
    program counters, and the registry of modules.
  \<^item> \<open>Data_Flow\<close>: \<^verbatim>\<open>src/analysis/data_flow.cpp\<close>.
  \<^item> \<open>Redundancy\<close>, \<open>Temporal\<close>, \<open>Spatial\<close>: \<^verbatim>\<open>src/analysis/temporal_redundancy.cpp\<close> and \<^verbatim>\<open>spatial_redundancy.cpp\<close>. The locales
    \<open>counters\<close> and \<open>min_queue\<close> are the contracts of the nested counters and of the bounded queue of largest views.
  \<^item> \<open>Memory_Profile\<close>: \<^verbatim>\<open>src/analysis/memory_profile.cpp\<close>, the bytes of every object that no kernel has accessed.
  \<^item> \<open>Memory_Heatmap\<close>: \<^verbatim>\<open>src/analysis/memory_heatmap.cpp\<close>, the number of accesses of every unit of an object.
  \<^item> \<open>Dependency_Graph\<close>, \<open>Memory_Liveness\<close>, \<open>Liveness_Reports\<close>, \<open>Liveness_Graph\<close>:
    \<^verbatim>\<open>src/analysis/memory_liveness.cpp\<close> with the class \<^verbatim>\<open>DependencyGraph\<close> of its header: the operations on every object, the
    graph of the dependencies between operations, all reports, and the invariant of runs that makes the graph acyclic.
  \<^item> \<open>Floating\<close>, \<open>Value_Pattern\<close>, \<open>Array_Patterns\<close>: \<^verbatim>\<open>src/analysis/value_pattern.cpp\<close>, the values of every unit of an
    object and their patterns, with the arithmetic of \<^verbatim>\<open>float\<close> and \<^verbatim>\<open>double\<close>; \<^verbatim>\<open>std::sort\<close> and fields nobody sets are
    parameters.
  \<^item> \<open>Trace\<close>: \<^verbatim>\<open>trace_analyze\<close> and its variants in \<^verbatim>\<open>src/redshow.cpp\<close>.
  \<^item> \<open>Redshow\<close>, \<open>Analyses\<close>, \<open>Program\<close>: the functions of \<^verbatim>\<open>include/redshow.h\<close> on the global state, the state machine that
    calls drive, and the analyses as tables of methods. The locales \<open>analysis_family\<close> and \<open>fine_analysis\<close> are the
    contracts between the interface and its analyses; both are interpreted on the tables of the program.

  \<^bold>\<open>How the code is represented.\<close> Structs are records, enumerations datatypes, machine integers words of their width;
  context ids, which are never near the limits of their type, are \<open>int\<close>. An assertion that fails, a null or dangling
  access, \<^verbatim>\<open>at\<close> of a missing key or a division by zero is a value \<open>Inl\<close> of type \<open>outcome\<close>. Assertions are enabled.
  Every function that holds a lock is one atomic step. The pointer \<^verbatim>\<open>_trace\<close> of an analysis is local to an analysis
  thread; the model is that of one such thread. Code outside the repository is a parameter: files and property trees
  in \<open>cubin_files\<close>, the function that copies from the device in \<open>dtoh_func\<close>, addresses of new buffers as arguments.

  \<^bold>\<open>What is shown.\<close> The snapshots give, for every operation id, the objects that the allocations and frees up to
  it leave; pruning keeps every answer that can still be asked. Range sets cover exactly the bytes that were accessed. The
  counters of the redundancy analyses are the numbers of redundant accesses of the access history, and reports name the
  largest. The hash is SHA-256 for messages below the size where the code truncates the length. The data-flow graph stays
  consistent, gets the metrics of each operation on the right edge, and is dumped completely; duplicates are exactly the
  contexts that share a hash. The dependence graph of the instructions has
  exactly the edges of the sources that count. The search for access kinds ends on every graph that is read from a file, with kinds
  for all memory instructions or, on an incomplete graph only, with an exception. A buffer of complete records makes exactly the
  callbacks of its records up to the first that stops the loop; every access that is reported lies in an object of the snapshot or in
  local or shared memory. Merged regions are cut into contiguous pieces of objects. Every state that calls can reach is well formed and typed.
  In such a state, with no analysis enabled but the redundancy analyses, every outcome of analysing complete records of a known
  module is determined, and the counters of the temporal redundancy are those of the history of the buffer. A kernel takes exactly the bytes
  it accessed out of the unused bytes of the memory profile. The cells of the heatmap count accesses as long as they have one unit
  size; a later access writes past them just when its last unit lies beyond the cells of the first unit size. The dependency graph of a run is acyclic when ids ascend and no copy stays within one object, and then, and only then,
  the report of its layers ends. The value patterns count the accesses of every value; an integer array of at most 32 bits gets
  the narrowest widths for its values without the sign bit, as unsigned numbers and without low zero bits, and is a single value exactly
  when it holds one; arrays of 64-bit integers have no defined report.

  \<^bold>\<open>Loops and fuel.\<close> Loops over containers are structural recursion or folds. The loop over a merged region has a
  termination proof by the distance to the end of the address space. The search for access kinds follows edges with fuel, the
  number of nodes of the graph, and is proved never to run out on any graph that is read from an instruction file.

  \<^bold>\<open>Not modelled.\<close> The device code (\<^verbatim>\<open>src/*.cu\<close>, \<^verbatim>\<open>include/gpu-queue.h\<close>) depends on warp intrinsics and block-wide
  primitives; the host sees only the buffers. The torch view analysis and the torch-monitor library are glue to PyTorch
  and CPython; the frames that libunwind and torch-monitor report are arguments of the memory liveness analysis. The memory heatmap
  and the memory liveness analysis get the trace buffer itself at the begin of a kernel, and the report of the latter may not end, so
  they stand beside the table of methods of \<open>Program\<close>, as do the value patterns, whose accesses read the global approximation
  settings; the table has every other modelled analysis. The analyses that the table does not
  name are objects of the class \<^verbatim>\<open>OtherState\<close>, with an arbitrary table of methods. The data dependency analysis is a copy of
  the data flow analysis under another name. The text of the dot file of the data flow, of PRINT messages and OpenMP variants of loops are left out.
\<close>

end
